(* ===== verification/Prelude.thy ===== *)
theory Prelude
  imports Complex_Main "HOL-Library.Word" "HOL-Library.Multiset" "HOL-Library.AList"
begin

unbundle bit_operations_syntax

text \<open>
  The prelude of the development: the machine integers of Go under their own names, the lemma
  collections the components share, positional number representations (a list of digits and
  the number it denotes), which carry every proof about packed bits, bytes and base-64 text,
  and a few facts on lists that several components need.
\<close>

type_synonym u8 = "8 word"
type_synonym u16 = "16 word"
type_synonym u32 = "32 word"
type_synonym u64 = "64 word"

named_theorems go_simps \<open>unfolding the primitive operations of the Go model\<close>
named_theorems radix_simps \<open>positional numbers and their digits\<close>

section \<open>Positional numbers\<close>

text \<open>The number whose base-\<open>b\<close> digits, least significant first, are \<open>xs\<close>.\<close>

primrec radix :: "nat \<Rightarrow> nat list \<Rightarrow> nat" where
  "radix b [] = 0"
| "radix b (x # xs) = x + b * radix b xs"

text \<open>The \<open>n\<close> lowest base-\<open>b\<close> digits of \<open>v\<close>, least significant first.\<close>

primrec digits :: "nat \<Rightarrow> nat \<Rightarrow> nat \<Rightarrow> nat list" where
  "digits b 0 v = []"
| "digits b (Suc n) v = v mod b # digits b n (v div b)"

lemma length_digits [simp]: "length (digits b n v) = n"
  by (induction n arbitrary: v) auto

lemma digits_zero [simp]: "digits b n 0 = replicate n 0"
  by (induction n) auto

lemma nth_digits [radix_simps]: "i < n \<Longrightarrow> digits b n v ! i = v div b ^ i mod b"
proof (induction n arbitrary: v i)
  case (Suc n)
  then show ?case by (cases i) (auto simp: div_mult2_eq mult.commute)
qed simp

lemma digits_less: "0 < b \<Longrightarrow> x \<in> set (digits b n v) \<Longrightarrow> x < b"
  by (induction n arbitrary: v) auto

lemma radix_append [radix_simps]: "radix b (xs @ ys) = radix b xs + b ^ length xs * radix b ys"
  by (induction xs) (simp_all add: algebra_simps)

lemma radix_less: "(\<forall>x \<in> set xs. x < b) \<Longrightarrow> radix b xs < b ^ length xs"
proof (induction xs)
  case (Cons x xs)
  then have "radix b xs + 1 \<le> b ^ length xs" and "x < b" by simp_all
  then have "b * (radix b xs + 1) \<le> b * b ^ length xs" by (meson mult_le_mono2)
  with \<open>x < b\<close> show ?case by (simp add: algebra_simps)
qed simp

lemma digits_radix [radix_simps]:
  "(\<forall>x \<in> set xs. x < b) \<Longrightarrow> digits b (length xs) (radix b xs) = xs"
  by (induction xs) auto

lemma radix_digits [radix_simps]: "radix b (digits b n v) = v mod b ^ n"
proof (induction n arbitrary: v)
  case (Suc n)
  then show ?case by (simp add: mod_mult2_eq mult.commute)
qed simp

lemma digits_add: "digits b (m + n) v = digits b m v @ digits b n (v div b ^ m)"
  by (induction m arbitrary: v) (simp_all add: div_mult2_eq)

lemma digits_mod [simp]: "digits b n (v mod b ^ n) = digits b n v"
proof (induction n arbitrary: v)
  case (Suc n)
  have "v mod (b * b ^ n) div b = v div b mod b ^ n"
    by (cases "b = 0") (simp_all add: mod_mult2_eq)
  then show ?case using Suc by (simp add: mod_mod_cancel)
qed simp

section \<open>Lists of known length\<close>

lemma length_numeral:
  "length xs = numeral v \<longleftrightarrow> (\<exists>y ys. xs = y # ys \<and> length ys = pred_numeral v)"
  by (simp add: numeral_eq_Suc length_Suc_conv)

lemma length_less_numeral:
  "length xs < numeral v \<longleftrightarrow> xs = [] \<or> (\<exists>y ys. xs = y # ys \<and> length ys < pred_numeral v)"
  by (cases xs) (simp_all add: numeral_eq_Suc)

end
