(* ===== verification/GoLib.thy ===== *)
theory GoLib
  imports Prelude "HOL-Library.Monad_Syntax"
begin

text \<open>
  The parts of the Go language and of its standard library that the modelled code uses.
  A run-time panic is the value \<open>None\<close>: a function whose code can panic returns an
  \<open>option\<close>, and its successful result is under \<open>Some\<close>. A Go \<open>error\<close> return is a sum,
  \<open>Inl\<close> the error and \<open>Inr\<close> the results. A byte slice is a list of \<^typ>\<open>u8\<close>; a slice that
  is written through is passed in and returned.
\<close>

section \<open>Slices\<close>

text \<open>\<open>xs[i]\<close>\<close>

definition idx :: "'a list \<Rightarrow> nat \<Rightarrow> 'a option" where
  "idx xs i = (if i < length xs then Some (xs ! i) else None)"

text \<open>\<open>xs[n:]\<close> and \<open>xs[:n]\<close>\<close>

definition slice_from :: "'a list \<Rightarrow> nat \<Rightarrow> 'a list option" where
  "slice_from xs n = (if n \<le> length xs then Some (drop n xs) else None)"

definition slice_to :: "'a list \<Rightarrow> nat \<Rightarrow> 'a list option" where
  "slice_to xs n = (if n \<le> length xs then Some (take n xs) else None)"

text \<open>\<open>xs[i] = v\<close>\<close>

definition put :: "'a list \<Rightarrow> nat \<Rightarrow> 'a \<Rightarrow> 'a list option" where
  "put xs i v = (if i < length xs then Some (xs[i := v]) else None)"

text \<open>
  \<open>d := dst[n : n+k : len(dst)]; d[0] = ..; ..; d[k-1] = ..; n += k\<close>: the bounds check of the
  slice expression, the \<open>k\<close> writes, and the new write position.
\<close>

definition store :: "'a list \<Rightarrow> nat \<Rightarrow> 'a list \<Rightarrow> ('a list \<times> nat) option" where
  "store dst n vs =
     (if n + length vs \<le> length dst
      then Some (take n dst @ vs @ drop (n + length vs) dst, n + length vs) else None)"

lemma idx_Some [go_simps]: "i < length xs \<Longrightarrow> idx xs i = Some (xs ! i)"
  by (simp add: idx_def)

lemma idx_eq_Some_iff: "idx xs i = Some x \<longleftrightarrow> i < length xs \<and> xs ! i = x"
  by (auto simp: idx_def)

lemma slice_from_Some [go_simps]: "n \<le> length xs \<Longrightarrow> slice_from xs n = Some (drop n xs)"
  by (simp add: slice_from_def)

lemma slice_to_Some [go_simps]: "n \<le> length xs \<Longrightarrow> slice_to xs n = Some (take n xs)"
  by (simp add: slice_to_def)

lemma put_Some [go_simps]: "i < length xs \<Longrightarrow> put xs i v = Some (xs[i := v])"
  by (simp add: put_def)

lemma store_Nil [simp]: "n \<le> length dst \<Longrightarrow> store dst n [] = Some (dst, n)"
  by (simp add: store_def)

lemma store_length:
  "store dst n vs = Some (dst', n') \<Longrightarrow> length dst' = length dst \<and> n' = n + length vs \<and> n' \<le> length dst"
  by (auto simp: store_def split: if_splits)

lemma store_append:
  "store dst n (us @ vs) = Option.bind (store dst n us) (\<lambda>(dst', n'). store dst' n' vs)"
  by (auto simp: store_def drop_append add.assoc add.commute [of "length vs"])

text \<open>A write that fills a fresh buffer.\<close>

lemma store_full: "length vs = length dst \<Longrightarrow> store dst 0 vs = Some (vs, length vs)"
  by (simp add: store_def)

end
