(* ===== verification/GoStrings.thy ===== *)
theory GoStrings
  imports GoLib
begin

text \<open>
  The parts of the Go packages \<open>strings\<close> and \<open>strconv\<close> the modelled code uses. A Go string is
  the list of its bytes, as characters. Parsing fails with one of the two errors of \<open>strconv\<close>.
\<close>

section \<open>Package \<open>strings\<close>\<close>

text \<open>\<open>strings.Split\<close> by a one-byte separator\<close>

fun split_on :: "char \<Rightarrow> string \<Rightarrow> string list" where
  "split_on c [] = [[]]"
| "split_on c (x # xs) =
     (if x = c then [] # split_on c xs
      else case split_on c xs of [] \<Rightarrow> [[x]] | w # ws \<Rightarrow> (x # w) # ws)"

text \<open>\<open>strings.Join\<close> by a one-byte separator\<close>

fun join_with :: "char \<Rightarrow> string list \<Rightarrow> string" where
  "join_with c [] = []"
| "join_with c [w] = w"
| "join_with c (w # v # ws) = w @ c # join_with c (v # ws)"

fun has_prefix :: "string \<Rightarrow> string \<Rightarrow> bool" where
  "has_prefix s [] = True"
| "has_prefix [] (p # ps) = False"
| "has_prefix (x # s) (p # ps) = (x = p \<and> has_prefix s ps)"

definition has_suffix :: "string \<Rightarrow> string \<Rightarrow> bool" where
  "has_suffix s p = has_prefix (rev s) (rev p)"

definition trim_prefix :: "string \<Rightarrow> string \<Rightarrow> string" where
  "trim_prefix s p = (if has_prefix s p then drop (length p) s else s)"

text \<open>\<open>strings.TrimLeft\<close>, \<open>TrimRight\<close> and \<open>Trim\<close> with a cutset\<close>

definition trim_left :: "string \<Rightarrow> string \<Rightarrow> string" where
  "trim_left s cutset = dropWhile (\<lambda>c. c \<in> set cutset) s"

definition trim_right :: "string \<Rightarrow> string \<Rightarrow> string" where
  "trim_right s cutset = rev (dropWhile (\<lambda>c. c \<in> set cutset) (rev s))"

definition trim :: "string \<Rightarrow> string \<Rightarrow> string" where
  "trim s cutset = trim_right (trim_left s cutset) cutset"

section \<open>Package \<open>strconv\<close>\<close>

datatype num_error = ErrSyntax | ErrRange

definition digit_value :: "char \<Rightarrow> nat option" where
  "digit_value c = (if 48 \<le> (of_char c :: nat) \<and> (of_char c :: nat) \<le> 57 then Some (of_char c - 48) else None)"

definition digit_char :: "nat \<Rightarrow> char" where
  "digit_char d = char_of (48 + d)"

text \<open>The loop of \<open>strconv.ParseUint\<close> in base 10: the value so far, then the digits left.\<close>

fun parse_digits :: "nat \<Rightarrow> nat \<Rightarrow> string \<Rightarrow> num_error + nat" where
  "parse_digits maxVal n [] = Inr n"
| "parse_digits maxVal n (c # s) =
     (case digit_value c of
        None \<Rightarrow> Inl ErrSyntax
      | Some d \<Rightarrow> if 10 * n + d > maxVal then Inl ErrRange else parse_digits maxVal (10 * n + d) s)"

text \<open>\<open>strconv.ParseUint(s, 10, bits)\<close> and \<open>strconv.ParseInt(s, 10, bits)\<close>\<close>

definition parse_uint :: "nat \<Rightarrow> string \<Rightarrow> num_error + nat" where
  "parse_uint bits s = (if s = [] then Inl ErrSyntax else parse_digits (2 ^ bits - 1) 0 s)"

definition parse_int :: "nat \<Rightarrow> string \<Rightarrow> num_error + int" where
  "parse_int bits s =
     (case s of
        [] \<Rightarrow> Inl ErrSyntax
      | c # s' \<Rightarrow>
          let neg = (c = CHR ''-'');
              digits = (if c = CHR ''-'' \<or> c = CHR ''+'' then s' else s);
              cutoff = 2 ^ (bits - 1)
          in case parse_uint bits digits of
               Inl e \<Rightarrow> Inl e
             | Inr un \<Rightarrow>
                 if \<not> neg \<and> un \<ge> cutoff then Inl ErrRange
                 else if neg \<and> un > cutoff then Inl ErrRange
                 else Inr (if neg then - int un else int un))"

text \<open>\<open>strconv.FormatInt(i, 10)\<close> and the unsigned digits\<close>

fun format_uint :: "nat \<Rightarrow> string" where
  "format_uint n = (if n < 10 then [digit_char n] else format_uint (n div 10) @ [digit_char (n mod 10)])"

declare format_uint.simps [simp del]

definition format_int :: "int \<Rightarrow> string" where
  "format_int i = (if i < 0 then CHR ''-'' # format_uint (nat (- i)) else format_uint (nat i))"

section \<open>Splitting and joining\<close>

lemma split_on_not_Nil [simp]: "split_on c s \<noteq> []"
  by (induction s) (auto split: list.splits)

lemma split_on_word: "c \<notin> set w \<Longrightarrow> split_on c w = [w]"
  by (induction w) auto

lemma split_on_append: "c \<notin> set w \<Longrightarrow> split_on c (w @ c # s) = w # split_on c s"
  by (induction w) auto

lemma split_on_join:
  "ws \<noteq> [] \<Longrightarrow> \<forall>w \<in> set ws. c \<notin> set w \<Longrightarrow> split_on c (join_with c ws) = ws"
  by (induction c ws rule: join_with.induct) (auto simp: split_on_word split_on_append)

lemma join_split_on: "join_with c (split_on c s) = s"
proof (induction s)
  case (Cons x xs)
  obtain w ws where ws: "split_on c xs = w # ws" by (cases "split_on c xs") auto
  show ?case
  proof (cases "x = c")
    case True
    then show ?thesis using Cons ws by simp
  next
    case False
    have "join_with c ((x # w) # ws) = x # join_with c (w # ws)" by (cases ws) auto
    then show ?thesis using Cons False ws by simp
  qed
qed simp

lemma has_prefix_append [simp]: "has_prefix (p @ s) p"
  by (induction p) auto

lemma has_prefix_take: "has_prefix s p \<longleftrightarrow> take (length p) s = p"
  by (induction s p rule: has_prefix.induct) auto

lemma trim_prefix_append [simp]: "trim_prefix (p @ s) p = s"
  by (simp add: trim_prefix_def)

lemma trim_right_append: "\<forall>c \<in> set t. c \<in> set cutset \<Longrightarrow> s = [] \<or> last s \<notin> set cutset \<Longrightarrow> trim_right (s @ t) cutset = s"
proof -
  assume t: "\<forall>c \<in> set t. c \<in> set cutset" and s: "s = [] \<or> last s \<notin> set cutset"
  have "dropWhile (\<lambda>c. c \<in> set cutset) (rev t @ rev s) = dropWhile (\<lambda>c. c \<in> set cutset) (rev s)"
    using t by (intro dropWhile_append2) simp
  also have "\<dots> = rev s" using s by (cases s rule: rev_cases) auto
  finally show ?thesis by (simp add: trim_right_def)
qed

section \<open>Parsing inverts formatting\<close>

lemma digit_value_char [simp]: "d < 10 \<Longrightarrow> digit_value (digit_char d) = Some d"
  by (simp add: digit_value_def digit_char_def)

lemma digit_value_eq_Some: "digit_value c = Some d \<longleftrightarrow> d < 10 \<and> c = digit_char d"
proof
  assume "digit_value c = Some d"
  then have *: "48 \<le> (of_char c :: nat)" "(of_char c :: nat) \<le> 57" "d = of_char c - 48"
    by (auto simp: digit_value_def split: if_splits)
  then have "48 + d = of_char c" "d < 10" by simp_all
  then show "d < 10 \<and> c = digit_char d" by (simp add: digit_char_def)
qed simp

lemma parse_digits_append:
  "parse_digits m n (s @ t) = (case parse_digits m n s of Inl e \<Rightarrow> Inl e | Inr k \<Rightarrow> parse_digits m k t)"
  by (induction m n s rule: parse_digits.induct) (auto split: option.splits)

lemma parse_digits_format: "n \<le> m \<Longrightarrow> parse_digits m 0 (format_uint n) = Inr n"
proof (induction n rule: format_uint.induct)
  case (1 n)
  show ?case
  proof (cases "n < 10")
    case True
    then show ?thesis using 1(2) by (subst format_uint.simps) simp
  next
    case False
    have "n div 10 \<le> m" using 1(2) by (meson div_le_dividend le_trans)
    then show ?thesis
      using 1 False mult_div_mod_eq [of 10 n] by (subst format_uint.simps) (simp add: parse_digits_append)
  qed
qed

lemma format_uint_digits: "c \<in> set (format_uint n) \<Longrightarrow> \<exists>d < 10. c = digit_char d"
proof (induction n rule: format_uint.induct)
  case (1 n)
  have "n mod 10 < 10" by simp
  with 1 show ?case by (subst (asm) (2) format_uint.simps) (auto split: if_splits simp del: mod_less_divisor)
qed

lemma format_uint_not_Nil [simp]: "format_uint n \<noteq> []"
  by (subst format_uint.simps) simp

lemma digit_char_not: "d < 10 \<Longrightarrow> digit_char d = c \<Longrightarrow> 48 \<le> (of_char c :: nat) \<and> (of_char c :: nat) \<le> 57"
  by (auto simp: digit_char_def)

lemma format_uint_chars: "c \<in> set (format_uint n) \<Longrightarrow> 48 \<le> (of_char c :: nat) \<and> (of_char c :: nat) \<le> 57"
  using format_uint_digits digit_char_not by blast

lemma parse_uint_format: "n < 2 ^ bits \<Longrightarrow> parse_uint bits (format_uint n) = Inr n"
  by (simp add: parse_uint_def parse_digits_format)

lemma parse_int_format:
  assumes "- (2 ^ (bits - 1)) \<le> i" "i < 2 ^ (bits - 1)" "0 < bits"
  shows "parse_int bits (format_int i) = Inr i"
proof -
  have pow: "(2 :: nat) ^ (bits - 1) < 2 ^ bits" using assms(3) by simp
  have nb: "nat i < 2 ^ (bits - 1)" if "0 \<le> i" using that assms(2) by (simp add: nat_less_iff)
  have nn: "nat (- i) \<le> 2 ^ (bits - 1)" using assms(1) by (simp add: nat_le_iff)
  show ?thesis
  proof (cases "i < 0")
    case True
    have "parse_uint bits (format_uint (nat (- i))) = Inr (nat (- i))"
      using le_less_trans [OF nn pow] by (rule parse_uint_format)
    with True nn show ?thesis by (simp add: format_int_def parse_int_def)
  next
    case False
    obtain c s where cs: "format_uint (nat i) = c # s" by (cases "format_uint (nat i)") auto
    have "48 \<le> (of_char c :: nat)" using format_uint_chars [of c "nat i"] cs by simp
    then have "c \<noteq> CHR ''-''" "c \<noteq> CHR ''+''" by auto
    moreover have "parse_uint bits (c # s) = Inr (nat i)"
      using parse_uint_format [of "nat i" bits, OF less_trans [OF nb pow]] False by (simp add: cs)
    ultimately show ?thesis using False nb by (simp add: format_int_def parse_int_def cs)
  qed
qed

lemma parse_int_range:
  assumes "parse_int bits s = Inr i"
  shows "- (2 ^ (bits - 1)) \<le> i \<and> i < 2 ^ (bits - 1)"
proof -
  obtain un where un: "i = int un \<and> un < 2 ^ (bits - 1) \<or> i = - int un \<and> un \<le> 2 ^ (bits - 1)"
    using assms unfolding parse_int_def Let_def
    by (fastforce simp: not_le not_less split: list.splits sum.splits if_splits)
  then have "int un < int (2 ^ (bits - 1)) \<or> i = - int un \<and> int un \<le> int (2 ^ (bits - 1))"
    by (auto simp only: of_nat_less_iff of_nat_le_iff)
  moreover have "(0 :: int) < 2 ^ (bits - 1)" by simp
  moreover have "int (2 ^ (bits - 1)) = 2 ^ (bits - 1)" by simp
  ultimately show ?thesis using un by linarith
qed

lemma format_int_chars:
  "c \<in> set (format_int i) \<Longrightarrow> c = CHR ''-'' \<or> 48 \<le> (of_char c :: nat) \<and> (of_char c :: nat) \<le> 57"
  using format_uint_chars by (auto simp: format_int_def split: if_splits)

lemma format_int_not_Nil [simp]: "format_int i \<noteq> []"
  by (simp add: format_int_def)

lemma parse_digits_le: "parse_digits m n s = Inr k \<Longrightarrow> n \<le> m \<Longrightarrow> k \<le> m"
  by (induction m n s rule: parse_digits.induct) (auto split: option.splits if_splits)

lemma parse_uint_less: "parse_uint bits s = Inr k \<Longrightarrow> k < 2 ^ bits"
  using parse_digits_le [of "2 ^ bits - 1" 0 s k] by (auto simp: parse_uint_def Suc_le_eq less_Suc_eq_le split: if_splits)
    (metis One_nat_def le_imp_less_Suc Suc_pred pos2 zero_less_power)

end
