(* ===== verification/Vfs.thy ===== *)
theory Vfs
  imports GoStrings
begin

text \<open>
  \<open>util/vfs\<close>: the errors of \<open>filesystem.go\<close>, the directory in memory of \<open>mem.go\<close> and the atomic
  \<open>WriteFile\<close> of \<open>util.go\<close>. Everything the code shares by pointer lives in one state: the \<open>memFile\<close>
  objects (\<open>cells\<close>), the map of names to them (an association list, whose order is the order of a
  Go map's iteration), and the objects handed out for reading and writing. An object is the index
  it was allocated at. The mutexes make every operation one step. \<open>None\<close> is a panic.
\<close>

section \<open>Errors\<close>

datatype vfs_error =
  ErrNotExist | ErrExist | ErrInvalid | ErrEOF | ErrLocked | ErrCommitted
| PathError string string vfs_error
| Wrap string vfs_error
| OtherErr string

text \<open>\<open>errors.Cause\<close> of the package \<open>pkg/errors\<close> looks into what \<open>errors.Wrap\<close> built, not into a
  \<open>*os.PathError\<close>; \<open>os.IsNotExist\<close> and \<open>os.IsExist\<close> do the opposite.\<close>

fun errors_Cause :: "vfs_error \<Rightarrow> vfs_error" where
  "errors_Cause (Wrap m e) = errors_Cause e"
| "errors_Cause e = e"

fun underlyingError :: "vfs_error \<Rightarrow> vfs_error" where
  "underlyingError (PathError oper path e) = e"
| "underlyingError e = e"

definition IsNotExist :: "vfs_error option \<Rightarrow> bool" where
  "IsNotExist err = (case err of None \<Rightarrow> False | Some e \<Rightarrow> underlyingError e = ErrNotExist)"

definition IsExist :: "vfs_error option \<Rightarrow> bool" where
  "IsExist err = (case err of None \<Rightarrow> False | Some e \<Rightarrow> underlyingError e = ErrExist)"

definition IsLocked :: "vfs_error option \<Rightarrow> bool" where
  "IsLocked err = (case err of None \<Rightarrow> False | Some e \<Rightarrow> errors_Cause e = ErrLocked)"

section \<open>The directory in memory\<close>

record memInputFile =
  in_file :: nat
  in_pos :: u64

text \<open>\<open>onCommit\<close> puts the file under the name once, and returns \<open>errCommitted\<close> from then on.\<close>

record memAtomicOutputFile =
  a_file :: nat
  a_name :: string
  a_committed :: bool

record memFS =
  cells :: "u8 list list"
  files :: "(string \<times> nat) list"
  outputs :: "nat list"
  atomics :: "memAtomicOutputFile list"
  inputs :: "memInputFile list"

record memFileInfo =
  info_name :: string
  info_size :: int

definition CreateMemDir :: memFS where
  "CreateMemDir = \<lparr> cells = [], files = [], outputs = [], atomics = [], inputs = [] \<rparr>"

definition Mem_Path :: string where "Mem_Path = '':memory:''"

definition Mem_Lock :: "string \<Rightarrow> memFS \<Rightarrow> (vfs_error + string) \<times> memFS" where
  "Mem_Lock name fs =
     (if map_of (files fs) name \<noteq> None then (Inl ErrLocked, fs)
      else (Inr name, fs\<lparr> cells := cells fs @ [[]], files := AList.update name (length (cells fs)) (files fs) \<rparr>))"

definition Mem_Rename :: "string \<Rightarrow> string \<Rightarrow> memFS \<Rightarrow> vfs_error option \<times> memFS" where
  "Mem_Rename oldname newname fs =
     (case map_of (files fs) oldname of
        None \<Rightarrow> (Some (PathError ''rename'' oldname ErrNotExist), fs)
      | Some file \<Rightarrow> (None, fs\<lparr> files := AList.update newname file (AList.delete oldname (files fs)) \<rparr>))"

definition Mem_Remove :: "string \<Rightarrow> memFS \<Rightarrow> vfs_error option \<times> memFS" where
  "Mem_Remove name fs =
     (case map_of (files fs) name of
        None \<Rightarrow> (Some (PathError ''remove'' name ErrNotExist), fs)
      | Some file \<Rightarrow> (None, fs\<lparr> files := AList.delete name (files fs) \<rparr>))"

definition MemLock_Close :: "string \<Rightarrow> memFS \<Rightarrow> vfs_error option \<times> memFS" where
  "MemLock_Close name fs = Mem_Remove name fs"

definition Mem_ReadDir :: "memFS \<Rightarrow> memFileInfo list" where
  "Mem_ReadDir fs = map (\<lambda>(name, file). \<lparr> info_name = name, info_size = 0 \<rparr>) (files fs)"

definition Info_Size :: "memFileInfo \<Rightarrow> int" where "Info_Size info = -1"

definition Mem_OpenFile :: "string \<Rightarrow> memFS \<Rightarrow> (vfs_error + nat) \<times> memFS" where
  "Mem_OpenFile name fs =
     (case map_of (files fs) name of
        None \<Rightarrow> (Inl (PathError ''open'' name ErrNotExist), fs)
      | Some file \<Rightarrow> (Inr (length (inputs fs)), fs\<lparr> inputs := inputs fs @ [\<lparr> in_file = file, in_pos = 0 \<rparr>] \<rparr>))"

definition MemFile_Reset :: "nat \<Rightarrow> memFS \<Rightarrow> memFS" where
  "MemFile_Reset file fs = fs\<lparr> cells := (cells fs)[file := []] \<rparr>"

definition Mem_CreateFile :: "string \<Rightarrow> bool \<Rightarrow> memFS \<Rightarrow> (vfs_error + nat) \<times> memFS" where
  "Mem_CreateFile name overwrite fs =
     (case map_of (files fs) name of
        Some file \<Rightarrow>
          if \<not> overwrite then (Inl (PathError ''create'' name ErrExist), fs)
          else let fs = MemFile_Reset file fs in
            (Inr (length (outputs fs)), fs\<lparr> outputs := outputs fs @ [file] \<rparr>)
      | None \<Rightarrow>
          let file = length (cells fs) in
            (Inr (length (outputs fs)), fs\<lparr> cells := cells fs @ [[]],
               files := AList.update name file (files fs), outputs := outputs fs @ [file] \<rparr>))"

definition Mem_CreateAtomicFile :: "string \<Rightarrow> memFS \<Rightarrow> (vfs_error + nat) \<times> memFS" where
  "Mem_CreateAtomicFile name fs =
     (Inr (length (atomics fs)), fs\<lparr> cells := cells fs @ [[]],
        atomics := atomics fs @ [\<lparr> a_file = length (cells fs), a_name = name, a_committed = False \<rparr>] \<rparr>)"

text \<open>The files handed out; the first argument of an operation is the object.\<close>

definition append_cell :: "nat \<Rightarrow> u8 list \<Rightarrow> memFS \<Rightarrow> memFS" where
  "append_cell file data fs = fs\<lparr> cells := (cells fs)[file := cells fs ! file @ data] \<rparr>"

definition Out_Write :: "nat \<Rightarrow> u8 list \<Rightarrow> memFS \<Rightarrow> (nat \<times> vfs_error option) \<times> memFS" where
  "Out_Write f data fs = ((length data, None), append_cell (outputs fs ! f) data fs)"

definition Atomic_Write :: "nat \<Rightarrow> u8 list \<Rightarrow> memFS \<Rightarrow> (nat \<times> vfs_error option) \<times> memFS" where
  "Atomic_Write f data fs = ((length data, None), append_cell (a_file (atomics fs ! f)) data fs)"

definition Out_Sync :: "nat \<Rightarrow> memFS \<Rightarrow> vfs_error option \<times> memFS" where
  "Out_Sync f fs = (None, fs)"

definition Out_Close :: "nat \<Rightarrow> memFS \<Rightarrow> vfs_error option \<times> memFS" where
  "Out_Close f fs = (None, fs)"

definition Atomic_Commit :: "nat \<Rightarrow> memFS \<Rightarrow> vfs_error option \<times> memFS" where
  "Atomic_Commit f fs =
     (let a = atomics fs ! f in
      if a_committed a then (Some ErrCommitted, fs)
      else (None, fs\<lparr> files := AList.update (a_name a) (a_file a) (files fs),
                      atomics := (atomics fs)[f := a\<lparr> a_committed := True \<rparr>] \<rparr>))"

text \<open>\<open>copy\<close>: the destination afterwards and the number of elements copied\<close>

definition copy_slice :: "'a list \<Rightarrow> 'a list \<Rightarrow> 'a list \<times> nat" where
  "copy_slice dst src = (take (length dst) src @ drop (length src) dst, min (length dst) (length src))"

definition in_data :: "memFS \<Rightarrow> nat \<Rightarrow> u8 list" where
  "in_data fs f = cells fs ! in_file (inputs fs ! f)"

definition set_pos :: "nat \<Rightarrow> u64 \<Rightarrow> memFS \<Rightarrow> memFS" where
  "set_pos f p fs = fs\<lparr> inputs := (inputs fs)[f := (inputs fs ! f)\<lparr> in_pos := p \<rparr>] \<rparr>"

definition In_Read :: "nat \<Rightarrow> u8 list \<Rightarrow> memFS \<Rightarrow> ((u8 list \<times> nat \<times> vfs_error option) \<times> memFS) option" where
  "In_Read f buf fs =
     (let data = in_data fs f; p = in_pos (inputs fs ! f) in
      if sint p \<ge> int (length data) then Some ((buf, 0, Some ErrEOF), fs)
      else if sint p < 0 then None
      else let (buf, n) = copy_slice buf (drop (nat (sint p)) data) in
        Some ((buf, n, None), set_pos f (p + of_nat n) fs))"

definition In_ReadAt :: "nat \<Rightarrow> u8 list \<Rightarrow> u64 \<Rightarrow> memFS \<Rightarrow> (u8 list \<times> nat \<times> vfs_error option) option" where
  "In_ReadAt f buf p fs =
     (let data = in_data fs f in
      if sint p \<ge> int (length data) then Some (buf, 0, Some ErrEOF)
      else if sint p < 0 then None
      else let (buf', n) = copy_slice buf (drop (nat (sint p)) data) in
        if n < length buf then Some (buf', n, Some ErrEOF) else Some (buf', n, None))"

text \<open>\<open>io.SeekStart\<close>, \<open>io.SeekCurrent\<close> and \<open>io.SeekEnd\<close> are 0, 1 and 2.\<close>

definition In_Seek :: "nat \<Rightarrow> u64 \<Rightarrow> int \<Rightarrow> memFS \<Rightarrow> (u64 \<times> vfs_error option) \<times> memFS" where
  "In_Seek f offset whence fs =
     (let p = (if whence = 1 then Some (in_pos (inputs fs ! f) + offset)
               else if whence = 0 then Some offset
               else if whence = 2 then Some (of_nat (length (in_data fs f)) + offset)
               else None)
      in case p of
           None \<Rightarrow> ((0, Some ErrInvalid), fs)
         | Some p \<Rightarrow> if p <s 0 then ((0, Some ErrInvalid), fs) else ((p, None), set_pos f p fs))"

definition In_Size :: "nat \<Rightarrow> memFS \<Rightarrow> int" where
  "In_Size f fs = int (length (in_data fs f))"

definition In_Close :: "nat \<Rightarrow> memFS \<Rightarrow> vfs_error option \<times> memFS" where
  "In_Close f fs = (None, fs)"

section \<open>\<open>WriteFile\<close>\<close>

text \<open>
  What \<open>WriteFile\<close> uses of a \<open>FileSystem\<close> and of the \<open>AtomicOutputFile\<close> it creates. The function
  it is given can only write to the file, and see what each write returned, so it is a tree.
\<close>

record ('s, 'h) atomic_ops =
  fs_CreateAtomicFile :: "string \<Rightarrow> 's \<Rightarrow> (vfs_error + 'h) \<times> 's"
  fs_Write :: "'h \<Rightarrow> u8 list \<Rightarrow> 's \<Rightarrow> (nat \<times> vfs_error option) \<times> 's"
  fs_Commit :: "'h \<Rightarrow> 's \<Rightarrow> vfs_error option \<times> 's"
  fs_Close :: "'h \<Rightarrow> 's \<Rightarrow> vfs_error option \<times> 's"

datatype write_fn = Ret "vfs_error option" | Emit "u8 list" "nat \<times> vfs_error option \<Rightarrow> write_fn"

primrec run_write_fn :: "write_fn \<Rightarrow> (u8 list \<Rightarrow> 's \<Rightarrow> (nat \<times> vfs_error option) \<times> 's) \<Rightarrow> 's \<Rightarrow> vfs_error option \<times> 's" where
  "run_write_fn (Ret e) W s = (e, s)"
| "run_write_fn (Emit data k) W s = (let (r, s) = W data s in run_write_fn (k r) W s)"

definition WriteFile :: "('s, 'h) atomic_ops \<Rightarrow> string \<Rightarrow> write_fn \<Rightarrow> 's \<Rightarrow> vfs_error option \<times> 's" where
  "WriteFile FS name write_it s =
     (case fs_CreateAtomicFile FS name s of
        (Inl err, s) \<Rightarrow> (Some (Wrap ''create failed'' err), s)
      | (Inr file, s) \<Rightarrow>
          let (r, s) =
            (case run_write_fn write_it (fs_Write FS file) s of
               (Some err, s) \<Rightarrow> (Some (Wrap ''write failed'' err), s)
             | (None, s) \<Rightarrow>
                 (case fs_Commit FS file s of
                    (Some err, s) \<Rightarrow> (Some (Wrap ''commit failed'' err), s)
                  | (None, s) \<Rightarrow> (None, s)))
          in (r, snd (fs_Close FS file s)))"

definition mem_ops :: "(memFS, nat) atomic_ops" where
  "mem_ops = \<lparr> fs_CreateAtomicFile = Mem_CreateAtomicFile, fs_Write = Atomic_Write,
     fs_Commit = Atomic_Commit, fs_Close = Out_Close \<rparr>"

section \<open>Histories and their invariant\<close>

datatype mem_op =
  OpLock string | OpUnlock string | OpRename string string | OpRemove string
| OpOpen string | OpCreate string bool | OpCreateAtomic string
| OpWrite nat "u8 list" | OpAtomicWrite nat "u8 list" | OpCommit nat
| OpRead nat "u8 list" | OpReadAt nat "u8 list" u64 | OpSeek nat u64 int | OpSize nat | OpReadDir

text \<open>
  An operation on an object needs the object. The operations that are left out, \<open>Sync\<close> and \<open>Close\<close> of
  a file and \<open>Path\<close> and \<open>Close\<close> of the directory, return a constant.
\<close>

fun op_enabled :: "mem_op \<Rightarrow> memFS \<Rightarrow> bool" where
  "op_enabled (OpWrite f data) fs = (f < length (outputs fs))"
| "op_enabled (OpAtomicWrite f data) fs = (f < length (atomics fs))"
| "op_enabled (OpCommit f) fs = (f < length (atomics fs))"
| "op_enabled (OpRead f buf) fs = (f < length (inputs fs))"
| "op_enabled (OpReadAt f buf p) fs = (f < length (inputs fs))"
| "op_enabled (OpSeek f offset whence) fs = (f < length (inputs fs))"
| "op_enabled (OpSize f) fs = (f < length (inputs fs))"
| "op_enabled oper fs = True"

fun mem_exec :: "mem_op \<Rightarrow> memFS \<Rightarrow> memFS option" where
  "mem_exec (OpLock name) fs = Some (snd (Mem_Lock name fs))"
| "mem_exec (OpUnlock name) fs = Some (snd (MemLock_Close name fs))"
| "mem_exec (OpRename oldname newname) fs = Some (snd (Mem_Rename oldname newname fs))"
| "mem_exec (OpRemove name) fs = Some (snd (Mem_Remove name fs))"
| "mem_exec (OpOpen name) fs = Some (snd (Mem_OpenFile name fs))"
| "mem_exec (OpCreate name overwrite) fs = Some (snd (Mem_CreateFile name overwrite fs))"
| "mem_exec (OpCreateAtomic name) fs = Some (snd (Mem_CreateAtomicFile name fs))"
| "mem_exec (OpWrite f data) fs = Some (snd (Out_Write f data fs))"
| "mem_exec (OpAtomicWrite f data) fs = Some (snd (Atomic_Write f data fs))"
| "mem_exec (OpCommit f) fs = Some (snd (Atomic_Commit f fs))"
| "mem_exec (OpRead f buf) fs = map_option snd (In_Read f buf fs)"
| "mem_exec (OpReadAt f buf p) fs = map_option (\<lambda>_. fs) (In_ReadAt f buf p fs)"
| "mem_exec (OpSeek f offset whence) fs = Some (snd (In_Seek f offset whence fs))"
| "mem_exec (OpSize f) fs = (let _ = In_Size f fs in Some fs)"
| "mem_exec OpReadDir fs = (let _ = Mem_ReadDir fs in Some fs)"

text \<open>\<open>ReadAt\<close> slices the data at the offset without looking at its sign.\<close>

lemma In_ReadAt_None: "In_ReadAt f buf p fs = None \<longleftrightarrow> sint p < 0"
proof -
  have "sint p < int n" if "sint p < 0" for n using that by linarith
  then show ?thesis by (simp add: In_ReadAt_def Let_def copy_slice_def not_le)
qed

text \<open>The length of a slice is an \<open>int\<close>.\<close>

definition fits :: "memFS \<Rightarrow> bool" where
  "fits fs \<longleftrightarrow> (\<forall>c \<in> set (cells fs). length c < 2 ^ 63)"

inductive mem_reachable :: "memFS \<Rightarrow> bool" where
  mem_new: "mem_reachable CreateMemDir"
| mem_step: "mem_reachable fs \<Longrightarrow> op_enabled oper fs \<Longrightarrow> mem_exec oper fs = Some fs' \<Longrightarrow> fits fs' \<Longrightarrow> mem_reachable fs'"

text \<open>
  What is in the directory, and what a file that is not committed yet holds. The files that can be
  reached through a name, a plain output file or an input file:
\<close>

definition contents :: "memFS \<Rightarrow> string \<Rightarrow> u8 list option" where
  "contents fs name = map_option (\<lambda>file. cells fs ! file) (map_of (files fs) name)"

definition pending :: "memFS \<Rightarrow> nat \<Rightarrow> (string \<times> u8 list) option" where
  "pending fs f =
     (if f < length (atomics fs) \<and> \<not> a_committed (atomics fs ! f)
      then Some (a_name (atomics fs ! f), cells fs ! a_file (atomics fs ! f)) else None)"

definition shared :: "memFS \<Rightarrow> nat set" where
  "shared fs = snd ` set (files fs) \<union> set (outputs fs) \<union> in_file ` set (inputs fs)"

definition mem_ok :: "memFS \<Rightarrow> bool" where
  "mem_ok fs \<longleftrightarrow>
     distinct (map fst (files fs)) \<and>
     (\<forall>a \<in> shared fs. a < length (cells fs)) \<and>
     (\<forall>f < length (atomics fs). a_file (atomics fs ! f) < length (cells fs)) \<and>
     (\<forall>f < length (atomics fs). \<not> a_committed (atomics fs ! f) \<longrightarrow> a_file (atomics fs ! f) \<notin> shared fs) \<and>
     (\<forall>f < length (atomics fs). \<forall>g < length (atomics fs). \<not> a_committed (atomics fs ! f) \<longrightarrow> f \<noteq> g \<longrightarrow>
        a_file (atomics fs ! f) \<noteq> a_file (atomics fs ! g)) \<and>
     (\<forall>f < length (inputs fs). 0 \<le> sint (in_pos (inputs fs ! f)))"

lemma mem_ok_new: "mem_ok CreateMemDir"
  by (simp add: mem_ok_def CreateMemDir_def shared_def)

lemma files_update: "snd ` set (AList.update k v al) \<subseteq> insert v (snd ` set al)"
  by (induction al) auto

lemma files_delete: "snd ` set (AList.delete k al) \<subseteq> snd ` set al"
  by (auto simp: AList.delete_eq)

lemma map_of_file: "map_of (files fs) name = Some file \<Longrightarrow> file \<in> shared fs"
  by (force simp: shared_def dest: map_of_SomeD)

text \<open>Every operation replaces files by files that were shared or are new, so one lemma is enough.\<close>

lemma mem_ok_shrink:
  assumes "mem_ok fs" and "distinct (map fst (files fs'))" and "length (cells fs) \<le> length (cells fs')"
    and "shared fs' \<subseteq> shared fs \<union> {length (cells fs) ..< length (cells fs')}"
    and "atomics fs' = atomics fs"
    and "\<forall>f < length (inputs fs'). 0 \<le> sint (in_pos (inputs fs' ! f))"
  shows "mem_ok fs'"
  using assms unfolding mem_ok_def by (fastforce simp: subset_iff)

lemma shared_files:
  "shared (fs\<lparr> files := al \<rparr>) = snd ` set al \<union> set (outputs fs) \<union> in_file ` set (inputs fs)"
  by (simp add: shared_def)

lemma inputs_pos: "mem_ok fs \<Longrightarrow> f < length (inputs fs) \<Longrightarrow> 0 \<le> sint (in_pos (inputs fs ! f))"
  by (simp add: mem_ok_def)

lemma mem_ok_Lock: "mem_ok fs \<Longrightarrow> mem_ok (snd (Mem_Lock name fs))"
proof (cases "map_of (files fs) name")
  case None
  assume "mem_ok fs"
  then show ?thesis
    by (rule mem_ok_shrink)
      (use None \<open>mem_ok fs\<close> files_update [of name "length (cells fs)" "files fs"] in
        \<open>auto simp: Mem_Lock_def shared_def distinct_update mem_ok_def\<close>)
qed (simp add: Mem_Lock_def)

lemma mem_ok_Remove: "mem_ok fs \<Longrightarrow> mem_ok (snd (Mem_Remove name fs))"
proof -
  assume ok: "mem_ok fs"
  then show ?thesis
    by (rule mem_ok_shrink)
      (use ok files_delete [of name "files fs"] in
        \<open>auto simp: Mem_Remove_def shared_def distinct_delete mem_ok_def split: option.split\<close>)
qed

lemma mem_ok_Rename: "mem_ok fs \<Longrightarrow> mem_ok (snd (Mem_Rename oldname newname fs))"
proof (cases "map_of (files fs) oldname")
  case (Some a)
  assume ok: "mem_ok fs"
  have "snd ` set (AList.update newname a (AList.delete oldname (files fs))) \<subseteq> snd ` set (files fs)"
    using files_update [of newname a "AList.delete oldname (files fs)"] files_delete [of oldname "files fs"]
      map_of_SomeD [OF Some] by force
  then show ?thesis
    by (intro mem_ok_shrink [OF ok])
      (use Some ok in \<open>auto simp: Mem_Rename_def shared_def distinct_update distinct_delete mem_ok_def\<close>)
qed (simp add: Mem_Rename_def)

lemma mem_ok_OpenFile: "mem_ok fs \<Longrightarrow> mem_ok (snd (Mem_OpenFile name fs))"
proof (cases "map_of (files fs) name")
  case (Some a)
  assume ok: "mem_ok fs"
  show ?thesis
    by (intro mem_ok_shrink [OF ok])
      (use Some ok map_of_file [OF Some] in
        \<open>auto simp: Mem_OpenFile_def shared_def mem_ok_def nth_append less_Suc_eq\<close>)
qed (simp add: Mem_OpenFile_def)

lemma mem_ok_CreateFile: "mem_ok fs \<Longrightarrow> mem_ok (snd (Mem_CreateFile name overwrite fs))"
proof (cases "map_of (files fs) name")
  case (Some a)
  assume ok: "mem_ok fs"
  show ?thesis
  proof (cases overwrite)
    case True
    show ?thesis
      by (intro mem_ok_shrink [OF ok])
        (use Some True ok map_of_file [OF Some] in
          \<open>auto simp: Mem_CreateFile_def MemFile_Reset_def shared_def mem_ok_def\<close>)
  qed (use Some ok in \<open>simp add: Mem_CreateFile_def\<close>)
next
  case None
  assume ok: "mem_ok fs"
  show ?thesis
    by (intro mem_ok_shrink [OF ok])
      (use None ok files_update [of name "length (cells fs)" "files fs"] in
        \<open>auto simp: Mem_CreateFile_def shared_def distinct_update mem_ok_def Let_def\<close>)
qed

lemma mem_ok_CreateAtomicFile:
  assumes ok: "mem_ok fs"
  shows "mem_ok (snd (Mem_CreateAtomicFile name fs))"
proof -
  have "a < length (cells fs)" if "a \<in> shared fs" for a using ok that by (simp add: mem_ok_def)
  then have new: "length (cells fs) \<notin> shared fs" by blast
  have old: "a_file (atomics fs ! f) \<noteq> length (cells fs)" if "f < length (atomics fs)" for f
    using ok that by (fastforce simp: mem_ok_def)
  show ?thesis
    using ok new old unfolding mem_ok_def Mem_CreateAtomicFile_def shared_def
    by (auto simp: nth_append less_Suc_eq)
qed

lemma mem_ok_append_cell [simp]: "mem_ok (append_cell a data fs) = mem_ok fs"
  by (simp add: append_cell_def mem_ok_def shared_def)

lemma mem_ok_Commit:
  assumes ok: "mem_ok fs" and f: "f < length (atomics fs)"
  shows "mem_ok (snd (Atomic_Commit f fs))"
proof (cases "a_committed (atomics fs ! f)")
  case False
  let ?a = "atomics fs ! f"
  let ?fs = "snd (Atomic_Commit f fs)"
  have fs: "?fs = fs\<lparr> files := AList.update (a_name ?a) (a_file ?a) (files fs),
      atomics := (atomics fs)[f := ?a\<lparr> a_committed := True \<rparr>] \<rparr>"
    using False by (simp add: Atomic_Commit_def Let_def)
  have sub: "shared ?fs \<subseteq> insert (a_file ?a) (shared fs)"
    using files_update [of "a_name ?a" "a_file ?a" "files fs"] by (auto simp: fs shared_def)
  have same: "a_file (atomics ?fs ! g) = a_file (atomics fs ! g)" if "g < length (atomics fs)" for g
    using that by (cases "g = f") (simp_all add: fs)
  have com: "\<not> a_committed (atomics ?fs ! g) \<longleftrightarrow> g \<noteq> f \<and> \<not> a_committed (atomics fs ! g)" if "g < length (atomics fs)" for g
    using that f by (cases "g = f") (simp_all add: fs)
  have len: "length (atomics ?fs) = length (atomics fs)" "cells ?fs = cells fs" "inputs ?fs = inputs fs"
    "distinct (map fst (files ?fs))"
    using ok by (simp_all add: fs distinct_update mem_ok_def)
  show ?thesis
    unfolding mem_ok_def len
  proof (intro conjI allI ballI impI)
    fix a assume "a \<in> shared ?fs"
    then show "a < length (cells fs)" using sub ok f by (auto simp: mem_ok_def)
  next
    fix g assume "g < length (atomics fs)" "\<not> a_committed (atomics ?fs ! g)"
    then show "a_file (atomics ?fs ! g) \<notin> shared ?fs"
      using sub same com ok f by (auto simp: mem_ok_def subset_iff)
  qed (use ok same com len(4) in \<open>auto simp: mem_ok_def\<close>)
qed (use ok in \<open>simp add: Atomic_Commit_def\<close>)

lemma mem_ok_set_pos:
  assumes ok: "mem_ok fs" and f: "f < length (inputs fs)" and p: "0 \<le> sint p"
  shows "mem_ok (set_pos f p fs)"
proof (rule mem_ok_shrink [OF ok])
  have "map in_file (inputs (set_pos f p fs)) = map in_file (inputs fs)"
    using f by (simp add: set_pos_def map_update list_update_same_conv)
  then have *: "in_file ` set (inputs (set_pos f p fs)) = in_file ` set (inputs fs)" by (metis list.set_map)
  show "shared (set_pos f p fs) \<subseteq> shared fs \<union> {length (cells fs) ..< length (cells (set_pos f p fs))}"
    unfolding shared_def * by (auto simp: set_pos_def)
  show "\<forall>g < length (inputs (set_pos f p fs)). 0 \<le> sint (in_pos (inputs (set_pos f p fs) ! g))"
    using ok p f by (auto simp: set_pos_def mem_ok_def nth_list_update)
qed (use ok in \<open>simp_all add: set_pos_def mem_ok_def\<close>)

lemma of_nat_u64: "n < 2 ^ 63 \<Longrightarrow> sint (of_nat n :: u64) = int n"
  by (simp add: signed_of_nat signed_take_bit_int_eq_self)

lemma in_data_fits: "mem_ok fs \<Longrightarrow> fits fs \<Longrightarrow> f < length (inputs fs) \<Longrightarrow> length (in_data fs f) < 2 ^ 63"
  by (auto simp: in_data_def fits_def mem_ok_def shared_def)

text \<open>One read inside the file: the position moves to the end of what was read.\<close>

lemma advance:
  fixes p :: u64
  assumes "0 \<le> sint p" "sint p < int l" "l < 2 ^ 63" "n \<le> l - nat (sint p)"
  shows "sint (p + of_nat n) = sint p + int n"
proof -
  have "p = of_nat (nat (sint p))" using assms(1) by simp
  then have "p + of_nat n = of_nat (nat (sint p) + n)" by (metis of_nat_add)
  moreover have "nat (sint p) + n < 2 ^ 63" using assms by linarith
  ultimately have "sint (p + of_nat n) = int (nat (sint p) + n)" by (simp only: of_nat_u64)
  then show ?thesis using assms(1) by simp
qed

lemma In_Read_eq:
  assumes "mem_ok fs" "f < length (inputs fs)"
  shows "In_Read f buf fs =
    (let data = in_data fs f; p = nat (sint (in_pos (inputs fs ! f))) in
     if length data \<le> p then Some ((buf, 0, Some ErrEOF), fs)
     else let n = min (length buf) (length data - p) in
       Some ((take n (drop p data) @ drop n buf, n, None), set_pos f (in_pos (inputs fs ! f) + of_nat n) fs))"
proof -
  have p: "0 \<le> sint (in_pos (inputs fs ! f))" by (rule inputs_pos [OF assms])
  show ?thesis
    using p by (cases "length buf \<le> length (in_data fs f) - nat (sint (in_pos (inputs fs ! f)))")
      (auto simp: In_Read_def copy_slice_def Let_def nat_le_iff not_le)
qed

lemma mem_ok_Read:
  assumes ok: "mem_ok fs" and f: "f < length (inputs fs)" and fit: "fits fs"
    and r: "In_Read f buf fs = Some (r, fs')"
  shows "mem_ok fs'"
proof -
  let ?p = "in_pos (inputs fs ! f)"
  let ?l = "length (in_data fs f)"
  let ?n = "min (length buf) (?l - nat (sint ?p))"
  have p: "0 \<le> sint ?p" by (rule inputs_pos [OF ok f])
  show ?thesis
  proof (cases "?l \<le> nat (sint ?p)")
    case False
    have "sint (?p + of_nat ?n) = sint ?p + int ?n"
      by (rule advance [OF p _ in_data_fits [OF ok fit f]]) (use False p in linarith, simp)
    then have "0 \<le> sint (?p + of_nat ?n)" using p by linarith
    moreover have "fs' = set_pos f (?p + of_nat ?n) fs"
      using r False by (simp add: In_Read_eq [OF ok f] Let_def)
    ultimately show ?thesis using mem_ok_set_pos [OF ok f] by blast
  qed (use r ok in \<open>simp add: In_Read_eq [OF ok f] Let_def\<close>)
qed

lemma mem_ok_Seek: "mem_ok fs \<Longrightarrow> f < length (inputs fs) \<Longrightarrow> mem_ok (snd (In_Seek f offset whence fs))"
  by (auto simp: In_Seek_def Let_def word_sless_alt not_less intro: mem_ok_set_pos split: option.split)

lemma mem_ok_exec:
  assumes "mem_ok fs" "fits fs" "op_enabled oper fs" "mem_exec oper fs = Some fs'"
  shows "mem_ok fs'"
proof (cases oper)
  case (OpRead f buf)
  with assms mem_ok_Read show ?thesis by auto
next
  case (OpSeek f offset whence)
  with assms mem_ok_Seek [of fs f offset whence] show ?thesis by auto
next
  case (OpCommit f)
  with assms mem_ok_Commit [of fs f] show ?thesis by auto
qed (use assms mem_ok_Lock mem_ok_Remove mem_ok_Rename mem_ok_OpenFile mem_ok_CreateFile mem_ok_CreateAtomicFile in
     \<open>auto simp: Out_Write_def Atomic_Write_def MemLock_Close_def\<close>)

lemma reachable_ok: "mem_reachable fs \<Longrightarrow> mem_ok fs \<and> fits fs"
proof (induction rule: mem_reachable.induct)
  case mem_new
  then show ?case using mem_ok_new by (simp add: fits_def CreateMemDir_def)
next
  case (mem_step fs oper fs')
  then show ?case using mem_ok_exec by blast
qed

section \<open>The contract of an atomic file\<close>

text \<open>
  What \<open>filesystem.go\<close> promises of \<open>CreateAtomicFile\<close>: the file is not visible under its name until
  it is committed. \<open>dir\<close> is what the directory shows, \<open>draft\<close> the name and the bytes of a file that
  is not committed yet.
\<close>

locale atomic_files =
  fixes FS :: "('s, 'h) atomic_ops"
    and inv :: "'s \<Rightarrow> bool"
    and dir :: "'s \<Rightarrow> string \<Rightarrow> u8 list option"
    and draft :: "'s \<Rightarrow> 'h \<Rightarrow> (string \<times> u8 list) option"
  assumes create_law: "inv s \<Longrightarrow> fs_CreateAtomicFile FS name s = (r, s') \<Longrightarrow>
      inv s' \<and> dir s' = dir s \<and> (\<forall>h. r = Inr h \<longrightarrow> draft s' h = Some (name, []))"
    and write_law: "inv s \<Longrightarrow> draft s h = Some (name, bs) \<Longrightarrow> fs_Write FS h data s = ((n, e), s') \<Longrightarrow>
      inv s' \<and> dir s' = dir s \<and> (\<exists>bs'. draft s' h = Some (name, bs') \<and> (e = None \<longrightarrow> bs' = bs @ data))"
    and commit_law: "inv s \<Longrightarrow> draft s h = Some (name, bs) \<Longrightarrow> fs_Commit FS h s = (e, s') \<Longrightarrow>
      inv s' \<and> dir s' = (if e = None then (dir s)(name \<mapsto> bs) else dir s)"
    and close_law: "inv s \<Longrightarrow> fs_Close FS h s = (e, s') \<Longrightarrow> inv s' \<and> dir s' = dir s"
begin

lemma run_law:
  "inv s \<Longrightarrow> draft s h = Some (name, bs) \<Longrightarrow> run_write_fn w (fs_Write FS h) s = (e, s') \<Longrightarrow>
   inv s' \<and> dir s' = dir s \<and> (\<exists>bs'. draft s' h = Some (name, bs'))"
proof (induction w arbitrary: s bs)
  case (Emit data k)
  obtain r s1 where r: "fs_Write FS h data s = (r, s1)" by (cases "fs_Write FS h data s")
  obtain n e1 where ne: "r = (n, e1)" by (cases r)
  from write_law [OF Emit.prems(1,2) r [unfolded ne]]
  obtain bs' where "inv s1" "dir s1 = dir s" "draft s1 h = Some (name, bs')" by blast
  moreover have "run_write_fn (k r) (fs_Write FS h) s1 = (e, s')" using Emit.prems(3) r by simp
  ultimately show ?case using Emit.IH [OF rangeI [of k r], of s1 bs'] by simp
qed auto

text \<open>All or nothing: an error leaves the directory as it was, and success changes one name.\<close>

lemma WriteFile_law:
  assumes "inv s" and "WriteFile FS name w s = (e, s')"
  shows "inv s' \<and> (e = None \<longrightarrow> (\<exists>bs. dir s' = (dir s)(name \<mapsto> bs))) \<and> (e \<noteq> None \<longrightarrow> dir s' = dir s)"
proof -
  obtain r s1 where c: "fs_CreateAtomicFile FS name s = (r, s1)" by (cases "fs_CreateAtomicFile FS name s")
  note created = create_law [OF assms(1) c]
  show ?thesis
  proof (cases r)
    case (Inl err)
    with created c assms(2) show ?thesis by (auto simp: WriteFile_def)
  next
    case (Inr h)
    obtain e2 s2 where w: "run_write_fn w (fs_Write FS h) s1 = (e2, s2)"
      by (cases "run_write_fn w (fs_Write FS h) s1")
    with created Inr run_law obtain bs where wrote: "inv s2" "dir s2 = dir s" "draft s2 h = Some (name, bs)"
      by (metis (no_types, lifting))
    obtain e3 s3 where cm: "fs_Commit FS h s2 = (e3, s3)" by (cases "fs_Commit FS h s2")
    note committed = commit_law [OF wrote(1,3) cm]
    let ?s = "if e2 = None then s3 else s2"
    obtain e4 s4 where cl: "fs_Close FS h ?s = (e4, s4)" by (cases "fs_Close FS h ?s")
    have "inv ?s" using wrote committed by simp
    note closed = close_law [OF this cl]
    have res: "s' = s4" "e = None \<longleftrightarrow> e2 = None \<and> e3 = None"
      using assms(2) c Inr w cm cl by (auto simp: WriteFile_def split: option.splits)
    show ?thesis using closed committed wrote res by (auto split: if_splits)
  qed
qed

end

text \<open>An interface whose operations do not fail.\<close>

primrec emitted :: "write_fn \<Rightarrow> u8 list" where
  "emitted (Ret e) = []"
| "emitted (Emit data k) = data @ emitted (k (length data, None))"

primrec outcome :: "write_fn \<Rightarrow> vfs_error option" where
  "outcome (Ret e) = e"
| "outcome (Emit data k) = outcome (k (length data, None))"

locale reliable_files = atomic_files +
  assumes create_ok: "inv s \<Longrightarrow> \<exists>h. fst (fs_CreateAtomicFile FS name s) = Inr h"
    and write_ok: "inv s \<Longrightarrow> draft s h = Some d \<Longrightarrow> fst (fs_Write FS h data s) = (length data, None)"
    and commit_ok: "inv s \<Longrightarrow> draft s h = Some d \<Longrightarrow> fst (fs_Commit FS h s) = None"
begin

lemma run_reliable:
  "inv s \<Longrightarrow> draft s h = Some (name, bs) \<Longrightarrow> run_write_fn w (fs_Write FS h) s = (e, s') \<Longrightarrow>
   e = outcome w \<and> draft s' h = Some (name, bs @ emitted w)"
proof (induction w arbitrary: s bs)
  case (Emit data k)
  obtain r s1 where r: "fs_Write FS h data s = (r, s1)" by (cases "fs_Write FS h data s")
  with write_ok [OF Emit.prems(1,2), of data] have "r = (length data, None)" by simp
  moreover from write_law [OF Emit.prems(1,2) r [unfolded this]]
  have "inv s1" "draft s1 h = Some (name, bs @ data)" by auto
  moreover have "run_write_fn (k r) (fs_Write FS h) s1 = (e, s')" using Emit.prems(3) r by simp
  ultimately show ?case using Emit.IH [OF rangeI [of k r], of s1 "bs @ data"] by simp
qed auto

lemma WriteFile_reliable:
  assumes "inv s" and "WriteFile FS name w s = (e, s')"
  shows "e = map_option (Wrap ''write failed'') (outcome w) \<and>
    dir s' = (if outcome w = None then (dir s)(name \<mapsto> emitted w) else dir s)"
proof -
  obtain h s1 where c: "fs_CreateAtomicFile FS name s = (Inr h, s1)"
    using create_ok [OF assms(1), of name] by (cases "fs_CreateAtomicFile FS name s") auto
  from create_law [OF assms(1) c] have created: "inv s1" "dir s1 = dir s" "draft s1 h = Some (name, [])" by auto
  obtain e2 s2 where w: "run_write_fn w (fs_Write FS h) s1 = (e2, s2)"
    by (cases "run_write_fn w (fs_Write FS h) s1")
  from run_law [OF created(1,3) w] run_reliable [OF created(1,3) w] created(2)
  have wrote: "inv s2" "dir s2 = dir s" "draft s2 h = Some (name, emitted w)" "e2 = outcome w" by auto
  obtain e3 s3 where cm: "fs_Commit FS h s2 = (e3, s3)" by (cases "fs_Commit FS h s2")
  with commit_ok [OF wrote(1,3)] have e3: "e3 = None" by simp
  with commit_law [OF wrote(1,3) cm] have committed: "inv s3" "dir s3 = (dir s)(name \<mapsto> emitted w)"
    using wrote by auto
  let ?s = "if e2 = None then s3 else s2"
  obtain e4 s4 where cl: "fs_Close FS h ?s = (e4, s4)" by (cases "fs_Close FS h ?s")
  have "inv ?s" using wrote committed by simp
  note closed = close_law [OF this cl]
  have "s' = s4" "e = map_option (Wrap ''write failed'') e2"
    using assms(2) c w cm cl e3 by (auto simp: WriteFile_def split: option.splits)
  with closed wrote committed show ?thesis by simp
qed

end

section \<open>The directory in memory implements it\<close>

lemma contents_append_private:
  assumes ok: "mem_ok fs" and p: "pending fs f = Some d"
  shows "contents (append_cell (a_file (atomics fs ! f)) data fs) = contents fs"
proof
  fix name
  have "a_file (atomics fs ! f) \<notin> shared fs" using ok p by (simp add: pending_def mem_ok_def split: if_splits)
  then have "map_of (files fs) name = Some b \<Longrightarrow> b \<noteq> a_file (atomics fs ! f)" for b using map_of_file by blast
  then show "contents (append_cell (a_file (atomics fs ! f)) data fs) name = contents fs name"
    by (cases "map_of (files fs) name") (auto simp: contents_def append_cell_def)
qed

lemma pending_append:
  "pending fs f = Some (name, bs) \<Longrightarrow> mem_ok fs \<Longrightarrow>
   pending (append_cell (a_file (atomics fs ! f)) data fs) f = Some (name, bs @ data)"
  by (auto simp: pending_def append_cell_def mem_ok_def split: if_splits)

lemma file_less: "mem_ok fs \<Longrightarrow> map_of (files fs) name = Some a \<Longrightarrow> a < length (cells fs)"
  using map_of_file by (auto simp: mem_ok_def)

lemma contents_CreateAtomicFile: "mem_ok fs \<Longrightarrow> contents (snd (Mem_CreateAtomicFile name fs)) = contents fs"
proof
  fix n assume "mem_ok fs"
  then show "contents (snd (Mem_CreateAtomicFile name fs)) n = contents fs n"
    by (cases "map_of (files fs) n") (auto simp: contents_def Mem_CreateAtomicFile_def nth_append dest: file_less)
qed

lemma Atomic_Commit_pending:
  assumes "pending fs f = Some (name, bs)" and "Atomic_Commit f fs = (e, fs')"
  shows "e = None \<and> contents fs' = (contents fs)(name \<mapsto> bs)"
  using assms by (auto simp: pending_def Atomic_Commit_def Let_def contents_def fun_eq_iff update_conv split: if_splits)

interpretation mem: reliable_files mem_ops mem_ok contents pending
proof
  fix s name r s' assume "mem_ok s" "fs_CreateAtomicFile mem_ops name s = (r, s')"
  then show "mem_ok s' \<and> contents s' = contents s \<and> (\<forall>h. r = Inr h \<longrightarrow> pending s' h = Some (name, []))"
    using mem_ok_CreateAtomicFile [of s name] contents_CreateAtomicFile [of s name]
    by (auto simp: mem_ops_def) (auto simp: Mem_CreateAtomicFile_def pending_def)
next
  fix s h name bs data n e s'
  assume "mem_ok s" "pending s h = Some (name, bs)" "fs_Write mem_ops h data s = ((n, e), s')"
  then show "mem_ok s' \<and> contents s' = contents s \<and> (\<exists>bs'. pending s' h = Some (name, bs') \<and> (e = None \<longrightarrow> bs' = bs @ data))"
    by (auto simp: mem_ops_def Atomic_Write_def contents_append_private pending_append)
next
  fix s h name bs e s'
  assume a: "mem_ok s" "pending s h = Some (name, bs)" "fs_Commit mem_ops h s = (e, s')"
  then have c: "Atomic_Commit h s = (e, s')" by (simp add: mem_ops_def)
  have "h < length (atomics s)" using a(2) by (simp add: pending_def split: if_splits)
  with mem_ok_Commit [OF a(1)] c have "mem_ok s'" by (metis snd_conv)
  with Atomic_Commit_pending [OF a(2) c]
  show "mem_ok s' \<and> contents s' = (if e = None then (contents s)(name \<mapsto> bs) else contents s)" by simp
next
  fix s h d assume "mem_ok s" "pending s h = Some d"
  then show "fst (fs_Commit mem_ops h s) = None"
    by (simp add: mem_ops_def Atomic_Commit_def pending_def Let_def split: if_splits)
qed (auto simp: mem_ops_def Out_Close_def Mem_CreateAtomicFile_def Atomic_Write_def)

section \<open>What \<open>WriteFile\<close> leaves behind\<close>

lemma run_cells:
  "h < length (atomics s) \<Longrightarrow> cells s = cs @ [bs] \<Longrightarrow> a_file (atomics s ! h) = length cs \<Longrightarrow>
   run_write_fn w (Atomic_Write h) s = (outcome w, s\<lparr> cells := cs @ [bs @ emitted w] \<rparr>)"
proof (induction w arbitrary: s bs)
  case (Emit data k)
  let ?s = "s\<lparr> cells := cs @ [bs @ data] \<rparr>"
  have "Atomic_Write h data s = ((length data, None), ?s)"
    using Emit.prems by (simp add: Atomic_Write_def append_cell_def)
  then show ?case
    using Emit.IH [OF rangeI [of k "(length data, None)"], of ?s "bs @ data"] Emit.prems by simp
qed simp

lemma WriteFile_state:
  assumes "WriteFile mem_ops name w fs = (e, fs')"
  shows "cells fs' = cells fs @ [emitted w] \<and> inputs fs' = inputs fs \<and> outputs fs' = outputs fs \<and>
    files fs' = (if outcome w = None then AList.update name (length (cells fs)) (files fs) else files fs)"
proof -
  let ?h = "length (atomics fs)"
  let ?s = "snd (Mem_CreateAtomicFile name fs)"
  have "run_write_fn w (Atomic_Write ?h) ?s = (outcome w, ?s\<lparr> cells := cells fs @ [[] @ emitted w] \<rparr>)"
    by (rule run_cells) (simp_all add: Mem_CreateAtomicFile_def)
  then show ?thesis
    using assms by (auto simp: WriteFile_def mem_ops_def Mem_CreateAtomicFile_def Atomic_Commit_def
        Out_Close_def Let_def split: option.splits)
qed

text \<open>
  C16. \<open>WriteFile\<close> on a directory in memory is atomic: it succeeds if and only if the function it is
  given does, then exactly one name changes and holds everything that was written; otherwise the
  directory is as before, and the error is wrapped. No file that is open for reading changes.
\<close>

theorem WriteFile_atomic:
  assumes "mem_reachable fs" and "WriteFile mem_ops name w fs = (e, fs')"
  shows "e = map_option (Wrap ''write failed'') (outcome w) \<and>
    contents fs' = (if outcome w = None then (contents fs)(name \<mapsto> emitted w) else contents fs) \<and>
    (\<forall>f < length (inputs fs). in_data fs' f = in_data fs f)"
proof -
  have ok: "mem_ok fs" using reachable_ok [OF assms(1)] by simp
  have "in_data fs' f = in_data fs f" if "f < length (inputs fs)" for f
  proof -
    have "in_file (inputs fs ! f) \<in> shared fs" using that by (simp add: shared_def)
    with ok have "in_file (inputs fs ! f) < length (cells fs)" by (simp add: mem_ok_def)
    then show ?thesis using WriteFile_state [OF assms(2)] by (simp add: in_data_def nth_append)
  qed
  with mem.WriteFile_reliable [OF ok assms(2)] show ?thesis by blast
qed

definition hello_fn :: write_fn where
  "hello_fn = Emit [1, 2] (\<lambda>(n, e). if e = None \<and> n = 2 then Emit [3] (\<lambda>(n, e). Ret e) else Ret (Some (OtherErr ''short'')))"

definition hello_fs :: memFS where
  "hello_fs = snd (WriteFile mem_ops ''a'' hello_fn CreateMemDir)"

theorem WriteFile_atomic_witness: "contents hello_fs ''a'' = Some [1, 2, 3] \<and> contents hello_fs ''b'' = None"
proof -
  obtain e where "WriteFile mem_ops ''a'' hello_fn CreateMemDir = (e, hello_fs)"
    by (cases "WriteFile mem_ops ''a'' hello_fn CreateMemDir") (simp add: hello_fs_def)
  from WriteFile_atomic [OF mem_new this] show ?thesis
    by (simp add: hello_fn_def) (simp add: contents_def CreateMemDir_def)
qed

section \<open>Reading\<close>

text \<open>Successive reads into buffers of one's own, and what they bring together.\<close>

fun read_many :: "nat \<Rightarrow> u8 list list \<Rightarrow> memFS \<Rightarrow> (u8 list \<times> memFS) option" where
  "read_many f [] fs = Some ([], fs)"
| "read_many f (buf # bufs) fs =
     (case In_Read f buf fs of
        None \<Rightarrow> None
      | Some ((buf, n, e), fs) \<Rightarrow>
          (case read_many f bufs fs of None \<Rightarrow> None | Some (rest, fs) \<Rightarrow> Some (take n buf @ rest, fs)))"

lemma in_data_set_pos [simp]: "in_data (set_pos f p fs) f = in_data fs f"
  by (cases "f < length (inputs fs)") (simp_all add: in_data_def set_pos_def list_update_beyond)

lemma read_many_eq:
  assumes "mem_ok fs" "fits fs" "f < length (inputs fs)"
  shows "\<exists>fs'. read_many f bufs fs =
    Some (take (sum_list (map length bufs)) (drop (nat (sint (in_pos (inputs fs ! f)))) (in_data fs f)), fs')"
  using assms
proof (induction bufs arbitrary: fs)
  case (Cons buf bufs)
  let ?p = "in_pos (inputs fs ! f)"
  let ?d = "in_data fs f"
  show ?case
  proof (cases "length ?d \<le> nat (sint ?p)")
    case True
    then have "In_Read f buf fs = Some ((buf, 0, Some ErrEOF), fs)" by (simp add: In_Read_eq [OF Cons.prems(1,3)] Let_def)
    with Cons.IH [OF Cons.prems] True show ?thesis by auto
  next
    case False
    let ?n = "min (length buf) (length ?d - nat (sint ?p))"
    let ?fs = "set_pos f (?p + of_nat ?n) fs"
    have r: "In_Read f buf fs = Some ((take ?n (drop (nat (sint ?p)) ?d) @ drop ?n buf, ?n, None), ?fs)"
      using False by (simp add: In_Read_eq [OF Cons.prems(1,3)] Let_def)
    have p: "0 \<le> sint ?p" by (rule inputs_pos [OF Cons.prems(1,3)])
    have step: "sint (?p + of_nat ?n) = sint ?p + int ?n"
      by (rule advance [OF p _ in_data_fits [OF Cons.prems]]) (use False p in linarith, simp)
    have prems: "mem_ok ?fs" "fits ?fs" "f < length (inputs ?fs)"
      using mem_ok_Read [OF Cons.prems(1,3,2) r] Cons.prems by (simp_all add: fits_def set_pos_def)
    have pos: "in_pos (inputs ?fs ! f) = ?p + of_nat ?n" using Cons.prems(3) by (simp add: set_pos_def)
    have nat: "nat (sint (?p + of_nat ?n)) = nat (sint ?p) + ?n" using step p by linarith
    obtain fs' where ih: "read_many f bufs ?fs =
        Some (take (sum_list (map length bufs)) (drop (nat (sint ?p) + ?n) ?d), fs')"
      using Cons.IH [OF prems] unfolding pos nat by auto
    have "take ?n (take ?n (drop (nat (sint ?p)) ?d) @ drop ?n buf) @ take m (drop (nat (sint ?p) + ?n) ?d) =
        take (length buf + m) (drop (nat (sint ?p)) ?d)" for m
    proof -
      have n: "length (take ?n (drop (nat (sint ?p)) ?d)) = ?n" by simp
      have "take ?n (drop (nat (sint ?p)) ?d) = take (length buf) (drop (nat (sint ?p)) ?d)"
        by (cases "length buf \<le> length ?d - nat (sint ?p)") simp_all
      moreover have "take m (drop (nat (sint ?p) + ?n) ?d) = take m (drop (length buf) (drop (nat (sint ?p)) ?d))"
        by (cases "length buf \<le> length ?d - nat (sint ?p)") (simp_all add: add.commute)
      ultimately show ?thesis using n by (simp add: take_add)
    qed
    with r ih show ?thesis by simp
  qed
qed simp

text \<open>
  C30. What \<open>WriteFile\<close> wrote is read back: the name can be opened, and any reads into buffers of any
  lengths bring, together, the bytes that were written, as far as the buffers reach.
\<close>

theorem WriteFile_read_back:
  assumes "mem_reachable fs" and "WriteFile mem_ops name w fs = (None, fs1)" and "length (emitted w) < 2 ^ 63"
  shows "\<exists>f fs2 fs3. Mem_OpenFile name fs1 = (Inr f, fs2) \<and>
    read_many f bufs fs2 = Some (take (sum_list (map length bufs)) (emitted w), fs3)"
proof -
  have ok: "mem_ok fs" "fits fs" using reachable_ok [OF assms(1)] by simp_all
  have out: "outcome w = None" using mem.WriteFile_reliable [OF ok(1) assms(2)] by simp
  have ok1: "mem_ok fs1" using mem.WriteFile_law [OF ok(1) assms(2)] by simp
  note st = WriteFile_state [OF assms(2)]
  have f1: "map_of (files fs1) name = Some (length (cells fs))" using st out by (simp add: update_conv)
  let ?fs2 = "snd (Mem_OpenFile name fs1)"
  let ?f = "length (inputs fs1)"
  have open_it: "Mem_OpenFile name fs1 = (Inr ?f, ?fs2)" using f1 by (simp add: Mem_OpenFile_def)
  have "fits ?fs2" using st ok(2) assms(3) f1 by (auto simp: fits_def Mem_OpenFile_def)
  moreover have "mem_ok ?fs2" by (rule mem_ok_OpenFile [OF ok1])
  moreover have "?f < length (inputs ?fs2)" using f1 by (simp add: Mem_OpenFile_def)
  moreover have "in_data ?fs2 ?f = emitted w" "in_pos (inputs ?fs2 ! ?f) = 0"
    using f1 st by (simp_all add: in_data_def Mem_OpenFile_def)
  ultimately show ?thesis using read_many_eq [of ?fs2 ?f bufs] open_it by auto
qed

theorem WriteFile_read_back_witness:
  "\<exists>f fs2 fs3. Mem_OpenFile ''a'' hello_fs = (Inr f, fs2) \<and> read_many f [[0], [0, 0, 0]] fs2 = Some ([1, 2, 3], fs3)"
proof -
  have "fst (WriteFile mem_ops ''a'' hello_fn CreateMemDir) = None"
    by (simp add: WriteFile_def mem_ops_def hello_fn_def Mem_CreateAtomicFile_def CreateMemDir_def Atomic_Write_def
        append_cell_def Atomic_Commit_def Let_def Out_Close_def)
  then have "WriteFile mem_ops ''a'' hello_fn CreateMemDir = (None, hello_fs)"
    by (simp add: hello_fs_def prod_eq_iff)
  from WriteFile_read_back [OF mem_new this, of "[[0], [0, 0, 0]]"] show ?thesis by (simp add: hello_fn_def)
qed

section \<open>Isolation and locks\<close>

lemma pending_same:
  assumes "pending fs f = Some d" and "f < length (atomics fs) \<longrightarrow> atomics fs' ! f = atomics fs ! f"
    and "length (atomics fs) \<le> length (atomics fs')"
    and "cells fs' ! a_file (atomics fs ! f) = cells fs ! a_file (atomics fs ! f)"
  shows "pending fs' f = Some d"
  using assms by (auto simp: pending_def split: if_splits)

lemma pending_file:
  assumes "mem_ok fs" "pending fs f = Some d"
  shows "f < length (atomics fs)" "a_file (atomics fs ! f) < length (cells fs)" "a_file (atomics fs ! f) \<notin> shared fs"
    "g < length (atomics fs) \<Longrightarrow> g \<noteq> f \<Longrightarrow> a_file (atomics fs ! g) \<noteq> a_file (atomics fs ! f)"
  using assms by (auto simp: pending_def mem_ok_def split: if_splits) (metis)

lemmas mem_op_defs = Mem_Lock_def MemLock_Close_def Mem_Remove_def Mem_Rename_def Mem_OpenFile_def
  Mem_CreateFile_def MemFile_Reset_def Mem_CreateAtomicFile_def Out_Write_def Atomic_Write_def append_cell_def
  Atomic_Commit_def set_pos_def In_Seek_def

lemma exec_atomics:
  assumes "mem_ok fs" "op_enabled oper fs" "mem_exec oper fs = Some fs'" "f < length (atomics fs)" "oper \<noteq> OpCommit f"
  shows "atomics fs' ! f = atomics fs ! f \<and> length (atomics fs) \<le> length (atomics fs')"
  using assms by (cases oper) (auto simp: mem_op_defs In_Read_eq Let_def nth_append split: option.splits if_splits)

text \<open>An operation writes only to the files it can reach.\<close>

lemma exec_cells:
  assumes "mem_ok fs" "op_enabled oper fs" "mem_exec oper fs = Some fs'" "a < length (cells fs)" "a \<notin> shared fs"
    and "\<forall>f data. oper = OpAtomicWrite f data \<longrightarrow> a_file (atomics fs ! f) \<noteq> a"
  shows "cells fs' ! a = cells fs ! a"
proof -
  have "b \<noteq> a" if "map_of (files fs) name = Some b" for name b using map_of_file [OF that] assms(5) by blast
  moreover have "outputs fs ! g \<noteq> a" if "g < length (outputs fs)" for g using that assms(5) by (auto simp: shared_def)
  ultimately show ?thesis
    using assms by (cases oper) (auto simp: mem_op_defs In_Read_eq Let_def nth_append split: option.splits if_splits)
qed

lemma mem_exec_panics:
  assumes "mem_ok fs" and "op_enabled oper fs"
  shows "mem_exec oper fs = None \<longleftrightarrow> (\<exists>f buf p. oper = OpReadAt f buf p \<and> sint p < 0)"
  using assms(2) by (cases oper) (auto simp: In_Read_eq [OF assms(1)] In_ReadAt_None Let_def)

text \<open>
  C17. The one call on a directory in memory that panics is \<open>ReadAt\<close> with a negative offset, on any file
  and for any buffer; every other operation returns, in every state that can be reached. And a file
  that is not committed is private: nothing but writing to it or committing it changes what it holds,
  and writing to it changes nothing that the directory shows.
\<close>

theorem draft_isolated:
  assumes "mem_reachable fs" and "op_enabled oper fs"
  shows "(mem_exec oper fs = None \<longleftrightarrow> (\<exists>f buf p. oper = OpReadAt f buf p \<and> sint p < 0)) \<and>
    (\<forall>fs'. mem_exec oper fs = Some fs' \<longrightarrow>
      (\<forall>f d. pending fs f = Some d \<longrightarrow> (\<forall>data. oper \<noteq> OpAtomicWrite f data) \<longrightarrow> oper \<noteq> OpCommit f \<longrightarrow> pending fs' f = Some d) \<and>
      (\<forall>f d data. pending fs f = Some d \<longrightarrow> oper = OpAtomicWrite f data \<longrightarrow> contents fs' = contents fs))"
proof (intro conjI allI impI)
  have ok: "mem_ok fs" and fit: "fits fs" using reachable_ok [OF assms(1)] by simp_all
  note own = pending_file [OF ok]
  show "mem_exec oper fs = None \<longleftrightarrow> (\<exists>f buf p. oper = OpReadAt f buf p \<and> sint p < 0)"
    by (rule mem_exec_panics [OF ok assms(2)])
  show "pending fs' f = Some d" if fs': "mem_exec oper fs = Some fs'"
    and p: "pending fs f = Some d" and other: "\<forall>data. oper \<noteq> OpAtomicWrite f data" "oper \<noteq> OpCommit f" for fs' f d
  proof -
    note same = exec_atomics [OF ok assms(2) fs' own(1) [OF p] other(2)]
    have "a_file (atomics fs ! g) \<noteq> a_file (atomics fs ! f)" if "oper = OpAtomicWrite g data" for g data
      using own(4) [OF p, of g] other(1) assms(2) that by auto
    then have "cells fs' ! a_file (atomics fs ! f) = cells fs ! a_file (atomics fs ! f)"
      using exec_cells [OF ok assms(2) fs' own(2,3) [OF p]] by blast
    with pending_same [OF p] same show ?thesis by blast
  qed
  show "contents fs' = contents fs" if "mem_exec oper fs = Some fs'" "pending fs f = Some d" "oper = OpAtomicWrite f data" for fs' f d data
    using that(1,3) contents_append_private [OF ok that(2), of data] by (auto simp: Atomic_Write_def)
qed

theorem draft_isolated_witness:
  "(\<exists>fs'. mem_exec (OpCreate ''a'' True) (snd (Mem_CreateAtomicFile ''a'' CreateMemDir)) = Some fs' \<and>
     pending fs' 0 = Some (''a'', [])) \<and>
   mem_exec (OpReadAt 0 [0, 0] (- 1)) (snd (Mem_OpenFile ''a'' (snd (Mem_CreateFile ''a'' True CreateMemDir)))) = None"
proof
  let ?f1 = "snd (Mem_CreateFile ''a'' True CreateMemDir)"
  let ?f2 = "snd (Mem_OpenFile ''a'' ?f1)"
  have "mem_reachable ?f1"
    by (rule mem_step [OF mem_new, where oper = "OpCreate ''a'' True"])
      (simp_all add: fits_def Mem_CreateFile_def CreateMemDir_def)
  then have "mem_reachable ?f2"
    by (rule mem_step [where oper = "OpOpen ''a''"])
      (simp_all add: fits_def Mem_OpenFile_def Mem_CreateFile_def CreateMemDir_def)
  moreover have "op_enabled (OpReadAt 0 [0, 0] (- 1)) ?f2"
    by (simp add: Mem_OpenFile_def Mem_CreateFile_def CreateMemDir_def)
  moreover have "sint (- 1 :: u64) < 0" by simp
  ultimately show "mem_exec (OpReadAt 0 [0, 0] (- 1)) ?f2 = None" using draft_isolated by blast
next
  let ?fs = "snd (Mem_CreateAtomicFile ''a'' CreateMemDir)"
  have "mem_reachable ?fs"
    by (rule mem_step [OF mem_new, where oper = "OpCreateAtomic ''a''"])
      (simp_all add: fits_def Mem_CreateAtomicFile_def CreateMemDir_def)
  moreover have "pending ?fs 0 = Some (''a'', [])" by (simp add: pending_def Mem_CreateAtomicFile_def CreateMemDir_def)
  ultimately show "\<exists>fs'. mem_exec (OpCreate ''a'' True) ?fs = Some fs' \<and> pending fs' 0 = Some (''a'', [])"
    using draft_isolated [of ?fs "OpCreate ''a'' True"] by fastforce
qed

text \<open>
  The locks held at a time: a lock is released by its holder, once, and no operation removes or
  renames the file of a lock that is held.
\<close>

fun op_removes :: "mem_op \<Rightarrow> string option" where
  "op_removes (OpUnlock name) = Some name"
| "op_removes (OpRemove name) = Some name"
| "op_removes (OpRename oldname newname) = Some oldname"
| "op_removes oper = None"

inductive lock_run :: "memFS \<Rightarrow> string list \<Rightarrow> bool" where
  lock_start: "lock_run fs []"
| lock_acquire: "lock_run fs held \<Longrightarrow> Mem_Lock name fs = (Inr lock, fs') \<Longrightarrow> lock_run fs' (lock # held)"
| lock_release: "lock_run fs held \<Longrightarrow> lock \<in> set held \<Longrightarrow> MemLock_Close lock fs = (e, fs') \<Longrightarrow> lock_run fs' (remove1 lock held)"
| lock_other: "lock_run fs held \<Longrightarrow> mem_exec oper fs = Some fs' \<Longrightarrow> (\<forall>lock \<in> set held. op_removes oper \<noteq> Some lock) \<Longrightarrow>
    lock_run fs' held"

lemma lock_keeps:
  assumes "mem_exec oper fs = Some fs'" "op_removes oper \<noteq> Some n" "map_of (files fs) n \<noteq> None"
  shows "map_of (files fs') n \<noteq> None"
  using assms
  by (cases oper) (auto simp: mem_op_defs In_Read_def Let_def copy_slice_def update_conv delete_conv
      split: option.splits if_splits prod.splits)

lemma lock_run_inv: "lock_run fs held \<Longrightarrow> distinct held \<and> (\<forall>n \<in> set held. map_of (files fs) n \<noteq> None)"
proof (induction rule: lock_run.induct)
  case (lock_acquire fs held name lock fs')
  then show ?case by (auto simp: Mem_Lock_def update_conv split: if_splits)
next
  case (lock_release fs held lock e fs')
  have "map_of (files fs') n \<noteq> None" if "n \<in> set held" "n \<noteq> lock" for n
    using lock_release that lock_keeps [of "OpUnlock lock" fs fs' n] by (simp add: MemLock_Close_def)
  with lock_release show ?case by auto
next
  case (lock_other fs held oper fs')
  then show ?case using lock_keeps [of oper fs fs'] by blast
qed simp

text \<open>
  C32. Locks exclude each other: as long as nothing else removes or renames a lock's file, no two
  locks that are held at a time have the same name, a held lock cannot be acquired again, and its
  release succeeds.
\<close>

theorem locks_exclusive:
  assumes "lock_run fs held"
  shows "distinct held \<and> (\<forall>n \<in> set held. Mem_Lock n fs = (Inl ErrLocked, fs) \<and> fst (MemLock_Close n fs) = None)"
  using lock_run_inv [OF assms] by (auto simp: Mem_Lock_def MemLock_Close_def Mem_Remove_def split: option.split)

theorem locks_exclusive_witness:
  "fst (Mem_Lock ''a'' (snd (Mem_Lock ''a'' CreateMemDir))) = Inl ErrLocked"
proof -
  have "lock_run (snd (Mem_Lock ''a'' CreateMemDir)) [''a'']"
    by (rule lock_acquire [OF lock_start, where name = "''a''" and fs = CreateMemDir]) (simp add: Mem_Lock_def CreateMemDir_def)
  from locks_exclusive [OF this] show ?thesis by simp
qed

text \<open>Closing a lock twice releases the lock of the next holder.\<close>

lemma stale_lock:
  "let fs1 = snd (Mem_Lock ''a'' CreateMemDir); fs2 = snd (MemLock_Close ''a'' fs1);
       fs3 = snd (Mem_Lock ''a'' fs2); fs4 = snd (MemLock_Close ''a'' fs3)
   in fst (Mem_Lock ''a'' fs3) = Inl ErrLocked \<and> fst (Mem_Lock ''a'' fs4) = Inr ''a''"
  by code_simp

end
