(* ===== verification/OsFS.thy ===== *)
theory OsFS
  imports Vfs
begin

text \<open>
  \<open>util/vfs/os.go\<close>: a directory on disk. The system calls, the lock package and the package that
  writes files atomically are a parameter, a record of operations on a world of type \<open>'w\<close>; the paths
  they are called with, and what the code makes of their results, are modelled. A descriptor is a
  number.
\<close>

section \<open>Package \<open>path/filepath\<close>\<close>

text \<open>\<open>Clean\<close> on the elements between slashes; the elements kept so far are in reverse order.\<close>

fun clean_loop :: "bool \<Rightarrow> string list \<Rightarrow> string list \<Rightarrow> string list" where
  "clean_loop rooted out [] = rev out"
| "clean_loop rooted out (x # xs) =
     (if x = '''' \<or> x = ''.'' then clean_loop rooted out xs
      else if x = ''..'' then
        (case out of
           y # out' \<Rightarrow> if y = ''..'' then clean_loop rooted (''..'' # out) xs else clean_loop rooted out' xs
         | [] \<Rightarrow> if rooted then clean_loop rooted [] xs else clean_loop rooted [''..''] xs)
      else clean_loop rooted (x # out) xs)"

definition rooted_path :: "string \<Rightarrow> bool" where
  "rooted_path p = has_prefix p ''/''"

definition Clean :: "string \<Rightarrow> string" where
  "Clean p =
     (let out = clean_loop (rooted_path p) [] (split_on (CHR ''/'') p) in
      if rooted_path p then ''/'' @ join_with (CHR ''/'') out
      else if out = [] then ''.'' else join_with (CHR ''/'') out)"

definition Join :: "string \<Rightarrow> string \<Rightarrow> string" where
  "Join p q = (if p \<noteq> '''' then Clean (p @ ''/'' @ q) else if q \<noteq> '''' then Clean q else '''')"

definition Base :: "string \<Rightarrow> string" where
  "Base p =
     (if p = '''' then ''.''
      else let p = trim_right p ''/'' in
        if p = '''' then ''/'' else last (split_on (CHR ''/'') p))"

text \<open>The permissions 0755 and 0666 are the numbers 493 and 438.\<close>

text \<open>\<open>strings.Contains\<close>, and the text of an error\<close>

fun str_contains :: "string \<Rightarrow> string \<Rightarrow> bool" where
  "str_contains [] sub = (sub = [])"
| "str_contains (c # s) sub = (has_prefix (c # s) sub \<or> str_contains s sub)"

fun error_text :: "vfs_error \<Rightarrow> string" where
  "error_text ErrNotExist = ''file does not exist''"
| "error_text ErrExist = ''file already exists''"
| "error_text ErrInvalid = ''invalid argument''"
| "error_text ErrEOF = ''EOF''"
| "error_text ErrLocked = ''already locked''"
| "error_text ErrCommitted = ''already committed''"
| "error_text (PathError oper path e) = oper @ '' '' @ path @ '': '' @ error_text e"
| "error_text (Wrap msg e) = msg @ '': '' @ error_text e"
| "error_text (OtherErr s) = s"

section \<open>The calls\<close>

datatype open_flag = O_RDWR | O_CREATE | O_TRUNC | O_EXCL

record 'w os_calls =
  os_Stat :: "string \<Rightarrow> 'w \<Rightarrow> vfs_error + bool"
  os_MkdirAll :: "string \<Rightarrow> int \<Rightarrow> 'w \<Rightarrow> vfs_error option \<times> 'w"
  filepath_Abs :: "string \<Rightarrow> vfs_error + string"
  os_TempDir :: "string \<Rightarrow> string \<Rightarrow> 'w \<Rightarrow> (vfs_error + string) \<times> 'w"
  os_RemoveAll :: "string \<Rightarrow> 'w \<Rightarrow> vfs_error option \<times> 'w"
  lock_Lock :: "string \<Rightarrow> 'w \<Rightarrow> (nat option \<times> vfs_error option) \<times> 'w"
  os_ReadDir :: "string \<Rightarrow> 'w \<Rightarrow> vfs_error + string list"
  os_Rename :: "string \<Rightarrow> string \<Rightarrow> 'w \<Rightarrow> vfs_error option \<times> 'w"
  os_Remove :: "string \<Rightarrow> 'w \<Rightarrow> vfs_error option \<times> 'w"
  os_Open :: "string \<Rightarrow> 'w \<Rightarrow> (vfs_error + nat) \<times> 'w"
  os_Seek :: "nat \<Rightarrow> int \<Rightarrow> int \<Rightarrow> 'w \<Rightarrow> (vfs_error + int) \<times> 'w"
  os_CloseFile :: "nat \<Rightarrow> 'w \<Rightarrow> vfs_error option \<times> 'w"
  os_OpenFile :: "string \<Rightarrow> open_flag set \<Rightarrow> int \<Rightarrow> 'w \<Rightarrow> (vfs_error + nat) \<times> 'w"
  safefile_Create :: "string \<Rightarrow> int \<Rightarrow> 'w \<Rightarrow> (vfs_error + nat) \<times> 'w"

section \<open>The directory\<close>

record osFS =
  fs_root :: string
  fs_tmp :: bool

record osInputFile =
  os_fd :: nat
  os_size :: int

definition OpenDir :: "'w os_calls \<Rightarrow> string \<Rightarrow> bool \<Rightarrow> 'w \<Rightarrow> (vfs_error + osFS) \<times> 'w" where
  "OpenDir K dir create w =
     (let (err, w) =
        (case os_Stat K dir w of
           Inl err \<Rightarrow> if IsNotExist (Some err) \<and> create then os_MkdirAll K dir 493 w else (Some err, w)
         | Inr is_dir \<Rightarrow> if \<not> is_dir then (Some (OtherErr (dir @ '' is not a directory'')), w) else (None, w))
      in case err of
           Some err \<Rightarrow> (Inl err, w)
         | None \<Rightarrow>
             (case filepath_Abs K dir of
                Inl err \<Rightarrow> (Inl (Wrap ''could not get the absolute path'' err), w)
              | Inr dir \<Rightarrow> (Inr \<lparr> fs_root = dir, fs_tmp = False \<rparr>, w)))"

definition CreateTempDir :: "'w os_calls \<Rightarrow> 'w \<Rightarrow> (vfs_error + osFS) \<times> 'w" where
  "CreateTempDir K w =
     (case os_TempDir K '''' ''tmpdir'' w of
        (Inl err, w) \<Rightarrow> (Inl (Wrap ''failed to create a temporary directory'' err), w)
      | (Inr dir, w) \<Rightarrow> (Inr \<lparr> fs_root = dir, fs_tmp = True \<rparr>, w))"

definition OsFS_Path :: "osFS \<Rightarrow> string" where "OsFS_Path fs = fs_root fs"

definition OsFS_Close :: "'w os_calls \<Rightarrow> osFS \<Rightarrow> 'w \<Rightarrow> vfs_error option \<times> 'w" where
  "OsFS_Close K fs w =
     (if fs_tmp fs \<and> has_prefix (Base (fs_root fs)) ''tmpdir'' then os_RemoveAll K (fs_root fs) w else (None, w))"

definition Prefix :: "osFS \<Rightarrow> string \<Rightarrow> string" where
  "Prefix fs name = Clean (Join (fs_root fs) (Clean name))"

definition OsFS_Lock :: "'w os_calls \<Rightarrow> osFS \<Rightarrow> string \<Rightarrow> 'w \<Rightarrow> (nat option \<times> vfs_error option) \<times> 'w" where
  "OsFS_Lock K fs name w =
     (let ((closer, err), w) = lock_Lock K (Prefix fs name) w in
      case err of
        None \<Rightarrow> ((closer, None), w)
      | Some e \<Rightarrow>
          let e = (if str_contains (error_text e) ''already locked'' then ErrLocked else e)
          in ((closer, Some (PathError ''lock'' name e)), w))"

definition OsFS_ReadDir :: "'w os_calls \<Rightarrow> osFS \<Rightarrow> 'w \<Rightarrow> vfs_error + string list" where
  "OsFS_ReadDir K fs w = os_ReadDir K (fs_root fs) w"

definition OsFS_Rename :: "'w os_calls \<Rightarrow> osFS \<Rightarrow> string \<Rightarrow> string \<Rightarrow> 'w \<Rightarrow> vfs_error option \<times> 'w" where
  "OsFS_Rename K fs oldname newname w = os_Rename K (Prefix fs oldname) (Prefix fs newname) w"

definition OsFS_Remove :: "'w os_calls \<Rightarrow> osFS \<Rightarrow> string \<Rightarrow> 'w \<Rightarrow> vfs_error option \<times> 'w" where
  "OsFS_Remove K fs name w = os_Remove K (Prefix fs name) w"

text \<open>
  \<open>Seek\<close> of \<open>*os.File\<close> takes the offset and then where it counts from. The arguments of the two calls
  are in the order of the source: \<open>io.SeekEnd\<close> is 2 and \<open>io.SeekStart\<close> is 0.
\<close>

definition OsFS_OpenFile :: "'w os_calls \<Rightarrow> osFS \<Rightarrow> string \<Rightarrow> 'w \<Rightarrow> (vfs_error + osInputFile) \<times> 'w" where
  "OsFS_OpenFile K fs name w =
     (case os_Open K (Prefix fs name) w of
        (Inl err, w) \<Rightarrow> (Inl err, w)
      | (Inr fd, w) \<Rightarrow>
          (case os_Seek K fd 2 0 w of
             (Inl err, w) \<Rightarrow> (Inl err, snd (os_CloseFile K fd w))
           | (Inr sz, w) \<Rightarrow>
               (case os_Seek K fd 0 0 w of
                  (Inl err, w) \<Rightarrow> (Inl err, snd (os_CloseFile K fd w))
                | (Inr _, w) \<Rightarrow> (Inr \<lparr> os_fd = fd, os_size = sz \<rparr>, w))))"

definition OsFS_CreateFile :: "'w os_calls \<Rightarrow> osFS \<Rightarrow> string \<Rightarrow> bool \<Rightarrow> 'w \<Rightarrow> (vfs_error + nat) \<times> 'w" where
  "OsFS_CreateFile K fs name overwrite w =
     (let flags = {O_RDWR, O_CREATE};
          flags = (if overwrite then insert O_TRUNC flags else insert O_EXCL flags)
      in os_OpenFile K (Prefix fs name) flags 438 w)"

definition OsFS_CreateAtomicFile :: "'w os_calls \<Rightarrow> osFS \<Rightarrow> string \<Rightarrow> 'w \<Rightarrow> (vfs_error + nat) \<times> 'w" where
  "OsFS_CreateAtomicFile K fs name w = safefile_Create K (Prefix fs name) 438 w"

definition OsInput_Size :: "osInputFile \<Rightarrow> int" where "OsInput_Size f = os_size f"

section \<open>Names stay below the root\<close>

definition plain_elem :: "string \<Rightarrow> bool" where
  "plain_elem x \<longleftrightarrow> x \<noteq> '''' \<and> x \<noteq> ''.'' \<and> x \<noteq> ''..'' \<and> CHR ''/'' \<notin> set x"

lemma clean_plain: "\<forall>x \<in> set xs. plain_elem x \<Longrightarrow> clean_loop r out xs = rev out @ xs"
  by (induction xs arbitrary: out) (auto simp: plain_elem_def)

text \<open>Names without \<open>..\<close> lose their empty elements and dots only.\<close>

definition down :: "string list \<Rightarrow> string list" where
  "down xs = filter (\<lambda>x. x \<noteq> '''' \<and> x \<noteq> ''.'') xs"

lemma clean_down: "''..'' \<notin> set xs \<Longrightarrow> clean_loop r out xs = rev out @ down xs"
  by (induction xs arbitrary: out) (auto simp: down_def)

lemma split_on_elem: "x \<in> set (split_on c s) \<Longrightarrow> c \<notin> set x"
proof (induction s arbitrary: x)
  case (Cons a s)
  obtain w ws where "split_on c s = w # ws" by (cases "split_on c s") auto
  with Cons show ?case by (auto split: if_splits)
qed simp

lemma down_plain: "''..'' \<notin> set (split_on (CHR ''/'') s) \<Longrightarrow> \<forall>x \<in> set (down (split_on (CHR ''/'') s)). plain_elem x"
  using split_on_elem by (auto simp: down_def plain_elem_def)

lemma split_on_app: "split_on c (s @ c # t) = split_on c s @ split_on c t"
proof (induction s)
  case (Cons a s)
  obtain w ws where "split_on c s = w # ws" by (cases "split_on c s") auto
  with Cons show ?case by simp
qed simp

lemma join_append: "xs \<noteq> [] \<Longrightarrow> ys \<noteq> [] \<Longrightarrow> join_with c (xs @ ys) = join_with c xs @ c # join_with c ys"
proof (induction c xs rule: join_with.induct)
  case (2 c w)
  then show ?case by (cases ys) auto
qed auto

text \<open>The path of an absolute directory.\<close>

definition abs_path :: "string list \<Rightarrow> string" where
  "abs_path ds = ''/'' @ join_with (CHR ''/'') ds"

lemma split_join_plain: "ds \<noteq> [] \<Longrightarrow> \<forall>x \<in> set ds. plain_elem x \<Longrightarrow> split_on (CHR ''/'') (join_with (CHR ''/'') ds) = ds"
  by (rule split_on_join) (auto simp: plain_elem_def)

lemma split_abs_path: "ds \<noteq> [] \<Longrightarrow> \<forall>x \<in> set ds. plain_elem x \<Longrightarrow> split_on (CHR ''/'') (abs_path ds) = '''' # ds"
  by (simp add: abs_path_def split_join_plain)

lemma Clean_abs_path: "ds \<noteq> [] \<Longrightarrow> \<forall>x \<in> set ds. plain_elem x \<Longrightarrow> Clean (abs_path ds) = abs_path ds"
  by (simp add: Clean_def Let_def split_abs_path clean_plain rooted_path_def) (simp add: abs_path_def)

lemma Join_abs_path:
  assumes "ds \<noteq> []" "\<forall>x \<in> set ds. plain_elem x" "''..'' \<notin> set (split_on (CHR ''/'') q)"
  shows "Join (abs_path ds) q = abs_path (ds @ down (split_on (CHR ''/'') q))"
proof -
  let ?q = "split_on (CHR ''/'') q"
  have "split_on (CHR ''/'') (abs_path ds @ ''/'' @ q) = '''' # ds @ ?q"
    using split_on_app [of "CHR ''/''" "abs_path ds" q] split_abs_path [OF assms(1,2)] by simp
  moreover have "clean_loop r out (ds @ ?q) = rev out @ ds @ down ?q" for r out
  proof -
    have "''..'' \<notin> set (ds @ ?q)" using assms by (auto simp: plain_elem_def)
    moreover have "down ds = ds" using assms(2) by (auto simp: down_def plain_elem_def filter_id_conv)
    ultimately show ?thesis by (simp add: clean_down) (simp add: down_def)
  qed
  moreover have "rooted_path (abs_path ds @ ''/'' @ q)" "abs_path ds \<noteq> ''''" by (simp_all add: rooted_path_def abs_path_def)
  ultimately show ?thesis by (simp add: Join_def Clean_def Let_def) (simp add: abs_path_def)
qed

lemma split_Clean_down:
  assumes "''..'' \<notin> set (split_on (CHR ''/'') name)"
  shows "down (split_on (CHR ''/'') (Clean name)) = down (split_on (CHR ''/'') name) \<and> ''..'' \<notin> set (split_on (CHR ''/'') (Clean name))"
proof -
  let ?n = "down (split_on (CHR ''/'') name)"
  have plain: "\<forall>x \<in> set ?n. plain_elem x" by (rule down_plain [OF assms])
  have c: "Clean name = (if rooted_path name then abs_path ?n else if ?n = [] then ''.'' else join_with (CHR ''/'') ?n)"
    by (simp add: Clean_def Let_def clean_down [OF assms] abs_path_def)
  have dd: "down ?n = ?n" by (simp add: down_def)
  show ?thesis
  proof (cases "?n = []")
    case True
    then show ?thesis by (simp add: c abs_path_def) (simp add: down_def)
  next
    case False
    with plain have "''..'' \<notin> set ?n" by (auto simp: plain_elem_def)
    with False plain dd show ?thesis by (simp add: c split_abs_path split_join_plain) (simp add: down_def)
  qed
qed

text \<open>
  The path of a name lies below the root of the directory when no element of the name is \<open>..\<close>: it
  is the root's path followed by the elements of the name that are neither empty nor a dot.
\<close>

theorem Prefix_below:
  assumes "fs_root fs = abs_path ds" and "ds \<noteq> []" and "\<forall>x \<in> set ds. plain_elem x"
    and "''..'' \<notin> set (split_on (CHR ''/'') name)"
  shows "Prefix fs name = abs_path (ds @ filter (\<lambda>x. x \<noteq> '''' \<and> x \<noteq> ''.'') (split_on (CHR ''/'') name))"
proof -
  note n = split_Clean_down [OF assms(4)]
  have "Join (fs_root fs) (Clean name) = abs_path (ds @ down (split_on (CHR ''/'') name))"
    using Join_abs_path [OF assms(2,3), of "Clean name"] n assms(1) by simp
  moreover have "\<forall>x \<in> set (ds @ down (split_on (CHR ''/'') name)). plain_elem x"
    using assms(3) down_plain [OF assms(4)] by auto
  ultimately show ?thesis using assms(2) by (simp add: Prefix_def Clean_abs_path) (simp add: down_def)
qed

theorem Prefix_below_witness: "Prefix \<lparr> fs_root = ''/srv/data'', fs_tmp = False \<rparr> ''./x//y'' = ''/srv/data/x/y''"
  using Prefix_below [of "\<lparr> fs_root = ''/srv/data'', fs_tmp = False \<rparr>" "[''srv'', ''data'']" "''./x//y''"]
  by (simp add: abs_path_def plain_elem_def)

text \<open>With \<open>..\<close> a name leaves the directory.\<close>

lemma Prefix_escapes: "Prefix \<lparr> fs_root = ''/srv/data'', fs_tmp = False \<rparr> ''../x'' = ''/srv/x''"
  by code_simp

text \<open>
  \<open>IsLocked\<close> never recognises the error of a lock on disk that is already held: the error is
  inside a \<open>*os.PathError\<close>, and \<open>errors.Cause\<close> does not look there. In memory it does.
\<close>

lemma disk_lock_not_recognised: "\<not> IsLocked (snd (fst (OsFS_Lock K fs name w)))"
  by (auto simp: OsFS_Lock_def IsLocked_def Let_def split: option.split prod.split)

lemma mem_lock_recognised: "fst (Mem_Lock name m) = Inl e \<Longrightarrow> IsLocked (Some e)"
  by (auto simp: Mem_Lock_def IsLocked_def split: if_splits)

text \<open>
  A file that is opened on disk reports the size 2, whatever its size is: the code seeks to the
  offset \<open>io.SeekEnd\<close>, that is 2, from the start. The hypothesis is what seeking from the start is
  documented to do.
\<close>

theorem disk_file_size:
  assumes "\<And>fd offset w. 0 \<le> offset \<Longrightarrow> fst (os_Seek K fd offset 0 w) = Inr offset"
    and "os_Open K (Prefix fs name) w = (Inr fd, w1)"
  shows "\<exists>f w2. OsFS_OpenFile K fs name w = (Inr f, w2) \<and> os_fd f = fd \<and> OsInput_Size f = 2"
proof -
  obtain w2 where s: "os_Seek K fd 2 0 w1 = (Inr 2, w2)" using assms(1) [of 2 fd w1] by (cases "os_Seek K fd 2 0 w1") auto
  obtain w3 where "os_Seek K fd 0 0 w2 = (Inr 0, w3)" using assms(1) [of 0 fd w2] by (cases "os_Seek K fd 0 0 w2") auto
  with s assms(2) show ?thesis by (simp add: OsFS_OpenFile_def OsInput_Size_def)
qed

text \<open>A disk of one file of ten bytes.\<close>

definition one_file_disk :: "int os_calls" where
  "one_file_disk = \<lparr> os_Stat = (\<lambda>_ _. Inr True), os_MkdirAll = (\<lambda>_ _ w. (None, w)), filepath_Abs = Inr,
     os_TempDir = (\<lambda>_ _ w. (Inr ''/tmp/tmpdir1'', w)), os_RemoveAll = (\<lambda>_ w. (None, w)),
     lock_Lock = (\<lambda>_ w. ((None, Some (OtherErr ''file already locked'')), w)),
     os_ReadDir = (\<lambda>_ _. Inr [''a'']), os_Rename = (\<lambda>_ _ w. (None, w)), os_Remove = (\<lambda>_ w. (None, w)),
     os_Open = (\<lambda>_ w. (Inr 3, w)),
     os_Seek = (\<lambda>_ offset whence w.
       let p = (if whence = 0 then offset else if whence = 1 then w + offset else 10 + offset)
       in if p < 0 then (Inl ErrInvalid, w) else (Inr p, p)),
     os_CloseFile = (\<lambda>_ w. (None, w)), os_OpenFile = (\<lambda>_ _ _ w. (Inr 3, w)), safefile_Create = (\<lambda>_ _ w. (Inr 3, w)) \<rparr>"

theorem disk_file_size_witness:
  "\<exists>f w2. OsFS_OpenFile one_file_disk \<lparr> fs_root = ''/srv'', fs_tmp = False \<rparr> ''a'' 0 = (Inr f, w2) \<and>
     os_fd f = 3 \<and> OsInput_Size f = 2"
  by (rule disk_file_size [where ?w1.0 = 0]) (simp_all add: one_file_disk_def Let_def)

end
