(* ===== verification/Retry.thy ===== *)
theory Retry
  imports GoLib
begin

text \<open>
  \<open>pkg/fpstore/retry.go\<close>: which database errors mean a lost connection, and the bounded retry of
  an idempotent operation. A Go error is a tree: the sentinels the code compares with, the two
  error types it looks for, and the ways of wrapping. An operation is a function on the state of the
  world; the loop also returns the delays it waited for, in nanoseconds.
\<close>

section \<open>Errors\<close>

datatype sentinel =
  Canceled | DeadlineExceeded | ErrBadConn | EOF | ErrUnexpectedEOF | ErrNoRows

text \<open>
  \<open>OpError t e\<close> is a \<open>*net.OpError\<close> whose \<open>Timeout()\<close> is \<open>t\<close> and which wraps \<open>e\<close>; \<open>PqError c\<close> a
  \<open>*pq.Error\<close> with the SQLSTATE \<open>c\<close>; \<open>Wrapped\<close> is what \<open>fmt.Errorf\<close> with \<open>%w\<close> and \<open>errors.WithMessage\<close>
  build, \<open>Joined\<close> what \<open>errors.Join\<close> builds; \<open>OtherError ss\<close> is any other error, whose \<open>Is\<close> method
  answers to the sentinels \<open>ss\<close>.
\<close>

datatype go_error =
  Sentinel sentinel
| OpError bool go_error
| PqError string
| Wrapped string go_error
| Joined "go_error list"
| OtherError string "sentinel list"

fun errors_Is :: "go_error \<Rightarrow> sentinel \<Rightarrow> bool" where
  "errors_Is (Sentinel s) t = (s = t)"
| "errors_Is (OpError _ e) t = errors_Is e t"
| "errors_Is (PqError _) t = False"
| "errors_Is (Wrapped _ e) t = errors_Is e t"
| "errors_Is (Joined es) t = list_ex (\<lambda>e. errors_Is e t) es"
| "errors_Is (OtherError _ ss) t = (t \<in> set ss)"

text \<open>The first error of the list, in depth-first order, on which \<open>f\<close> has a value.\<close>

fun first_some :: "('a \<Rightarrow> 'b option) \<Rightarrow> 'a list \<Rightarrow> 'b option" where
  "first_some f [] = None"
| "first_some f (x # xs) = (case f x of Some y \<Rightarrow> Some y | None \<Rightarrow> first_some f xs)"

lemma first_some_cong [fundef_cong]:
  "xs = ys \<Longrightarrow> (\<And>x. x \<in> set ys \<Longrightarrow> f x = g x) \<Longrightarrow> first_some f xs = first_some g ys"
  by (induction ys arbitrary: xs) (auto split: option.split)

text \<open>\<open>errors.As\<close> for the two targets of the code: the timeout flag, and the SQLSTATE.\<close>

fun errors_As_OpError :: "go_error \<Rightarrow> bool option" where
  "errors_As_OpError (OpError t _) = Some t"
| "errors_As_OpError (Wrapped _ e) = errors_As_OpError e"
| "errors_As_OpError (Joined es) = first_some errors_As_OpError es"
| "errors_As_OpError _ = None"

fun errors_As_pq :: "go_error \<Rightarrow> string option" where
  "errors_As_pq (PqError c) = Some c"
| "errors_As_pq (OpError _ e) = errors_As_pq e"
| "errors_As_pq (Wrapped _ e) = errors_As_pq e"
| "errors_As_pq (Joined es) = first_some errors_As_pq es"
| "errors_As_pq _ = None"

definition connection_codes :: "string list" where
  "connection_codes =
     [''08000'', ''08001'', ''08003'', ''08004'', ''08006'', ''57P01'', ''57P02'', ''57P03'']"

definition isConnectionError :: "go_error option \<Rightarrow> bool" where
  "isConnectionError err =
     (case err of
        None \<Rightarrow> False
      | Some err \<Rightarrow>
          if errors_Is err Canceled \<or> errors_Is err DeadlineExceeded then False
          else if errors_Is err ErrBadConn then True
          else if errors_Is err EOF \<or> errors_Is err ErrUnexpectedEOF then True
          else case errors_As_OpError err of
              Some timeout \<Rightarrow> \<not> timeout
            | None \<Rightarrow>
                (case errors_As_pq err of
                   Some code \<Rightarrow> code \<in> set connection_codes
                 | None \<Rightarrow> False))"

section \<open>The retry loop\<close>

definition maxDatabaseAttempts :: nat where "maxDatabaseAttempts = 3"

definition databaseRetryBaseDelay :: int where "databaseRetryBaseDelay = 50000000"

text \<open>\<open>done n\<close> says whether the context is done before the wait after attempt \<open>n\<close> is over.\<close>

function retry_loop :: "(nat \<Rightarrow> bool) \<Rightarrow> ('w \<Rightarrow> go_error option \<times> 'w) \<Rightarrow> nat \<Rightarrow> int \<Rightarrow> 'w \<Rightarrow> go_error option \<times> 'w \<times> int list" where
  "retry_loop ctx_done op attempt delay w =
     (let (err, w) = op w in
      if err = None \<or> attempt \<ge> maxDatabaseAttempts \<or> \<not> isConnectionError err then (err, w, [])
      else if ctx_done attempt then (err, w, [])
      else let (r, w, waits) = retry_loop ctx_done op (attempt + 1) (delay * 2) w in (r, w, delay # waits))"
  by auto
termination by (relation "measure (\<lambda>(_, _, attempt, _, _). maxDatabaseAttempts - attempt)") auto

declare retry_loop.simps [simp del]

definition retryOnConnectionError :: "(nat \<Rightarrow> bool) \<Rightarrow> ('w \<Rightarrow> go_error option \<times> 'w) \<Rightarrow> 'w \<Rightarrow> go_error option \<times> 'w \<times> int list" where
  "retryOnConnectionError ctx_done op w = retry_loop ctx_done op 1 databaseRetryBaseDelay w"

section \<open>Classification\<close>

lemma first_some_None: "first_some f xs = None \<longleftrightarrow> (\<forall>x \<in> set xs. f x = None)"
  by (induction xs) (auto split: option.split)

text \<open>
  Wrapping an error in a message never changes whether it counts as a lost connection; an error
  that carries a cancellation or an expired deadline never counts, whatever else it carries; a
  timeout of the network does not count, nor does an answer of the server outside the connection
  class.
\<close>

theorem isConnectionError_class:
  assumes "errors_Is e Canceled \<or> errors_Is e DeadlineExceeded"
  shows "\<not> isConnectionError (Some (Joined (es @ e # es'))) \<and>
    isConnectionError (Some (Wrapped msg e')) = isConnectionError (Some e') \<and>
    isConnectionError (Some (OpError timeout (OtherError m []))) = (\<not> timeout) \<and>
    isConnectionError (Some (PqError code)) = (code \<in> set connection_codes) \<and>
    \<not> isConnectionError None"
proof -
  have "errors_Is (Joined (es @ e # es')) Canceled \<or> errors_Is (Joined (es @ e # es')) DeadlineExceeded"
    using assms by auto
  moreover have "isConnectionError (Some (Wrapped msg e')) = isConnectionError (Some e')"
    by (simp add: isConnectionError_def split: option.split)
  ultimately show ?thesis by (simp add: isConnectionError_def)
qed

theorem isConnectionError_class_witness:
  "\<not> isConnectionError (Some (Joined ([Sentinel EOF] @ Wrapped ''query'' (Sentinel Canceled) # [Sentinel ErrBadConn])))"
  using isConnectionError_class [of "Wrapped ''query'' (Sentinel Canceled)" "[Sentinel EOF]" "[Sentinel ErrBadConn]"]
  by simp

section \<open>How often, how long\<close>

text \<open>What happens when the operation is run \<open>n\<close> times in a row, the result being that of the last.\<close>

fun run_times :: "('w \<Rightarrow> go_error option \<times> 'w) \<Rightarrow> nat \<Rightarrow> 'w \<Rightarrow> go_error option \<times> 'w" where
  "run_times op 0 w = (None, w)"
| "run_times op (Suc n) w = op (snd (run_times op n w))"

lemma run_times_shift: "0 < n \<Longrightarrow> run_times op (Suc n) w = run_times op n (snd (op w))"
proof (induction n)
  case (Suc n)
  then show ?case by (cases n) simp_all
qed simp

lemma retry_loop_runs:
  assumes "attempt \<le> maxDatabaseAttempts" and "retry_loop ctx_done op attempt delay w = (err, w', waits)"
  shows "run_times op (Suc (length waits)) w = (err, w') \<and>
    attempt + length waits \<le> maxDatabaseAttempts \<and>
    waits = map (\<lambda>i. delay * 2 ^ i) [0..<length waits] \<and>
    (\<forall>i \<in> {1..length waits}. isConnectionError (fst (run_times op i w)) \<and> \<not> ctx_done (attempt + i - 1)) \<and>
    (attempt + length waits < maxDatabaseAttempts \<longrightarrow>
      \<not> isConnectionError err \<or> ctx_done (attempt + length waits))"
  using assms
proof (induction ctx_done op attempt delay w arbitrary: err w' waits rule: retry_loop.induct)
  case (1 ctx_done op attempt delay w)
  obtain e v where op: "op w = (e, v)" by (cases "op w")
  show ?case
  proof (cases "e = None \<or> attempt \<ge> maxDatabaseAttempts \<or> \<not> isConnectionError e \<or> ctx_done attempt")
    case True
    then have "(err, w', waits) = (e, v, [])"
      using "1.prems"(2) op by (subst (asm) retry_loop.simps) (auto split: if_splits)
    moreover have "\<not> isConnectionError None" by (simp add: isConnectionError_def)
    ultimately show ?thesis using True op "1.prems"(1) by auto
  next
    case False
    then have c: "\<not> (e = None \<or> attempt \<ge> maxDatabaseAttempts \<or> \<not> isConnectionError e)" "\<not> ctx_done attempt"
      by auto
    obtain r u ds where rec: "retry_loop ctx_done op (attempt + 1) (delay * 2) v = (r, u, ds)"
      by (metis prod_cases3)
    have "retry_loop ctx_done op attempt delay w = (r, u, delay # ds)"
      using c op rec by (subst retry_loop.simps) (simp add: Let_def)
    then have eq: "err = r" "w' = u" "waits = delay # ds" using "1.prems"(2) by simp_all
    have IH: "run_times op (Suc (length ds)) v = (r, u) \<and>
        attempt + 1 + length ds \<le> maxDatabaseAttempts \<and>
        ds = map (\<lambda>i. delay * 2 * 2 ^ i) [0..<length ds] \<and>
        (\<forall>i \<in> {1..length ds}. isConnectionError (fst (run_times op i v)) \<and> \<not> ctx_done (attempt + 1 + i - 1)) \<and>
        (attempt + 1 + length ds < maxDatabaseAttempts \<longrightarrow>
          \<not> isConnectionError r \<or> ctx_done (attempt + 1 + length ds))"
      using "1.IH" [OF op [symmetric] refl c _ rec] c(1) by simp
    have runs: "run_times op (Suc (Suc i)) w = run_times op (Suc i) v" for i
      using run_times_shift [of "Suc i" op w] op by simp
    have "delay # ds = map (\<lambda>i. delay * 2 ^ i) [0..<length (delay # ds)]"
    proof -
      have "[0..<length (delay # ds)] = 0 # map Suc [0..<length ds]"
        by (simp add: map_Suc_upt upt_conv_Cons del: upt_Suc)
      moreover have "ds = map (\<lambda>i. delay * 2 * 2 ^ i) [0..<length ds]" using IH by blast
      ultimately show ?thesis by (simp add: comp_def mult.assoc)
    qed
    moreover have "isConnectionError (fst (run_times op i w)) \<and> \<not> ctx_done (attempt + i - 1)"
      if i: "i \<in> {1..length (delay # ds)}" for i
    proof (cases "i = 1")
      case True
      then show ?thesis using c op by simp
    next
      case False
      then obtain j where "i = Suc (Suc j)" using i by (metis One_nat_def Suc_pred atLeastAtMost_iff less_eq_Suc_le old.nat.exhaust)
      with IH i runs show ?thesis by (auto dest!: bspec [of _ _ "Suc j"])
    qed
    ultimately show ?thesis using IH runs unfolding eq by simp
  qed
qed

text \<open>What a retried operation leaves is what one run of it left, in a world that earlier runs led to.\<close>

lemma run_times_invariant: "P w \<Longrightarrow> (\<And>w. P w \<Longrightarrow> P (snd (op w))) \<Longrightarrow> P (snd (run_times op n w))"
  by (induction n) simp_all

lemma retry_invariant:
  assumes "P w" and "\<And>w. P w \<Longrightarrow> P (snd (op w))"
    and "retryOnConnectionError ctx_done op w = (err, w', waits)"
  shows "\<exists>w0. P w0 \<and> op w0 = (err, w')"
proof -
  have "run_times op (Suc (length waits)) w = (err, w')"
    using retry_loop_runs [of 1 ctx_done op databaseRetryBaseDelay w err w' waits] assms(3)
    by (simp add: retryOnConnectionError_def maxDatabaseAttempts_def)
  then have "op (snd (run_times op (length waits) w)) = (err, w')" by simp
  with run_times_invariant [of P w op "length waits", OF assms(1,2)] show ?thesis by blast
qed

text \<open>
  C24. The retry of an idempotent operation runs it at least once and at most three times, waits for
  50 and then 100 milliseconds and never for more than 150 in all, retries only after an error that
  means a lost connection while the context is not done, reports the result of the last run, and
  reports a lost connection only after the third attempt or when the context is done.
\<close>

theorem retry_bounded:
  "case retryOnConnectionError ctx_done op w of (err, w', waits) \<Rightarrow>
     run_times op (length waits + 1) w = (err, w') \<and> length waits < 3 \<and>
     waits = take (length waits) [50000000, 100000000] \<and> sum_list waits \<le> 150000000 \<and>
     (\<forall>i \<in> {1..length waits}. isConnectionError (fst (run_times op i w)) \<and> \<not> ctx_done i) \<and>
     (isConnectionError err \<longrightarrow> length waits = 2 \<or> ctx_done (length waits + 1))"
proof -
  obtain err w' waits where r: "retryOnConnectionError ctx_done op w = (err, w', waits)" by (metis prod_cases3)
  then have "retry_loop ctx_done op 1 databaseRetryBaseDelay w = (err, w', waits)"
    by (simp add: retryOnConnectionError_def)
  from retry_loop_runs [OF _ this]
  have f: "run_times op (Suc (length waits)) w = (err, w')" "1 + length waits \<le> 3"
    "waits = map (\<lambda>i. 50000000 * 2 ^ i) [0..<length waits]"
    "\<forall>i \<in> {1..length waits}. isConnectionError (fst (run_times op i w)) \<and> \<not> ctx_done (1 + i - 1)"
    "1 + length waits < 3 \<longrightarrow> \<not> isConnectionError err \<or> ctx_done (1 + length waits)"
    by (simp_all add: maxDatabaseAttempts_def databaseRetryBaseDelay_def)
  have "length waits = 0 \<or> length waits = 1 \<or> length waits = 2" using f(2) by linarith
  then have w: "waits = [] \<or> waits = [50000000] \<or> waits = [50000000, 100000000]"
    using f(3) by (elim disjE) (simp_all add: eval_nat_numeral)
  show ?thesis
    unfolding r using w f(1,4,5) by auto
qed

theorem retry_bounded_witness:
  "retryOnConnectionError (\<lambda>_. False)
     (\<lambda>n. (if n < 2 then Some (Wrapped ''query'' (Sentinel ErrBadConn)) else None, n + 1)) (0 :: int) =
   (None, 3, [50000000, 100000000]) \<and> sum_list [50000000, 100000000 :: int] \<le> 150000000"
proof -
  let ?r = "retryOnConnectionError (\<lambda>_. False)
     (\<lambda>n. (if n < 2 then Some (Wrapped ''query'' (Sentinel ErrBadConn)) else None, n + 1)) (0 :: int)"
  have "?r = (None, 3, [50000000, 100000000])" by code_simp
  with retry_bounded [of "\<lambda>n. (if n < 2 then Some (Wrapped ''query'' (Sentinel ErrBadConn)) else None, n + 1)" "0 :: int" "\<lambda>_. False"]
  show ?thesis by simp
qed

end
