(* ===== verification/PublicData.thy ===== *)
theory PublicData
  imports GoStrings Retry
begin

text \<open>
  \<open>pkg/publicdata\<close>: the export of the changes of every day to an object store, and the index files of
  its folders. The object store, the database and the temporary file are parameters, records of
  operations on a world of type \<open>'w\<close>; so is the compression. Every listing of the code is
  non-recursive, and is the list of what the store sends. A Go set of strings is a distinct list;
  the order it is iterated in is a parameter. Logging is left out.
\<close>

section \<open>Dates\<close>

text \<open>A midnight of the local calendar; the times of day of the code are all zero.\<close>

record civil =
  year :: int
  month :: int
  day :: int

definition leap :: "int \<Rightarrow> bool" where
  "leap y \<longleftrightarrow> y mod 4 = 0 \<and> (y mod 100 \<noteq> 0 \<or> y mod 400 = 0)"

definition days_in :: "int \<Rightarrow> int \<Rightarrow> int" where
  "days_in y m = (if m = 2 then (if leap y then 29 else 28) else if m \<in> {4, 6, 9, 11} then 30 else 31)"

text \<open>\<open>AddDate(0, 0, -1)\<close>: the day before, in the month or the year before when it is the first\<close>

definition prev_day :: "civil \<Rightarrow> civil" where
  "prev_day d =
     (if day d > 1 then d\<lparr> day := day d - 1 \<rparr>
      else if month d > 1 then \<lparr> year = year d, month = month d - 1, day = days_in (year d) (month d - 1) \<rparr>
      else \<lparr> year = year d - 1, month = 12, day = 31 \<rparr>)"

text \<open>\<open>Format\<close> with the layouts of the code\<close>

definition pad :: "nat \<Rightarrow> int \<Rightarrow> string" where
  "pad n i = (let s = format_uint (nat i) in replicate (n - length s) (CHR ''0'') @ s)"

definition fmt_month :: "civil \<Rightarrow> string" where
  "fmt_month d = pad 4 (year d) @ ''/'' @ pad 4 (year d) @ ''-'' @ pad 2 (month d)"

definition fmt_date :: "civil \<Rightarrow> string" where
  "fmt_date d = pad 4 (year d) @ ''-'' @ pad 2 (month d) @ ''-'' @ pad 2 (day d)"

section \<open>What the code is given\<close>

record object_info =
  obj_Key :: string
  obj_Size :: int
  obj_Err :: "go_error option"

record 'w storage =
  st_ListObjects :: "string \<Rightarrow> 'w \<Rightarrow> object_info list"
  st_PutObject :: "string \<Rightarrow> string \<Rightarrow> string \<Rightarrow> 'w \<Rightarrow> go_error option \<times> 'w"
  st_BucketExists :: "'w \<Rightarrow> go_error + bool"
  st_MakeBucket :: "'w \<Rightarrow> go_error option \<times> 'w"

text \<open>
  The temporary file behind the compressor: writing, closing the compressor, the two seeks and
  closing may fail. \<open>gzip\<close> is what the compressor makes of everything that was written. A row of a
  query is the error of its \<open>Scan\<close> or its bytes. \<open>zone\<close> is the time zone of a midnight as RFC 3339
  writes it.
\<close>

record 'w exporter =
  ex_storage :: "'w storage"
  ex_Query :: "string \<Rightarrow> 'w \<Rightarrow> (go_error + (go_error + string) list) \<times> 'w"
  tmp_Create :: "'w \<Rightarrow> go_error option \<times> 'w"
  gz_Write :: "string \<Rightarrow> 'w \<Rightarrow> go_error option \<times> 'w"
  gz_Close :: "'w \<Rightarrow> go_error option \<times> 'w"
  tmp_Seek :: "int \<Rightarrow> 'w \<Rightarrow> go_error option \<times> 'w"
  tmp_Close :: "'w \<Rightarrow> go_error option \<times> 'w"
  gzip :: "string \<Rightarrow> string"
  zone :: "civil \<Rightarrow> string"
  iter_order :: "string list \<Rightarrow> string list"

record exporterTableInfo =
  tab_name :: string
  tab_query :: string
  tab_delta :: bool

text \<open>\<open>if err != nil { return err }\<close>\<close>

definition if_ok :: "go_error option \<times> 'w \<Rightarrow> ('w \<Rightarrow> go_error option \<times> 'w) \<Rightarrow> go_error option \<times> 'w" where
  "if_ok r k = (case r of (Some err, w) \<Rightarrow> (Some err, w) | (None, w) \<Rightarrow> k w)"

section \<open>Exporting a query\<close>

definition FormatRFC3339 :: "'w exporter \<Rightarrow> civil \<Rightarrow> string" where
  "FormatRFC3339 E d = fmt_date d @ ''T00:00:00'' @ zone E d"

text \<open>
  The templates of the code hold the two actions \<open>{{.StartTime}}\<close> and \<open>{{.EndTime}}\<close>; any other
  action is an error here.
\<close>

function render :: "string \<Rightarrow> string \<Rightarrow> string \<Rightarrow> go_error + string" where
  "render start stop [] = Inr []"
| "render start stop (c # cs) =
     (if has_prefix (c # cs) ''{{'' then
        if has_prefix (c # cs) ''{{.StartTime}}'' then map_sum id ((@) start) (render start stop (drop 13 cs))
        else if has_prefix (c # cs) ''{{.EndTime}}'' then map_sum id ((@) stop) (render start stop (drop 11 cs))
        else Inl (OtherError ''bad template'' [])
      else map_sum id ((#) c) (render start stop cs))"
  by pat_completeness auto
termination by (relation "measure (\<lambda>(_, _, s). length s)") auto

definition RenderQueryTemplate :: "'w exporter \<Rightarrow> string \<Rightarrow> civil \<Rightarrow> civil \<Rightarrow> go_error + string" where
  "RenderQueryTemplate E queryTmpl startTime endTime =
     render (FormatRFC3339 E startTime) (FormatRFC3339 E endTime) queryTmpl"

definition newline :: string where "newline = [CHR 0x0A]"

text \<open>The loop over the rows: what it wrote so far, and the error that ended it.\<close>

fun export_rows :: "'w exporter \<Rightarrow> string \<Rightarrow> (go_error + string) list \<Rightarrow> 'w \<Rightarrow> go_error option \<times> string \<times> 'w" where
  "export_rows E acc [] w = (None, acc, w)"
| "export_rows E acc (r # rows) w =
     (case r of
        Inl err \<Rightarrow> (Some err, acc, w)
      | Inr row \<Rightarrow>
          (case gz_Write E row w of
             (Some err, w) \<Rightarrow> (Some err, acc, w)
           | (None, w) \<Rightarrow>
               (case gz_Write E newline w of
                  (Some err, w) \<Rightarrow> (Some err, acc @ row, w)
                | (None, w) \<Rightarrow> export_rows E (acc @ row @ newline) rows w)))"

definition wrap_query :: "string \<Rightarrow> string" where
  "wrap_query query =
     ''SELECT convert_to(json_strip_nulls(row_to_json(r))::text, '' @ [CHR 0x27] @ ''UTF8'' @ [CHR 0x27] @ '') FROM ('' @ query @ '') r''"

definition ExportQuery :: "'w exporter \<Rightarrow> string \<Rightarrow> string \<Rightarrow> 'w \<Rightarrow> go_error option \<times> 'w" where
  "ExportQuery E path query w =
     if_ok (tmp_Create E w) (\<lambda>w.
       case ex_Query E (wrap_query query) w of
         (Inl err, w) \<Rightarrow> (Some err, w)
       | (Inr rows, w) \<Rightarrow>
           (case export_rows E [] rows w of
              (Some err, _, w) \<Rightarrow> (Some err, w)
            | (None, content, w) \<Rightarrow>
                if_ok (gz_Close E w) (\<lambda>w.
                if_ok (tmp_Seek E 1 w) (\<lambda>w.
                if_ok (tmp_Seek E 0 w) (\<lambda>w.
                if_ok (st_PutObject (ex_storage E) path (gzip E content) ''application/gzip'' w) (\<lambda>w.
                if_ok (tmp_Close E w) (\<lambda>w. (None, w))))))))"

definition ExportDeltaFile :: "'w exporter \<Rightarrow> string \<Rightarrow> string \<Rightarrow> civil \<Rightarrow> civil \<Rightarrow> 'w \<Rightarrow> go_error option \<times> 'w" where
  "ExportDeltaFile E path queryTmpl startTime endTime w =
     (case RenderQueryTemplate E queryTmpl startTime endTime of
        Inl err \<Rightarrow> (Some err, w)
      | Inr query \<Rightarrow> if_ok (ExportQuery E path query w) (\<lambda>w. (None, w)))"

section \<open>Folders\<close>

text \<open>\<open>strings.LastIndexByte\<close>, with \<open>None\<close> for -1\<close>

definition last_index :: "char \<Rightarrow> string \<Rightarrow> nat option" where
  "last_index c s =
     (let r = dropWhile (\<lambda>x. x \<noteq> c) (rev s) in if r = [] then None else Some (length r - 1))"

definition set_insert :: "string \<Rightarrow> string list \<Rightarrow> string list" where
  "set_insert k ks = (if k \<in> set ks then ks else ks @ [k])"

lemma last_index_less: "last_index c s = Some i \<Longrightarrow> i < length s"
proof -
  assume a: "last_index c s = Some i"
  let ?r = "dropWhile (\<lambda>x. x \<noteq> c) (rev s)"
  have "length ?r \<le> length s" using length_dropWhile_le [of _ "rev s"] by simp
  moreover have "length ?r > 0" "i = length ?r - 1" using a by (simp_all add: last_index_def Let_def split: if_splits)
  ultimately show ?thesis by linarith
qed

function addFolder_loop :: "string list \<Rightarrow> string \<Rightarrow> string list" where
  "addFolder_loop changedFolders folder =
     (let changedFolders = set_insert (folder @ ''/'') changedFolders in
      case last_index (CHR ''/'') folder of
        None \<Rightarrow> changedFolders
      | Some i \<Rightarrow> addFolder_loop changedFolders (take i folder))"
  by pat_completeness auto
termination by (relation "measure (\<lambda>(_, s). length s)") (auto dest: last_index_less)

declare addFolder_loop.simps [simp del]

definition addFolder :: "string list \<Rightarrow> string \<Rightarrow> string list" where
  "addFolder changedFolders folder = set_insert '''' (addFolder_loop changedFolders folder)"

section \<open>Exporting the deltas of a day\<close>

text \<open>The listing of what is there: the keys found, or the error of the listing.\<close>

fun found_keys :: "string \<Rightarrow> object_info list \<Rightarrow> go_error + string list" where
  "found_keys prefix [] = Inr []"
| "found_keys prefix (object # objects) =
     (case obj_Err object of
        Some err \<Rightarrow> Inl err
      | None \<Rightarrow> map_sum id ((#) (trim_prefix (obj_Key object) prefix)) (found_keys prefix objects))"

fun export_tables ::
  "'w exporter \<Rightarrow> string \<Rightarrow> string \<Rightarrow> string list \<Rightarrow> civil \<Rightarrow> civil \<Rightarrow> exporterTableInfo list \<Rightarrow> string list \<Rightarrow> 'w \<Rightarrow>
   go_error option \<times> string list \<times> 'w" where
  "export_tables E directory prefix foundKeys startTime endTime [] changedFolders w = (None, changedFolders, w)"
| "export_tables E directory prefix foundKeys startTime endTime (table # tables) changedFolders w =
     (if \<not> tab_delta table then export_tables E directory prefix foundKeys startTime endTime tables changedFolders w
      else let key = tab_name table @ ''.jsonl.gz'' in
        if key \<in> set foundKeys then export_tables E directory prefix foundKeys startTime endTime tables changedFolders w
        else case ExportDeltaFile E (prefix @ key) (tab_query table) startTime endTime w of
          (Some err, w) \<Rightarrow> (Some err, changedFolders, w)
        | (None, w) \<Rightarrow>
            export_tables E directory prefix foundKeys startTime endTime tables (addFolder changedFolders directory) w)"

definition ExportDeltaFiles ::
  "'w exporter \<Rightarrow> exporterTableInfo list \<Rightarrow> civil \<Rightarrow> civil \<Rightarrow> string list \<Rightarrow> 'w \<Rightarrow> go_error option \<times> string list \<times> 'w" where
  "ExportDeltaFiles E tables startTime endTime changedFolders w =
     (let directory = fmt_month startTime;
          prefix = directory @ ''/'' @ fmt_date startTime @ ''-''
      in case found_keys prefix (st_ListObjects (ex_storage E) prefix w) of
           Inl err \<Rightarrow> (Some err, changedFolders, w)
         | Inr foundKeys \<Rightarrow> export_tables E directory prefix foundKeys startTime endTime tables changedFolders w)"

definition CreateBucket :: "'w storage \<Rightarrow> 'w \<Rightarrow> go_error option \<times> 'w" where
  "CreateBucket S w =
     (case st_BucketExists S w of
        Inl err \<Rightarrow> (Some err, w)
      | Inr exists \<Rightarrow> if exists then (None, w) else st_MakeBucket S w)"

section \<open>Index files\<close>

record fileInfo =
  fi_name :: string
  fi_size :: int

text \<open>
  \<open>fmt.Sprintf\<close> with the verb \<open>%.1f\<close> of the quotient \<open>n / d\<close>, \<open>d\<close> a power of 1024: the exact quotient
  is a float for sizes below \<open>2 ^ 53\<close>, and it is rounded to a tenth, half to even.
\<close>

definition fmt_tenth :: "int \<Rightarrow> int \<Rightarrow> string" where
  "fmt_tenth n d =
     (let q = 10 * n div d; r = 10 * n mod d;
          q = (if 2 * r > d \<or> 2 * r = d \<and> odd q then q + 1 else q)
      in format_int (q div 10) @ ''.'' @ format_int (q mod 10))"

text \<open>The size as the code shows it: the unit grows while what is left is more than 1024.\<close>

definition fmt_size :: "int \<Rightarrow> string" where
  "fmt_size sz =
     (let (d, unit) = (1, '' B'');
          (d, unit) = (if sz > 1024 * d then (d * 1024, '' KB'') else (d, unit));
          (d, unit) = (if sz > 1024 * d then (d * 1024, '' MB'') else (d, unit));
          (d, unit) = (if sz > 1024 * d then (d * 1024, '' GB'') else (d, unit))
      in '' ('' @ fmt_tenth sz d @ unit @ '')'')"

text \<open>
  \<open>json.Marshal\<close> of the entries. Control characters, quotes, backslashes, the characters that are
  special in HTML and the line and paragraph separators \<open>U+2028\<close> and \<open>U+2029\<close> are escaped, a byte that is not
  part of an UTF-8 sequence becomes \<open>U+FFFD\<close>, and everything else is copied.
\<close>

definition hex4 :: "nat \<Rightarrow> string" where
  "hex4 n = (let h = (\<lambda>d. char_of (if d < 10 then 48 + d else 87 + d)) in
     [CHR 0x5C, CHR ''u'', CHR ''0'', CHR ''0'', h (n div 16), h (n mod 16)])"

definition json_char :: "char \<Rightarrow> string" where
  "json_char c =
     (if c = CHR 0x22 \<or> c = CHR 0x5C then [CHR 0x5C, c]
      else if c = CHR 0x0A then [CHR 0x5C, CHR ''n'']
      else if c = CHR 0x0D then [CHR 0x5C, CHR ''r'']
      else if c = CHR 0x09 then [CHR 0x5C, CHR ''t'']
      else if (of_char c :: nat) < 32 \<or> c \<in> set ''<>&'' then hex4 (of_char c)
      else [c])"

text \<open>The length of the UTF-8 sequence that a text beyond ASCII begins with, 0 if there is none.\<close>

definition byte_in :: "nat \<Rightarrow> nat \<Rightarrow> char \<Rightarrow> bool" where
  "byte_in lo hi c = (lo \<le> of_char c \<and> of_char c \<le> hi)"

definition continued :: "string \<Rightarrow> nat \<Rightarrow> bool" where
  "continued s n = (n \<le> length s \<and> list_all (byte_in 0x80 0xBF) (take n s))"

definition rune_length :: "string \<Rightarrow> nat" where
  "rune_length s =
     (case s of
        a # b # cs \<Rightarrow>
          if byte_in 0xC2 0xDF a \<and> byte_in 0x80 0xBF b then 2
          else if (byte_in 0xE0 0xE0 a \<and> byte_in 0xA0 0xBF b \<or> byte_in 0xE1 0xEC a \<and> byte_in 0x80 0xBF b \<or>
                   byte_in 0xED 0xED a \<and> byte_in 0x80 0x9F b \<or> byte_in 0xEE 0xEF a \<and> byte_in 0x80 0xBF b) \<and> continued cs 1 then 3
          else if (byte_in 0xF0 0xF0 a \<and> byte_in 0x90 0xBF b \<or> byte_in 0xF1 0xF3 a \<and> byte_in 0x80 0xBF b \<or>
                   byte_in 0xF4 0xF4 a \<and> byte_in 0x80 0x8F b) \<and> continued cs 2 then 4
          else 0
      | _ \<Rightarrow> 0)"

definition json_rune :: "string \<Rightarrow> string" where
  "json_rune r =
     (if r = [CHR 0xE2, CHR 0x80, CHR 0xA8] then CHR 0x5C # ''u2028''
      else if r = [CHR 0xE2, CHR 0x80, CHR 0xA9] then CHR 0x5C # ''u2029'' else r)"

fun json_text :: "string \<Rightarrow> string" where
  "json_text [] = []"
| "json_text (c # cs) =
     (if (of_char c :: nat) < 0x80 then json_char c @ json_text cs
      else let n = rune_length (c # cs) in
        if n = 0 then CHR 0x5C # ''ufffd'' @ json_text cs
        else json_rune (take n (c # cs)) @ json_text (drop (n - 1) cs))"

definition json_string :: "string \<Rightarrow> string" where
  "json_string s = [CHR 0x22] @ json_text s @ [CHR 0x22]"

text \<open>A sequence lies inside the text, and a text that needs no escaping is copied.\<close>

lemma rune_length_le: "rune_length s \<le> length s"
  by (auto simp: rune_length_def continued_def split: list.split)

lemma json_text_plain:
  "\<forall>c \<in> set s. 32 \<le> (of_char c :: nat) \<and> (of_char c :: nat) < 0x80 \<and> c \<noteq> CHR 0x22 \<and> c \<noteq> CHR 0x5C \<and> c \<notin> set ''<>&'' \<Longrightarrow>
    json_text s = s"
proof (induction s)
  case (Cons c s)
  have "c \<in> set (c # s)" by simp
  from bspec [OF Cons.prems this]
  have c: "32 \<le> (of_char c :: nat)" "(of_char c :: nat) < 0x80" "c \<noteq> CHR 0x22" "c \<noteq> CHR 0x5C" "c \<notin> set ''<>&''"
    by blast+
  have "(of_char (CHR 0x0A) :: nat) < 32" "(of_char (CHR 0x0D) :: nat) < 32" "(of_char (CHR 0x09) :: nat) < 32" by simp_all
  with c(1) have "c \<noteq> CHR 0x0A" "c \<noteq> CHR 0x0D" "c \<noteq> CHR 0x09" by (metis not_less)+
  with c have "json_char c = [c]" by (simp add: json_char_def)
  moreover have "json_text s = s" using Cons.prems by (intro Cons.IH) (metis list.set_intros(2))
  ultimately show ?case using c(2) by simp
qed simp

definition json_fileInfo :: "fileInfo \<Rightarrow> string" where
  "json_fileInfo f =
     ''{'' @ json_string ''name'' @ '':'' @ json_string (fi_name f) @
     (if fi_size f = 0 then [] else '','' @ json_string ''size'' @ '':'' @ format_int (fi_size f)) @ ''}''"

definition json_files :: "fileInfo list \<Rightarrow> string" where
  "json_files fs = ''['' @ join_with (CHR '','') (map json_fileInfo fs) @ '']''"

definition index_head :: "string \<Rightarrow> string" where
  "index_head prefix =
     (let t = trim_right prefix ''/'' in
      ''<!DOCTYPE html>'' @ newline @ ''<html>'' @ newline @
      ''<head><title>Index of /'' @ t @ ''</title></head>'' @ newline @ ''<body>'' @ newline @
      ''<h1>Index of /'' @ t @ ''</h1>'' @ newline @ ''<ul>'' @ newline)"

definition index_item :: "string \<Rightarrow> int \<Rightarrow> string" where
  "index_item name sz =
     ''<li><a href='' @ [CHR 0x22] @ name @ [CHR 0x22] @ ''>'' @ name @ ''</a>'' @
     (if sz > 0 then fmt_size sz else []) @ ''</li>'' @ newline"

definition index_tail :: string where
  "index_tail =
     ''<li><a href='' @ [CHR 0x22] @ ''index.html'' @ [CHR 0x22] @ ''>index.html</a></li>'' @ newline @
     ''<li><a href='' @ [CHR 0x22] @ ''index.json'' @ [CHR 0x22] @ ''>index.json</a></li>'' @ newline @
     ''</ul>'' @ newline @ ''</body>'' @ newline @ ''</html>''"

text \<open>
  The loop over a listing and the function itself, which call each other when the index is recursive.
  The error of a recursive call is dropped, and the loop does not look at the error of an object.
  The fuel bounds the depth of the recursion; \<open>None\<close> is running out of it.
\<close>

fun index_loop ::
  "(string \<Rightarrow> 'w \<Rightarrow> (go_error option \<times> 'w) option) \<Rightarrow> string \<Rightarrow> bool \<Rightarrow> object_info list \<Rightarrow> string \<Rightarrow> fileInfo list \<Rightarrow> 'w \<Rightarrow>
   (string \<times> fileInfo list \<times> 'w) option" where
  "index_loop rec_call prefix recursive [] sb infos w = Some (sb, infos, w)"
| "index_loop rec_call prefix recursive (obj # objects) sb infos w =
     (if obj_Key obj = ''/'' then index_loop rec_call prefix recursive objects sb infos w
      else let name = trim_prefix (obj_Key obj) prefix in
        if has_prefix name ''index.'' then index_loop rec_call prefix recursive objects sb infos w
        else
          let sb = sb @ index_item name (obj_Size obj) in
          (case (if has_suffix (obj_Key obj) ''/'' \<and> recursive then map_option snd (rec_call (obj_Key obj) w) else Some w) of
             None \<Rightarrow> None
           | Some w \<Rightarrow>
               index_loop rec_call prefix recursive objects sb (infos @ [\<lparr> fi_name = name, fi_size = obj_Size obj \<rparr>]) w))"

definition write_index :: "'w storage \<Rightarrow> string \<Rightarrow> string \<Rightarrow> fileInfo list \<Rightarrow> 'w \<Rightarrow> go_error option \<times> 'w" where
  "write_index S prefix sb infos w =
     if_ok (st_PutObject S (prefix @ ''index.html'') sb ''text/html'' w) (\<lambda>w.
       st_PutObject S (prefix @ ''index.json'') (json_files infos) ''application/json'' w)"

fun UpdateIndexFile :: "nat \<Rightarrow> 'w storage \<Rightarrow> string \<Rightarrow> bool \<Rightarrow> 'w \<Rightarrow> (go_error option \<times> 'w) option" where
  "UpdateIndexFile 0 S prefix recursive w = None"
| "UpdateIndexFile (Suc fuel) S prefix recursive w =
     (case index_loop (\<lambda>p w. UpdateIndexFile fuel S p recursive w) prefix recursive (st_ListObjects S prefix w)
             (index_head prefix) [] w of
        None \<Rightarrow> None
      | Some (sb, infos, w) \<Rightarrow> Some (write_index S prefix (sb @ index_tail) infos w))"

fun update_folders :: "'w storage \<Rightarrow> string list \<Rightarrow> 'w \<Rightarrow> (go_error option \<times> 'w) option" where
  "update_folders S [] w = Some (None, w)"
| "update_folders S (folder # folders) w =
     (case UpdateIndexFile 1 S folder False w of
        None \<Rightarrow> None
      | Some (Some err, w) \<Rightarrow> Some (Some err, w)
      | Some (None, w) \<Rightarrow> update_folders S folders w)"

text \<open>The command that rewrites all the index files.\<close>

definition UpdateIndexFiles :: "nat \<Rightarrow> 'w storage \<Rightarrow> 'w \<Rightarrow> (go_error option \<times> 'w) option" where
  "UpdateIndexFiles fuel S w = UpdateIndexFile fuel S '''' True w"

section \<open>The export\<close>

fun export_days ::
  "'w exporter \<Rightarrow> exporterTableInfo list \<Rightarrow> nat \<Rightarrow> civil \<Rightarrow> string list \<Rightarrow> 'w \<Rightarrow> go_error option \<times> string list \<times> 'w" where
  "export_days E tables 0 endTime changedFolders w = (None, changedFolders, w)"
| "export_days E tables (Suc n) endTime changedFolders w =
     (let startTime = prev_day endTime in
      case ExportDeltaFiles E tables startTime endTime changedFolders w of
        (Some err, changedFolders, w) \<Rightarrow> (Some err, changedFolders, w)
      | (None, changedFolders, w) \<Rightarrow> export_days E tables n startTime changedFolders w)"

text \<open>The error of \<open>CreateBucket\<close> is dropped; \<open>today\<close> is the midnight that begins the current day.\<close>

definition maxDays :: "civil \<Rightarrow> nat" where
  "maxDays today = (if day today = 1 then 32 else 7)"

definition Run :: "'w exporter \<Rightarrow> exporterTableInfo list \<Rightarrow> civil \<Rightarrow> 'w \<Rightarrow> (go_error option \<times> 'w) option" where
  "Run E tables today w =
     (let w = snd (CreateBucket (ex_storage E) w) in
      case export_days E tables (maxDays today) today [] w of
        (Some err, _, w) \<Rightarrow> Some (Some err, w)
      | (None, changedFolders, w) \<Rightarrow> update_folders (ex_storage E) (iter_order E changedFolders) w)"

definition AddTable :: "exporterTableInfo list \<Rightarrow> string \<Rightarrow> string \<Rightarrow> bool \<Rightarrow> exporterTableInfo list" where
  "AddTable tables name query delta = tables @ [\<lparr> tab_name = name, tab_query = query, tab_delta = delta \<rparr>]"

definition quote :: string where "quote = [CHR 0x27]"

definition ExportFingerprintUpdateQuery :: string where
  "ExportFingerprintUpdateQuery = newline @
     ''SELECT id, fingerprint, length, created'' @ newline @
     ''FROM fingerprint'' @ newline @
     ''WHERE created >= '' @ quote @ ''{{.StartTime}}'' @ quote @ '' AND created < '' @ quote @ ''{{.EndTime}}'' @ quote @ newline"

definition ExportMetaUpdateQuery :: string where
  "ExportMetaUpdateQuery = newline @
     ''SELECT id, track, artist, album, album_artist, track_no, disc_no, year, created'' @ newline @
     ''FROM meta'' @ newline @
     ''WHERE created >= '' @ quote @ ''{{.StartTime}}'' @ quote @ '' AND created < '' @ quote @ ''{{.EndTime}}'' @ quote @ newline"

definition ExportTrackUpdateQuery :: string where
  "ExportTrackUpdateQuery = newline @
     ''SELECT id, gid, new_id, created, updated'' @ newline @
     ''FROM track'' @ newline @
     ''WHERE'' @ newline @
     ''  (created >= '' @ quote @ ''{{.StartTime}}'' @ quote @ '' AND created < '' @ quote @ ''{{.EndTime}}'' @ quote @ '')'' @ newline @
     ''  OR'' @ newline @
     ''  (updated >= '' @ quote @ ''{{.StartTime}}'' @ quote @ '' AND updated < '' @ quote @ ''{{.EndTime}}'' @ quote @ '')'' @ newline"

definition ExportTrackFingerprintUpdateQuery :: string where
  "ExportTrackFingerprintUpdateQuery = newline @
     ''SELECT id, track_id, id AS fingerprint_id, submission_count, created, updated'' @ newline @
     ''FROM fingerprint'' @ newline @
     ''WHERE'' @ newline @
     ''  (created >= '' @ quote @ ''{{.StartTime}}'' @ quote @ '' AND created < '' @ quote @ ''{{.EndTime}}'' @ quote @ '')'' @ newline @
     ''  OR'' @ newline @
     ''  (updated >= '' @ quote @ ''{{.StartTime}}'' @ quote @ '' AND updated < '' @ quote @ ''{{.EndTime}}'' @ quote @ '')'' @ newline"

definition ExportTrackMbidUpdateQuery :: string where
  "ExportTrackMbidUpdateQuery = newline @
     ''SELECT id, track_id, mbid, submission_count, nullif(disabled, false) AS disabled, created, updated'' @ newline @
     ''FROM track_mbid'' @ newline @
     ''WHERE'' @ newline @
     ''  (created >= '' @ quote @ ''{{.StartTime}}'' @ quote @ '' AND created < '' @ quote @ ''{{.EndTime}}'' @ quote @ '')'' @ newline @
     ''  OR'' @ newline @
     ''  (updated >= '' @ quote @ ''{{.StartTime}}'' @ quote @ '' AND updated < '' @ quote @ ''{{.EndTime}}'' @ quote @ '')'' @ newline"

definition ExportTrackPuidUpdateQuery :: string where
  "ExportTrackPuidUpdateQuery = newline @
     ''SELECT id, track_id, puid, submission_count, created, updated'' @ newline @
     ''FROM track_puid'' @ newline @
     ''WHERE'' @ newline @
     ''  (created >= '' @ quote @ ''{{.StartTime}}'' @ quote @ '' AND created < '' @ quote @ ''{{.EndTime}}'' @ quote @ '')'' @ newline @
     ''  OR'' @ newline @
     ''  (updated >= '' @ quote @ ''{{.StartTime}}'' @ quote @ '' AND updated < '' @ quote @ ''{{.EndTime}}'' @ quote @ '')'' @ newline"

definition ExportTrackMetaUpdateQuery :: string where
  "ExportTrackMetaUpdateQuery = newline @
     ''SELECT id, track_id, meta_id, submission_count, created, updated'' @ newline @
     ''FROM track_meta'' @ newline @
     ''WHERE'' @ newline @
     ''  (created >= '' @ quote @ ''{{.StartTime}}'' @ quote @ '' AND created < '' @ quote @ ''{{.EndTime}}'' @ quote @ '')'' @ newline @
     ''  OR'' @ newline @
     ''  (updated >= '' @ quote @ ''{{.StartTime}}'' @ quote @ '' AND updated < '' @ quote @ ''{{.EndTime}}'' @ quote @ '')'' @ newline"

definition export_table_list :: "exporterTableInfo list" where
  "export_table_list =
     (let t = AddTable [] ''fingerprint-update'' ExportFingerprintUpdateQuery True;
          t = AddTable t ''meta-update'' ExportMetaUpdateQuery True;
          t = AddTable t ''track-update'' ExportTrackUpdateQuery True;
          t = AddTable t ''track_fingerprint-update'' ExportTrackFingerprintUpdateQuery True;
          t = AddTable t ''track_mbid-update'' ExportTrackMbidUpdateQuery True;
          t = AddTable t ''track_puid-update'' ExportTrackPuidUpdateQuery True
      in AddTable t ''track_meta-update'' ExportTrackMetaUpdateQuery True)"

definition ExportDataFiles :: "'w exporter \<Rightarrow> civil \<Rightarrow> 'w \<Rightarrow> (go_error option \<times> 'w) option" where
  "ExportDataFiles E today w = Run E export_table_list today w"

text \<open>The older export of \<open>index.go\<close>, which only finds out what is there.\<close>

definition ExportDay :: "'w storage \<Rightarrow> civil \<Rightarrow> string list \<Rightarrow> 'w \<Rightarrow> go_error option \<times> string list" where
  "ExportDay S d changedFolders w =
     (let folder = fmt_month d;
          prefix = folder @ ''/'' @ fmt_date d @ ''-''
      in case found_keys prefix (st_ListObjects S prefix w) of
           Inl err \<Rightarrow> (Some err, changedFolders)
         | Inr foundKeys \<Rightarrow> (None, addFolder changedFolders folder))"

fun export_last :: "'w storage \<Rightarrow> nat \<Rightarrow> civil \<Rightarrow> string list \<Rightarrow> 'w \<Rightarrow> go_error option \<times> string list" where
  "export_last S 0 d changedFolders w = (None, changedFolders)"
| "export_last S (Suc n) d changedFolders w =
     (case ExportDay S d changedFolders w of
        (Some err, changedFolders) \<Rightarrow> (Some err, changedFolders)
      | (None, changedFolders) \<Rightarrow> export_last S n (prev_day d) changedFolders w)"

definition ExportLastDays :: "'w storage \<Rightarrow> (string list \<Rightarrow> string list) \<Rightarrow> int \<Rightarrow> civil \<Rightarrow> 'w \<Rightarrow> (go_error option \<times> 'w) option" where
  "ExportLastDays S order numDays today w =
     (case export_last S (nat numDays) today [] w of
        (Some err, _) \<Rightarrow> Some (Some err, w)
      | (None, changedFolders) \<Rightarrow> update_folders S (order changedFolders) w)"

section \<open>The calendar\<close>

definition valid_civil :: "civil \<Rightarrow> bool" where
  "valid_civil d \<longleftrightarrow> 1 \<le> month d \<and> month d \<le> 12 \<and> 1 \<le> day d \<and> day d \<le> days_in (year d) (month d)"

text \<open>The number of a day: the days of the years, of the months of this year, and of this month before it.\<close>

definition year_days :: "int \<Rightarrow> int" where
  "year_days y = 365 * y + (y - 1) div 4 - (y - 1) div 100 + (y - 1) div 400"

fun month_days :: "int \<Rightarrow> nat \<Rightarrow> int" where
  "month_days y 0 = 0"
| "month_days y (Suc m) = month_days y m + days_in y (int m + 1)"

definition daynum :: "civil \<Rightarrow> int" where
  "daynum d = year_days (year d) + month_days (year d) (nat (month d) - 1) + day d"

lemma year_days_next: "year_days (y + 1) = year_days y + (if leap y then 366 else 365)"
proof -
  have step: "y div k = (y - 1) div k + (if y mod k = 0 then 1 else 0)" if "0 < k" for k :: int
  proof (cases "y mod k = 0")
    case True
    then obtain q where "y = k * q" by auto
    moreover have "(k * q - 1) div k = q - 1"
      by (rule int_div_pos_eq [where r = "k - 1"]) (use that in \<open>simp_all add: algebra_simps\<close>)
    ultimately show ?thesis using that by simp
  next
    case False
    have "(y - 1) div k = y div k"
      by (rule int_div_pos_eq [where r = "y mod k - 1"])
        (use that False pos_mod_sign [OF that, of y] pos_mod_bound [OF that, of y] in \<open>simp_all\<close>)
    then show ?thesis using False by simp
  qed
  have "y mod 100 = 0 \<Longrightarrow> y mod 4 = 0" "y mod 400 = 0 \<Longrightarrow> y mod 100 = 0"
    by (auto simp flip: dvd_eq_mod_eq_0 intro: dvd_trans [of 4 100 y] dvd_trans [of 100 400 y])
  moreover have "365 * (y + 1) + (a + (if P then 1 else 0)) - (b + (if Q then 1 else 0)) + (c + (if R then 1 else 0)) =
      365 * y + a - b + c + (if P \<and> (\<not> Q \<or> R) then 366 else 365)"
    if "Q \<Longrightarrow> P" "R \<Longrightarrow> Q" for a b c :: int and P Q R
    using that by (cases P; cases Q; cases R) simp_all
  ultimately show ?thesis
    using step [of 4] step [of 100] step [of 400] by (simp only: year_days_def leap_def add_diff_cancel_right' zero_less_numeral)
qed

lemma month_days_year: "month_days y 11 = (if leap y then 335 else 334)"
  by (simp add: numeral_eq_Suc days_in_def)

text \<open>
  The day before is a date of the calendar, one day earlier; so the windows of the export, each
  from the day before to the day, follow each other without a gap or an overlap.
\<close>

theorem prev_day_consecutive:
  assumes "valid_civil d"
  shows "valid_civil ((prev_day ^^ n) d) \<and> daynum ((prev_day ^^ n) d) = daynum d - int n"
proof (induction n)
  case (Suc n)
  have step: "valid_civil (prev_day d) \<and> daynum (prev_day d) = daynum d - 1" if v: "valid_civil d" for d
  proof (cases "day d > 1")
    case True
    with v show ?thesis by (auto simp: prev_day_def valid_civil_def daynum_def)
  next
    case False
    then have 1: "day d = 1" using v by (simp add: valid_civil_def)
    show ?thesis
    proof (cases "month d > 1")
      case True
      define m where "m = nat (month d) - 2"
      have m: "month d = int (Suc (Suc m))" using True by (simp add: m_def)
      have m': "int (Suc (Suc m)) - 1 = int (Suc m)" "nat (1 + int m) - Suc 0 = m" "nat (int m + 2) - Suc 0 = Suc m"
        by simp_all
      have "0 < days_in (year d) (month d - 1)" by (simp add: days_in_def)
      with True 1 v show ?thesis unfolding prev_day_def valid_civil_def daynum_def m m'(1) by (simp add: m' add.commute)
    next
      case False
      then have "month d = 1" using v by (simp add: valid_civil_def)
      with 1 show ?thesis using year_days_next [of "year d - 1"]
        by (simp add: prev_day_def valid_civil_def daynum_def month_days_year days_in_def)
    qed
  qed
  then show ?case using Suc step [of "(prev_day ^^ n) d"] by simp
qed (simp add: assms)

theorem prev_day_consecutive_witness:
  "daynum ((prev_day ^^ 32) \<lparr> year = 2024, month = 3, day = 1 \<rparr>) = daynum \<lparr> year = 2024, month = 3, day = 1 \<rparr> - 32"
  using prev_day_consecutive [of "\<lparr> year = 2024, month = 3, day = 1 \<rparr>" 32] by (simp add: valid_civil_def days_in_def)

section \<open>Folders and their ancestors\<close>

definition folder_set :: "string \<Rightarrow> string set" where
  "folder_set folder = {''''} \<union> {a @ ''/'' | a b. folder = a \<and> b = '''' \<or> folder = a @ ''/'' @ b}"

lemma set_insert_set [simp]: "set (set_insert k ks) = insert k (set ks)"
  by (auto simp: set_insert_def)

lemma last_index_None: "last_index c s = None \<longleftrightarrow> c \<notin> set s"
  by (auto simp: last_index_def Let_def)

lemma last_index_Some: "last_index c s = Some i \<Longrightarrow> \<exists>b. s = take i s @ c # b \<and> c \<notin> set b"
proof -
  assume a: "last_index c s = Some i"
  then have "c \<in> set s" using last_index_None [of c s] by auto
  then obtain ys zs where s: "s = ys @ c # zs" "c \<notin> set zs" by (meson split_list_last)
  have "dropWhile (\<lambda>x. x \<noteq> c) (rev s) = c # rev ys"
  proof -
    have "x \<in> set (rev zs) \<Longrightarrow> x \<noteq> c" for x using s(2) by auto
    then show ?thesis using s(1) dropWhile_append2 [of "rev zs" "\<lambda>x. x \<noteq> c" "c # rev ys"] by simp
  qed
  then have "i = length ys" using a by (simp add: last_index_def)
  with s show ?thesis by auto
qed

lemma set_addFolder_loop:
  "set (addFolder_loop changed folder) = set changed \<union> {a @ ''/'' | a b. folder = a \<and> b = '''' \<or> folder = a @ ''/'' @ b}"
proof (induction changed folder rule: addFolder_loop.induct)
  case (1 changed folder)
  show ?case
  proof (cases "last_index (CHR ''/'') folder")
    case None
    then have "CHR ''/'' \<notin> set folder" by (simp add: last_index_None)
    then have "folder \<noteq> a @ ''/'' @ b" for a b by auto
    with None show ?thesis by (subst addFolder_loop.simps) auto
  next
    case (Some i)
    then obtain b0 where b0: "folder = take i folder @ ''/'' @ b0" "CHR ''/'' \<notin> set b0" using last_index_Some by force
    let ?up = "take i folder"
    have "(\<exists>b. folder = a @ ''/'' @ b) \<longleftrightarrow> ?up = a \<or> (\<exists>b. ?up = a @ ''/'' @ b)" for a
    proof
      assume "\<exists>b. folder = a @ ''/'' @ b"
      then obtain b where "?up @ CHR ''/'' # b0 = a @ CHR ''/'' # b" using b0(1) by auto
      then show "?up = a \<or> (\<exists>b. ?up = a @ ''/'' @ b)"
        using b0(2) by (auto simp: append_eq_append_conv2 Cons_eq_append_conv append_eq_Cons_conv)
    next
      assume "?up = a \<or> (\<exists>b. ?up = a @ ''/'' @ b)"
      then show "\<exists>b. folder = a @ ''/'' @ b"
      proof
        assume "?up = a"
        then show ?thesis using b0(1) by auto
      next
        assume "\<exists>b. ?up = a @ ''/'' @ b"
        then obtain b where "?up = a @ ''/'' @ b" by blast
        then have "folder = a @ ''/'' @ (b @ ''/'' @ b0)" using b0(1) by simp
        then show ?thesis by blast
      qed
    qed
    then have "{a @ ''/'' | a b. folder = a \<and> b = '''' \<or> folder = a @ ''/'' @ b} =
        insert (folder @ ''/'') {a @ ''/'' | a b. ?up = a \<and> b = '''' \<or> ?up = a @ ''/'' @ b}" by blast
    moreover have "set (addFolder_loop changed folder) =
        set (addFolder_loop (set_insert (folder @ ''/'') changed) ?up)"
      using Some by (subst addFolder_loop.simps) simp
    ultimately show ?thesis using 1 Some by simp
  qed
qed

lemma set_addFolder: "set (addFolder changed folder) = set changed \<union> folder_set folder"
  by (auto simp: addFolder_def folder_set_def set_addFolder_loop)

section \<open>The contract of an object store\<close>

text \<open>
  \<open>objs\<close> is what the store holds. A listing by a prefix that sends no error has the keys with this
  prefix and nothing but a name behind it, and the folders below the prefix that hold a key.
\<close>

definition listing :: "string \<Rightarrow> (string \<Rightarrow> string option) \<Rightarrow> string set" where
  "listing p m = {p @ n | n. m (p @ n) \<noteq> None \<and> CHR ''/'' \<notin> set n} \<union>
     {p @ n @ ''/'' | n. CHR ''/'' \<notin> set n \<and> (\<exists>b. m (p @ n @ ''/'' @ b) \<noteq> None)}"

locale object_store =
  fixes S :: "'w storage"
    and objs :: "'w \<Rightarrow> string \<Rightarrow> string option"
  assumes put_law: "st_PutObject S k c t w = (e, w') \<Longrightarrow> objs w' = (if e = None then (objs w)(k \<mapsto> c) else objs w)"
    and list_law: "(\<forall>obj \<in> set (st_ListObjects S p w). obj_Err obj = None) \<Longrightarrow>
      obj_Key ` set (st_ListObjects S p w) = listing p (objs w)"
    and make_law: "st_MakeBucket S w = (e, w') \<Longrightarrow> objs w' = objs w"
begin

definition keeps :: "(string \<Rightarrow> bool) \<Rightarrow> 'w \<Rightarrow> 'w \<Rightarrow> bool" where
  "keeps P w w' \<longleftrightarrow> (\<forall>k. objs w k \<noteq> None \<longrightarrow> objs w' k \<noteq> None \<and> (P k \<longrightarrow> objs w' k = objs w k))"

lemma keeps_refl [simp]: "keeps P w w"
  by (simp add: keeps_def)

lemma keeps_trans: "keeps P w w' \<Longrightarrow> keeps P w' w'' \<Longrightarrow> keeps P w w''"
  by (fastforce simp: keeps_def)

lemma CreateBucket_law: "objs (snd (CreateBucket S w)) = objs w"
  using make_law [of w] by (auto simp: CreateBucket_def split: sum.split) (metis prod.collapse)

definition not_index :: "string \<Rightarrow> bool" where
  "not_index k \<longleftrightarrow> (\<forall>p. k \<noteq> p @ ''index.html'' \<and> k \<noteq> p @ ''index.json'')"

lemma write_index_law:
  assumes "write_index S p sb infos w = (e, w')"
  shows "keeps not_index w w' \<and> (e = None \<longrightarrow> objs w' (p @ ''index.html'') \<noteq> None \<and> objs w' (p @ ''index.json'') \<noteq> None)"
proof -
  obtain e1 w1 where 1: "st_PutObject S (p @ ''index.html'') sb ''text/html'' w = (e1, w1)"
    by (cases "st_PutObject S (p @ ''index.html'') sb ''text/html'' w")
  obtain e2 w2 where 2: "st_PutObject S (p @ ''index.json'') (json_files infos) ''application/json'' w1 = (e2, w2)"
    by (cases "st_PutObject S (p @ ''index.json'') (json_files infos) ''application/json'' w1")
  show ?thesis
    using assms put_law [OF 1] put_law [OF 2] 1 2
    by (auto simp: write_index_def if_ok_def keeps_def not_index_def split: option.splits if_splits)
qed

text \<open>An index that is not recursive.\<close>

lemma index_loop_flat: "\<exists>sb' infos'. index_loop f p False objects sb infos w = Some (sb', infos', w)"
  by (induction objects arbitrary: sb infos) (simp_all add: Let_def)

lemma UpdateIndexFile_flat:
  "\<exists>e w'. UpdateIndexFile (Suc n) S p False w = Some (e, w') \<and> keeps not_index w w' \<and>
     (e = None \<longrightarrow> objs w' (p @ ''index.html'') \<noteq> None \<and> objs w' (p @ ''index.json'') \<noteq> None)"
proof -
  obtain sb infos where l: "index_loop (\<lambda>p w. UpdateIndexFile n S p False w) p False (st_ListObjects S p w) (index_head p) [] w =
      Some (sb, infos, w)"
    using index_loop_flat [of "\<lambda>p w. UpdateIndexFile n S p False w" p "st_ListObjects S p w" "index_head p" "[]" w] by blast
  obtain e w' where "write_index S p (sb @ index_tail) infos w = (e, w')"
    by (cases "write_index S p (sb @ index_tail) infos w")
  with write_index_law l show ?thesis by auto
qed

lemma update_folders_law:
  "\<exists>e w'. update_folders S folders w = Some (e, w') \<and> keeps not_index w w' \<and>
     (e = None \<longrightarrow> (\<forall>p \<in> set folders. objs w' (p @ ''index.html'') \<noteq> None \<and> objs w' (p @ ''index.json'') \<noteq> None))"
proof (induction folders arbitrary: w)
  case (Cons p folders)
  obtain e w1 where u: "UpdateIndexFile 1 S p False w = Some (e, w1)" "keeps not_index w w1"
    "e = None \<Longrightarrow> objs w1 (p @ ''index.html'') \<noteq> None \<and> objs w1 (p @ ''index.json'') \<noteq> None"
    using UpdateIndexFile_flat [of 0 p w] by auto
  show ?case
  proof (cases e)
    case None
    obtain e' w' where f: "update_folders S folders w1 = Some (e', w')" "keeps not_index w1 w'"
      "e' = None \<Longrightarrow> \<forall>p \<in> set folders. objs w' (p @ ''index.html'') \<noteq> None \<and> objs w' (p @ ''index.json'') \<noteq> None"
      using Cons [of w1] by blast
    have "objs w' (p @ ''index.html'') \<noteq> None \<and> objs w' (p @ ''index.json'') \<noteq> None"
      using u(3) [OF None] f(2) by (simp add: keeps_def)
    then show ?thesis using u f None keeps_trans by fastforce
  qed (use u in auto)
qed simp

end

text \<open>The rest of what the export calls is apart from the store.\<close>

locale export_contract = object_store "ex_storage E" objs
  for E :: "'w exporter" and objs +
  assumes query_law: "objs (snd (ex_Query E q w)) = objs w"
    and create_law: "objs (snd (tmp_Create E w)) = objs w"
    and write_law: "objs (snd (gz_Write E bs w)) = objs w"
    and gz_close_law: "objs (snd (gz_Close E w)) = objs w"
    and seek_law: "objs (snd (tmp_Seek E i w)) = objs w"
    and close_law: "objs (snd (tmp_Close E w)) = objs w"
begin

lemma export_rows_law: "objs (snd (snd (export_rows E acc rows w))) = objs w"
proof (induction rows arbitrary: acc w)
  case (Cons r rows)
  show ?case
  proof (cases r)
    case (Inr row)
    obtain e1 w1 where 1: "gz_Write E row w = (e1, w1)" by (cases "gz_Write E row w")
    obtain e2 w2 where 2: "gz_Write E newline w1 = (e2, w2)" by (cases "gz_Write E newline w1")
    show ?thesis
      using 1 2 Inr Cons write_law [of row w] write_law [of newline w1] by (simp split: option.split)
  qed simp
qed simp

text \<open>Success puts the object; whatever happens, no other key changes.\<close>

lemma ExportQuery_law:
  assumes "ExportQuery E path q w = (e, w')"
  shows "(objs w' = objs w \<and> e \<noteq> None) \<or> (\<exists>c. objs w' = (objs w)(path \<mapsto> c))"
proof -
  obtain e1 w1 where 1: "tmp_Create E w = (e1, w1)" "objs w1 = objs w" using create_law [of w] by (cases "tmp_Create E w") auto
  obtain r w2 where 2: "ex_Query E (wrap_query q) w1 = (r, w2)" "objs w2 = objs w1"
    using query_law [of "wrap_query q" w1] by (cases "ex_Query E (wrap_query q) w1") auto
  show ?thesis
  proof (cases "e1 = None \<and> (\<exists>rows. r = Inr rows)")
    case False
    then show ?thesis using assms 1 2 by (auto simp: ExportQuery_def if_ok_def split: option.splits sum.splits)
  next
    case True
    then obtain rows where rows: "r = Inr rows" by blast
    obtain e3 c w3 where 3: "export_rows E [] rows w2 = (e3, c, w3)" "objs w3 = objs w2"
      using export_rows_law [of "[]" rows w2] by (cases "export_rows E [] rows w2") auto
    obtain e4 w4 where 4: "gz_Close E w3 = (e4, w4)" "objs w4 = objs w3" using gz_close_law [of w3] by (cases "gz_Close E w3") auto
    obtain e5 w5 where 5: "tmp_Seek E 1 w4 = (e5, w5)" "objs w5 = objs w4" using seek_law [of 1 w4] by (cases "tmp_Seek E 1 w4") auto
    obtain e6 w6 where 6: "tmp_Seek E 0 w5 = (e6, w6)" "objs w6 = objs w5" using seek_law [of 0 w5] by (cases "tmp_Seek E 0 w5") auto
    obtain e7 w7 where 7: "st_PutObject (ex_storage E) path (gzip E c) ''application/gzip'' w6 = (e7, w7)"
      by (cases "st_PutObject (ex_storage E) path (gzip E c) ''application/gzip'' w6")
    obtain e8 w8 where 8: "tmp_Close E w7 = (e8, w8)" "objs w8 = objs w7" using close_law [of w7] by (cases "tmp_Close E w7") auto
    show ?thesis
      using assms 1 2 3 4 5 6 8 7 put_law [OF 7] True rows
      by (auto simp: ExportQuery_def if_ok_def split: option.splits if_splits)
  qed
qed

lemma ExportDeltaFile_law:
  assumes "ExportDeltaFile E path q s t w = (e, w')"
  shows "(objs w' = objs w \<and> e \<noteq> None) \<or> (\<exists>c. objs w' = (objs w)(path \<mapsto> c))"
proof (cases "RenderQueryTemplate E q s t")
  case (Inr query)
  obtain e1 w1 where x: "ExportQuery E path query w = (e1, w1)" by (cases "ExportQuery E path query w")
  then have "e = e1 \<and> w' = w1" using assms Inr by (cases e1) (simp_all add: ExportDeltaFile_def if_ok_def)
  with ExportQuery_law [OF x] show ?thesis by simp
qed (use assms in \<open>auto simp: ExportDeltaFile_def\<close>)

text \<open>The key of a table on a day, and what the loop over the tables does to the store.\<close>

lemma export_tables_law:
  assumes "export_tables E dir p found s t tables changed w = (e, changed', w')"
    and "\<forall>tab \<in> set tables. tab_delta tab \<longrightarrow> tab_name tab @ ''.jsonl.gz'' \<notin> set found \<longrightarrow> keep (p @ tab_name tab @ ''.jsonl.gz'') = False"
    and "\<forall>tab \<in> set tables. tab_name tab @ ''.jsonl.gz'' \<in> set found \<longrightarrow> objs w (p @ tab_name tab @ ''.jsonl.gz'') \<noteq> None"
  shows "keeps keep w w' \<and>
    (e = None \<longrightarrow> (\<forall>tab \<in> set tables. tab_delta tab \<longrightarrow> objs w' (p @ tab_name tab @ ''.jsonl.gz'') \<noteq> None)) \<and>
    set changed \<subseteq> set changed' \<and>
    (e = None \<longrightarrow> objs w' = objs w \<or> folder_set dir \<subseteq> set changed') \<and>
    (\<forall>k. objs w' k \<noteq> None \<longrightarrow> objs w k \<noteq> None \<or> (\<exists>n. k = p @ n))"
  using assms
proof (induction tables arbitrary: changed w)
  case (Cons tab tables)
  let ?key = "tab_name tab @ ''.jsonl.gz''"
  show ?case
  proof (cases "tab_delta tab \<and> ?key \<notin> set found")
    case False
    then have "export_tables E dir p found s t tables changed w = (e, changed', w')"
      using Cons.prems(1) by (auto split: if_splits)
    from Cons.IH [OF this] Cons.prems(2,3) have ih: "keeps keep w w'"
      "e = None \<longrightarrow> (\<forall>tab \<in> set tables. tab_delta tab \<longrightarrow> objs w' (p @ tab_name tab @ ''.jsonl.gz'') \<noteq> None)"
      "set changed \<subseteq> set changed'" "e = None \<longrightarrow> objs w' = objs w \<or> folder_set dir \<subseteq> set changed'"
      "\<forall>k. objs w' k \<noteq> None \<longrightarrow> objs w k \<noteq> None \<or> (\<exists>n. k = p @ n)" by simp_all
    moreover have "tab_delta tab \<longrightarrow> objs w' (p @ ?key) \<noteq> None"
      using False Cons.prems(3) ih(1) by (auto simp: keeps_def)
    ultimately show ?thesis by simp
  next
    case True
    obtain e1 w1 where x: "ExportDeltaFile E (p @ ?key) (tab_query tab) s t w = (e1, w1)"
      by (cases "ExportDeltaFile E (p @ ?key) (tab_query tab) s t w")
    have k1: "keeps keep w w1"
      using ExportDeltaFile_law [OF x] Cons.prems(2) True by (auto simp: keeps_def)
    have new: "objs w1 k \<noteq> None \<longrightarrow> objs w k \<noteq> None \<or> (\<exists>n. k = p @ n)" for k
      using ExportDeltaFile_law [OF x] by auto
    show ?thesis
    proof (cases e1)
      case None
      then have rest: "export_tables E dir p found s t tables (addFolder changed dir) w1 = (e, changed', w')"
        using Cons.prems(1) True x by simp
      have found: "\<forall>tab \<in> set tables. tab_name tab @ ''.jsonl.gz'' \<in> set found \<longrightarrow> objs w1 (p @ tab_name tab @ ''.jsonl.gz'') \<noteq> None"
        using Cons.prems(3) k1 by (auto simp: keeps_def)
      have ih: "keeps keep w1 w'"
        "e = None \<longrightarrow> (\<forall>tab \<in> set tables. tab_delta tab \<longrightarrow> objs w' (p @ tab_name tab @ ''.jsonl.gz'') \<noteq> None)"
        "set (addFolder changed dir) \<subseteq> set changed'" "\<forall>k. objs w' k \<noteq> None \<longrightarrow> objs w1 k \<noteq> None \<or> (\<exists>n. k = p @ n)"
        using Cons.IH [OF rest _ found] Cons.prems(2) by simp_all
      have "objs w1 (p @ ?key) \<noteq> None" using ExportDeltaFile_law [OF x] None by auto
      then have "objs w' (p @ ?key) \<noteq> None" using ih(1) by (simp add: keeps_def)
      moreover have "\<forall>k. objs w' k \<noteq> None \<longrightarrow> objs w k \<noteq> None \<or> (\<exists>n. k = p @ n)" using ih(4) new by blast
      moreover have "set changed \<subseteq> set changed'" "folder_set dir \<subseteq> set changed'" using ih(3) by (simp_all add: set_addFolder)
      ultimately show ?thesis using ih(2) keeps_trans [OF k1 ih(1)] by simp
    qed (use Cons.prems(1) True x k1 new in auto)
  qed
qed auto

end

text \<open>A day's key of a table.\<close>

definition day_prefix :: "civil \<Rightarrow> string" where
  "day_prefix d = fmt_month d @ ''/'' @ fmt_date d @ ''-''"

definition day_key :: "civil \<Rightarrow> exporterTableInfo \<Rightarrow> string" where
  "day_key d tab = day_prefix d @ tab_name tab @ ''.jsonl.gz''"

definition plain_tables :: "exporterTableInfo list \<Rightarrow> bool" where
  "plain_tables tables \<longleftrightarrow> (\<forall>tab \<in> set tables. CHR ''/'' \<notin> set (tab_name tab))"

lemma found_keys_Inr:
  "found_keys p objects = Inr found \<Longrightarrow> (\<forall>obj \<in> set objects. obj_Err obj = None) \<and>
    found = map (\<lambda>obj. trim_prefix (obj_Key obj) p) objects"
proof (induction objects arbitrary: found)
  case (Cons obj objects)
  then show ?case by (cases "found_keys p objects") (auto split: option.splits)
qed simp

lemma slash_join: "CHR ''/'' \<notin> set n \<Longrightarrow> n \<noteq> m @ ''/''"
  by auto

lemma slash_in_file:
  assumes "p @ f = a @ ''/'' @ b" and "CHR ''/'' \<notin> set f"
  shows "\<exists>c. p = a @ ''/'' @ c \<and> b = c @ f"
  using assms by (auto simp: append_eq_append_conv2 append_eq_Cons_conv Cons_eq_append_conv)

text \<open>A key tells the month it was exported for.\<close>

lemma pad_no_slash: "CHR ''/'' \<notin> set (pad n i)"
  using format_uint_chars [of "CHR ''/''" "nat i"] by (auto simp: pad_def Let_def)

lemma split_first_slash:
  "a @ ''/'' @ b = a' @ ''/'' @ b' \<Longrightarrow> CHR ''/'' \<notin> set a \<Longrightarrow> CHR ''/'' \<notin> set a' \<Longrightarrow> a = a' \<and> b = b'"
  by (auto simp: append_eq_append_conv2 append_eq_Cons_conv Cons_eq_append_conv)

lemma day_prefix_month: "day_prefix d @ n = day_prefix d' @ n' \<Longrightarrow> fmt_month d = fmt_month d'"
proof -
  let ?y = "\<lambda>d. pad 4 (year d)"
  let ?m = "\<lambda>d. pad 4 (year d) @ ''-'' @ pad 2 (month d)"
  let ?r = "\<lambda>d n. fmt_date d @ ''-'' @ n"
  assume "day_prefix d @ n = day_prefix d' @ n'"
  then have 1: "?y d @ ''/'' @ (?m d @ ''/'' @ ?r d n) = ?y d' @ ''/'' @ (?m d' @ ''/'' @ ?r d' n')"
    by (simp only: day_prefix_def fmt_month_def append_assoc)
  have m: "CHR ''/'' \<notin> set (?m d)" for d using pad_no_slash by simp
  from split_first_slash [OF 1 pad_no_slash pad_no_slash] have y: "?y d = ?y d'"
    and 2: "?m d @ ''/'' @ ?r d n = ?m d' @ ''/'' @ ?r d' n'" by blast+
  from split_first_slash [OF 2 m m] y show ?thesis by (simp only: fmt_month_def)
qed

text \<open>The folders above a month: the root, the year and the month itself.\<close>

lemma folder_set_month: "folder_set (fmt_month d) = {'''', pad 4 (year d) @ ''/'', fmt_month d @ ''/''}"
proof -
  let ?y = "pad 4 (year d)"
  let ?m = "pad 4 (year d) @ ''-'' @ pad 2 (month d)"
  have m: "CHR ''/'' \<notin> set ?m" using pad_no_slash by simp
  have "a = ?y" if "fmt_month d = a @ ''/'' @ b" for a b
  proof -
    have e: "?y @ ''/'' @ ?m = a @ ''/'' @ b" using that by (simp add: fmt_month_def)
    from slash_in_file [of "?y @ ''/''" ?m a b] e m obtain c where "?y @ ''/'' = a @ ''/'' @ c" by auto
    then show ?thesis using pad_no_slash [of 4 "year d"] by (auto simp: append_eq_append_conv2 append_eq_Cons_conv Cons_eq_append_conv)
  qed
  moreover have "fmt_month d = ?y @ ''/'' @ ?m" by (simp add: fmt_month_def)
  ultimately show ?thesis unfolding folder_set_def by blast
qed

context export_contract begin

lemma found_listing:
  assumes "found_keys p (st_ListObjects (ex_storage E) p w) = Inr found" and "CHR ''/'' \<notin> set n"
  shows "n \<in> set found \<longleftrightarrow> objs w (p @ n) \<noteq> None"
proof -
  note f = found_keys_Inr [OF assms(1)]
  have "set found = (\<lambda>k. trim_prefix k p) ` obj_Key ` set (st_ListObjects (ex_storage E) p w)"
    using f by (simp add: image_image)
  then have found: "set found = (\<lambda>k. trim_prefix k p) ` listing p (objs w)" using f list_law [of p w] by simp
  have pre: "\<exists>m. k = p @ m" if "k \<in> listing p (objs w)" for k
    using that unfolding listing_def by blast
  have "n \<in> set found \<longleftrightarrow> p @ n \<in> listing p (objs w)"
  proof
    assume "n \<in> set found"
    then obtain k where k: "k \<in> listing p (objs w)" "n = trim_prefix k p" using found by blast
    with pre obtain m where "k = p @ m" by blast
    with k show "p @ n \<in> listing p (objs w)" by simp
  next
    assume "p @ n \<in> listing p (objs w)"
    then have "trim_prefix (p @ n) p \<in> set found" unfolding found by (rule imageI)
    then show "n \<in> set found" by simp
  qed
  also have "\<dots> \<longleftrightarrow> objs w (p @ n) \<noteq> None" using assms(2) by (auto simp: listing_def)
  finally show ?thesis .
qed

text \<open>One day: nothing that was there is touched, and success means that every delta is there.\<close>

definition indexed_by :: "string list \<Rightarrow> 'w \<Rightarrow> 'w \<Rightarrow> bool" where
  "indexed_by folders w w' \<longleftrightarrow>
     (\<forall>k. objs w' k \<noteq> None \<longrightarrow> objs w k \<noteq> None \<or> (\<exists>d n. k = day_prefix d @ n \<and> folder_set (fmt_month d) \<subseteq> set folders))"

lemma ExportDeltaFiles_law:
  assumes "ExportDeltaFiles E tables d t changed w = (e, changed', w')" and "plain_tables tables"
  shows "keeps (\<lambda>_. True) w w' \<and>
    (e = None \<longrightarrow> (\<forall>tab \<in> set tables. tab_delta tab \<longrightarrow> objs w' (day_key d tab) \<noteq> None)) \<and>
    set changed \<subseteq> set changed' \<and> (e = None \<longrightarrow> indexed_by changed' w w')"
proof (cases "found_keys (day_prefix d) (st_ListObjects (ex_storage E) (day_prefix d) w)")
  case (Inl err)
  with assms(1) show ?thesis by (auto simp: ExportDeltaFiles_def Let_def day_prefix_def)
next
  case (Inr found)
  let ?p = "day_prefix d"
  have run: "export_tables E (fmt_month d) ?p found d t tables changed w = (e, changed', w')"
    using assms(1) Inr by (simp add: ExportDeltaFiles_def Let_def day_prefix_def)
  have name: "CHR ''/'' \<notin> set (tab_name tab @ ''.jsonl.gz'')" if "tab \<in> set tables" for tab
    using assms(2) that by (simp add: plain_tables_def)
  have listed: "tab_name tab @ ''.jsonl.gz'' \<in> set found \<longleftrightarrow> objs w (?p @ tab_name tab @ ''.jsonl.gz'') \<noteq> None"
    if "tab \<in> set tables" for tab
    by (rule found_listing [OF Inr name [OF that]])
  have law: "keeps (\<lambda>k. objs w k \<noteq> None) w w' \<and>
    (e = None \<longrightarrow> (\<forall>tab \<in> set tables. tab_delta tab \<longrightarrow> objs w' (?p @ tab_name tab @ ''.jsonl.gz'') \<noteq> None)) \<and>
    set changed \<subseteq> set changed' \<and> (e = None \<longrightarrow> objs w' = objs w \<or> folder_set (fmt_month d) \<subseteq> set changed') \<and>
    (\<forall>k. objs w' k \<noteq> None \<longrightarrow> objs w k \<noteq> None \<or> (\<exists>n. k = ?p @ n))"
  proof (rule export_tables_law [OF run])
    show "\<forall>tab \<in> set tables. tab_delta tab \<longrightarrow> tab_name tab @ ''.jsonl.gz'' \<notin> set found \<longrightarrow>
        (objs w (?p @ tab_name tab @ ''.jsonl.gz'') \<noteq> None) = False"
      using listed by blast
    show "\<forall>tab \<in> set tables. tab_name tab @ ''.jsonl.gz'' \<in> set found \<longrightarrow> objs w (?p @ tab_name tab @ ''.jsonl.gz'') \<noteq> None"
      using listed by blast
  qed
  then have "keeps (\<lambda>_. True) w w'" unfolding keeps_def by blast
  moreover have "indexed_by changed' w w'" if e: "e = None"
    unfolding indexed_by_def
  proof (intro allI impI)
    fix k assume k: "objs w' k \<noteq> None"
    from law e have "objs w' = objs w \<or> folder_set (fmt_month d) \<subseteq> set changed'" by blast
    moreover from law k have "objs w k \<noteq> None \<or> (\<exists>n. k = ?p @ n)" by blast
    ultimately show "objs w k \<noteq> None \<or> (\<exists>d n. k = day_prefix d @ n \<and> folder_set (fmt_month d) \<subseteq> set changed')"
      using k by auto
  qed
  ultimately show ?thesis using law by (simp add: day_key_def)
qed

lemma indexed_by_trans:
  "indexed_by f1 w w1 \<Longrightarrow> indexed_by f2 w1 w' \<Longrightarrow> set f1 \<subseteq> set f2 \<Longrightarrow> indexed_by f2 w w'"
  unfolding indexed_by_def by blast

lemma export_days_law:
  assumes "export_days E tables n endTime changed w = (e, changed', w')" and "plain_tables tables"
  shows "keeps (\<lambda>_. True) w w' \<and>
    (e = None \<longrightarrow> (\<forall>i < n. \<forall>tab \<in> set tables. tab_delta tab \<longrightarrow> objs w' (day_key ((prev_day ^^ Suc i) endTime) tab) \<noteq> None)) \<and>
    set changed \<subseteq> set changed' \<and> (e = None \<longrightarrow> indexed_by changed' w w')"
  using assms(1)
proof (induction n arbitrary: endTime changed w)
  case (Suc n)
  let ?d = "prev_day endTime"
  obtain e1 c1 w1 where x: "ExportDeltaFiles E tables ?d endTime changed w = (e1, c1, w1)"
    by (cases "ExportDeltaFiles E tables ?d endTime changed w")
  note law = ExportDeltaFiles_law [OF x assms(2)]
  show ?case
  proof (cases e1)
    case None
    then have "export_days E tables n ?d c1 w1 = (e, changed', w')" using Suc.prems x by (simp add: Let_def)
    note ih = Suc.IH [OF this]
    have k: "keeps (\<lambda>_. True) w w'" using law ih keeps_trans by blast
    have "objs w' (day_key ((prev_day ^^ Suc i) endTime) tab) \<noteq> None"
      if "e = None" "i < Suc n" "tab \<in> set tables" "tab_delta tab" for i tab
    proof (cases i)
      case 0
      have "objs w1 (day_key ?d tab) \<noteq> None" using law None that by simp
      then show ?thesis using ih 0 by (auto simp: keeps_def)
    next
      case (Suc j)
      with ih that have "objs w' (day_key ((prev_day ^^ Suc j) ?d) tab) \<noteq> None" by auto
      moreover have "(prev_day ^^ Suc i) endTime = (prev_day ^^ Suc j) ?d" by (simp only: Suc funpow_Suc_right o_apply)
      ultimately show ?thesis by simp
    qed
    then have "e = None \<longrightarrow> (\<forall>i < Suc n. \<forall>tab \<in> set tables. tab_delta tab \<longrightarrow>
        objs w' (day_key ((prev_day ^^ Suc i) endTime) tab) \<noteq> None)" by blast
    moreover have "e = None \<longrightarrow> indexed_by changed' w w'" using law ih None indexed_by_trans by blast
    moreover have "set changed \<subseteq> set changed'" using law ih by blast
    ultimately show ?thesis using k by (intro conjI)
  qed (use Suc.prems x law in \<open>auto simp: Let_def\<close>)
qed (simp add: indexed_by_def)

lemma Run_law:
  assumes "plain_tables tables" and "\<And>xs. set (iter_order E xs) = set xs"
  shows "\<exists>e w'. Run E tables today w = Some (e, w') \<and> keeps not_index w w' \<and>
    (e = None \<longrightarrow>
      (\<forall>i < maxDays today. \<forall>tab \<in> set tables. tab_delta tab \<longrightarrow> objs w' (day_key ((prev_day ^^ Suc i) today) tab) \<noteq> None) \<and>
      (\<forall>i < maxDays today. \<forall>tab \<in> set tables. tab_delta tab \<longrightarrow> objs w (day_key ((prev_day ^^ Suc i) today) tab) = None \<longrightarrow>
         (\<forall>p \<in> folder_set (fmt_month ((prev_day ^^ Suc i) today)).
            objs w' (p @ ''index.html'') \<noteq> None \<and> objs w' (p @ ''index.json'') \<noteq> None)))"
proof -
  let ?w = "snd (CreateBucket (ex_storage E) w)"
  have w: "objs ?w = objs w" by (rule CreateBucket_law)
  obtain e1 c1 w1 where x: "export_days E tables (maxDays today) today [] ?w = (e1, c1, w1)"
    by (cases "export_days E tables (maxDays today) today [] ?w")
  note law = export_days_law [OF x assms(1)]
  have k1: "keeps not_index w w1" using law w by (simp add: keeps_def)
  show ?thesis
  proof (cases e1)
    case None
    obtain e w' where u: "update_folders (ex_storage E) (iter_order E c1) w1 = Some (e, w')" "keeps not_index w1 w'"
      "e = None \<Longrightarrow> \<forall>p \<in> set c1. objs w' (p @ ''index.html'') \<noteq> None \<and> objs w' (p @ ''index.json'') \<noteq> None"
      using update_folders_law [of "iter_order E c1" w1] assms(2) [of c1] by auto
    have idx: "indexed_by c1 w w1" using law None w by (simp add: indexed_by_def)
    have done_1: "objs w1 (day_key ((prev_day ^^ Suc i) today) tab) \<noteq> None"
      if "i < maxDays today" "tab \<in> set tables" "tab_delta tab" for i tab
      using law None that by blast
    have "folder_set (fmt_month ((prev_day ^^ Suc i) today)) \<subseteq> set c1"
      if "i < maxDays today" "tab \<in> set tables" "tab_delta tab" "objs w (day_key ((prev_day ^^ Suc i) today) tab) = None" for i tab
    proof -
      from idx done_1 [OF that(1-3)] that(4) obtain d n where
        "day_key ((prev_day ^^ Suc i) today) tab = day_prefix d @ n" "folder_set (fmt_month d) \<subseteq> set c1"
        unfolding indexed_by_def by blast
      moreover from this(1) have "fmt_month ((prev_day ^^ Suc i) today) = fmt_month d"
        unfolding day_key_def by (rule day_prefix_month)
      ultimately show ?thesis by simp
    qed
    moreover have "objs w' (day_key ((prev_day ^^ Suc i) today) tab) \<noteq> None"
      if "i < maxDays today" "tab \<in> set tables" "tab_delta tab" for i tab
      using done_1 [OF that] u(2) unfolding keeps_def by blast
    moreover have "Run E tables today w = Some (e, w')" using x None u(1) by (simp add: Run_def Let_def)
    moreover have "keeps not_index w w'" using k1 u(2) by (rule keeps_trans)
    ultimately show ?thesis using u(3) by (intro exI [of _ e] exI [of _ w'] conjI) blast+
  qed (use x k1 in \<open>simp add: Run_def Let_def\<close>)
qed

end

section \<open>The recursive index\<close>

text \<open>Where the last folder of a key ends, and keys without directory markers.\<close>

definition folders_within :: "nat \<Rightarrow> (string \<Rightarrow> string option) \<Rightarrow> bool" where
  "folders_within N m \<longleftrightarrow> (\<forall>a b. m (a @ ''/'' @ b) \<noteq> None \<longrightarrow> b \<noteq> [] \<and> length a < N)"

definition folder_path :: "string \<Rightarrow> bool" where
  "folder_path p \<longleftrightarrow> p = '''' \<or> (\<exists>a. p = a @ ''/'')"

lemma folders_within_put:
  assumes "folders_within N m" "folder_path p" "length p \<le> N" "CHR ''/'' \<notin> set f" "f \<noteq> []"
  shows "folders_within N (m(p @ f \<mapsto> c))"
  unfolding folders_within_def
proof (intro allI impI)
  fix a b assume m: "(m(p @ f \<mapsto> c)) (a @ ''/'' @ b) \<noteq> None"
  show "b \<noteq> [] \<and> length a < N"
  proof (cases "a @ ''/'' @ b = p @ f")
    case True
    from slash_in_file [OF True [symmetric] assms(4)] obtain d where "p = a @ ''/'' @ d" "b = d @ f" by blast
    then show ?thesis using assms(3,5) by simp
  next
    case False
    then show ?thesis using m assms(1) by (simp add: folders_within_def)
  qed
qed

context object_store begin

lemma write_index_within:
  assumes "write_index S p sb infos w = (e, w')" "folders_within N (objs w)" "folder_path p" "length p \<le> N"
  shows "folders_within N (objs w')"
proof -
  obtain e1 w1 where 1: "st_PutObject S (p @ ''index.html'') sb ''text/html'' w = (e1, w1)"
    by (cases "st_PutObject S (p @ ''index.html'') sb ''text/html'' w")
  obtain e2 w2 where 2: "st_PutObject S (p @ ''index.json'') (json_files infos) ''application/json'' w1 = (e2, w2)"
    by (cases "st_PutObject S (p @ ''index.json'') (json_files infos) ''application/json'' w1")
  have w1: "folders_within N (objs w1)"
    using put_law [OF 1] folders_within_put [OF assms(2-4), of "''index.html''"] assms(2) by simp
  have w2: "folders_within N (objs w2)"
    using put_law [OF 2] folders_within_put [OF w1 assms(3,4), of "''index.json''"] w1 by simp
  show ?thesis using assms(1) 1 2 w1 w2 by (auto simp: write_index_def if_ok_def split: option.splits)
qed

text \<open>The listing of a folder goes down: the folders in it are longer, and still within the bound.\<close>

lemma listed_folder:
  assumes "folders_within N (objs w)" "obj \<in> set (st_ListObjects S p w)" "has_suffix (obj_Key obj) ''/''"
    and "\<forall>obj \<in> set (st_ListObjects S p w). obj_Err obj = None"
  shows "folder_path (obj_Key obj) \<and> length p < length (obj_Key obj) \<and> length (obj_Key obj) \<le> N"
proof -
  have "obj_Key obj \<in> listing p (objs w)" using list_law [OF assms(4)] assms(2) by blast
  moreover obtain a where a: "obj_Key obj = a @ ''/''"
    using assms(3) by (cases "obj_Key obj" rule: rev_cases) (auto simp: has_suffix_def)
  moreover have "objs w (a @ ''/'') = None" using assms(1) unfolding folders_within_def by (metis append_Nil2)
  ultimately obtain n b where nb: "a @ ''/'' = p @ n @ ''/''" "objs w (p @ n @ ''/'' @ b) \<noteq> None"
    unfolding listing_def by auto
  then have "a = p @ n" by simp
  moreover have "length (p @ n) < N" using assms(1) nb(2) unfolding folders_within_def by (metis append_assoc)
  ultimately show ?thesis using a by (auto simp: folder_path_def)
qed

lemma UpdateIndexFile_within:
  assumes "\<And>p w. \<forall>obj \<in> set (st_ListObjects S p w). obj_Err obj = None"
  shows "folder_path p \<Longrightarrow> length p \<le> N \<Longrightarrow> N - length p < fuel \<Longrightarrow> folders_within N (objs w) \<Longrightarrow>
    \<exists>e w'. UpdateIndexFile fuel S p True w = Some (e, w') \<and> folders_within N (objs w')"
proof (induction fuel arbitrary: p w)
  case (Suc fuel)
  let ?rec = "\<lambda>p w. UpdateIndexFile fuel S p True w"
  have loop: "\<exists>sb' infos' w'. index_loop ?rec p True objects sb infos w1 = Some (sb', infos', w') \<and> folders_within N (objs w')"
    if "set objects \<subseteq> set (st_ListObjects S p w)" "folders_within N (objs w1)" for objects sb infos w1
    using that
  proof (induction objects arbitrary: sb infos w1)
    case (Cons obj objects)
    have down: "\<exists>e w'. ?rec (obj_Key obj) w1 = Some (e, w') \<and> folders_within N (objs w')" if "has_suffix (obj_Key obj) ''/''"
    proof (rule Suc.IH)
      from listed_folder [of N w obj p, OF Suc.prems(4) _ that assms] Cons.prems(1)
      have k: "folder_path (obj_Key obj)" "length p < length (obj_Key obj)" "length (obj_Key obj) \<le> N" by simp_all
      show "folder_path (obj_Key obj)" "length (obj_Key obj) \<le> N" by (rule k)+
      show "N - length (obj_Key obj) < fuel" using k Suc.prems(3) by linarith
      show "folders_within N (objs w1)" by (rule Cons.prems(2))
    qed
    have rest: "\<exists>sb' infos' w'. index_loop ?rec p True objects sb infos w2 = Some (sb', infos', w') \<and> folders_within N (objs w')"
      if "folders_within N (objs w2)" for sb infos w2 using Cons.IH [OF _ that] Cons.prems(1) by simp
    show ?case
    proof (cases "has_suffix (obj_Key obj) ''/''")
      case True
      with down obtain e w2 where d: "?rec (obj_Key obj) w1 = Some (e, w2)" "folders_within N (objs w2)" by blast
      show ?thesis using rest [OF Cons.prems(2)] rest [OF d(2)] d(1) True by (simp add: Let_def)
    next
      case False
      then show ?thesis using rest [OF Cons.prems(2)] by (simp add: Let_def)
    qed
  qed simp
  obtain sb infos w1 where l: "index_loop ?rec p True (st_ListObjects S p w) (index_head p) [] w = Some (sb, infos, w1)"
    "folders_within N (objs w1)" using loop [of "st_ListObjects S p w" w "index_head p" "[]"] Suc.prems(4) by blast
  obtain e w' where x: "write_index S p (sb @ index_tail) infos w1 = (e, w')"
    by (cases "write_index S p (sb @ index_tail) infos w1")
  with write_index_within [OF x l(2) Suc.prems(1,2)] l(1) show ?case by simp
qed simp

end

text \<open>
  C31. The recursive index ends: in a store whose listings do not fail and that holds no directory
  marker, that is no object whose key ends in a slash, a depth of recursion of one more than the
  length of the longest folder is enough.
\<close>

theorem UpdateIndexFiles_terminates:
  assumes "object_store S objs" and "\<And>p w. \<forall>obj \<in> set (st_ListObjects S p w). obj_Err obj = None"
    and "\<And>a b. objs w (a @ ''/'' @ b) \<noteq> None \<Longrightarrow> b \<noteq> [] \<and> length a < N"
  shows "\<exists>r. UpdateIndexFiles (Suc N) S w = Some r"
  using object_store.UpdateIndexFile_within [OF assms(1,2), of "''''" N "Suc N" w] assms(3)
  by (auto simp: UpdateIndexFiles_def folder_path_def folders_within_def)

section \<open>A store to run on\<close>

text \<open>
  A world with a bucket, an association list, and a script of failures: a write fails when the head
  of the script says so. A listing has the keys in the order of the bucket.
\<close>

record bucket_world =
  bucket :: "(string \<times> string) list"
  put_faults :: "bool list"

definition list_object :: "string \<Rightarrow> string \<times> string \<Rightarrow> object_info" where
  "list_object p kc =
     (let rest = drop (length p) (fst kc) in
      if CHR ''/'' \<in> set rest
      then \<lparr> obj_Key = p @ takeWhile (\<lambda>x. x \<noteq> CHR ''/'') rest @ ''/'', obj_Size = 0, obj_Err = None \<rparr>
      else \<lparr> obj_Key = fst kc, obj_Size = int (length (snd kc)), obj_Err = None \<rparr>)"

definition bucket_list :: "string \<Rightarrow> bucket_world \<Rightarrow> object_info list" where
  "bucket_list p w = remdups (map (list_object p) (filter (\<lambda>kc. has_prefix (fst kc) p) (AList.clearjunk (bucket w))))"

definition bucket_put :: "string \<Rightarrow> string \<Rightarrow> string \<Rightarrow> bucket_world \<Rightarrow> go_error option \<times> bucket_world" where
  "bucket_put k c t w =
     (case put_faults w of
        True # fs \<Rightarrow> (Some (OtherError ''put'' []), w\<lparr> put_faults := fs \<rparr>)
      | _ \<Rightarrow> (None, w\<lparr> bucket := AList.update k c (bucket w), put_faults := tl (put_faults w) \<rparr>))"

definition bucket_storage :: "bucket_world storage" where
  "bucket_storage = \<lparr> st_ListObjects = bucket_list, st_PutObject = bucket_put,
     st_BucketExists = (\<lambda>w. Inr True), st_MakeBucket = (\<lambda>w. (None, w)) \<rparr>"

definition bucket_objs :: "bucket_world \<Rightarrow> string \<Rightarrow> string option" where
  "bucket_objs w = map_of (bucket w)"

definition bucket_exporter :: "bucket_world exporter" where
  "bucket_exporter = \<lparr> ex_storage = bucket_storage, ex_Query = (\<lambda>q w. (Inr [Inr ''{}''], w)),
     tmp_Create = (\<lambda>w. (None, w)), gz_Write = (\<lambda>bs w. (None, w)), gz_Close = (\<lambda>w. (None, w)),
     tmp_Seek = (\<lambda>i w. (None, w)), tmp_Close = (\<lambda>w. (None, w)), gzip = (\<lambda>s. s), zone = (\<lambda>d. ''Z''),
     iter_order = rev \<rparr>"

lemma list_object_listing:
  assumes "bucket_objs w k = Some c" "has_prefix k p"
  shows "obj_Key (list_object p (k, c)) \<in> listing p (bucket_objs w)"
proof -
  obtain rest where k: "k = p @ rest" using assms(2) by (metis append_take_drop_id has_prefix_take)
  show ?thesis
  proof (cases "CHR ''/'' \<in> set rest")
    case True
    then obtain n b where nb: "rest = n @ CHR ''/'' # b" "CHR ''/'' \<notin> set n" by (meson split_list_first)
    then have "takeWhile (\<lambda>x. x \<noteq> CHR ''/'') rest = n" by (auto simp: takeWhile_tail)
    then have "obj_Key (list_object p (k, c)) = p @ n @ ''/''" using True k by (simp add: list_object_def Let_def)
    moreover have "bucket_objs w (p @ n @ ''/'' @ b) \<noteq> None" using assms(1) k nb by simp
    ultimately show ?thesis using nb(2) unfolding listing_def by blast
  next
    case False
    then have "obj_Key (list_object p (k, c)) = p @ rest" using k by (simp add: list_object_def Let_def)
    then show ?thesis using False k assms(1) unfolding listing_def by auto
  qed
qed

lemma listing_list_object:
  assumes "x \<in> listing p (bucket_objs w)"
  shows "\<exists>k c. bucket_objs w k = Some c \<and> has_prefix k p \<and> obj_Key (list_object p (k, c)) = x"
proof -
  consider n where "x = p @ n" "bucket_objs w (p @ n) \<noteq> None" "CHR ''/'' \<notin> set n"
    | n b where "x = p @ n @ ''/''" "CHR ''/'' \<notin> set n" "bucket_objs w (p @ n @ ''/'' @ b) \<noteq> None"
    using assms unfolding listing_def by blast
  then show ?thesis
  proof cases
    case 1
    then obtain c where "bucket_objs w (p @ n) = Some c" by blast
    moreover have "obj_Key (list_object p (p @ n, c)) = x" using 1 by (simp add: list_object_def)
    ultimately show ?thesis using has_prefix_append [of p n] by (intro exI conjI)
  next
    case 2
    then obtain c where c: "bucket_objs w (p @ n @ ''/'' @ b) = Some c" by blast
    have "takeWhile (\<lambda>x. x \<noteq> CHR ''/'') (n @ ''/'' @ b) = n" using 2(2) by (auto simp: takeWhile_tail)
    then have "obj_Key (list_object p (p @ n @ ''/'' @ b, c)) = x" using 2 by (simp add: list_object_def Let_def)
    with c show ?thesis using has_prefix_append [of p "n @ ''/'' @ b"] by (intro exI conjI)
  qed
qed

lemma bucket_list_keys: "obj_Key ` set (bucket_list p w) = listing p (bucket_objs w)"
proof -
  have mem: "(k, c) \<in> set (AList.clearjunk (bucket w)) \<longleftrightarrow> bucket_objs w k = Some c" for k c
    by (metis bucket_objs_def distinct_clearjunk map_of_clearjunk map_of_eq_Some_iff)
  have "obj_Key ` set (bucket_list p w) = {obj_Key (list_object p (k, c)) | k c. bucket_objs w k = Some c \<and> has_prefix k p}"
    unfolding bucket_list_def by (auto simp: image_iff mem) (metis mem)+
  moreover have "\<dots> = listing p (bucket_objs w)"
  proof (intro equalityI subsetI)
    fix x assume "x \<in> listing p (bucket_objs w)"
    from listing_list_object [OF this] show "x \<in> {obj_Key (list_object p (k, c)) | k c. bucket_objs w k = Some c \<and> has_prefix k p}"
      by blast
  qed (use list_object_listing in blast)
  ultimately show ?thesis by simp
qed

interpretation bucket_store: export_contract bucket_exporter bucket_objs
proof
  fix k c t w e w' assume "st_PutObject (ex_storage bucket_exporter) k c t w = (e, w')"
  then show "bucket_objs w' = (if e = None then (bucket_objs w)(k \<mapsto> c) else bucket_objs w)"
    by (auto simp: bucket_exporter_def bucket_storage_def bucket_put_def bucket_objs_def update_conv'
        split: list.splits bool.splits)
next
  fix p w show "obj_Key ` set (st_ListObjects (ex_storage bucket_exporter) p w) = listing p (bucket_objs w)"
    by (simp add: bucket_exporter_def bucket_storage_def bucket_list_keys)
qed (auto simp: bucket_exporter_def bucket_storage_def)

lemma bucket_list_err: "\<forall>obj \<in> set (bucket_list p w). obj_Err obj = None"
  by (auto simp: bucket_list_def list_object_def Let_def)

theorem UpdateIndexFiles_terminates_witness:
  "\<exists>r. UpdateIndexFiles 7 bucket_storage \<lparr> bucket = [(''2024/a'', ''x'')], put_faults = [] \<rparr> = Some r"
proof -
  let ?w = "\<lparr> bucket = [(''2024/a'', ''x'')], put_faults = [] \<rparr>"
  have store: "object_store bucket_storage bucket_objs"
    using bucket_store.object_store_axioms by (simp add: bucket_exporter_def)
  have key: "b \<noteq> [] \<and> length a < 6" if "bucket_objs ?w (a @ ''/'' @ b) \<noteq> None" for a b
  proof -
    have "''2024'' @ CHR ''/'' # ''a'' = a @ CHR ''/'' # b" using that by (auto simp: bucket_objs_def split: if_splits)
    moreover have "CHR ''/'' \<notin> set ''2024''" "CHR ''/'' \<notin> set ''a''" by simp_all
    ultimately have "a = ''2024'' \<and> b = ''a''"
      by (metis append_Cons_eq_iff)
    then show ?thesis by simp
  qed
  have "\<exists>r. UpdateIndexFiles (Suc 6) bucket_storage ?w = Some r"
    by (rule UpdateIndexFiles_terminates [OF store _ key]) (simp_all add: bucket_storage_def bucket_list_err)
  then show ?thesis by simp
qed

text \<open>
  A directory marker makes the recursive index call itself for ever: the listing of a folder holds
  the marker itself, under the same key.
\<close>

lemma marker_diverges:
  "UpdateIndexFile fuel bucket_storage ''a/'' True \<lparr> bucket = [(''a/'', '''')], put_faults = [] \<rparr> = None"
proof (induction fuel)
  case (Suc fuel)
  have "bucket_list ''a/'' \<lparr> bucket = [(''a/'', '''')], put_faults = [] \<rparr> =
      [\<lparr> obj_Key = ''a/'', obj_Size = 0, obj_Err = None \<rparr>]"
    by (simp add: bucket_list_def list_object_def)
  with Suc show ?case by (simp add: bucket_storage_def has_suffix_def trim_prefix_def Let_def)
qed simp

section \<open>The export is complete\<close>

lemma export_tables_plain: "plain_tables export_table_list"
  by (simp add: plain_tables_def export_table_list_def AddTable_def)

text \<open>
  C6. The export, against a store with the contract, always ends. It never changes an object that is
  there, index files apart. When it reports no error, every table has its file for each of the last
  days, 7 of them, or 32 on the first of a month; and where a file was not there before, its month,
  its year and the root have their index files.
\<close>

theorem ExportDataFiles_complete:
  assumes "export_contract E objs" and "\<And>xs. set (iter_order E xs) = set xs"
  shows "\<exists>e w'. ExportDataFiles E today w = Some (e, w') \<and>
    (\<forall>k. objs w k \<noteq> None \<longrightarrow> (\<forall>p. k \<noteq> p @ ''index.html'' \<and> k \<noteq> p @ ''index.json'') \<longrightarrow> objs w' k = objs w k) \<and>
    (e = None \<longrightarrow> (\<forall>i < (if day today = 1 then 32 else 7). \<forall>tab \<in> set export_table_list.
       let d = (prev_day ^^ Suc i) today in
         objs w' (day_key d tab) \<noteq> None \<and>
         (objs w (day_key d tab) = None \<longrightarrow>
            (\<forall>p \<in> {'''', pad 4 (year d) @ ''/'', fmt_month d @ ''/''}.
               objs w' (p @ ''index.html'') \<noteq> None \<and> objs w' (p @ ''index.json'') \<noteq> None))))"
proof -
  have delta: "tab_delta tab" if "tab \<in> set export_table_list" for tab
    using that by (auto simp: export_table_list_def AddTable_def)
  obtain e w' where r: "Run E export_table_list today w = Some (e, w')"
    and k: "object_store.keeps objs object_store.not_index w w'"
    and fin: "e = None \<longrightarrow>
      (\<forall>i < maxDays today. \<forall>tab \<in> set export_table_list. tab_delta tab \<longrightarrow> objs w' (day_key ((prev_day ^^ Suc i) today) tab) \<noteq> None) \<and>
      (\<forall>i < maxDays today. \<forall>tab \<in> set export_table_list. tab_delta tab \<longrightarrow> objs w (day_key ((prev_day ^^ Suc i) today) tab) = None \<longrightarrow>
         (\<forall>p \<in> folder_set (fmt_month ((prev_day ^^ Suc i) today)).
            objs w' (p @ ''index.html'') \<noteq> None \<and> objs w' (p @ ''index.json'') \<noteq> None))"
    using export_contract.Run_law [OF assms(1) export_tables_plain assms(2), of today w] by blast
  have store: "object_store (ex_storage E) objs" using assms(1) by (simp add: export_contract_def)
  show ?thesis
  proof (intro exI conjI)
    show "ExportDataFiles E today w = Some (e, w')" using r by (simp add: ExportDataFiles_def)
    show "\<forall>k. objs w k \<noteq> None \<longrightarrow> (\<forall>p. k \<noteq> p @ ''index.html'' \<and> k \<noteq> p @ ''index.json'') \<longrightarrow> objs w' k = objs w k"
      using k unfolding object_store.keeps_def [OF store] object_store.not_index_def [OF store] by blast
  qed (use fin delta in \<open>auto simp: Let_def maxDays_def folder_set_month simp del: funpow.simps\<close>)
qed

theorem ExportDataFiles_complete_witness:
  "\<exists>e w'. ExportDataFiles bucket_exporter \<lparr> year = 2024, month = 3, day = 1 \<rparr> \<lparr> bucket = [(''keep'', ''x'')], put_faults = [] \<rparr> =
     Some (e, w') \<and> bucket_objs w' ''keep'' = Some ''x''"
proof -
  have order: "set (iter_order bucket_exporter xs) = set xs" for xs by (simp add: bucket_exporter_def)
  let ?w = "\<lparr> bucket = [(''keep'', ''x'')], put_faults = [] \<rparr>"
  obtain e w' where x: "ExportDataFiles bucket_exporter \<lparr> year = 2024, month = 3, day = 1 \<rparr> ?w = Some (e, w')"
    and k: "\<And>k. bucket_objs ?w k \<noteq> None \<Longrightarrow> (\<forall>p. k \<noteq> p @ ''index.html'' \<and> k \<noteq> p @ ''index.json'') \<Longrightarrow> bucket_objs w' k = bucket_objs ?w k"
    using ExportDataFiles_complete [OF bucket_store.export_contract_axioms order,
        of "\<lparr> year = 2024, month = 3, day = 1 \<rparr>" ?w] by blast
  have "''keep'' \<noteq> p @ ''index.html'' \<and> ''keep'' \<noteq> p @ ''index.json''" for p
    by (auto dest: arg_cong [of _ _ length])
  with k [of "''keep''"] have "bucket_objs w' ''keep'' = Some ''x''" by (simp add: bucket_objs_def)
  with x show ?thesis by blast
qed

end
