(* ===== verification/BitFields.thy ===== *)
theory BitFields
  imports GoLib
begin

unbundle bit_operations_syntax

text \<open>
  Words assembled from and taken apart into equally wide bit fields, the two expressions the
  generated packing routines consist of, and their meaning as positional numbers.
\<close>

text \<open>\<open>uintW(src[0]) | uintW(src[1])<<k | uintW(src[2])<<(2*k) | ..\<close>, for \<open>i = 0\<close>\<close>

primrec shl_or :: "nat \<Rightarrow> nat \<Rightarrow> u8 list \<Rightarrow> 'w::len word" where
  "shl_or k i [] = 0"
| "shl_or k i (x # xs) = push_bit i (ucast x) OR shl_or k (i + k) xs"

text \<open>\<open>[uint8((w >> 0) & msk), uint8((w >> k) & msk), ..]\<close>, \<open>m\<close> of them\<close>

definition fields :: "nat \<Rightarrow> nat \<Rightarrow> 'w::len word \<Rightarrow> 'w word \<Rightarrow> u8 list" where
  "fields m k msk w = map (\<lambda>i. ucast (drop_bit (k * i) w AND msk)) [0..<m]"

declare shl_or.simps [simp del]

lemma unat_less_256: "unat x < 256" for x :: u8
  using unsigned_less [of x] by simp

lemma nat_or_push_bit: "x < 2 ^ k \<Longrightarrow> x OR push_bit k r = x + 2 ^ k * r" for x r :: nat
proof -
  assume x: "x < 2 ^ k"
  then have "\<not> bit x n \<or> \<not> bit (push_bit k r) n" for n
    by (metis bit_push_bit_iff_nat bit_take_bit_iff not_less take_bit_nat_eq_self)
  then show ?thesis
    by (simp add: disjunctive_add [symmetric] push_bit_eq_mult mult.commute)
qed

lemma unat_shl_or:
  assumes "\<forall>x \<in> set xs. unat x < 2 ^ k" "i + k * length xs \<le> LENGTH('w)"
  shows "unat (shl_or k i xs :: 'w::len word) = push_bit i (radix (2 ^ k) (map unat xs))"
  using assms
proof (induction xs arbitrary: i)
  case (Cons x xs)
  let ?r = "radix (2 ^ k) (map unat xs)"
  have x: "unat x < 2 ^ k" and le: "i + k \<le> LENGTH('w)" using Cons.prems by auto
  have small: "push_bit i (unat x) < 2 ^ LENGTH('w)"
  proof -
    have "push_bit i (unat x) < 2 ^ (i + k)" using x by (simp add: push_bit_eq_mult power_add mult.commute)
    also have "\<dots> \<le> 2 ^ LENGTH('w)" using le by (simp add: power_increasing)
    finally show ?thesis .
  qed
  have x': "unat x < 2 ^ LENGTH('w)"
    using x le by (meson add_leD2 less_le_trans one_le_numeral power_increasing)
  have "unat (shl_or k (i + k) xs :: 'w word) = push_bit (i + k) ?r"
    using Cons.prems by (intro Cons.IH) (auto simp: algebra_simps)
  then have "unat (shl_or k i (x # xs) :: 'w word) = push_bit i (unat x OR push_bit k ?r)"
    using small x' by (simp add: shl_or.simps unsigned_or_eq unsigned_push_bit_eq unsigned_ucast_eq take_bit_nat_eq_self
        push_bit_push_bit push_bit_or)
  then show ?case using x by (simp add: nat_or_push_bit)
qed (simp add: shl_or.simps)

lemma unat_shl_or_bytes:
  "8 * length bs \<le> LENGTH('w) \<Longrightarrow> unat (shl_or 8 0 bs :: 'w::len word) = radix 256 (map unat bs)"
  using unat_shl_or [of bs 8 0, where 'w = 'w] unat_less_256 by simp

lemma unat_field: "unat (drop_bit (k * i) w AND mask k) = unat w div (2 ^ k) ^ i mod 2 ^ k"
proof -
  have "unat (drop_bit (k * i) w) = unat w div 2 ^ (k * i)"
    by (simp add: unat_drop_bit_eq drop_bit_eq_div [where 'a = nat])
  then show ?thesis
    by (simp only: take_bit_eq_mask [symmetric] unsigned_take_bit_eq take_bit_eq_mod [where 'a = nat] power_mult)
qed

lemma fields_digits:
  "msk = mask k \<Longrightarrow> fields m k msk w = map of_nat (digits (2 ^ k) m (unat w))"
  by (intro nth_equalityI) (simp_all add: fields_def nth_digits flip: unat_field)

lemma length_fields [simp]: "length (fields m k msk w) = m"
  by (simp add: fields_def)


section \<open>Bits of positional numbers\<close>

lemma less_not_bit: "x < 2 ^ k \<Longrightarrow> k \<le> n \<Longrightarrow> \<not> bit x n" for x :: nat
  by (metis bit_take_bit_iff not_less take_bit_nat_eq_self)

lemma bit_radix:
  assumes "\<forall>x \<in> set xs. x < 2 ^ k" "0 < k"
  shows "bit (radix (2 ^ k) xs) n \<longleftrightarrow> n div k < length xs \<and> bit (xs ! (n div k)) (n mod k)"
  using assms(1)
proof (induction xs arbitrary: n)
  case (Cons x xs)
  then have x: "x < 2 ^ k" by simp
  have "radix (2 ^ k) (x # xs) = x OR push_bit k (radix (2 ^ k) xs)"
    using x by (simp add: nat_or_push_bit)
  then have "bit (radix (2 ^ k) (x # xs)) n \<longleftrightarrow> bit x n \<or> k \<le> n \<and> bit (radix (2 ^ k) xs) (n - k)"
    by (simp add: bit_or_iff bit_push_bit_iff_nat)
  also have "\<dots> \<longleftrightarrow> n div k < length (x # xs) \<and> bit ((x # xs) ! (n div k)) (n mod k)"
  proof (cases "n < k")
    case False
    then have "n div k = Suc ((n - k) div k)" "n mod k = (n - k) mod k"
      using assms(2) by (simp_all add: le_div_geq le_mod_geq)
    then show ?thesis using Cons False less_not_bit [OF x] by simp
  qed simp
  finally show ?case .
qed simp

lemma radix_bit_eqI:
  assumes "\<forall>x \<in> set xs. x < 2 ^ k" "0 < k"
    and "\<And>i j. j < k \<Longrightarrow> bit v (k * i + j) \<longleftrightarrow> i < length xs \<and> bit (xs ! i) j"
  shows "v = radix (2 ^ k) xs"
proof (rule bit_eqI)
  fix n
  show "bit v n = bit (radix (2 ^ k) xs) n"
    using assms(3) [of "n mod k" "n div k"] assms(2) by (simp add: bit_radix assms)
qed

lemma bit_radix_at:
  assumes "\<forall>x \<in> set xs. x < 2 ^ k" "j < k"
  shows "bit (radix (2 ^ k) xs) (k * i + j) \<longleftrightarrow> i < length xs \<and> bit (xs ! i) j"
  using assms by (subst bit_radix) auto

lemma and_less: "a < 2 ^ k \<Longrightarrow> (a AND b) < (2::nat) ^ k"
proof -
  assume a: "a < 2 ^ k"
  have "take_bit k (a AND b) = a AND b"
    by (rule bit_eqI) (use less_not_bit [OF a] not_less in \<open>auto simp: bit_take_bit_iff bit_and_iff\<close>)
  then show ?thesis by (simp only: take_bit_nat_eq_self_iff)
qed

lemma radix_and:
  assumes "\<forall>x \<in> set xs. x < 2 ^ k" "\<forall>y \<in> set ys. y < 2 ^ k" "length xs = length ys" "0 < k"
  shows "radix (2 ^ k) xs AND radix (2 ^ k) ys = radix (2 ^ k) (map2 (AND) xs ys)"
proof (rule radix_bit_eqI)
  show "\<forall>z \<in> set (map2 (AND) xs ys). z < 2 ^ k"
    using assms(1) by (auto dest: set_zip_leftD intro!: and_less)
qed (use assms in \<open>auto simp: bit_and_iff bit_radix_at\<close>)

lemma radix_and_const:
  assumes "\<forall>x \<in> set xs. x < 2 ^ k" "m < 2 ^ k" "0 < k"
  shows "radix (2 ^ k) xs AND radix (2 ^ k) (replicate (length xs) m) = radix (2 ^ k) (map (\<lambda>x. x AND m) xs)"
  using radix_and [of xs k "replicate (length xs) m"] assms
  by (simp add: zip_replicate2 comp_def)

text \<open>A shift inside the fields, the bits that cross a field boundary masked away.\<close>

lemma radix_shift_and:
  assumes "\<forall>x \<in> set xs. x < 2 ^ k" "m < 2 ^ (k - j)" "j < k"
  shows "drop_bit j (radix (2 ^ k) xs) AND radix (2 ^ k) (replicate (length xs) m) =
    radix (2 ^ k) (map (\<lambda>x. drop_bit j x AND m) xs)"
proof (rule radix_bit_eqI)
  have m: "m < 2 ^ k" using assms(2) by (rule less_le_trans) simp
  then show "\<forall>z \<in> set (map (\<lambda>x. drop_bit j x AND m) xs). z < 2 ^ k"
    by (auto simp: and.commute [of _ m] intro: and_less)
  fix i n assume n: "n < k"
  show "bit (drop_bit j (radix (2 ^ k) xs) AND radix (2 ^ k) (replicate (length xs) m)) (k * i + n) =
    (i < length (map (\<lambda>x. drop_bit j x AND m) xs) \<and> bit (map (\<lambda>x. drop_bit j x AND m) xs ! i) n)"
  proof (cases "n < k - j")
    case True
    then have "bit (radix (2 ^ k) xs) (j + (k * i + n)) \<longleftrightarrow> i < length xs \<and> bit (xs ! i) (j + n)"
      using bit_radix_at [OF assms(1), of "j + n" i] by (simp add: ac_simps)
    then show ?thesis
      using n m by (auto simp: bit_and_iff bit_drop_bit_eq bit_radix_at)
  next
    case False
    then have "\<not> bit m n" using less_not_bit [OF assms(2)] by simp
    then show ?thesis using n m by (auto simp: bit_and_iff bit_radix_at)
  qed
qed (use assms in auto)

lemma radix_map2_plus:
  "length xs = length ys \<Longrightarrow> radix b (map2 (+) xs ys) = radix b xs + radix b ys"
  by (induction xs ys rule: list_induct2) (simp_all add: algebra_simps)

lemma radix_map_plus: "radix b (map (\<lambda>x. f x + g x) xs) = radix b (map f xs) + radix b (map g xs)"
  by (induction xs) (simp_all add: algebra_simps)

lemma radix_map_mono: "\<forall>x \<in> set xs. f x \<le> g x \<Longrightarrow> radix b (map f xs) \<le> radix b (map g xs)"
  by (induction xs) (auto intro!: add_mono)

lemma radix_map_diff:
  "\<forall>x \<in> set xs. g x \<le> f x \<Longrightarrow> radix b (map (\<lambda>x. f x - g x) xs) = radix b (map f xs) - radix b (map g xs)"
proof -
  assume "\<forall>x \<in> set xs. g x \<le> f x"
  then have "radix b (map f xs) = radix b (map (\<lambda>x. (f x - g x) + g x) xs)"
    by (intro arg_cong [where f = "radix b"]) simp
  then show ?thesis by (simp only: radix_map_plus)
qed

section \<open>Counting bits\<close>

definition bit_count :: "nat \<Rightarrow> nat" where
  "bit_count n = card {i. bit n i}"

lemma finite_bits: "finite {i. bit (n::nat) i}"
proof (rule finite_subset)
  have "n < 2 ^ n" by (rule less_exp)
  then show "{i. bit n i} \<subseteq> {..<n}" using less_not_bit not_less by blast
qed simp

lemma bit_count_add:
  assumes "a < 2 ^ k"
  shows "bit_count (a + 2 ^ k * b) = bit_count a + bit_count b"
proof -
  have "{i. bit (a + 2 ^ k * b) i} = {i. bit a i} \<union> (+) k ` {i. bit b i}"
    unfolding nat_or_push_bit [OF assms, symmetric]
    by (auto simp: bit_or_iff bit_push_bit_iff_nat image_iff le_iff_add)
  moreover have "{i. bit a i} \<inter> (+) k ` {i. bit b i} = {}"
    using less_not_bit [OF assms] by auto
  ultimately show ?thesis
    by (simp add: bit_count_def card_Un_disjoint finite_bits card_image)
qed

lemma bit_count_radix:
  "\<forall>x \<in> set xs. x < 2 ^ k \<Longrightarrow> bit_count (radix (2 ^ k) xs) = sum_list (map bit_count xs)"
  by (induction xs) (simp_all add: bit_count_add, simp add: bit_count_def)

lemma bit_count_rec: "bit_count n = n mod 2 + bit_count (n div 2)"
proof -
  have "bit_count (n mod 2 + 2 ^ 1 * (n div 2)) = bit_count (n mod 2) + bit_count (n div 2)"
    by (rule bit_count_add) simp
  moreover have "bit_count (n mod 2) = n mod 2"
    by (cases "even n") (simp_all add: bit_count_def mod_2_eq_odd bit_1_iff bit_Suc_0_iff)
  ultimately show ?thesis by simp
qed

end
