(* ===== verification/GoIO.thy ===== *)
theory GoIO
  imports BitFields
begin

text \<open>
  Byte streams: what the modelled code uses of the packages \<open>io\<close> and \<open>encoding/binary\<close>. A
  reader is the list of the bytes it has left, a writer is a function that appends bytes to
  its state or fails.
\<close>

datatype io_error = EOF | UnexpectedEOF

text \<open>\<open>io.ReadFull\<close>, which \<open>binary.Read\<close> reads its argument's bytes with.\<close>

definition read_full :: "nat \<Rightarrow> u8 list \<Rightarrow> u8 list \<times> (io_error + u8 list)" where
  "read_full n r =
     (drop n r, if n \<le> length r then Inr (take n r) else if r = [] then Inl EOF else Inl UnexpectedEOF)"

text \<open>\<open>bytes.Buffer\<close> as a writer.\<close>

definition buffer_write :: "u8 list \<Rightarrow> u8 list \<Rightarrow> 'e + u8 list" where
  "buffer_write w bs = Inr (w @ bs)"

text \<open>\<open>binary.LittleEndian\<close>: the bytes of a word of \<open>n\<close> bytes, and of a slice of words.\<close>

definition le_bytes :: "nat \<Rightarrow> 'a::len word \<Rightarrow> u8 list" where
  "le_bytes n w = map of_nat (digits 256 n (unat w))"

definition le_word :: "u8 list \<Rightarrow> 'a::len word" where
  "le_word bs = of_nat (radix 256 (map unat bs))"

definition le_slice_bytes :: "nat \<Rightarrow> 'a::len word list \<Rightarrow> u8 list" where
  "le_slice_bytes n ws = concat (map (le_bytes n) ws)"

primrec le_slice :: "nat \<Rightarrow> nat \<Rightarrow> u8 list \<Rightarrow> 'a::len word list" where
  "le_slice n 0 bs = []"
| "le_slice n (Suc m) bs = le_word (take n bs) # le_slice n m (drop n bs)"

lemma length_le_bytes [simp]: "length (le_bytes n w) = n"
  by (simp add: le_bytes_def)

lemma length_le_slice_bytes [simp]: "length (le_slice_bytes n ws) = n * length ws"
  by (induction ws) (simp_all add: le_slice_bytes_def)

lemma length_le_slice [simp]: "length (le_slice n m bs) = m"
  by (induction m arbitrary: bs) simp_all

lemma le_word_bytes [simp]: "LENGTH('a) = 8 * n \<Longrightarrow> le_word (le_bytes n w) = (w :: 'a::len word)"
proof -
  assume n: "LENGTH('a) = 8 * n"
  have "map unat (le_bytes n w) = digits 256 n (unat w)"
    using digits_less [of 256 _ n "unat w"]
    by (auto simp: le_bytes_def unat_of_nat intro!: nth_equalityI)
  moreover have "unat w mod 256 ^ n = unat w"
    using unsigned_less [of w, where 'a = nat] by (simp add: n power_mult)
  ultimately show ?thesis by (simp add: le_word_def radix_digits)
qed

lemma le_slice_bytes_inverse [simp]:
  "LENGTH('a) = 8 * n \<Longrightarrow> le_slice n (length ws) (le_slice_bytes n ws @ r) = (ws :: 'a::len word list)"
  by (induction ws) (simp_all add: le_slice_bytes_def)

lemma read_full_append [simp]: "n = length bs \<Longrightarrow> read_full n (bs @ r) = (r, Inr bs)"
  by (simp add: read_full_def)

end
