(* ===== verification/Base64.thy ===== *)
theory Base64
  imports BitFields
begin

text \<open>
  \<open>base64.RawURLEncoding\<close> of the Go standard library, as the fingerprint code uses it: the URL
  alphabet, no padding, not strict about the unused bits of the last character, and line ends
  skipped when decoding. A string is the list of its bytes as characters.
\<close>

definition b64_alphabet :: string where
  "b64_alphabet = ''ABCDEFGHIJKLMNOPQRSTUVWXYZabcdefghijklmnopqrstuvwxyz0123456789-_''"

definition b64_char :: "nat \<Rightarrow> char" where
  "b64_char d = b64_alphabet ! d"

definition b64_digit :: "char \<Rightarrow> nat option" where
  "b64_digit c = find (\<lambda>d. b64_char d = c) [0..<64]"

text \<open>Up to three bytes as up to four digits, the first byte and the first digit highest.\<close>

definition quantum_digits :: "u8 list \<Rightarrow> nat list" where
  "quantum_digits bs = take (length bs + 1)
     (rev (digits 64 4 (radix 256 (rev (map unat bs @ replicate (3 - length bs) 0)))))"

definition quantum_bytes :: "nat list \<Rightarrow> u8 list" where
  "quantum_bytes ds = take (length ds - 1)
     (map of_nat (rev (digits 256 3 (radix 64 (rev (ds @ replicate (4 - length ds) 0))))))"

fun b64_encode :: "u8 list \<Rightarrow> string" where
  "b64_encode [] = []"
| "b64_encode [a] = map b64_char (quantum_digits [a])"
| "b64_encode [a, b] = map b64_char (quantum_digits [a, b])"
| "b64_encode (a # b # c # bs) = map b64_char (quantum_digits [a, b, c]) @ b64_encode bs"

text \<open>
  Decoding: \<open>si\<close> is the position in the input and \<open>ds\<close> the digits of the quantum read so far.
  The error is \<open>base64.CorruptInputError\<close> with the offset it carries.
\<close>

fun b64_decode_at :: "nat \<Rightarrow> nat list \<Rightarrow> string \<Rightarrow> nat + u8 list" where
  "b64_decode_at si ds [] = (if length ds = 1 then Inl (si - 1) else Inr (quantum_bytes ds))"
| "b64_decode_at si ds (c # cs) =
     (case b64_digit c of
        Some d \<Rightarrow>
          if length ds = 3
          then (case b64_decode_at (si + 1) [] cs of
                  Inl e \<Rightarrow> Inl e
                | Inr bs \<Rightarrow> Inr (quantum_bytes (ds @ [d]) @ bs))
          else b64_decode_at (si + 1) (ds @ [d]) cs
      | None \<Rightarrow>
          if c = CHR 0x0A \<or> c = CHR 0x0D then b64_decode_at (si + 1) ds cs else Inl si)"

definition b64_decode :: "string \<Rightarrow> nat + u8 list" where
  "b64_decode s = b64_decode_at 0 [] s"

section \<open>Decoding inverts encoding\<close>

lemma b64_digit_char: "d < 64 \<Longrightarrow> b64_digit (b64_char d) = Some d"
proof -
  have "list_all (\<lambda>d. b64_digit (b64_char d) = Some d) [0..<64]" by code_simp
  then show "d < 64 \<Longrightarrow> b64_digit (b64_char d) = Some d" by (simp add: list_all_iff)
qed

lemma quantum_digits_less: "d \<in> set (quantum_digits bs) \<Longrightarrow> d < 64"
  unfolding quantum_digits_def by (auto dest!: in_set_takeD intro: digits_less [of 64 _ 4, rotated])

lemma quantum_digits_length: "length bs \<le> 3 \<Longrightarrow> length (quantum_digits bs) = length bs + 1"
  by (simp add: quantum_digits_def)

lemma digits_4: "digits b 4 v = [v mod b, v div b mod b, v div b div b mod b, v div b div b div b mod b]"
  by (simp add: eval_nat_numeral)

lemma bytes_inverse: "length bs = n \<Longrightarrow> map of_nat (digits 256 n (radix 256 (map unat bs))) = (bs :: u8 list)"
  using digits_radix [of "map unat bs" 256] unat_less_256 by (auto simp: comp_def)

lemma replicate_2: "replicate 2 x = [x, x]"
  by (simp add: numeral_2_eq_2)

lemma quantum_inverse:
  assumes "length bs \<le> 3" "bs \<noteq> []"
  shows "quantum_bytes (quantum_digits bs) = bs"
proof -
  let ?z = "replicate (3 - length bs) (0 :: u8)"
  let ?V = "radix 256 (rev (map unat (bs @ ?z)))"
  have "?V < 256 ^ length (rev (map unat (bs @ ?z)))"
    using unat_less_256 by (intro radix_less) auto
  then have V: "?V < 64 ^ 4" using assms(1) by simp
  have "quantum_digits bs @ replicate (3 - length bs) 0 = rev (digits 64 4 ?V)"
  proof -
    have low: "256 * x mod 64 = 0" "65536 * x mod 64 = 0" "65536 * x div 64 mod 64 = 0" for x :: nat
      by (simp_all add: mod_eq_0_iff_dvd dvd_mult2)
    consider a where "bs = [a]" | a b where "bs = [a, b]" | a b c where "bs = [a, b, c]"
      using assms by (cases bs rule: b64_encode.cases) auto
    then show ?thesis
    proof cases
      case 1
      then have "?V = 65536 * unat a" by (simp add: replicate_2)
      with 1 show ?thesis by (simp add: quantum_digits_def digits_4 low replicate_2)
    next
      case 2
      then have "?V = 256 * (unat b + 256 * unat a)" by simp
      with 2 show ?thesis by (simp add: quantum_digits_def digits_4 low)
    qed (simp add: quantum_digits_def digits_4)
  qed
  then have "radix 64 (rev (quantum_digits bs @ replicate (3 - length bs) 0)) = ?V"
    using V by (simp add: radix_digits)
  moreover have "map of_nat (digits 256 3 ?V) = rev (bs @ ?z)"
    using bytes_inverse [of "rev (bs @ ?z)" 3] assms(1) by (simp add: rev_map)
  ultimately show ?thesis
    using assms by (simp add: quantum_bytes_def quantum_digits_length rev_map [symmetric])
qed

lemma decode_digits_step:
  "\<forall>d \<in> set es. d < 64 \<Longrightarrow> length ds + length es \<le> 3 \<Longrightarrow>
   b64_decode_at si ds (map b64_char es @ cs) = b64_decode_at (si + length es) (ds @ es) cs"
  by (induction es arbitrary: si ds) (auto simp: b64_digit_char)

lemma decode_quantum:
  assumes "length ds = 4" "\<forall>d \<in> set ds. d < 64"
  shows "b64_decode_at si [] (map b64_char ds @ cs) =
    (case b64_decode_at (si + 4) [] cs of Inl e \<Rightarrow> Inl e | Inr bs \<Rightarrow> Inr (quantum_bytes ds @ bs))"
proof -
  obtain a b c d where ds: "ds = [a, b, c, d]" using assms(1) by (auto simp: length_numeral length_Suc_conv)
  have four: "si + 4 = Suc (Suc (Suc (Suc si)))" by simp
  show ?thesis
    using decode_digits_step [of "[a, b, c]" "[]" si "b64_char d # cs"] assms(2) by (simp add: ds four b64_digit_char split: sum.splits)
qed

lemma decode_partial:
  assumes "length ds \<le> 3" "length ds \<noteq> 1" "\<forall>d \<in> set ds. d < 64"
  shows "b64_decode_at si [] (map b64_char ds) = Inr (quantum_bytes ds)"
  using decode_digits_step [of ds "[]" si "[]"] assms by simp

lemma b64_decode_encode_at: "b64_decode_at si [] (b64_encode bs) = Inr bs"
proof (induction bs arbitrary: si rule: b64_encode.induct)
  case 1
  show ?case by (simp add: quantum_bytes_def)
next
  case (2 a)
  show ?case
    using decode_partial [of "quantum_digits [a]" si] quantum_digits_less
    by (simp add: quantum_digits_length quantum_inverse)
next
  case (3 a b)
  show ?case
    using decode_partial [of "quantum_digits [a, b]" si] quantum_digits_less
    by (simp add: quantum_digits_length quantum_inverse)
next
  case (4 a b c bs)
  show ?case
    using decode_quantum [of "quantum_digits [a, b, c]" si "b64_encode bs"] quantum_digits_less 4
    by (simp add: quantum_digits_length quantum_inverse)
qed

lemma b64_decode_encode [simp]: "b64_decode (b64_encode bs) = Inr bs"
  by (simp add: b64_decode_def b64_decode_encode_at)

lemma b64_encode_Nil_iff [simp]: "b64_encode bs = [] \<longleftrightarrow> bs = []"
  by (cases bs rule: b64_encode.cases) (simp_all add: quantum_digits_def digits_4)

end
