(* ===== verification/Pack.thy ===== *)
theory Pack
  imports BitFields
begin

text \<open>
  \<open>util/pack.go\<close>: fourteen generated routines that convert a slice of \<open>k\<close>-bit values (one per
  byte) into a bit-packed slice and back, \<open>k = 1 .. 7\<close>. Each \<open>..Slice_loop\<close> is the \<open>for\<close> loop of
  the routine followed by its \<open>switch len(src)\<close>; the slice \<open>dst\<close> and the position \<open>n\<close> are passed
  along, and \<open>None\<close> is the panic of a slice expression out of range. The specifications
  \<open>packed\<close> and \<open>unpacked\<close> read the whole slice as one number; two locales carry the loops
  over blocks once for all widths.
\<close>

section \<open>The routines\<close>

fun PackUint1Slice_loop :: "u8 list \<Rightarrow> nat \<Rightarrow> u8 list \<Rightarrow> (u8 list \<times> nat) option" where
  "PackUint1Slice_loop dst n (s0 # s1 # s2 # s3 # s4 # s5 # s6 # s7 # src) =
     do {
       (dst', n') \<leftarrow> store dst n (fields 1 8 255 (shl_or 1 0 [s0, s1, s2, s3, s4, s5, s6, s7] :: u8));
       PackUint1Slice_loop dst' n' src
     }"
| "PackUint1Slice_loop dst n [s0, s1, s2, s3, s4, s5, s6] = store dst n (fields 1 8 255 (shl_or 1 0 [s0, s1, s2, s3, s4, s5, s6] :: u8))"
| "PackUint1Slice_loop dst n [s0, s1, s2, s3, s4, s5] = store dst n (fields 1 8 255 (shl_or 1 0 [s0, s1, s2, s3, s4, s5] :: u8))"
| "PackUint1Slice_loop dst n [s0, s1, s2, s3, s4] = store dst n (fields 1 8 255 (shl_or 1 0 [s0, s1, s2, s3, s4] :: u8))"
| "PackUint1Slice_loop dst n [s0, s1, s2, s3] = store dst n (fields 1 8 255 (shl_or 1 0 [s0, s1, s2, s3] :: u8))"
| "PackUint1Slice_loop dst n [s0, s1, s2] = store dst n (fields 1 8 255 (shl_or 1 0 [s0, s1, s2] :: u8))"
| "PackUint1Slice_loop dst n [s0, s1] = store dst n (fields 1 8 255 (shl_or 1 0 [s0, s1] :: u8))"
| "PackUint1Slice_loop dst n [s0] = store dst n (fields 1 8 255 (shl_or 1 0 [s0] :: u8))"
| "PackUint1Slice_loop dst n [] = Some (dst, n)"

definition PackUint1Slice :: "u8 list \<Rightarrow> u8 list \<Rightarrow> (u8 list \<times> nat) option" where
  "PackUint1Slice dst src = PackUint1Slice_loop dst 0 src"

fun UnpackUint1Slice_loop :: "u8 list \<Rightarrow> nat \<Rightarrow> u8 list \<Rightarrow> (u8 list \<times> nat) option" where
  "UnpackUint1Slice_loop dst n (s0 # src) =
     do {
       (dst', n') \<leftarrow> store dst n (fields 8 1 1 s0);
       UnpackUint1Slice_loop dst' n' src
     }"
| "UnpackUint1Slice_loop dst n [] = Some (dst, n)"

definition UnpackUint1Slice :: "u8 list \<Rightarrow> u8 list option" where
  "UnpackUint1Slice src = map_option fst (UnpackUint1Slice_loop (replicate (length src * 8 div 1) 0) 0 src)"

fun PackUint2Slice_loop :: "u8 list \<Rightarrow> nat \<Rightarrow> u8 list \<Rightarrow> (u8 list \<times> nat) option" where
  "PackUint2Slice_loop dst n (s0 # s1 # s2 # s3 # src) =
     do {
       (dst', n') \<leftarrow> store dst n (fields 1 8 255 (shl_or 2 0 [s0, s1, s2, s3] :: u8));
       PackUint2Slice_loop dst' n' src
     }"
| "PackUint2Slice_loop dst n [s0, s1, s2] = store dst n (fields 1 8 255 (shl_or 2 0 [s0, s1, s2] :: u8))"
| "PackUint2Slice_loop dst n [s0, s1] = store dst n (fields 1 8 255 (shl_or 2 0 [s0, s1] :: u8))"
| "PackUint2Slice_loop dst n [s0] = store dst n (fields 1 8 255 (shl_or 2 0 [s0] :: u8))"
| "PackUint2Slice_loop dst n [] = Some (dst, n)"

definition PackUint2Slice :: "u8 list \<Rightarrow> u8 list \<Rightarrow> (u8 list \<times> nat) option" where
  "PackUint2Slice dst src = PackUint2Slice_loop dst 0 src"

fun UnpackUint2Slice_loop :: "u8 list \<Rightarrow> nat \<Rightarrow> u8 list \<Rightarrow> (u8 list \<times> nat) option" where
  "UnpackUint2Slice_loop dst n (s0 # src) =
     do {
       (dst', n') \<leftarrow> store dst n (fields 4 2 3 s0);
       UnpackUint2Slice_loop dst' n' src
     }"
| "UnpackUint2Slice_loop dst n [] = Some (dst, n)"

definition UnpackUint2Slice :: "u8 list \<Rightarrow> u8 list option" where
  "UnpackUint2Slice src = map_option fst (UnpackUint2Slice_loop (replicate (length src * 8 div 2) 0) 0 src)"

fun PackUint3Slice_loop :: "u8 list \<Rightarrow> nat \<Rightarrow> u8 list \<Rightarrow> (u8 list \<times> nat) option" where
  "PackUint3Slice_loop dst n (s0 # s1 # s2 # s3 # s4 # s5 # s6 # s7 # src) =
     do {
       (dst', n') \<leftarrow> store dst n (fields 3 8 255 (shl_or 3 0 [s0, s1, s2, s3, s4, s5, s6, s7] :: u32));
       PackUint3Slice_loop dst' n' src
     }"
| "PackUint3Slice_loop dst n [s0, s1, s2, s3, s4, s5, s6] = store dst n (fields 3 8 255 (shl_or 3 0 [s0, s1, s2, s3, s4, s5, s6] :: u32))"
| "PackUint3Slice_loop dst n [s0, s1, s2, s3, s4, s5] = store dst n (fields 3 8 255 (shl_or 3 0 [s0, s1, s2, s3, s4, s5] :: u32))"
| "PackUint3Slice_loop dst n [s0, s1, s2, s3, s4] = store dst n (fields 2 8 255 (shl_or 3 0 [s0, s1, s2, s3, s4] :: u16))"
| "PackUint3Slice_loop dst n [s0, s1, s2, s3] = store dst n (fields 2 8 255 (shl_or 3 0 [s0, s1, s2, s3] :: u16))"
| "PackUint3Slice_loop dst n [s0, s1, s2] = store dst n (fields 2 8 255 (shl_or 3 0 [s0, s1, s2] :: u16))"
| "PackUint3Slice_loop dst n [s0, s1] = store dst n (fields 1 8 255 (shl_or 3 0 [s0, s1] :: u8))"
| "PackUint3Slice_loop dst n [s0] = store dst n (fields 1 8 255 (shl_or 3 0 [s0] :: u8))"
| "PackUint3Slice_loop dst n [] = Some (dst, n)"

definition PackUint3Slice :: "u8 list \<Rightarrow> u8 list \<Rightarrow> (u8 list \<times> nat) option" where
  "PackUint3Slice dst src = PackUint3Slice_loop dst 0 src"

fun UnpackUint3Slice_loop :: "u8 list \<Rightarrow> nat \<Rightarrow> u8 list \<Rightarrow> (u8 list \<times> nat) option" where
  "UnpackUint3Slice_loop dst n (s0 # s1 # s2 # src) =
     do {
       (dst', n') \<leftarrow> store dst n (fields 8 3 7 (shl_or 8 0 [s0, s1, s2] :: u32));
       UnpackUint3Slice_loop dst' n' src
     }"
| "UnpackUint3Slice_loop dst n [s0, s1] = store dst n (fields 5 3 7 (shl_or 8 0 [s0, s1] :: u16))"
| "UnpackUint3Slice_loop dst n [s0] = store dst n (fields 2 3 7 (shl_or 8 0 [s0] :: u8))"
| "UnpackUint3Slice_loop dst n [] = Some (dst, n)"

definition UnpackUint3Slice :: "u8 list \<Rightarrow> u8 list option" where
  "UnpackUint3Slice src = map_option fst (UnpackUint3Slice_loop (replicate (length src * 8 div 3) 0) 0 src)"

fun PackUint4Slice_loop :: "u8 list \<Rightarrow> nat \<Rightarrow> u8 list \<Rightarrow> (u8 list \<times> nat) option" where
  "PackUint4Slice_loop dst n (s0 # s1 # src) =
     do {
       (dst', n') \<leftarrow> store dst n (fields 1 8 255 (shl_or 4 0 [s0, s1] :: u8));
       PackUint4Slice_loop dst' n' src
     }"
| "PackUint4Slice_loop dst n [s0] = store dst n (fields 1 8 255 (shl_or 4 0 [s0] :: u8))"
| "PackUint4Slice_loop dst n [] = Some (dst, n)"

definition PackUint4Slice :: "u8 list \<Rightarrow> u8 list \<Rightarrow> (u8 list \<times> nat) option" where
  "PackUint4Slice dst src = PackUint4Slice_loop dst 0 src"

fun UnpackUint4Slice_loop :: "u8 list \<Rightarrow> nat \<Rightarrow> u8 list \<Rightarrow> (u8 list \<times> nat) option" where
  "UnpackUint4Slice_loop dst n (s0 # src) =
     do {
       (dst', n') \<leftarrow> store dst n (fields 2 4 15 s0);
       UnpackUint4Slice_loop dst' n' src
     }"
| "UnpackUint4Slice_loop dst n [] = Some (dst, n)"

definition UnpackUint4Slice :: "u8 list \<Rightarrow> u8 list option" where
  "UnpackUint4Slice src = map_option fst (UnpackUint4Slice_loop (replicate (length src * 8 div 4) 0) 0 src)"

fun PackUint5Slice_loop :: "u8 list \<Rightarrow> nat \<Rightarrow> u8 list \<Rightarrow> (u8 list \<times> nat) option" where
  "PackUint5Slice_loop dst n (s0 # s1 # s2 # s3 # s4 # s5 # s6 # s7 # src) =
     do {
       (dst', n') \<leftarrow> store dst n (fields 5 8 255 (shl_or 5 0 [s0, s1, s2, s3, s4, s5, s6, s7] :: u64));
       PackUint5Slice_loop dst' n' src
     }"
| "PackUint5Slice_loop dst n [s0, s1, s2, s3, s4, s5, s6] = store dst n (fields 5 8 255 (shl_or 5 0 [s0, s1, s2, s3, s4, s5, s6] :: u64))"
| "PackUint5Slice_loop dst n [s0, s1, s2, s3, s4, s5] = store dst n (fields 4 8 255 (shl_or 5 0 [s0, s1, s2, s3, s4, s5] :: u32))"
| "PackUint5Slice_loop dst n [s0, s1, s2, s3, s4] = store dst n (fields 4 8 255 (shl_or 5 0 [s0, s1, s2, s3, s4] :: u32))"
| "PackUint5Slice_loop dst n [s0, s1, s2, s3] = store dst n (fields 3 8 255 (shl_or 5 0 [s0, s1, s2, s3] :: u32))"
| "PackUint5Slice_loop dst n [s0, s1, s2] = store dst n (fields 2 8 255 (shl_or 5 0 [s0, s1, s2] :: u16))"
| "PackUint5Slice_loop dst n [s0, s1] = store dst n (fields 2 8 255 (shl_or 5 0 [s0, s1] :: u16))"
| "PackUint5Slice_loop dst n [s0] = store dst n (fields 1 8 255 (shl_or 5 0 [s0] :: u8))"
| "PackUint5Slice_loop dst n [] = Some (dst, n)"

definition PackUint5Slice :: "u8 list \<Rightarrow> u8 list \<Rightarrow> (u8 list \<times> nat) option" where
  "PackUint5Slice dst src = PackUint5Slice_loop dst 0 src"

fun UnpackUint5Slice_loop :: "u8 list \<Rightarrow> nat \<Rightarrow> u8 list \<Rightarrow> (u8 list \<times> nat) option" where
  "UnpackUint5Slice_loop dst n (s0 # s1 # s2 # s3 # s4 # src) =
     do {
       (dst', n') \<leftarrow> store dst n (fields 8 5 31 (shl_or 8 0 [s0, s1, s2, s3, s4] :: u64));
       UnpackUint5Slice_loop dst' n' src
     }"
| "UnpackUint5Slice_loop dst n [s0, s1, s2, s3] = store dst n (fields 6 5 31 (shl_or 8 0 [s0, s1, s2, s3] :: u32))"
| "UnpackUint5Slice_loop dst n [s0, s1, s2] = store dst n (fields 4 5 31 (shl_or 8 0 [s0, s1, s2] :: u32))"
| "UnpackUint5Slice_loop dst n [s0, s1] = store dst n (fields 3 5 31 (shl_or 8 0 [s0, s1] :: u16))"
| "UnpackUint5Slice_loop dst n [s0] = store dst n (fields 1 5 31 (shl_or 8 0 [s0] :: u8))"
| "UnpackUint5Slice_loop dst n [] = Some (dst, n)"

definition UnpackUint5Slice :: "u8 list \<Rightarrow> u8 list option" where
  "UnpackUint5Slice src = map_option fst (UnpackUint5Slice_loop (replicate (length src * 8 div 5) 0) 0 src)"

fun PackUint6Slice_loop :: "u8 list \<Rightarrow> nat \<Rightarrow> u8 list \<Rightarrow> (u8 list \<times> nat) option" where
  "PackUint6Slice_loop dst n (s0 # s1 # s2 # s3 # src) =
     do {
       (dst', n') \<leftarrow> store dst n (fields 3 8 255 (shl_or 6 0 [s0, s1, s2, s3] :: u32));
       PackUint6Slice_loop dst' n' src
     }"
| "PackUint6Slice_loop dst n [s0, s1, s2] = store dst n (fields 3 8 255 (shl_or 6 0 [s0, s1, s2] :: u32))"
| "PackUint6Slice_loop dst n [s0, s1] = store dst n (fields 2 8 255 (shl_or 6 0 [s0, s1] :: u16))"
| "PackUint6Slice_loop dst n [s0] = store dst n (fields 1 8 255 (shl_or 6 0 [s0] :: u8))"
| "PackUint6Slice_loop dst n [] = Some (dst, n)"

definition PackUint6Slice :: "u8 list \<Rightarrow> u8 list \<Rightarrow> (u8 list \<times> nat) option" where
  "PackUint6Slice dst src = PackUint6Slice_loop dst 0 src"

fun UnpackUint6Slice_loop :: "u8 list \<Rightarrow> nat \<Rightarrow> u8 list \<Rightarrow> (u8 list \<times> nat) option" where
  "UnpackUint6Slice_loop dst n (s0 # s1 # s2 # src) =
     do {
       (dst', n') \<leftarrow> store dst n (fields 4 6 63 (shl_or 8 0 [s0, s1, s2] :: u32));
       UnpackUint6Slice_loop dst' n' src
     }"
| "UnpackUint6Slice_loop dst n [s0, s1] = store dst n (fields 2 6 63 (shl_or 8 0 [s0, s1] :: u16))"
| "UnpackUint6Slice_loop dst n [s0] = store dst n (fields 1 6 63 (shl_or 8 0 [s0] :: u8))"
| "UnpackUint6Slice_loop dst n [] = Some (dst, n)"

definition UnpackUint6Slice :: "u8 list \<Rightarrow> u8 list option" where
  "UnpackUint6Slice src = map_option fst (UnpackUint6Slice_loop (replicate (length src * 8 div 6) 0) 0 src)"

fun PackUint7Slice_loop :: "u8 list \<Rightarrow> nat \<Rightarrow> u8 list \<Rightarrow> (u8 list \<times> nat) option" where
  "PackUint7Slice_loop dst n (s0 # s1 # s2 # s3 # s4 # s5 # s6 # s7 # src) =
     do {
       (dst', n') \<leftarrow> store dst n (fields 7 8 255 (shl_or 7 0 [s0, s1, s2, s3, s4, s5, s6, s7] :: u64));
       PackUint7Slice_loop dst' n' src
     }"
| "PackUint7Slice_loop dst n [s0, s1, s2, s3, s4, s5, s6] = store dst n (fields 7 8 255 (shl_or 7 0 [s0, s1, s2, s3, s4, s5, s6] :: u64))"
| "PackUint7Slice_loop dst n [s0, s1, s2, s3, s4, s5] = store dst n (fields 6 8 255 (shl_or 7 0 [s0, s1, s2, s3, s4, s5] :: u64))"
| "PackUint7Slice_loop dst n [s0, s1, s2, s3, s4] = store dst n (fields 5 8 255 (shl_or 7 0 [s0, s1, s2, s3, s4] :: u64))"
| "PackUint7Slice_loop dst n [s0, s1, s2, s3] = store dst n (fields 4 8 255 (shl_or 7 0 [s0, s1, s2, s3] :: u32))"
| "PackUint7Slice_loop dst n [s0, s1, s2] = store dst n (fields 3 8 255 (shl_or 7 0 [s0, s1, s2] :: u32))"
| "PackUint7Slice_loop dst n [s0, s1] = store dst n (fields 2 8 255 (shl_or 7 0 [s0, s1] :: u16))"
| "PackUint7Slice_loop dst n [s0] = store dst n (fields 1 8 255 (shl_or 7 0 [s0] :: u8))"
| "PackUint7Slice_loop dst n [] = Some (dst, n)"

definition PackUint7Slice :: "u8 list \<Rightarrow> u8 list \<Rightarrow> (u8 list \<times> nat) option" where
  "PackUint7Slice dst src = PackUint7Slice_loop dst 0 src"

fun UnpackUint7Slice_loop :: "u8 list \<Rightarrow> nat \<Rightarrow> u8 list \<Rightarrow> (u8 list \<times> nat) option" where
  "UnpackUint7Slice_loop dst n (s0 # s1 # s2 # s3 # s4 # s5 # s6 # src) =
     do {
       (dst', n') \<leftarrow> store dst n (fields 8 7 127 (shl_or 8 0 [s0, s1, s2, s3, s4, s5, s6] :: u64));
       UnpackUint7Slice_loop dst' n' src
     }"
| "UnpackUint7Slice_loop dst n [s0, s1, s2, s3, s4, s5] = store dst n (fields 6 7 127 (shl_or 8 0 [s0, s1, s2, s3, s4, s5] :: u64))"
| "UnpackUint7Slice_loop dst n [s0, s1, s2, s3, s4] = store dst n (fields 5 7 127 (shl_or 8 0 [s0, s1, s2, s3, s4] :: u64))"
| "UnpackUint7Slice_loop dst n [s0, s1, s2, s3] = store dst n (fields 4 7 127 (shl_or 8 0 [s0, s1, s2, s3] :: u32))"
| "UnpackUint7Slice_loop dst n [s0, s1, s2] = store dst n (fields 3 7 127 (shl_or 8 0 [s0, s1, s2] :: u32))"
| "UnpackUint7Slice_loop dst n [s0, s1] = store dst n (fields 2 7 127 (shl_or 8 0 [s0, s1] :: u16))"
| "UnpackUint7Slice_loop dst n [s0] = store dst n (fields 1 7 127 (shl_or 8 0 [s0] :: u8))"
| "UnpackUint7Slice_loop dst n [] = Some (dst, n)"

definition UnpackUint7Slice :: "u8 list \<Rightarrow> u8 list option" where
  "UnpackUint7Slice src = map_option fst (UnpackUint7Slice_loop (replicate (length src * 8 div 7) 0) 0 src)"

section \<open>Specification\<close>

definition packed :: "nat \<Rightarrow> u8 list \<Rightarrow> u8 list" where
  "packed k xs = map of_nat (digits 256 ((k * length xs + 7) div 8) (radix (2 ^ k) (map unat xs)))"

definition unpacked :: "nat \<Rightarrow> u8 list \<Rightarrow> u8 list" where
  "unpacked k bs = map of_nat (digits (2 ^ k) (8 * length bs div k) (radix 256 (map unat bs)))"

lemma length_packed [simp]: "length (packed k xs) = (k * length xs + 7) div 8"
  by (simp add: packed_def)

lemma length_unpacked [simp]: "length (unpacked k bs) = 8 * length bs div k"
  by (simp add: unpacked_def)

lemma packed_Nil [simp]: "packed k [] = []"
  by (simp add: packed_def)

lemma unpacked_Nil [simp]: "unpacked k [] = []"
  by (simp add: unpacked_def)

lemma fields_packed:
  assumes "\<forall>x \<in> set xs. unat x < 2 ^ k" "k * length xs \<le> LENGTH('w)" "m = (k * length xs + 7) div 8"
  shows "fields m 8 255 (shl_or k 0 xs :: 'w::len word) = packed k xs"
  using assms unat_shl_or [of xs k 0, where 'w = 'w]
    fields_digits [of 255 8 m "shl_or k 0 xs :: 'w word"]
  by (simp add: packed_def mask_eq_exp_minus_1)

lemma fields_unpacked:
  assumes "8 * length bs \<le> LENGTH('w)" "m = 8 * length bs div k" "msk = mask k"
  shows "fields m k msk (shl_or 8 0 bs :: 'w::len word) = unpacked k bs"
  using assms by (simp add: unpacked_def fields_digits unat_shl_or_bytes)

lemma fields_unpacked_byte: "m = 8 div k \<Longrightarrow> msk = mask k \<Longrightarrow> fields m k msk b = unpacked k [b]"
  by (simp add: unpacked_def fields_digits)

lemma radix_fields_less: "\<forall>x \<in> set xs. unat x < 2 ^ k \<Longrightarrow> radix (2 ^ k) (map unat xs) < 2 ^ (k * length xs)"
  using radix_less [of "map unat xs" "2 ^ k"] by (simp add: power_mult)

lemma radix_bytes_less: "radix 256 (map unat bs) < 256 ^ length bs" for bs :: "u8 list"
  using radix_less [of "map unat bs" 256] unat_less_256 by auto

lemma packed_append:
  assumes "k * length blk = 8 * s" "\<forall>x \<in> set blk. unat x < 2 ^ k"
  shows "packed k (blk @ xs) = packed k blk @ packed k xs"
proof -
  let ?R = "\<lambda>xs. radix (2 ^ k) (map unat xs)"
  have eq: "(2::nat) ^ (k * length blk) = 256 ^ s" by (simp add: assms(1) power_mult)
  have less: "?R blk < 256 ^ s" using radix_fields_less [OF assms(2)] by (simp add: eq)
  have len: "(k * length (blk @ xs) + 7) div 8 = s + (k * length xs + 7) div 8"
    using assms(1) by (simp add: algebra_simps)
  have R: "radix (2 ^ k) (map unat blk @ map unat xs) = ?R blk + 256 ^ s * ?R xs"
    by (simp add: radix_append flip: eq power_mult)
  have "digits 256 s (?R blk + 256 ^ s * ?R xs) = digits 256 s (?R blk)"
    by (metis digits_mod mod_mult_self2)
  with less show ?thesis
    unfolding packed_def len map_append R digits_add using assms(1) by simp
qed

lemma unpacked_append:
  assumes "k * d = 8 * length blk" "0 < k"
  shows "unpacked k (blk @ bs) = unpacked k blk @ unpacked k bs"
proof -
  let ?R = "\<lambda>bs. radix 256 (map unat bs)"
  have d: "8 * length blk div k = d" using assms by (simp flip: assms(1))
  have eq: "(256::nat) ^ length blk = (2 ^ k) ^ d"
    by (simp add: assms(1) flip: power_mult)
      (simp add: power_mult)
  have len: "8 * length (blk @ bs) div k = d + 8 * length bs div k"
  proof -
    have "8 * length (blk @ bs) = k * d + 8 * length bs" using assms(1) by simp
    then show ?thesis using assms(2) by (simp only: div_mult_self4)
  qed
  have less: "?R blk < (2 ^ k) ^ d" using radix_bytes_less [of blk] by (simp add: eq)
  have R: "radix 256 (map unat blk @ map unat bs) = ?R blk + (2 ^ k) ^ d * ?R bs"
    by (simp add: radix_append eq)
  have "digits (2 ^ k) d (?R blk + (2 ^ k) ^ d * ?R bs) = digits (2 ^ k) d (?R blk)"
    by (metis digits_mod mod_mult_self2)
  with less show ?thesis
    unfolding unpacked_def len map_append R digits_add by (simp add: d)
qed

lemma unpacked_packed:
  assumes "\<forall>x \<in> set xs. unat x < 2 ^ k" "0 < k"
  shows "\<exists>z. unpacked k (packed k xs) = xs @ replicate z 0"
proof -
  let ?m = "(k * length xs + 7) div 8" and ?R = "radix (2 ^ k) (map unat xs)"
  have m: "k * length xs \<le> 8 * ?m" by simp
  have "?R < 2 ^ (k * length xs)" by (rule radix_fields_less [OF assms(1)])
  also have "(2::nat) ^ (k * length xs) \<le> 2 ^ (8 * ?m)" using m by (rule power_increasing) simp
  also have "(2::nat) ^ (8 * ?m) = 256 ^ ?m" by (simp add: power_mult)
  finally have small: "?R < 256 ^ ?m" .
  have bytes: "map unat (packed k xs) = digits 256 ?m ?R"
    unfolding packed_def map_map
    by (rule map_idI) (use digits_less [of 256] in \<open>force simp: unat_of_nat\<close>)
  define z where "z = 8 * ?m div k - length xs"
  have "length xs \<le> 8 * ?m div k"
    using m assms(2) by (simp add: less_eq_div_iff_mult_less_eq mult.commute)
  then have len: "8 * ?m div k = length xs + z" by (simp add: z_def)
  have "?R div (2 ^ k) ^ length xs = 0" using radix_fields_less [OF assms(1)] by (simp add: power_mult)
  then have "digits (2 ^ k) (8 * ?m div k) ?R = map unat xs @ replicate z 0"
    using digits_radix [of "map unat xs" "2 ^ k"] assms(1) by (simp add: len digits_add)
  then have "unpacked k (packed k xs) = xs @ replicate z 0"
    using small by (simp add: unpacked_def bytes radix_digits comp_def)
  then show ?thesis ..
qed

section \<open>The loops over blocks, once for all widths\<close>

locale bit_packer =
  fixes k D S :: nat
    and loop :: "u8 list \<Rightarrow> nat \<Rightarrow> u8 list \<Rightarrow> (u8 list \<times> nat) option"
  assumes geometry: "k * D = 8 * S \<and> 0 < D"
    and block: "length blk = D \<Longrightarrow> \<forall>x \<in> set blk. unat x < 2 ^ k \<Longrightarrow>
      loop dst n (blk @ src) = Option.bind (store dst n (packed k blk)) (\<lambda>(dst', n'). loop dst' n' src)"
    and rest: "length src < D \<Longrightarrow> n \<le> length dst \<Longrightarrow> \<forall>x \<in> set src. unat x < 2 ^ k \<Longrightarrow>
      loop dst n src = store dst n (packed k src)"
begin

lemma loop_eq:
  assumes "\<forall>x \<in> set src. unat x < 2 ^ k" "n \<le> length dst"
  shows "loop dst n src = store dst n (packed k src)"
  using assms
proof (induction src arbitrary: dst n rule: length_induct)
  case (1 src)
  show ?case
  proof (cases "length src < D")
    case False
    let ?b = "take D src" and ?r = "drop D src"
    have b: "length ?b = D" "\<forall>x \<in> set ?b. unat x < 2 ^ k"
      using False "1.prems" by (auto dest: in_set_takeD)
    have r: "length ?r < length src" "\<forall>x \<in> set ?r. unat x < 2 ^ k"
      using False geometry "1.prems" by (auto dest: in_set_dropD)
    have IH: "loop dst' n' ?r = store dst' n' (packed k ?r)"
      if "store dst n (packed k ?b) = Some (dst', n')" for dst' n'
      using "1.IH" r store_length [OF that] by auto
    have "loop dst n src = Option.bind (store dst n (packed k ?b)) (\<lambda>(dst', n'). loop dst' n' ?r)"
      using block [OF b, of dst n ?r] by simp
    also have "\<dots> = store dst n (packed k ?b @ packed k ?r)"
      by (cases "store dst n (packed k ?b)") (auto simp: store_append IH)
    also have "\<dots> = store dst n (packed k src)"
      using packed_append [of k ?b S ?r] b geometry by simp
    finally show ?thesis .
  qed (use "1.prems" rest in auto)
qed

end

locale bit_unpacker =
  fixes k D S :: nat
    and loop :: "u8 list \<Rightarrow> nat \<Rightarrow> u8 list \<Rightarrow> (u8 list \<times> nat) option"
  assumes geometry: "k * D = 8 * S \<and> 0 < S \<and> 0 < k"
    and block: "length blk = S \<Longrightarrow>
      loop dst n (blk @ src) = Option.bind (store dst n (unpacked k blk)) (\<lambda>(dst', n'). loop dst' n' src)"
    and rest: "length src < S \<Longrightarrow> n \<le> length dst \<Longrightarrow> loop dst n src = store dst n (unpacked k src)"
begin

lemma loop_eq:
  assumes "n \<le> length dst"
  shows "loop dst n src = store dst n (unpacked k src)"
  using assms
proof (induction src arbitrary: dst n rule: length_induct)
  case (1 src)
  show ?case
  proof (cases "length src < S")
    case False
    let ?b = "take S src" and ?r = "drop S src"
    have b: "length ?b = S" and r: "length ?r < length src" using False geometry by auto
    have IH: "loop dst' n' ?r = store dst' n' (unpacked k ?r)"
      if "store dst n (unpacked k ?b) = Some (dst', n')" for dst' n'
      using "1.IH" r store_length [OF that] by auto
    have "loop dst n src = Option.bind (store dst n (unpacked k ?b)) (\<lambda>(dst', n'). loop dst' n' ?r)"
      using block [OF b, of dst n ?r] by simp
    also have "\<dots> = store dst n (unpacked k ?b @ unpacked k ?r)"
      by (cases "store dst n (unpacked k ?b)") (auto simp: store_append IH)
    also have "\<dots> = store dst n (unpacked k src)"
      using unpacked_append [of k D ?b ?r] b geometry by simp
    finally show ?thesis .
  qed (use "1.prems" rest in auto)
qed

text \<open>The destination the routine allocates has exactly the room it needs.\<close>

lemma alloc_eq: "map_option fst (loop (replicate (length src * 8 div k) 0) 0 src) = Some (unpacked k src)"
  by (simp add: loop_eq store_full mult.commute)

end

lemma shl_or_byte: "shl_or k 0 [b] = b"
  by (simp add: shl_or.simps)

text \<open>What the laws of a routine follow from: its equations, on lists split into elements.\<close>

lemmas split_list_laws = length_numeral length_less_numeral length_Suc_conv mask_eq_exp_minus_1
lemmas pack_laws = split_list_laws fields_packed
lemmas unpack_laws = split_list_laws fields_unpacked fields_unpacked_byte shl_or_byte

interpretation pack1: bit_packer 1 8 1 PackUint1Slice_loop
  by unfold_locales (auto simp: pack_laws)

interpretation unpack1: bit_unpacker 1 8 1 UnpackUint1Slice_loop
  by unfold_locales (auto simp: unpack_laws)

interpretation pack2: bit_packer 2 4 1 PackUint2Slice_loop
  by unfold_locales (auto simp: pack_laws)

interpretation unpack2: bit_unpacker 2 4 1 UnpackUint2Slice_loop
  by unfold_locales (auto simp: unpack_laws)

interpretation pack3: bit_packer 3 8 3 PackUint3Slice_loop
  by unfold_locales (auto simp: pack_laws)

interpretation unpack3: bit_unpacker 3 8 3 UnpackUint3Slice_loop
  by unfold_locales (auto simp: unpack_laws)

interpretation pack4: bit_packer 4 2 1 PackUint4Slice_loop
  by unfold_locales (auto simp: pack_laws)

interpretation unpack4: bit_unpacker 4 2 1 UnpackUint4Slice_loop
  by unfold_locales (auto simp: unpack_laws)

interpretation pack5: bit_packer 5 8 5 PackUint5Slice_loop
  by unfold_locales (auto simp: pack_laws)

interpretation unpack5: bit_unpacker 5 8 5 UnpackUint5Slice_loop
  by unfold_locales (auto simp: unpack_laws)

interpretation pack6: bit_packer 6 4 3 PackUint6Slice_loop
  by unfold_locales (auto simp: pack_laws)

interpretation unpack6: bit_unpacker 6 4 3 UnpackUint6Slice_loop
  by unfold_locales (auto simp: unpack_laws)

interpretation pack7: bit_packer 7 8 7 PackUint7Slice_loop
  by unfold_locales (auto simp: pack_laws)

interpretation unpack7: bit_unpacker 7 8 7 UnpackUint7Slice_loop
  by unfold_locales (auto simp: unpack_laws)


text \<open>Any destination with enough room is filled from its front, the rest of it kept.\<close>

lemmas PackUintSlice_eqs =
  pack1.loop_eq pack2.loop_eq pack3.loop_eq pack4.loop_eq pack5.loop_eq pack6.loop_eq pack7.loop_eq

lemmas UnpackUintSlice_eqs =
  unpack1.alloc_eq [folded UnpackUint1Slice_def]
  unpack2.alloc_eq [folded UnpackUint2Slice_def]
  unpack3.alloc_eq [folded UnpackUint3Slice_def]
  unpack4.alloc_eq [folded UnpackUint4Slice_def]
  unpack5.alloc_eq [folded UnpackUint5Slice_def]
  unpack6.alloc_eq [folded UnpackUint6Slice_def]
  unpack7.alloc_eq [folded UnpackUint7Slice_def]

lemma PackUint3Slice_eq:
  "\<forall>x \<in> set src. unat x < 8 \<Longrightarrow> PackUint3Slice dst src = store dst 0 (packed 3 src)"
  by (simp add: PackUint3Slice_def pack3.loop_eq)

lemma PackUint5Slice_eq:
  "\<forall>x \<in> set src. unat x < 32 \<Longrightarrow> PackUint5Slice dst src = store dst 0 (packed 5 src)"
  by (simp add: PackUint5Slice_def pack5.loop_eq)

lemma UnpackUint3Slice_eq: "UnpackUint3Slice bs = Some (unpacked 3 bs)"
  by (rule UnpackUintSlice_eqs)

lemma UnpackUint5Slice_eq: "UnpackUint5Slice bs = Some (unpacked 5 bs)"
  by (rule UnpackUintSlice_eqs)

section \<open>Properties\<close>

text \<open>The routine for each width, as the generator names them.\<close>

definition PackUintSlice :: "nat \<Rightarrow> u8 list \<Rightarrow> u8 list \<Rightarrow> (u8 list \<times> nat) option" where
  "PackUintSlice k = [PackUint1Slice, PackUint2Slice, PackUint3Slice, PackUint4Slice,
     PackUint5Slice, PackUint6Slice, PackUint7Slice] ! (k - 1)"

definition UnpackUintSlice :: "nat \<Rightarrow> u8 list \<Rightarrow> u8 list option" where
  "UnpackUintSlice k = [UnpackUint1Slice, UnpackUint2Slice, UnpackUint3Slice, UnpackUint4Slice,
     UnpackUint5Slice, UnpackUint6Slice, UnpackUint7Slice] ! (k - 1)"

lemma width_cases: "1 \<le> k \<Longrightarrow> k \<le> 7 \<Longrightarrow> k \<in> {1, 2, 3, 4, 5, 6, 7}" for k :: nat
  by auto

lemma PackUintSlice_eq:
  assumes "1 \<le> k" "k \<le> 7" "\<forall>x \<in> set src. unat x < 2 ^ k"
  shows "PackUintSlice k dst src = store dst 0 (packed k src)"
  using width_cases [OF assms(1,2)] assms(3)
  by (auto simp: PackUintSlice_def PackUintSlice_eqs PackUint1Slice_def PackUint2Slice_def
      PackUint3Slice_def PackUint4Slice_def PackUint5Slice_def PackUint6Slice_def PackUint7Slice_def)

lemma UnpackUintSlice_eq:
  assumes "1 \<le> k" "k \<le> 7"
  shows "UnpackUintSlice k bs = Some (unpacked k bs)"
  using width_cases [OF assms]
  by (auto simp: UnpackUintSlice_def UnpackUintSlice_eqs)

text \<open>C25. For every width \<open>k = 1 .. 7\<close>, packing a slice of \<open>k\<close>-bit values into a destination with
  enough room writes exactly \<open>ceil (k * len / 8)\<close> bytes at its front and keeps the rest, and
  unpacking those bytes gives back the slice, followed only by the zeros that pad the last byte.\<close>

theorem unpack_pack_roundtrip:
  assumes "1 \<le> k" "k \<le> 7" "\<forall>x \<in> set src. unat x < 2 ^ k" "(k * length src + 7) div 8 \<le> length dst"
  shows "\<exists>bs z. PackUintSlice k dst src = Some (bs @ drop (length bs) dst, length bs) \<and>
    length bs = (k * length src + 7) div 8 \<and> UnpackUintSlice k bs = Some (src @ replicate z 0)"
proof -
  obtain z where "unpacked k (packed k src) = src @ replicate z 0"
    using unpacked_packed [OF assms(3)] assms(1) by auto
  then show ?thesis
    using assms by (intro exI [of _ "packed k src"] exI [of _ z])
      (simp add: PackUintSlice_eq UnpackUintSlice_eq store_def)
qed

theorem unpack_pack_roundtrip_witness:
  "\<exists>bs z. PackUintSlice 3 (replicate 5 0) [1, 7, 0, 5] = Some (bs @ drop (length bs) (replicate 5 0), length bs) \<and>
    length bs = 2 \<and> UnpackUintSlice 3 bs = Some ([1, 7, 0, 5] @ replicate z 0)"
  using unpack_pack_roundtrip [of 3 "[1, 7, 0, 5]" "replicate 5 0"] by simp
end
