(* ===== verification/Bits.thy ===== *)
theory Bits
  imports BitFields
begin

unbundle bit_operations_syntax

text \<open>
  \<open>util/bits.go\<close>, \<open>util/popcount.go\<close> and \<open>util/minmax.go\<close>: the de Bruijn computation of the
  highest set bit, the parallel bit counts on 32 and 64 bits and on slices of words, and the
  minimum and maximum of two words, each with the mathematical function it computes.
\<close>

section \<open>HighestSetBit32\<close>

definition multiplyDeBruijnBitPosition :: "nat list" where
  "multiplyDeBruijnBitPosition =
     [0, 9, 1, 10, 13, 21, 2, 29, 11, 14, 16, 18, 22, 25, 3, 30,
      8, 12, 20, 28, 15, 17, 24, 7, 19, 27, 23, 6, 26, 5, 4, 31]"

text \<open>The five assignments \<open>x |= x >> 2^i\<close>\<close>

definition smear :: "u32 \<Rightarrow> u32" where
  "smear x =
     (let x = x OR drop_bit 1 x; x = x OR drop_bit 2 x; x = x OR drop_bit 4 x;
          x = x OR drop_bit 8 x; x = x OR drop_bit 16 x
      in x)"

definition HighestSetBit32 :: "u32 \<Rightarrow> nat option" where
  "HighestSetBit32 x = idx multiplyDeBruijnBitPosition (unat (drop_bit 27 (smear x * 0x07C4ACDD)))"

section \<open>PopCount\<close>

definition PopCount64 :: "u64 \<Rightarrow> nat" where
  "PopCount64 x =
     (let x = x - (drop_bit 1 x AND 0x5555555555555555);
          x = (x AND 0x3333333333333333) + (drop_bit 2 x AND 0x3333333333333333);
          x = (x + drop_bit 4 x) AND 0x0f0f0f0f0f0f0f0f
      in unat (drop_bit 56 (x * 0x0101010101010101)))"

definition PopCount32 :: "u32 \<Rightarrow> nat" where
  "PopCount32 x =
     (let x = x - (drop_bit 1 x AND 0x55555555);
          x = (x AND 0x33333333) + (drop_bit 2 x AND 0x33333333);
          x = (x + drop_bit 4 x) AND 0x0f0f0f0f
      in unat (drop_bit 24 (x * 0x01010101)))"

primrec PopCount64Slice :: "u64 list \<Rightarrow> nat" where
  "PopCount64Slice [] = 0"
| "PopCount64Slice (x # xs) = PopCount64 x + PopCount64Slice xs"

primrec PopCount32Slice :: "u32 list \<Rightarrow> nat" where
  "PopCount32Slice [] = 0"
| "PopCount32Slice (x # xs) = PopCount32 x + PopCount32Slice xs"

section \<open>MinUint32, MaxUint32\<close>

definition MinUint32 :: "u32 \<Rightarrow> u32 \<Rightarrow> u32" where
  "MinUint32 a b = (if a \<le> b then a else b)"

definition MaxUint32 :: "u32 \<Rightarrow> u32 \<Rightarrow> u32" where
  "MaxUint32 a b = (if a \<ge> b then a else b)"

section \<open>The parallel steps\<close>

text \<open>Neighbouring fields of \<open>k\<close> bits read as one field of \<open>2 * k\<close> bits.\<close>

fun pairs :: "nat \<Rightarrow> nat list \<Rightarrow> nat list" where
  "pairs b (x # y # xs) = (x + b * y) # pairs b xs"
| "pairs b _ = []"

lemma radix_pairs: "even (length xs) \<Longrightarrow> radix (b * b) (pairs b xs) = radix b xs"
  by (induction b xs rule: pairs.induct) (simp_all add: algebra_simps)

lemma length_pairs: "length (pairs b xs) = length xs div 2"
  by (induction b xs rule: pairs.induct) simp_all

text \<open>Adding the two halves of every field.\<close>

definition halves :: "nat \<Rightarrow> nat list \<Rightarrow> nat list" where
  "halves b xs = map (\<lambda>e. e mod b + e div b) (pairs b xs)"

lemma pairs_bound:
  "\<forall>x \<in> set xs. x \<le> c \<Longrightarrow> c < b \<Longrightarrow> e \<in> set (pairs b xs) \<Longrightarrow>
   e mod b \<le> c \<and> e div b \<le> c \<and> e < b * b"
proof (induction b xs rule: pairs.induct)
  case (1 b x y xs)
  have "x + b * y < b * b"
  proof -
    have "x + b * y < b * Suc y" using 1 by simp
    also have "\<dots> \<le> b * b" using 1 by (intro mult_le_mono2) simp
    finally show ?thesis .
  qed
  then show ?case using 1 by auto
qed auto

lemma halves_bound:
  "\<forall>x \<in> set xs. x \<le> c \<Longrightarrow> c < b \<Longrightarrow> \<forall>e \<in> set (halves b xs). e \<le> 2 * c"
  using pairs_bound [of xs c b] by (fastforce simp: halves_def)

lemma sum_halves: "\<forall>x \<in> set xs. x < b \<Longrightarrow> even (length xs) \<Longrightarrow> sum_list (halves b xs) = sum_list xs"
  unfolding halves_def by (induction b xs rule: pairs.induct) auto

lemma length_halves [simp]: "length (halves b xs) = length xs div 2"
  by (simp add: halves_def length_pairs)

lemma swar1:
  assumes "\<forall>d \<in> set D. d < 4" "M = radix 4 (replicate (length D) 1)"
  shows "drop_bit 1 (radix 4 D) AND M = radix 4 (map (\<lambda>d. d div 2) D)" (is ?and)
    and "radix 4 D - (drop_bit 1 (radix 4 D) AND M) = radix 4 (map bit_count D)"
    and "drop_bit 1 (radix 4 D) AND M \<le> radix 4 D"
proof -
  have D: "\<forall>d \<in> set D. d < 2 ^ 2" using assms(1) by simp
  have "drop_bit 1 d AND 1 = d div 2 \<and> bit_count d = d - d div 2" if "d < 4" for d :: nat
  proof -
    have "d \<in> {0, 1, 2, 3}" using that by auto
    then show ?thesis
      by (auto simp: bit_count_rec [of 1] bit_count_rec [of 2] bit_count_rec [of 3] bit_count_def [of 0]
          drop_bit_eq_div and_one_eq simp flip: One_nat_def)
  qed
  note digit = this
  have "map (\<lambda>d. drop_bit 1 d AND 1) D = map (\<lambda>d. d div 2) D"
    and cnt: "map (\<lambda>d. d - d div 2) D = map bit_count D"
    using digit assms(1) by auto
  then show ?and using radix_shift_and [OF D, of 1 1] assms(2) by (simp cong: map_cong)
  then show "radix 4 D - (drop_bit 1 (radix 4 D) AND M) = radix 4 (map bit_count D)"
    using radix_map_diff [of D "\<lambda>d. d div 2" "\<lambda>d. d" 4] cnt by simp
  show "drop_bit 1 (radix 4 D) AND M \<le> radix 4 D"
    using radix_map_mono [of D "\<lambda>d. d div 2" "\<lambda>d. d" 4] \<open>?and\<close> by simp
qed

lemma swar2:
  assumes "\<forall>d \<in> set D. d \<le> 2" "even (length D)" "M = radix 16 (replicate (length D div 2) 3)"
  shows "(radix 4 D AND M) + (drop_bit 2 (radix 4 D) AND M) = radix 16 (halves 4 D)"
proof -
  let ?E = "pairs 4 D"
  have E: "\<forall>e \<in> set ?E. e < 2 ^ 4" and E': "\<forall>e \<in> set ?E. e mod 4 \<le> 2 \<and> e div 4 \<le> 2"
    using pairs_bound [of D 2 4] assms(1) by auto
  have M: "M = radix (2 ^ 4) (replicate (length ?E) 3)" by (simp add: assms(3) length_pairs)
  have X: "radix 4 D = radix (2 ^ 4) ?E" using radix_pairs [of D 4] assms(2) by simp
  have and3: "n AND 3 = n mod 4" for n :: nat
    using take_bit_eq_mask [of 2 n] by (simp add: take_bit_eq_mod mask_eq_exp_minus_1)
  have "radix 4 D AND M = radix (2 ^ 4) (map (\<lambda>e. e mod 4) ?E)"
    unfolding X M using radix_and_const [OF E, of 3] by (simp add: and3)
  moreover have "map (\<lambda>e. e div 4 mod 4) ?E = map (\<lambda>e. e div 4) ?E" using E' by fastforce
  then have "drop_bit 2 (radix 4 D) AND M = radix (2 ^ 4) (map (\<lambda>e. e div 4) ?E)"
    unfolding X M using radix_shift_and [OF E, of 3 2] by (simp add: and3 drop_bit_eq_div cong: map_cong)
  ultimately show ?thesis by (simp add: halves_def radix_map_plus)
qed

lemma bit_cat: "a < 2 ^ k \<Longrightarrow> bit (a + 2 ^ k * b) n \<longleftrightarrow> (if n < k then bit a n else bit b (n - k))"
  for a b :: nat
  by (auto simp: bit_or_iff bit_push_bit_iff_nat less_not_bit simp flip: nat_or_push_bit)

lemma and_cat:
  fixes a b c d :: nat
  assumes "a < 2 ^ k" "c < 2 ^ k"
  shows "(a + 2 ^ k * b) AND (c + 2 ^ k * d) = (a AND c) + 2 ^ k * (b AND d)"
  by (rule bit_eqI) (use assms and_less [OF assms(1), of c] in \<open>simp add: bit_cat bit_and_iff\<close>)

lemma mod_div_16: "16 * r = 16 * (r mod 16) + 256 * (r div 16)" for r :: nat
proof -
  define q m where "q = r div 16" and "m = r mod 16"
  have "r = 16 * q + m" by (simp add: q_def m_def)
  then show ?thesis unfolding q_def [symmetric] m_def [symmetric] by simp
qed

text \<open>The last step shifts first and masks afterwards: bits of the next field come in and go.\<close>

lemma swar3_bytes:
  "\<forall>e \<in> set E. e mod 16 \<le> 4 \<and> e div 16 \<le> 4 \<Longrightarrow>
   (radix 256 E + radix 256 E div 16) AND radix 256 (replicate (length E) 15) =
   radix 256 (map (\<lambda>e. e mod 16 + e div 16) E)"
proof (induction E)
  case (Cons e E)
  let ?r = "radix 256 E" and ?m = "radix 256 (replicate (length E) 15)"
  define lo where "lo = e + e div 16 + 16 * (?r mod 16)"
  have "?r mod 16 = (case E of [] \<Rightarrow> 0 | x # _ \<Rightarrow> x) mod 16"
    by (cases E) (simp_all add: mod_add_eq [symmetric])
  then have r: "?r mod 16 \<le> 4" using Cons.prems by (cases E) auto
  have e: "e = e mod 16 + 16 * (e div 16)" by simp
  have lo_less: "lo < 2 ^ 8" using e r Cons.prems unfolding lo_def by (simp, linarith)
  have lo_eq: "lo = (e mod 16 + e div 16) + 16 * (e div 16 + ?r mod 16)"
    unfolding lo_def by (subst (1) e) (simp only: distrib_left ac_simps)
  have "lo AND 15 = lo mod 16"
    using take_bit_eq_mask [of 4 lo] by (simp add: take_bit_eq_mod mask_eq_exp_minus_1)
  also have "\<dots> = (e mod 16 + e div 16) mod 16" by (simp only: lo_eq mod_mult_self2)
  also have "\<dots> = e mod 16 + e div 16" using Cons.prems by simp
  finally have lo15: "lo AND 15 = e mod 16 + e div 16" .
  have "(e + 256 * ?r) div 16 = e div 16 + 16 * ?r" by simp
  also have "16 * ?r = 16 * (?r mod 16) + 256 * (?r div 16)" by (rule mod_div_16)
  finally have "radix 256 (e # E) + radix 256 (e # E) div 16 = lo + 2 ^ 8 * (?r + ?r div 16)"
    by (simp add: lo_def)
  then have "(radix 256 (e # E) + radix 256 (e # E) div 16) AND radix 256 (replicate (length (e # E)) 15) =
      (lo AND 15) + 2 ^ 8 * ((?r + ?r div 16) AND ?m)"
    using and_cat [OF lo_less, of 15 "?r + ?r div 16" ?m] by (simp del: distrib_left_numeral)
  then show ?case using Cons lo15 by simp
qed simp

lemma swar3:
  assumes "\<forall>d \<in> set D. d \<le> 4" "even (length D)" "M = radix 256 (replicate (length D div 2) 15)"
  shows "(radix 16 D + drop_bit 4 (radix 16 D)) AND M = radix 256 (halves 16 D)"
  using swar3_bytes [of "pairs 16 D"] pairs_bound [of D 4 16] radix_pairs [of D 16] assms
  by (simp add: halves_def length_pairs drop_bit_eq_div)

text \<open>Multiplying by \<open>0x0101..01\<close> adds all fields up in the top one.\<close>

lemma mult_ones_4:
  assumes "sum_list xs < 256" "length xs = 4"
  shows "radix 256 xs * 0x01010101 mod 2 ^ 32 div 2 ^ 24 = sum_list xs"
proof -
  obtain a b c d where xs: "xs = [a, b, c, d]"
    using assms(2) by (auto simp: length_numeral length_Suc_conv)
  define L where "L = a + 256 * (a + b) + 65536 * (a + b + c)"
  define H where "H = b + c + d + 256 * (c + d) + 65536 * d"
  have "radix 256 xs * 0x01010101 = L + 2 ^ 24 * sum_list xs + 2 ^ 32 * H"
    by (simp add: xs L_def H_def algebra_simps)
  moreover have "L < 2 ^ 24" using assms(1) by (simp add: xs L_def)
  ultimately show ?thesis using assms(1) by simp
qed

lemma mult_ones_8:
  assumes "sum_list xs < 256" "length xs = 8"
  shows "radix 256 xs * 0x0101010101010101 mod 2 ^ 64 div 2 ^ 56 = sum_list xs"
proof -
  obtain a b c d e f g h where xs: "xs = [a, b, c, d, e, f, g, h]"
    using assms(2) by (auto simp: length_numeral length_Suc_conv)
  define L where "L = radix 256 [a, a + b, a + b + c, a + b + c + d, a + b + c + d + e,
    a + b + c + d + e + f, a + b + c + d + e + f + g]"
  define H where "H = radix 256 [b + c + d + e + f + g + h, c + d + e + f + g + h, d + e + f + g + h,
    e + f + g + h, f + g + h, g + h, h]"
  have "radix 256 xs * 0x0101010101010101 = L + 2 ^ 56 * sum_list xs + 2 ^ 64 * H"
    by (simp add: xs L_def H_def algebra_simps)
  moreover have "L < 256 ^ 7"
    using radix_less [of "[a, a + b, a + b + c, a + b + c + d, a + b + c + d + e,
      a + b + c + d + e + f, a + b + c + d + e + f + g]" 256] assms(1) by (simp add: xs L_def)
  ultimately show ?thesis using assms(1) by simp
qed

lemma swar_word_steps:
  fixes x :: "'w::len word"
  assumes W: "LENGTH('w) = 8 * n"
    and M: "unat m1 = radix 4 (replicate (4 * n) 1)" "unat m2 = radix 16 (replicate (2 * n) 3)"
      "unat m3 = radix 256 (replicate n 15)"
    and x1: "x1 = x - (drop_bit 1 x AND m1)"
    and x2: "x2 = (x1 AND m2) + (drop_bit 2 x1 AND m2)"
    and x3: "x3 = (x2 + drop_bit 4 x2) AND m3"
  shows "\<exists>g. length g = n \<and> unat x3 = radix 256 g \<and> (\<forall>b \<in> set g. b \<le> 8) \<and> sum_list g = bit_count (unat x)"
proof -
  define D where "D = digits 4 (4 * n) (unat x)"
  have size: "(2::nat) ^ LENGTH('w) = 4 ^ (4 * n)" "(2::nat) ^ LENGTH('w) = 16 ^ (2 * n)" "(2::nat) ^ LENGTH('w) = 256 ^ n"
    by (simp_all add: W power_mult)
  have D: "\<forall>d \<in> set D. d < 4" "length D = 4 * n" by (auto simp: D_def dest: digits_less [rotated])
  have "unat x < 2 ^ LENGTH('w)" by (rule unsigned_less)
  then have X: "unat x = radix 4 D" unfolding size(1) by (simp add: D_def radix_digits)
  define D1 where "D1 = map bit_count D"
  have small: "bit_count d \<le> 2" if "d < 4" for d
  proof -
    have "d \<in> {0, 1, 2, 3}" using that by auto
    then show ?thesis
      by (auto simp: bit_count_rec [of 1] bit_count_rec [of 2] bit_count_rec [of 3] bit_count_def [of 0]
          simp flip: One_nat_def)
  qed
  have D1: "\<forall>d \<in> set D1. d \<le> 2" "length D1 = 4 * n" using small D by (auto simp: D1_def)
  have X1: "unat x1 = radix 4 D1"
    using swar1 [OF D(1) refl] D
    by (simp add: x1 D1_def X M unat_sub_if' unsigned_and_eq unat_drop_bit_eq)
  define D2 where "D2 = halves 4 D1"
  have D2: "\<forall>d \<in> set D2. d \<le> 4" "length D2 = 2 * n"
    using halves_bound [of D1 2 4] D1 by (auto simp: D2_def)
  have "radix 16 D2 < 16 ^ (2 * n)" using radix_less [of D2 16] D2 by fastforce
  then have fit2: "radix 16 D2 < 2 ^ LENGTH('w)" unfolding size(2) .
  have swar2': "(radix 4 D1 AND unat m2) + (drop_bit 2 (radix 4 D1) AND unat m2) = radix 16 D2"
    using swar2 [OF D1(1), of "unat m2"] D1(2) by (simp add: D2_def M)
  have X2: "unat x2 = radix 16 D2"
    using swar2' fit2 by (simp add: x2 unat_word_ariths unsigned_and_eq unat_drop_bit_eq X1)
  define D3 where "D3 = halves 16 D2"
  have D3: "\<forall>d \<in> set D3. d \<le> 8" "length D3 = n"
    using halves_bound [of D2 4 16] D2 by (auto simp: D3_def)
  have "radix 16 D2 + drop_bit 4 (radix 16 D2) \<le> radix 16 (map (\<lambda>d. d + d) D2)"
    unfolding radix_map_plus by (simp add: drop_bit_eq_div)
  also have "\<dots> < 16 ^ (2 * n)" using radix_less [of "map (\<lambda>d. d + d) D2" 16] D2 by fastforce
  finally have "radix 16 D2 + drop_bit 4 (radix 16 D2) < 2 ^ LENGTH('w)" unfolding size(2) .
  then have X3: "unat x3 = radix 256 D3"
    using swar3 [OF D2(1), of "unat m3"] D2(2)
    by (simp add: x3 unat_word_ariths unsigned_and_eq unat_drop_bit_eq X2 D3_def M)
  have "sum_list D3 = sum_list D1"
    using sum_halves [of D2 16] sum_halves [of D1 4] D1 D2 by (force simp: D3_def D2_def)
  also have "\<dots> = bit_count (unat x)"
    using bit_count_radix [of D 2] D(1) by (simp add: X D1_def)
  finally show ?thesis using X3 D3 by blast
qed

lemma sum_le_length: "\<forall>b \<in> set g. b \<le> (c::nat) \<Longrightarrow> sum_list g \<le> c * length g"
  by (induction g) auto

lemma radix_replicate: "a * radix (Suc a) (replicate n c) + c = c * Suc a ^ n"
proof (induction n)
  case (Suc n)
  have "a * radix (Suc a) (replicate (Suc n) c) + c = Suc a * (a * radix (Suc a) (replicate n c) + c)"
    by (simp add: algebra_simps)
  then show ?case by (simp only: Suc power_Suc mult.left_commute)
qed simp

lemma swar_masks:
  "radix 4 (replicate 16 1) = 0x55555555" "radix 16 (replicate 8 3) = 0x33333333"
  "radix 256 (replicate 4 15) = 0x0f0f0f0f" "radix 4 (replicate 32 1) = 0x5555555555555555"
  "radix 16 (replicate 16 3) = 0x3333333333333333" "radix 256 (replicate 8 15) = 0x0f0f0f0f0f0f0f0f"
  using radix_replicate [of 3 16 1] radix_replicate [of 15 8 3] radix_replicate [of 255 4 15]
    radix_replicate [of 3 32 1] radix_replicate [of 15 16 3] radix_replicate [of 255 8 15]
  by simp_all

lemma PopCount32_bit_count: "PopCount32 x = bit_count (unat x)"
proof -
  define x1 where "x1 = x - (drop_bit 1 x AND 0x55555555)"
  define x2 where "x2 = (x1 AND 0x33333333) + (drop_bit 2 x1 AND 0x33333333)"
  define x3 where "x3 = (x2 + drop_bit 4 x2) AND 0x0f0f0f0f"
  obtain g where g: "length g = 4" "unat x3 = radix 256 g" "\<forall>b \<in> set g. b \<le> 8" "sum_list g = bit_count (unat x)"
    using swar_word_steps [of 4 "0x55555555" "0x33333333" "0x0f0f0f0f", OF _ _ _ _ x1_def x2_def x3_def]
    by (auto simp: swar_masks simp del: One_nat_def)
  then have "radix 256 g * 0x01010101 mod 2 ^ 32 div 2 ^ 24 = sum_list g"
    using sum_le_length [OF g(3)] by (intro mult_ones_4) simp_all
  moreover have "PopCount32 x = unat (drop_bit 24 (x3 * 0x01010101))"
    by (simp only: PopCount32_def Let_def x1_def x2_def x3_def)
  ultimately show ?thesis
    using g by (simp add: unat_drop_bit_eq unat_word_ariths drop_bit_eq_div [where 'a = nat])
qed

lemma PopCount64_bit_count: "PopCount64 x = bit_count (unat x)"
proof -
  define x1 where "x1 = x - (drop_bit 1 x AND 0x5555555555555555)"
  define x2 where "x2 = (x1 AND 0x3333333333333333) + (drop_bit 2 x1 AND 0x3333333333333333)"
  define x3 where "x3 = (x2 + drop_bit 4 x2) AND 0x0f0f0f0f0f0f0f0f"
  obtain g where g: "length g = 8" "unat x3 = radix 256 g" "\<forall>b \<in> set g. b \<le> 8" "sum_list g = bit_count (unat x)"
    using swar_word_steps [of 8 "0x5555555555555555" "0x3333333333333333" "0x0f0f0f0f0f0f0f0f",
        OF _ _ _ _ x1_def x2_def x3_def]
    by (auto simp: swar_masks simp del: One_nat_def)
  then have "radix 256 g * 0x0101010101010101 mod 2 ^ 64 div 2 ^ 56 = sum_list g"
    using sum_le_length [OF g(3)] by (intro mult_ones_8) simp_all
  moreover have "PopCount64 x = unat (drop_bit 56 (x3 * 0x0101010101010101))"
    by (simp only: PopCount64_def Let_def x1_def x2_def x3_def)
  ultimately show ?thesis
    using g by (simp add: unat_drop_bit_eq unat_word_ariths drop_bit_eq_div [where 'a = nat])
qed

text \<open>The number of set positions of a word.\<close>

lemma bit_count_word: "bit_count (unat x) = card {i. bit x i}"
  by (simp add: bit_count_def bit_unsigned_iff)

section \<open>HighestSetBit32\<close>

lemma bit_smear_step:
  fixes x y :: u32
  assumes "\<And>n. bit y n \<longleftrightarrow> (\<exists>m \<in> {n..<n + k}. bit x m)"
  shows "bit (y OR drop_bit k y) n \<longleftrightarrow> (\<exists>m \<in> {n..<n + 2 * k}. bit x m)"
proof -
  have "{n..<n + 2 * k} = {n..<n + k} \<union> {k + n..<k + n + k}" by auto
  then show ?thesis by (simp add: bit_or_iff bit_drop_bit_eq assms bex_Un)
qed

lemma bit_smear: "bit (smear x) n \<longleftrightarrow> (\<exists>m \<in> {n..<n + 32}. bit x m)"
proof -
  have 0: "bit x n \<longleftrightarrow> (\<exists>m \<in> {n..<n + 1}. bit x m)" for n by (auto simp: less_Suc_eq_le)
  note 1 = bit_smear_step [OF 0] and 2 = bit_smear_step [OF bit_smear_step [OF 0]]
  note 4 = bit_smear_step [OF 2] and 8 = bit_smear_step [OF bit_smear_step [OF 2]]
  show ?thesis
    using bit_smear_step [OF 8, of n] by (simp add: smear_def Let_def)
qed

text \<open>Below the highest set bit everything is set, so only 32 values of the product remain.\<close>

lemma smear_mask:
  assumes "bit x h" "\<forall>m > h. \<not> bit x m"
  shows "smear x = mask (Suc h)"
proof (rule bit_word_eqI)
  fix n assume "n < LENGTH(32)"
  have h: "h < 32" using bit_imp_le_length [OF assms(1)] by simp
  show "bit (smear x) n \<longleftrightarrow> bit (mask (Suc h) :: u32) n"
  proof (cases "n \<le> h")
    case True
    then show ?thesis using assms(1) h by (auto simp: bit_smear bit_mask_iff intro!: bexI [of _ h])
  next
    case False
    then show ?thesis using assms(2) by (auto simp: bit_smear bit_mask_iff)
  qed
qed

lemma deBruijn_table:
  "list_all (\<lambda>h. idx multiplyDeBruijnBitPosition
      (unat (drop_bit 27 ((mask (Suc h) :: u32) * 0x07C4ACDD))) = Some h) [0..<32]"
  by code_simp

lemma HighestSetBit32_bit:
  assumes "bit x h" "\<forall>m > h. \<not> bit x m"
  shows "HighestSetBit32 x = Some h"
  using deBruijn_table bit_imp_le_length [OF assms(1)] by (simp add: HighestSetBit32_def smear_mask [OF assms] list_all_iff)

lemma highest_bit:
  assumes "x \<noteq> (0 :: u32)"
  obtains h where "bit x h" "\<forall>m > h. \<not> bit x m" "2 ^ h \<le> unat x" "unat x < 2 ^ Suc h"
proof -
  have fin: "finite {i. bit x i}" using finite_bits [of "unat x"] by (simp add: bit_unsigned_iff)
  have "{i. bit x i} \<noteq> {}" using assms by (auto simp: bit_eq_iff)
  then have h: "bit x (Max {i. bit x i})" using Max_in [OF fin] by simp
  define h where "h = Max {i. bit x i}"
  have top: "\<forall>m > h. \<not> bit x m" using Max_ge [OF fin] by (auto simp: h_def not_le [symmetric])
  have "take_bit (Suc h) (unat x) = unat x"
    by (rule bit_eqI) (use top not_less_eq in \<open>auto simp: bit_take_bit_iff bit_unsigned_iff\<close>)
  then have up: "unat x < 2 ^ Suc h" by (simp only: take_bit_nat_eq_self_iff)
  have "2 ^ h \<le> unat x"
    using less_not_bit [of "unat x" h h] h by (force simp: h_def bit_unsigned_iff)
  from that [OF h [folded h_def] top this up] show thesis .
qed

section \<open>Properties\<close>

text \<open> For every non-zero word the de Bruijn multiplication and table lookup of
  \<open>HighestSetBit32\<close> is in range and returns \<open>int(math.Log2(x))\<close>, as its comment says.\<close>

theorem HighestSetBit32_log2:
  assumes "x \<noteq> 0"
  shows "HighestSetBit32 x = Some (nat \<lfloor>log 2 (real (unat x))\<rfloor>)"
proof -
  obtain h where "bit x h" "\<forall>m > h. \<not> bit x m" "2 ^ h \<le> unat x" "unat x < 2 ^ Suc h"
    using highest_bit [OF assms] .
  moreover have "\<lfloor>log 2 (real (unat x))\<rfloor> = int h"
    using calculation floor_log_nat_eq_powr_iff [of 2 "unat x" h] assms by (simp add: unat_gt_0)
  ultimately show ?thesis by (simp add: HighestSetBit32_bit)
qed

theorem HighestSetBit32_log2_witness: "HighestSetBit32 1000 = Some (nat \<lfloor>log 2 (real (unat (1000 :: u32)))\<rfloor>)"
  by (rule HighestSetBit32_log2) simp

text \<open> The parallel bit counts return the number of set bits, for every 32-bit word, every
  64-bit word, and summed over slices of words.\<close>

theorem PopCount_card:
  "PopCount32 x = card {i. bit x i} \<and> PopCount64 y = card {i. bit y i} \<and>
   PopCount32Slice xs = (\<Sum>x\<leftarrow>xs. card {i. bit x i}) \<and> PopCount64Slice ys = (\<Sum>y\<leftarrow>ys. card {i. bit y i})"
proof -
  have "PopCount32Slice xs = (\<Sum>x\<leftarrow>xs. card {i. bit x i})"
    by (induction xs) (simp_all add: PopCount32_bit_count bit_count_word)
  moreover have "PopCount64Slice ys = (\<Sum>y\<leftarrow>ys. card {i. bit y i})"
    by (induction ys) (simp_all add: PopCount64_bit_count bit_count_word)
  ultimately show ?thesis by (simp add: PopCount32_bit_count PopCount64_bit_count bit_count_word)
qed

lemma MinUint32_min: "MinUint32 a b = min a b"
  by (simp add: MinUint32_def min_def)

lemma MaxUint32_max: "MaxUint32 a b = max a b"
  by (auto simp: MaxUint32_def max_def)

end
