(* ===== verification/Varint.thy ===== *)
theory Varint
  imports BitFields
begin

unbundle bit_operations_syntax

text \<open>
  \<open>util/varint.go\<close>: the two variable-length encodings of 32-bit integers, little-endian groups
  of seven bits with a continuation bit, and the prefix code of SQLite4. The encoders write into
  a buffer and panic (\<open>None\<close>) when it is too short; \<open>Uvarint32\<close> reports errors by its second
  result as documented, \<open>SQLiteUvarint32\<close> panics.
\<close>

section \<open>The routines\<close>

definition MaxVarintLen32 :: nat where
  "MaxVarintLen32 = 5"

function PutUvarint32_loop :: "u8 list \<Rightarrow> nat \<Rightarrow> u32 \<Rightarrow> (u8 list \<times> nat) option" where
  "PutUvarint32_loop buf i x =
     (if x \<ge> 0x80
      then do { buf' \<leftarrow> put buf i (ucast x OR 0x80); PutUvarint32_loop buf' (i + 1) (drop_bit 7 x) }
      else do { buf' \<leftarrow> put buf i (ucast x); Some (buf', i + 1) })"
  by pat_completeness auto
termination
proof (relation "measure (\<lambda>(buf, i, x). unat x)", goal_cases)
  case (2 buf i x buf')
  then have "128 \<le> unat x" by (simp add: word_le_nat_alt)
  then show ?case by (simp add: unat_drop_bit_eq drop_bit_eq_div [where 'a = nat])
qed simp

declare PutUvarint32_loop.simps [simp del]

definition PutUvarint32 :: "u8 list \<Rightarrow> u32 \<Rightarrow> (u8 list \<times> nat) option" where
  "PutUvarint32 buf x = PutUvarint32_loop buf 0 x"

fun Uvarint32_loop :: "nat \<Rightarrow> nat \<Rightarrow> u32 \<Rightarrow> u8 list \<Rightarrow> u32 \<times> int" where
  "Uvarint32_loop i s x [] = (0, 0)"
| "Uvarint32_loop i s x (b # buf) =
     (if b < 0x80
      then if i > 4 \<or> i = 4 \<and> b > 15 then (0, - (int i + 1))
           else (x OR push_bit s (ucast b), int i + 1)
      else Uvarint32_loop (i + 1) (s + 7) (x OR push_bit s (ucast (b AND 0x7f))) buf)"

definition Uvarint32 :: "u8 list \<Rightarrow> u32 \<times> int" where
  "Uvarint32 buf = Uvarint32_loop 0 0 0 buf"

definition PutSQLiteUvarint32 :: "u8 list \<Rightarrow> u32 \<Rightarrow> (u8 list \<times> nat) option" where
  "PutSQLiteUvarint32 buf x =
     (if x < 245 then store buf 0 [ucast x]
      else if x < 2292 then store buf 0 [ucast ((x - 244) div 256 + 245), ucast ((x - 244) mod 256)]
      else if x < 67828 then store buf 0 [253, ucast ((x - 2292) div 256), ucast ((x - 2292) mod 256)]
      else if x < push_bit 24 1
      then store buf 0 [254, ucast (drop_bit 16 x), ucast (drop_bit 8 x), ucast x]
      else store buf 0 [255, ucast (drop_bit 24 x), ucast (drop_bit 16 x), ucast (drop_bit 8 x), ucast x])"

definition SQLiteUvarint32 :: "u8 list \<Rightarrow> (u32 \<times> nat) option" where
  "SQLiteUvarint32 buf =
     do {
       b0 \<leftarrow> idx buf 0;
       if b0 \<le> 244 then Some (ucast b0, 1)
       else if b0 \<le> 252 then do { b1 \<leftarrow> idx buf 1; Some (244 + 256 * (ucast b0 - 245) + ucast b1, 2) }
       else if b0 = 253
       then do { b1 \<leftarrow> idx buf 1; b2 \<leftarrow> idx buf 2; Some (2292 + 256 * ucast b1 + ucast b2, 3) }
       else if b0 = 254
       then do { b1 \<leftarrow> idx buf 1; b2 \<leftarrow> idx buf 2; b3 \<leftarrow> idx buf 3;
                 Some (push_bit 16 (ucast b1) OR push_bit 8 (ucast b2) OR ucast b3, 4) }
       else do { b1 \<leftarrow> idx buf 1; b2 \<leftarrow> idx buf 2; b3 \<leftarrow> idx buf 3; b4 \<leftarrow> idx buf 4;
                 Some (push_bit 24 (ucast b1) OR push_bit 16 (ucast b2) OR push_bit 8 (ucast b3) OR ucast b4, 5) }
     }"

section \<open>The seven-bit groups\<close>

lemma unat_or_shift:
  fixes x :: u32 and b :: u8
  assumes "unat x < 2 ^ s" "2 ^ s * unat b < 2 ^ 32"
  shows "unat (x OR push_bit s (ucast b)) = unat x + 2 ^ s * unat b"
proof -
  have "unat b < 2 ^ 32" using unat_less_256 [of b] by simp
  then show ?thesis
    using assms nat_or_push_bit [OF assms(1), of "unat b"]
    by (simp add: unsigned_or_eq unsigned_push_bit_eq unsigned_ucast_eq take_bit_nat_eq_self
        push_bit_eq_mult [where 'a = nat] mult.commute)
qed

text \<open>The number an encoding stands for: continuation bytes \<open>cs\<close>, then the last byte \<open>b\<close>.\<close>

definition uvarint_value :: "u8 list \<Rightarrow> u8 \<Rightarrow> nat" where
  "uvarint_value cs b = radix 128 (map (\<lambda>c. unat (c AND 0x7f)) cs @ [unat b])"

lemma unat_and_7f: "unat (c AND 0x7f) = unat c mod 128" for c :: u8
  using unat_field [of 7 0 c] by (simp add: mask_eq_exp_minus_1)


lemma Uvarint32_long:
  assumes "\<forall>c \<in> set cs. \<not> c < 0x80" "b < 0x80" "4 < i + length cs"
  shows "Uvarint32_loop i s x (cs @ b # rest) = (0, - int (i + length cs + 1))"
  using assms by (induction cs arbitrary: i s x) auto

lemma Uvarint32_short:
  assumes "\<forall>c \<in> set cs. \<not> c < 0x80" "b < 0x80" "i + length cs \<le> 4" "unat x < 2 ^ (7 * i)"
  shows "Uvarint32_loop i (7 * i) x (cs @ b # rest) =
    (let v = unat x + 2 ^ (7 * i) * uvarint_value cs b
     in if 2 ^ 32 \<le> v then (0, - int (i + length cs + 1)) else (of_nat v, int (i + length cs + 1)))"
  using assms
proof (induction cs arbitrary: i x)
  case Nil
  let ?v = "unat x + 2 ^ (7 * i) * unat b"
  have b: "unat b < 128" using Nil by (simp add: word_less_nat_alt)
  have over: "i = 4 \<and> b > 15 \<longleftrightarrow> 2 ^ 32 \<le> ?v"
  proof (cases "i = 4")
    case True
    then show ?thesis using Nil by (simp add: word_less_nat_alt) linarith
  next
    case False
    then have "i \<in> {0, 1, 2, 3}" using Nil by auto
    then show ?thesis using Nil b by auto
  qed
  have "x OR push_bit (7 * i) (ucast b) = of_nat ?v" if "?v < 2 ^ 32"
    using unat_or_shift [of x "7 * i" b] Nil that by (metis add_lessD1 add.commute of_nat_unat ucast_id)
  then show ?case
    using over Nil by (auto simp: uvarint_value_def Let_def not_le)
next
  case (Cons c cs)
  define x' where "x' = x OR push_bit (7 * i) (ucast (c AND 0x7f))"
  let ?d = "unat (c AND 0x7f)"
  have i: "i \<in> {0, 1, 2, 3}" using Cons.prems by auto
  have d: "?d < 128" by (simp add: unat_and_7f)
  then have "2 ^ (7 * i) * ?d < 2 ^ 32" using i by auto
  then have x': "unat x' = unat x + 2 ^ (7 * i) * ?d"
    unfolding x'_def using Cons.prems by (intro unat_or_shift)
  moreover have "unat x' < 2 ^ (7 * (i + 1))" using x' d i Cons.prems by auto
  ultimately show ?case
    using Cons.IH [of "i + 1" x'] Cons.prems
    by (simp add: uvarint_value_def Let_def x'_def algebra_simps power_add)
qed

text \<open>What \<open>Uvarint32\<close> returns on any input.\<close>

lemma Uvarint32_eq:
  assumes "\<forall>c \<in> set cs. \<not> c < 0x80" "b < 0x80"
  shows "Uvarint32 (cs @ b # rest) =
    (if length cs \<le> 4 \<and> uvarint_value cs b < 2 ^ 32
     then (of_nat (uvarint_value cs b), int (length cs + 1)) else (0, - int (length cs + 1)))"
  using Uvarint32_short [OF assms, of 0 0 rest] Uvarint32_long [OF assms, of 0 0 0 rest]
  by (cases "length cs \<le> 4") (simp_all add: Uvarint32_def Let_def)

lemma store_Cons: "store buf i (v # vs) = Option.bind (put buf i v) (\<lambda>buf'. store buf' (i + 1) vs)"
  by (auto simp: store_def put_def take_update_swap drop_update_swap upd_conv_take_nth_drop
      take_Suc_conv_app_nth add.commute)

lemma store_single: "store buf i [v] = Option.bind (put buf i v) (\<lambda>buf'. Some (buf', i + 1))"
  by (auto simp: store_def put_def upd_conv_take_nth_drop)

text \<open>The bytes the encoder writes.\<close>

function uvarint_bytes :: "u32 \<Rightarrow> u8 list" where
  "uvarint_bytes x = (if x \<ge> 0x80 then (ucast x OR 0x80) # uvarint_bytes (drop_bit 7 x) else [ucast x])"
  by pat_completeness auto
termination
proof (relation "measure unat", goal_cases)
  case (2 x)
  then have "128 \<le> unat x" by (simp add: word_le_nat_alt)
  then show ?case by (simp add: unat_drop_bit_eq drop_bit_eq_div [where 'a = nat])
qed simp

declare uvarint_bytes.simps [simp del]

lemma PutUvarint32_loop_eq: "PutUvarint32_loop buf i x = store buf i (uvarint_bytes x)"
proof (induction buf i x rule: PutUvarint32_loop.induct)
  case (1 buf i x)
  show ?case
  proof (cases "x \<ge> 0x80")
    case True
    then have "PutUvarint32_loop buf i x =
        Option.bind (put buf i (ucast x OR 0x80)) (\<lambda>buf'. store buf' (i + 1) (uvarint_bytes (drop_bit 7 x)))"
      using 1 by (subst PutUvarint32_loop.simps) (auto intro!: Option.bind_cong)
    with True show ?thesis by (subst uvarint_bytes.simps) (simp add: store_Cons)
  qed (subst PutUvarint32_loop.simps, subst uvarint_bytes.simps, simp add: store_single)
qed

lemma unat_continuation:
  fixes x :: u32
  shows "unat ((ucast x OR 0x80 :: u8) AND 0x7f) = unat x mod 128" "\<not> (ucast x OR 0x80 :: u8) < 0x80"
proof -
  have "(ucast x OR 0x80 :: u8) AND 0x7f = ucast x AND 0x7f" by (simp add: bit.conj_disj_distrib2)
  then show "unat ((ucast x OR 0x80 :: u8) AND 0x7f) = unat x mod 128"
    by (simp add: unat_and_7f unsigned_ucast_eq take_bit_eq_mod mod_mod_cancel)
  have "bit (ucast x OR 0x80 :: u8) 7" by (simp add: bit_or_iff) 
  then have "\<not> unat (ucast x OR 0x80 :: u8) < 2 ^ 7"
    using less_not_bit [of "unat (ucast x OR 0x80 :: u8)" 7 7] by (auto simp: bit_unsigned_iff)
  then show "\<not> (ucast x OR 0x80 :: u8) < 0x80" by (simp add: word_less_nat_alt)
qed

lemma uvarint_bytes_shape:
  "\<exists>cs b. uvarint_bytes x = cs @ [b] \<and> (\<forall>c \<in> set cs. \<not> c < 0x80) \<and> b < 0x80 \<and> uvarint_value cs b = unat x"
proof (induction x rule: uvarint_bytes.induct)
  case (1 x)
  show ?case
  proof (cases "x \<ge> 0x80")
    case True
    then obtain cs b where IH: "uvarint_bytes (drop_bit 7 x) = cs @ [b]" "\<forall>c \<in> set cs. \<not> c < 0x80" "b < 0x80"
        "uvarint_value cs b = unat (drop_bit 7 x)"
      using 1 by blast
    have "uvarint_value ((ucast x OR 0x80) # cs) b = unat x mod 128 + 128 * (unat x div 128)"
      using IH(4) by (simp add: uvarint_value_def unat_continuation unat_drop_bit_eq drop_bit_eq_div [where 'a = nat])
    then show ?thesis
      using True IH unat_continuation(2) [of x]
      by (subst uvarint_bytes.simps) (auto intro!: exI [of _ "(ucast x OR 0x80) # cs"])
  next
    case False
    then have "unat x < 128" by (simp add: word_le_nat_alt)
    then have "unat (ucast x :: u8) = unat x" by (simp add: unsigned_ucast_eq take_bit_nat_eq_self)
    with False show ?thesis
      by (subst uvarint_bytes.simps) (simp add: uvarint_value_def word_less_nat_alt word_le_nat_alt)
  qed
qed

lemma length_uvarint_bytes: "unat x < 2 ^ (7 * n) \<Longrightarrow> 0 < n \<Longrightarrow> length (uvarint_bytes x) \<le> n"
proof (induction n arbitrary: x)
  case (Suc n)
  show ?case
  proof (cases "x \<ge> 0x80")
    case True
    then have "128 \<le> unat x" by (simp add: word_le_nat_alt)
    with Suc.prems have "0 < n" by (cases n) auto
    moreover have "unat (drop_bit 7 x) < 2 ^ (7 * n)"
      using Suc.prems by (simp add: unat_drop_bit_eq drop_bit_eq_div [where 'a = nat] less_mult_imp_div_less power_add mult.commute)
    ultimately show ?thesis using Suc.IH by (subst uvarint_bytes.simps) auto
  qed (subst uvarint_bytes.simps, simp)
qed simp

section \<open>Properties\<close>

text \<open>
  \<open>PutUvarint32\<close> followed by \<open>Uvarint32\<close> is the identity: into any buffer of at least
  \<open>MaxVarintLen32\<close> bytes the encoder writes without panicking one to five bytes, leaves the
  rest alone, and the decoder reads back the value and exactly the number of bytes written,
  whatever follows them.
\<close>

theorem Uvarint32_PutUvarint32:
  assumes "MaxVarintLen32 \<le> length buf"
  shows "\<exists>buf' n. PutUvarint32 buf x = Some (buf', n) \<and> 0 < n \<and> n \<le> MaxVarintLen32 \<and>
    length buf' = length buf \<and> drop n buf' = drop n buf \<and> Uvarint32 buf' = (x, int n)"
proof -
  obtain cs b where ys: "uvarint_bytes x = cs @ [b]" "\<forall>c \<in> set cs. \<not> c < 0x80" "b < 0x80" "uvarint_value cs b = unat x"
    using uvarint_bytes_shape by blast
  have "unat x < 2 ^ 32" using unsigned_less [of x, where 'a = nat] by simp
  then have "unat x < 2 ^ (7 * 5)" by simp
  then have len: "length cs \<le> 4" using length_uvarint_bytes [of x 5] ys(1) by simp
  have "PutUvarint32 buf x = Some (cs @ b # drop (length cs + 1) buf, length cs + 1)"
    using assms len by (simp add: PutUvarint32_def PutUvarint32_loop_eq ys store_def MaxVarintLen32_def)
  moreover have "Uvarint32 (cs @ b # drop (length cs + 1) buf) = (x, int (length cs + 1))"
    using Uvarint32_eq [OF ys(2,3)] ys(4) len \<open>unat x < 2 ^ 32\<close> by simp
  ultimately show ?thesis using assms len by (simp add: MaxVarintLen32_def)
qed

theorem Uvarint32_PutUvarint32_witness:
  "MaxVarintLen32 \<le> length [1, 2, 3, 4, 5, 6 :: u8] \<and>
    (\<exists>buf' n. PutUvarint32 [1, 2, 3, 4, 5, 6] 300 = Some (buf', n) \<and> Uvarint32 buf' = (300, int n))"
  using Uvarint32_PutUvarint32 [of "[1, 2, 3, 4, 5, 6]" 300] by (auto simp: MaxVarintLen32_def)


section \<open>The SQLite code\<close>

lemma unat_ucast_u8 [simp]: "unat (ucast x :: u8) = unat x mod 256" for x :: u32
  by (simp add: unsigned_ucast_eq take_bit_eq_mod)

lemma unat_ucast_u32 [simp]: "unat (ucast b :: u32) = unat b" for b :: u8
  using unat_less_256 [of b] by (simp add: unsigned_ucast_eq take_bit_nat_eq_self)

lemma be_or_32:
  fixes a b c d :: u8
  shows "unat (push_bit 24 (ucast a) OR push_bit 16 (ucast b) OR push_bit 8 (ucast c) OR ucast d :: u32) =
    radix 256 [unat d, unat c, unat b, unat a]"
proof -
  have "(push_bit 24 (ucast a) OR push_bit 16 (ucast b) OR push_bit 8 (ucast c) OR ucast d :: u32) = shl_or 8 0 [d, c, b, a]"
    by (simp add: shl_or.simps or.commute or.left_commute)
  then show ?thesis by (simp add: unat_shl_or_bytes)
qed

lemma store0: "length vs \<le> length buf \<Longrightarrow> store buf 0 vs = Some (vs @ drop (length vs) buf, length vs)"
  by (simp add: store_def)

text \<open>One case of the prefix code each: the bytes written and what they decode to.\<close>

lemma sqlite_2:
  fixes x :: u32
  assumes "245 \<le> unat x" "unat x < 2292"
  shows "SQLiteUvarint32 (ucast ((x - 244) div 256 + 245) # ucast ((x - 244) mod 256) # rest) = Some (x, 2)"
proof -
  define y where "y = unat x - 244"
  have y: "y div 256 \<le> 7" using assms by (simp add: y_def)
  have sub: "unat (x - 244) = y" using assms by (simp add: y_def unat_sub word_le_nat_alt)
  have b0: "unat (ucast ((x - 244) div 256 + 245) :: u8) = y div 256 + 245"
    using y by (simp add: unat_word_ariths unat_div sub)
  have b1: "unat (ucast ((x - 244) mod 256) :: u8) = y mod 256" by (simp add: unat_mod sub)
  have "244 + 256 * (ucast (ucast ((x - 244) div 256 + 245) :: u8) - 245) + ucast (ucast ((x - 244) mod 256) :: u8) = x"
    (is "?v = x")
  proof -
    define q :: u32 where "q = ucast (ucast ((x - 244) div 256 + 245) :: u8) - 245"
    have "unat q = y div 256"
      unfolding q_def by (subst unat_sub) (simp_all add: word_le_nat_alt b0 del: unat_ucast_u8)
    then have "unat (244 + 256 * q + ucast (ucast ((x - 244) mod 256) :: u8)) =
        (244 + 256 * (y div 256) + y mod 256) mod 2 ^ 32"
      using y by (simp add: unat_word_ariths b1 mod_simps del: unat_ucast_u8)
    then show ?thesis
      unfolding q_def [symmetric] using assms by (simp only: word_unat_eq_iff) (simp add: y_def)
  qed
  then show ?thesis
    using y by (simp add: SQLiteUvarint32_def idx_def word_le_nat_alt b0 del: unat_ucast_u8)
qed

lemma sqlite_3:
  fixes x :: u32
  assumes "2292 \<le> unat x" "unat x < 67828"
  shows "SQLiteUvarint32 (253 # ucast ((x - 2292) div 256) # ucast ((x - 2292) mod 256) # rest) = Some (x, 3)"
proof -
  define y where "y = unat x - 2292"
  have y: "y div 256 < 256" using assms by (simp add: y_def)
  have sub: "unat (x - 2292) = y" using assms by (simp add: y_def unat_sub word_le_nat_alt)
  have "2292 + 256 * ucast (ucast ((x - 2292) div 256) :: u8) + ucast (ucast ((x - 2292) mod 256) :: u8) = x"
    (is "?v = x")
  proof -
    have "unat ?v = (2292 + 256 * (y div 256) + y mod 256) mod 2 ^ 32"
      using y by (simp add: unat_word_ariths unat_div unat_mod sub)
    then show ?thesis using assms by (simp add: word_unat_eq_iff y_def)
  qed
  then show ?thesis by (simp add: SQLiteUvarint32_def idx_def)
qed

lemma sqlite_5:
  "SQLiteUvarint32 (255 # ucast (drop_bit 24 x) # ucast (drop_bit 16 x) # ucast (drop_bit 8 x) # ucast x # rest) =
    Some (x, 5)" for x :: u32
proof -
  have "push_bit 24 (ucast (ucast (drop_bit 24 x) :: u8)) OR push_bit 16 (ucast (ucast (drop_bit 16 x) :: u8)) OR
      push_bit 8 (ucast (ucast (drop_bit 8 x) :: u8)) OR ucast (ucast x :: u8) = x"
    by (rule bit_word_eqI, rename_tac n, case_tac "n < 16"; case_tac "n < 24") (auto simp: bit_simps)
  then show ?thesis by (simp add: SQLiteUvarint32_def idx_def)
qed

lemma sqlite_4:
  fixes x :: u32
  assumes "unat x < 2 ^ 24"
  shows "SQLiteUvarint32 (254 # ucast (drop_bit 16 x) # ucast (drop_bit 8 x) # ucast x # rest) = Some (x, 4)"
proof -
  have "push_bit 16 (ucast (ucast (drop_bit 16 x) :: u8)) OR
      push_bit 8 (ucast (ucast (drop_bit 8 x) :: u8)) OR ucast (ucast x :: u8) = x"
  proof (rule bit_word_eqI)
    fix n
    have "\<not> bit x n" if "24 \<le> n"
      using less_not_bit [OF assms that] by (simp add: bit_unsigned_iff)
    then show "bit (push_bit 16 (ucast (ucast (drop_bit 16 x) :: u8)) OR
        push_bit 8 (ucast (ucast (drop_bit 8 x) :: u8)) OR ucast (ucast x :: u8) :: u32) n = bit x n"
      by (cases "n < 16"; cases "n < 24") (auto simp: bit_simps)
  qed
  then show ?thesis by (simp add: SQLiteUvarint32_def idx_def)
qed

text \<open>
  The SQLite4 code round-trips: into a buffer of at least five bytes \<open>PutSQLiteUvarint32\<close>
  writes one to five bytes and \<open>SQLiteUvarint32\<close> reads back the value and that many bytes.
\<close>

theorem SQLiteUvarint32_PutSQLiteUvarint32:
  assumes "5 \<le> length buf"
  shows "\<exists>buf' n. PutSQLiteUvarint32 buf x = Some (buf', n) \<and> 0 < n \<and> n \<le> 5 \<and>
    length buf' = length buf \<and> drop n buf' = drop n buf \<and> SQLiteUvarint32 buf' = Some (x, n)"
proof -
  consider (1) "unat x < 245" | (2) "245 \<le> unat x" "unat x < 2292" | (3) "2292 \<le> unat x" "unat x < 67828"
    | (4) "67828 \<le> unat x" "unat x < 2 ^ 24" | (5) "2 ^ 24 \<le> unat x" by linarith
  then show ?thesis
    using assms
    by cases (simp_all add: PutSQLiteUvarint32_def store0 word_less_nat_alt sqlite_2 sqlite_3 sqlite_4 sqlite_5,
      simp add: SQLiteUvarint32_def idx_def word_le_nat_alt word_unat_eq_iff)
qed

theorem SQLiteUvarint32_PutSQLiteUvarint32_witness:
  "5 \<le> length [1, 2, 3, 4, 5, 6 :: u8] \<and>
    (\<exists>buf' n. PutSQLiteUvarint32 [1, 2, 3, 4, 5, 6] 70000 = Some (buf', n) \<and>
      SQLiteUvarint32 buf' = Some (70000, n))"
  using SQLiteUvarint32_PutSQLiteUvarint32 [of "[1, 2, 3, 4, 5, 6]" 70000] by auto

end
