(* ===== verification/IntSet.thy ===== *)
theory IntSet
  imports Bits GoIO
begin

unbundle bit_operations_syntax

text \<open>
  \<open>util/intset\<close>: three sets of 32-bit integers, a bit set over a fixed range, a hash set and a
  sparse bit set of 1024-byte blocks with its serialisation. A Go map is an association list;
  its order stands for the order in which \<open>range\<close> visits the keys, which Go leaves open, so a
  lemma that holds for every list holds for every iteration order. Blocks are never shared
  between two sets (every operation that stores a block makes it first), so they are values.
  The contract of the sets is the locale \<open>int_set\<close>, interpreted by each of the three.
\<close>

section \<open>The fixed range bit set\<close>

record FixedBitSet =
  fmin :: u32
  fmax :: u32
  fdata :: "u64 list"

definition NewFixedBitSet :: "u32 \<Rightarrow> u32 \<Rightarrow> FixedBitSet" where
  "NewFixedBitSet mi ma = \<lparr> fmin = mi, fmax = ma, fdata = replicate (1 + unat (ma - mi)) 0 \<rparr>"

definition FixedBitSet_Add :: "FixedBitSet \<Rightarrow> u32 \<Rightarrow> FixedBitSet option" where
  "FixedBitSet_Add s x =
     (let x = x - fmin s; i = unat (x div 64); mask = push_bit (unat (x mod 64)) 1 in
      do { w \<leftarrow> idx (fdata s) i; d \<leftarrow> put (fdata s) i (w OR mask); Some (s\<lparr> fdata := d \<rparr>) })"

definition FixedBitSet_Contains :: "FixedBitSet \<Rightarrow> u32 \<Rightarrow> bool option" where
  "FixedBitSet_Contains s x =
     (if x < fmin s \<or> x > fmax s then Some False
      else let x = x - fmin s; i = unat (x div 64); mask = push_bit (unat (x mod 64)) 1 in
        do { w \<leftarrow> idx (fdata s) i; Some (w AND mask \<noteq> 0) })"

section \<open>The hash set\<close>

record MapSet =
  mdata :: "u32 \<Rightarrow> unit option"

definition NewMapSet :: MapSet where
  "NewMapSet = \<lparr> mdata = (\<lambda>_. None) \<rparr>"

definition MapSet_Add :: "MapSet \<Rightarrow> u32 \<Rightarrow> MapSet" where
  "MapSet_Add s x = s\<lparr> mdata := (mdata s)(x := Some ()) \<rparr>"

definition MapSet_Delete :: "MapSet \<Rightarrow> u32 \<Rightarrow> MapSet" where
  "MapSet_Delete s x = s\<lparr> mdata := (mdata s)(x := None) \<rparr>"

definition MapSet_Contains :: "MapSet \<Rightarrow> u32 \<Rightarrow> bool" where
  "MapSet_Contains s x = (mdata s x \<noteq> None)"

section \<open>The sparse bit set\<close>

definition wordBits :: nat where "wordBits = 64"
definition blockWords :: nat where "blockWords = 128"
definition blockBits :: nat where "blockBits = blockWords * wordBits"

lemmas intset_consts [simp] = wordBits_def blockWords_def blockBits_def

type_synonym block = "u64 list"

record SparseBitSet =
  blocks :: "(u32 \<times> block) list"

text \<open>The size that \<open>NewSparseBitSet\<close> is given is a hint for the map, which what is in it does not depend on.\<close>

definition NewSparseBitSet :: SparseBitSet where
  "NewSparseBitSet = \<lparr> blocks = [] \<rparr>"

definition SparseBitSet_Clone :: "SparseBitSet \<Rightarrow> SparseBitSet" where
  "SparseBitSet_Clone s = \<lparr> blocks = fold (\<lambda>(i, block). AList.update i block) (blocks s) [] \<rparr>"

text \<open>\<open>x / blockBits\<close>, \<open>(x % blockBits) / wordBits\<close> and \<open>uint64(1) << (x % wordBits)\<close>\<close>

definition block_of :: "u32 \<Rightarrow> u32" where
  "block_of x = x div of_nat blockBits"

definition word_of :: "u32 \<Rightarrow> nat" where
  "word_of x = unat ((x mod of_nat blockBits) div of_nat wordBits)"

definition mask_of :: "u32 \<Rightarrow> u64" where
  "mask_of x = push_bit (unat (x mod of_nat wordBits)) 1"

definition SparseBitSet_Add :: "SparseBitSet \<Rightarrow> u32 \<Rightarrow> SparseBitSet option" where
  "SparseBitSet_Add s x =
     (let i = block_of x;
          block = (case map_of (blocks s) i of None \<Rightarrow> replicate blockWords 0 | Some b \<Rightarrow> b);
          j = word_of x
      in do { w \<leftarrow> idx block j; b \<leftarrow> put block j (w OR mask_of x);
              Some (s\<lparr> blocks := AList.update i b (blocks s) \<rparr>) })"

definition SparseBitSet_Remove :: "SparseBitSet \<Rightarrow> u32 \<Rightarrow> SparseBitSet option" where
  "SparseBitSet_Remove s x =
     (let i = block_of x in
      case map_of (blocks s) i of
        None \<Rightarrow> Some s
      | Some block \<Rightarrow>
          let j = word_of x in
          do { w \<leftarrow> idx block j; b \<leftarrow> put block j (w AND NOT (mask_of x));
               Some (s\<lparr> blocks := AList.update i b (blocks s) \<rparr>) })"

definition SparseBitSet_Contains :: "SparseBitSet \<Rightarrow> u32 \<Rightarrow> bool option" where
  "SparseBitSet_Contains s x =
     (case map_of (blocks s) (block_of x) of
        None \<Rightarrow> Some False
      | Some block \<Rightarrow> do { w \<leftarrow> idx block (word_of x); Some (w AND mask_of x \<noteq> 0) })"

text \<open>The loops over the words of two blocks: \<open>block[j] |= mask\<close> and \<open>block[j] & block2[j]\<close>\<close>

definition or_block :: "block \<Rightarrow> block \<Rightarrow> block option" where
  "or_block block block2 =
     (if length block2 \<le> length block
      then Some (map2 (OR) block block2 @ drop (length block2) block) else None)"

definition and_block :: "block \<Rightarrow> block \<Rightarrow> block option" where
  "and_block block block2 =
     (if length block2 \<le> length block \<and> length block2 \<le> blockWords
      then Some (map2 (AND) block block2 @ replicate (blockWords - length block2) 0) else None)"

text \<open>\<open>block = make([]uint64, blockWords); copy(block, block2)\<close>\<close>

definition copy_block :: "block \<Rightarrow> block" where
  "copy_block block2 = take blockWords block2 @ replicate (blockWords - length block2) 0"

fun Union_loop :: "(u32 \<times> block) list \<Rightarrow> (u32 \<times> block) list \<Rightarrow> (u32 \<times> block) list option" where
  "Union_loop bs [] = Some bs"
| "Union_loop bs ((i, block2) # bs2) =
     (case map_of bs i of
        None \<Rightarrow> Union_loop (AList.update i (copy_block block2) bs) bs2
      | Some block \<Rightarrow> do { b \<leftarrow> or_block block block2; Union_loop (AList.update i b bs) bs2 })"

definition SparseBitSet_Union :: "SparseBitSet \<Rightarrow> SparseBitSet \<Rightarrow> SparseBitSet option" where
  "SparseBitSet_Union s s2 =
     do { bs \<leftarrow> Union_loop (blocks s) (blocks s2); Some (s\<lparr> blocks := bs \<rparr>) }"

fun Intersection_loop ::
  "(u32 \<times> block) list \<Rightarrow> (u32 \<times> block) list \<Rightarrow> nat \<Rightarrow> (u32 \<times> block) list \<Rightarrow>
   ((u32 \<times> block) list \<times> nat) option" where
  "Intersection_loop bs bs3 n [] = Some (bs3, n)"
| "Intersection_loop bs bs3 n ((i, block2) # bs2) =
     (case map_of bs i of
        None \<Rightarrow> Intersection_loop bs bs3 n bs2
      | Some block \<Rightarrow>
          do { block3 \<leftarrow> and_block block block2;
               let nn = PopCount64Slice block3;
               if nn \<noteq> 0 then Intersection_loop bs (AList.update i block3 bs3) (n + nn) bs2
               else Intersection_loop bs bs3 n bs2 })"

definition SparseBitSet_Intersection ::
  "SparseBitSet \<Rightarrow> SparseBitSet \<Rightarrow> (SparseBitSet \<times> nat) option" where
  "SparseBitSet_Intersection s s2 =
     do { (bs3, n) \<leftarrow> Intersection_loop (blocks s) [] 0 (blocks s2); Some (\<lparr> blocks = bs3 \<rparr>, n) }"

definition SparseBitSet_Len :: "SparseBitSet \<Rightarrow> nat" where
  "SparseBitSet_Len s = sum_list (map (\<lambda>(i, block). PopCount64Slice block) (blocks s))"

text \<open>
  The two nested loops of \<open>Min\<close> and \<open>Max\<close> over the words \<open>js\<close> of a block and the bits \<open>ks\<close> of
  a word: the first bit that is set, \<open>Some None\<close> when there is none.
\<close>

fun scan_block :: "nat list \<Rightarrow> block \<Rightarrow> nat list \<Rightarrow> (nat \<times> nat) option option" where
  "scan_block ks block [] = Some None"
| "scan_block ks block (j # js) =
     do { w \<leftarrow> idx block j;
          if w = 0 then scan_block ks block js
          else case find (\<lambda>k. w AND push_bit k 1 \<noteq> 0) ks of
                 Some k \<Rightarrow> Some (Some (j, k))
               | None \<Rightarrow> scan_block ks block js }"

definition element_at :: "u32 \<Rightarrow> nat \<times> nat \<Rightarrow> u32" where
  "element_at mi jk = mi * of_nat blockBits + of_nat (fst jk) * of_nat wordBits + of_nat (snd jk)"

text \<open>\<open>Min\<close> and \<open>Max\<close> drop the empty blocks they meet, so they return the set as well.\<close>

function SparseBitSet_Min :: "SparseBitSet \<Rightarrow> (u32 \<times> SparseBitSet) option" where
  "SparseBitSet_Min s =
     (if blocks s = [] then Some (0, s)
      else let mi = fold (\<lambda>i mi. if i < mi then i else mi) (map fst (blocks s)) 0xffffffff in
        case map_of (blocks s) mi of
          None \<Rightarrow> None
        | Some block \<Rightarrow>
            (case scan_block [0..<wordBits] block [0..<blockWords] of
               None \<Rightarrow> None
             | Some (Some jk) \<Rightarrow> Some (element_at mi jk, s)
             | Some None \<Rightarrow> SparseBitSet_Min (s\<lparr> blocks := AList.delete mi (blocks s) \<rparr>)))"
  by pat_completeness auto

function SparseBitSet_Max :: "SparseBitSet \<Rightarrow> (u32 \<times> SparseBitSet) option" where
  "SparseBitSet_Max s =
     (if blocks s = [] then Some (0, s)
      else let mi = fold (\<lambda>i mi. if i > mi then i else mi) (map fst (blocks s)) 0 in
        case map_of (blocks s) mi of
          None \<Rightarrow> None
        | Some block \<Rightarrow>
            (case scan_block (rev [0..<wordBits]) block (rev [0..<blockWords]) of
               None \<Rightarrow> None
             | Some (Some jk) \<Rightarrow> Some (element_at mi jk, s)
             | Some None \<Rightarrow> SparseBitSet_Max (s\<lparr> blocks := AList.delete mi (blocks s) \<rparr>)))"
  by pat_completeness auto

lemma length_delete_less: "map_of xs k = Some v \<Longrightarrow> length (AList.delete k xs) < length xs"
proof (induction xs)
  case (Cons x xs)
  then show ?case using AList.length_delete_le [of k xs] by (auto simp: less_Suc_eq_le split: if_splits)
qed simp

termination SparseBitSet_Min
  by (relation "measure (length \<circ> blocks)") (auto dest: length_delete_less)

termination SparseBitSet_Max
  by (relation "measure (length \<circ> blocks)") (auto dest: length_delete_less)

declare SparseBitSet_Min.simps [simp del] SparseBitSet_Max.simps [simp del]

definition SparseBitSet_Compact :: "SparseBitSet \<Rightarrow> SparseBitSet" where
  "SparseBitSet_Compact s =
     s\<lparr> blocks := fold (\<lambda>(i, block) bs. if PopCount64Slice block = 0 then AList.delete i bs else bs)
                    (blocks s) (blocks s) \<rparr>"

fun Read_loop ::
  "nat \<Rightarrow> (u32 \<times> block) list \<Rightarrow> u8 list \<Rightarrow> (u32 \<times> block) list \<times> u8 list \<times> io_error option" where
  "Read_loop 0 bs r = (bs, r, None)"
| "Read_loop (Suc n) bs r =
     (case read_full 4 r of
        (r, Inl e) \<Rightarrow> (bs, r, Some e)
      | (r, Inr b) \<Rightarrow>
          let i = le_word b; bs = AList.update i (replicate blockWords 0) bs in
          (case read_full (8 * blockWords) r of
             (r, Inl e) \<Rightarrow> (bs, r, Some e)
           | (r, Inr b) \<Rightarrow> Read_loop n (AList.update i (le_slice 8 blockWords b) bs) r))"

definition SparseBitSet_Read ::
  "SparseBitSet \<Rightarrow> u8 list \<Rightarrow> SparseBitSet \<times> u8 list \<times> io_error option" where
  "SparseBitSet_Read s r =
     (case read_full 4 r of
        (r, Inl e) \<Rightarrow> (s, r, Some e)
      | (r, Inr b) \<Rightarrow>
          (case Read_loop (unat (le_word b :: u32)) [] r of
             (bs, r, e) \<Rightarrow> (s\<lparr> blocks := bs \<rparr>, r, e)))"

text \<open>Writing the blocks in the order of their sorted keys; a failed write ends the loop.\<close>

fun Write_loop ::
  "('w \<Rightarrow> u8 list \<Rightarrow> 'e + 'w) \<Rightarrow> (u32 \<times> block) list \<Rightarrow> u32 list \<Rightarrow> 'w \<Rightarrow> 'e + 'w" where
  "Write_loop wr bs [] w = Inr w"
| "Write_loop wr bs (i # keys) w =
     (case wr w (le_bytes 4 i) of
        Inl e \<Rightarrow> Inl e
      | Inr w \<Rightarrow>
          (case wr w (le_slice_bytes 8 (case map_of bs i of Some b \<Rightarrow> b | None \<Rightarrow> [])) of
             Inl e \<Rightarrow> Inl e
           | Inr w \<Rightarrow> Write_loop wr bs keys w))"

definition SparseBitSet_Write ::
  "('w \<Rightarrow> u8 list \<Rightarrow> 'e + 'w) \<Rightarrow> SparseBitSet \<Rightarrow> 'w \<Rightarrow> SparseBitSet \<times> ('e + 'w)" where
  "SparseBitSet_Write wr s w =
     (let s = SparseBitSet_Compact s in
      (s, case wr w (le_bytes 4 (of_nat (length (blocks s)) :: u32)) of
            Inl e \<Rightarrow> Inl e
          | Inr w \<Rightarrow> Write_loop wr (blocks s) (sort (map fst (blocks s))) w))"

section \<open>Blocks as sets of positions\<close>

definition block_bits :: "block \<Rightarrow> nat set" where
  "block_bits b = {n. n < 64 * length b \<and> bit (b ! (n div 64)) (n mod 64)}"

lemma finite_block_bits [simp]: "finite (block_bits b)"
  by (rule finite_subset [of _ "{..<64 * length b}"]) (auto simp: block_bits_def)

lemma block_bits_less: "n \<in> block_bits b \<Longrightarrow> n < 64 * length b"
  by (simp add: block_bits_def)

lemma block_bits_Nil [simp]: "block_bits [] = {}"
  by (simp add: block_bits_def)

lemma block_bits_zero [simp]: "block_bits (replicate m 0) = {}"
  by (auto simp: block_bits_def)

lemma block_bits_Cons: "block_bits (w # b) = {n. n < 64 \<and> bit w n} \<union> (\<lambda>n. n + 64) ` block_bits b"
proof (intro set_eqI)
  fix n
  show "n \<in> block_bits (w # b) \<longleftrightarrow> n \<in> {n. n < 64 \<and> bit w n} \<union> (\<lambda>n. n + 64) ` block_bits b"
  proof (cases "n < 64")
    case True
    then show ?thesis by (auto simp: block_bits_def)
  next
    case False
    then obtain m where n: "n = m + 64" using le_Suc_ex [of 64 n] by (auto simp: add.commute)
    then show ?thesis by (auto simp: block_bits_def image_iff)
  qed
qed

lemma card_block_bits: "PopCount64Slice b = card (block_bits b)"
proof (induction b)
  case (Cons w b)
  have "card (block_bits (w # b)) = card {n. n < 64 \<and> bit w n} + card ((\<lambda>n. n + 64) ` block_bits b)"
    unfolding block_bits_Cons by (rule card_Un_disjoint) auto
  moreover have "{n. n < 64 \<and> bit w n} = {n. bit w n}" using bit_imp_le_length [of w] by auto
  ultimately show ?case using Cons by (simp add: card_image PopCount64_bit_count bit_count_word)
qed simp

lemma push_bit_1: "push_bit k (1 :: u64) = 2 ^ k"
  by (simp add: push_bit_eq_mult)

lemma bit_mask: "w AND 2 ^ k \<noteq> 0 \<longleftrightarrow> bit w k" for w :: u64
proof -
  have "w AND 2 ^ k = (if bit w k then 2 ^ k else 0)"
    by (rule bit_word_eqI) (auto simp: bit_and_iff bit_exp_iff)
  moreover have "(2 ^ k :: u64) \<noteq> 0" if "bit w k"
    using bit_imp_le_length [OF that] by (metis bit_0_eq bit_exp_iff bot_apply bot_bool_def possible_bit_word)
  ultimately show ?thesis by auto
qed

lemma unat_position:
  "word_of x = unat x mod 8192 div 64" "unat (x mod 64) = unat x mod 8192 mod 64"
  "word_of x < 128" "unat (block_of x) = unat x div 8192" "unat (block_of x) < 2 ^ 19"
  using unsigned_less [of x, where 'a = nat]
  by (simp_all add: word_of_def block_of_def unat_div unat_mod mod_mod_cancel div_less_dividend less_mult_imp_div_less)

lemma block_of_eq_iff: "block_of x = block_of y \<and> unat x mod 8192 = unat y mod 8192 \<longleftrightarrow> x = y"
  by (metis div_mult_mod_eq unat_position(4) word_unat_eq_iff)

lemma bit_word_at: "length b = 128 \<Longrightarrow> bit (b ! word_of x) (unat (x mod 64)) \<longleftrightarrow> unat x mod 8192 \<in> block_bits b"
  by (simp add: block_bits_def unat_position)

lemma block_bits_update:
  assumes "j < length b" "k < 64"
  shows "block_bits (b[j := b ! j OR push_bit k 1]) = insert (64 * j + k) (block_bits b)"
    and "block_bits (b[j := b ! j AND NOT (push_bit k 1)]) = block_bits b - {64 * j + k}"
proof -
  have *: "n div 64 = j \<and> n mod 64 = k \<longleftrightarrow> n = 64 * j + k" for n using assms(2) by auto
  have bits: "bit (2 ^ k :: u64) n \<longleftrightarrow> n = k" for n
    using assms(2) by (auto simp: bit_exp_iff)
  have less: "64 * j + k < 64 * length b" using assms by linarith
  show "block_bits (b[j := b ! j OR push_bit k 1]) = insert (64 * j + k) (block_bits b)"
    using assms less unfolding block_bits_def
    by (auto simp: nth_list_update bit_or_iff bits push_bit_1 * [symmetric])
  show "block_bits (b[j := b ! j AND NOT (push_bit k 1)]) = block_bits b - {64 * j + k}"
    using assms less unfolding block_bits_def
    by (auto simp: nth_list_update bit_and_iff bit_not_iff bits push_bit_1 * [symmetric])
qed

section \<open>The sparse set as a set of integers\<close>

definition sparse_wf :: "(u32 \<times> block) list \<Rightarrow> bool" where
  "sparse_wf bs \<longleftrightarrow> distinct (map fst bs) \<and>
     (\<forall>i b. map_of bs i = Some b \<longrightarrow> unat i < 2 ^ 19 \<and> length b = 128)"

definition sparse_elems :: "(u32 \<times> block) list \<Rightarrow> u32 set" where
  "sparse_elems bs = {x. \<exists>b. map_of bs (block_of x) = Some b \<and> unat x mod 8192 \<in> block_bits b}"

lemma sparse_wf_update:
  "sparse_wf bs \<Longrightarrow> unat i < 2 ^ 19 \<Longrightarrow> length b = 128 \<Longrightarrow> sparse_wf (AList.update i b bs)"
  by (auto simp: sparse_wf_def update_conv' distinct_update split: if_splits)

lemma sparse_wf_delete: "sparse_wf bs \<Longrightarrow> sparse_wf (AList.delete i bs)"
  by (auto simp: sparse_wf_def delete_conv' distinct_delete split: if_splits)

lemma sparse_wf_length: "sparse_wf bs \<Longrightarrow> map_of bs i = Some b \<Longrightarrow> length b = 128"
  by (simp add: sparse_wf_def)

lemma sparse_elems_update:
  "sparse_elems (AList.update i b bs) =
    {x \<in> sparse_elems bs. block_of x \<noteq> i} \<union> {x. block_of x = i \<and> unat x mod 8192 \<in> block_bits b}"
  by (auto simp: sparse_elems_def update_conv')

lemma sparse_elems_delete:
  "sparse_elems (AList.delete i bs) = {x \<in> sparse_elems bs. block_of x \<noteq> i}"
  by (auto simp: sparse_elems_def delete_conv' restrict_map_def split: if_splits)

lemma SparseBitSet_Contains_iff:
  "sparse_wf (blocks s) \<Longrightarrow> SparseBitSet_Contains s x = Some (x \<in> sparse_elems (blocks s))"
  using unat_position(3) [of x]
  by (auto simp: SparseBitSet_Contains_def sparse_elems_def idx_Some sparse_wf_length bit_mask mask_of_def push_bit_1
      bit_word_at split: option.splits)

lemma SparseBitSet_Add_elems:
  assumes "sparse_wf (blocks s)"
  shows "\<exists>s'. SparseBitSet_Add s x = Some s' \<and> sparse_wf (blocks s') \<and>
    sparse_elems (blocks s') = insert x (sparse_elems (blocks s))"
proof -
  define i j k where "i = block_of x" and "j = word_of x" and "k = unat (x mod 64)"
  define b where "b = (case map_of (blocks s) i of None \<Rightarrow> replicate blockWords 0 | Some b \<Rightarrow> b)"
  define b' where "b' = b[j := b ! j OR push_bit k 1]"
  have b: "length b = 128" using assms by (auto simp: b_def sparse_wf_length split: option.splits)
  have j: "j < 128" "unat i < 2 ^ 19" unfolding j_def i_def by (rule unat_position)+
  have k: "k < 64" "64 * j + k = unat x mod 8192" by (simp_all add: k_def j_def unat_position)
  have add: "SparseBitSet_Add s x = Some (s\<lparr> blocks := AList.update i b' (blocks s) \<rparr>)"
    using j b by (simp add: SparseBitSet_Add_def Let_def i_def [symmetric] b_def [symmetric] j_def [symmetric]
        mask_of_def push_bit_1 k_def [symmetric] idx_Some put_Some b'_def)
  have bits: "block_bits b' = insert (unat x mod 8192) (block_bits b)"
    using block_bits_update(1) [of j b k] b j k by (simp add: b'_def)
  have old: "unat y mod 8192 \<in> block_bits b \<longleftrightarrow> y \<in> sparse_elems (blocks s)" if "block_of y = i" for y
    using that by (auto simp: sparse_elems_def b_def split: option.splits)
  have "sparse_elems (AList.update i b' (blocks s)) = insert x (sparse_elems (blocks s))"
    using old block_of_eq_iff [of _ x] unfolding sparse_elems_update bits i_def by blast
  then show ?thesis using add sparse_wf_update [of "blocks s" i b'] assms b j by (simp add: b'_def)
qed

lemma SparseBitSet_Remove_elems:
  assumes "sparse_wf (blocks s)"
  shows "\<exists>s'. SparseBitSet_Remove s x = Some s' \<and> sparse_wf (blocks s') \<and>
    sparse_elems (blocks s') = sparse_elems (blocks s) - {x}"
proof (cases "map_of (blocks s) (block_of x)")
  case None
  then have "x \<notin> sparse_elems (blocks s)" by (simp add: sparse_elems_def)
  then show ?thesis using None assms by (simp add: SparseBitSet_Remove_def Let_def)
next
  case (Some b)
  define i j k where "i = block_of x" and "j = word_of x" and "k = unat (x mod 64)"
  define b' where "b' = b[j := b ! j AND NOT (push_bit k 1)]"
  have b: "length b = 128" using assms Some by (simp add: sparse_wf_length)
  have j: "j < 128" "unat i < 2 ^ 19" unfolding j_def i_def by (rule unat_position)+
  have k: "k < 64" "64 * j + k = unat x mod 8192" by (simp_all add: k_def j_def unat_position)
  have remove: "SparseBitSet_Remove s x = Some (s\<lparr> blocks := AList.update i b' (blocks s) \<rparr>)"
    using j b Some by (simp add: SparseBitSet_Remove_def Let_def i_def [symmetric] j_def [symmetric]
        mask_of_def push_bit_1 k_def [symmetric] idx_Some put_Some b'_def)
  have bits: "block_bits b' = block_bits b - {unat x mod 8192}"
    using block_bits_update(2) [of j b k] b j k by (simp add: b'_def)
  have old: "unat y mod 8192 \<in> block_bits b \<longleftrightarrow> y \<in> sparse_elems (blocks s)" if "block_of y = i" for y
    using that Some by (auto simp: sparse_elems_def i_def)
  have "sparse_elems (AList.update i b' (blocks s)) = sparse_elems (blocks s) - {x}"
    using old block_of_eq_iff [of _ x] unfolding sparse_elems_update bits i_def by blast
  then show ?thesis using remove sparse_wf_update [of "blocks s" i b'] assms b j by (simp add: b'_def)
qed

lemma sparse_wf_Nil [simp]: "sparse_wf []" and sparse_elems_Nil [simp]: "sparse_elems [] = {}"
  by (simp_all add: sparse_wf_def sparse_elems_def)

lemma sparse_wf_Cons:
  "sparse_wf ((i, b) # bs) \<longleftrightarrow> i \<notin> set (map fst bs) \<and> unat i < 2 ^ 19 \<and> length b = 128 \<and> sparse_wf bs"
  by (auto simp: sparse_wf_def image_iff dest: map_of_SomeD split: if_splits)
    (metis fst_conv map_of_SomeD)+

definition block_elems :: "u32 \<Rightarrow> block \<Rightarrow> u32 set" where
  "block_elems i b = {x. block_of x = i \<and> unat x mod 8192 \<in> block_bits b}"

lemma sparse_elems_Cons:
  "i \<notin> set (map fst bs) \<Longrightarrow> sparse_elems ((i, b) # bs) = block_elems i b \<union> sparse_elems bs"
  by (auto simp: sparse_elems_def block_elems_def dest: map_of_SomeD split: if_splits)
    (metis fst_conv image_eqI map_of_SomeD)+

lemma card_block_elems:
  assumes "unat i < 2 ^ 19" "length b = 128"
  shows "card (block_elems i b) = card (block_bits b)"
proof (rule bij_betw_same_card [of "\<lambda>x. unat x mod 8192"], rule bij_betw_imageI)
  show "inj_on (\<lambda>x. unat x mod 8192) (block_elems i b)"
    by (auto simp: inj_on_def block_elems_def intro: block_of_eq_iff [THEN iffD1])
  have "n \<in> (\<lambda>x. unat x mod 8192) ` block_elems i b" if n: "n \<in> block_bits b" for n
  proof
    have "n < 8192" using n assms block_bits_less by fastforce
    then have "unat (of_nat (unat i * 8192 + n) :: u32) = unat i * 8192 + n"
      using assms by (simp only: unat_of_nat) simp
    then show "n = unat (of_nat (unat i * 8192 + n) :: u32) mod 8192"
        "of_nat (unat i * 8192 + n) \<in> block_elems i b"
      using n \<open>n < 8192\<close> by (simp_all only: block_elems_def word_unat_eq_iff unat_position(4) mem_Collect_eq) simp_all
  qed
  then show "(\<lambda>x. unat x mod 8192) ` block_elems i b = block_bits b"
    by (auto simp: block_elems_def)
qed

lemma sparse_Len: "sparse_wf bs \<Longrightarrow> sum_list (map (\<lambda>(i, block). PopCount64Slice block) bs) = card (sparse_elems bs)"
proof (induction bs)
  case (Cons ib bs)
  obtain i b where [simp]: "ib = (i, b)" by (cases ib)
  have wf: "i \<notin> set (map fst bs)" "unat i < 2 ^ 19" "length b = 128" "sparse_wf bs"
    using Cons.prems by (simp_all add: sparse_wf_Cons)
  have "block_elems i b \<inter> sparse_elems bs = {}"
    using wf(1) by (auto simp: block_elems_def sparse_elems_def dest!: map_of_SomeD) force
  then have "card (sparse_elems (ib # bs)) = card (block_elems i b) + card (sparse_elems bs)"
    unfolding \<open>ib = (i, b)\<close> sparse_elems_Cons [OF wf(1)] by (intro card_Un_disjoint) simp_all
  then show ?case using Cons wf by (simp add: card_block_elems card_block_bits)
qed simp

lemma block_bits_map2:
  assumes "length b = length b2"
  shows "block_bits (map2 (OR) b b2) = block_bits b \<union> block_bits b2"
    and "block_bits (map2 (AND) b b2) = block_bits b \<inter> block_bits b2"
  using assms by (auto simp: block_bits_def bit_or_iff bit_and_iff)

lemma copy_block_eq: "length b = 128 \<Longrightarrow> copy_block b = b"
  by (simp add: copy_block_def)

lemma sparse_Union:
  "sparse_wf bs \<Longrightarrow> sparse_wf bs2 \<Longrightarrow>
   \<exists>bs'. Union_loop bs bs2 = Some bs' \<and> sparse_wf bs' \<and> sparse_elems bs' = sparse_elems bs \<union> sparse_elems bs2"
proof (induction bs bs2 rule: Union_loop.induct)
  case (2 bs i b2 bs2)
  have wf: "i \<notin> set (map fst bs2)" "unat i < 2 ^ 19" "length b2 = 128" "sparse_wf bs2"
    using 2 by (simp_all add: sparse_wf_Cons)
  show ?case
  proof (cases "map_of bs i")
    case None
    then have "sparse_elems (AList.update i b2 bs) = sparse_elems bs \<union> block_elems i b2"
      by (auto simp: sparse_elems_update block_elems_def) (auto simp: sparse_elems_def)
    then show ?thesis
      using 2(1) [OF None] None wf 2(3) sparse_wf_update [of bs i b2]
      by (auto simp: copy_block_eq sparse_elems_Cons)
  next
    case (Some b)
    have len: "length b = 128" using 2 Some by (simp add: sparse_wf_length)
    have "or_block b b2 = Some (map2 (OR) b b2)" using len wf by (simp add: or_block_def)
    moreover have "sparse_elems (AList.update i (map2 (OR) b b2) bs) = sparse_elems bs \<union> block_elems i b2"
      using Some len wf by (auto simp: sparse_elems_update block_elems_def block_bits_map2) (auto simp: sparse_elems_def)
    ultimately show ?thesis
      using 2(2) [OF Some] Some wf 2(3) len sparse_wf_update [of bs i "map2 (OR) b b2"]
      by (auto simp: sparse_elems_Cons)
  qed
qed simp

lemma sparse_Intersection:
  "sparse_wf bs \<Longrightarrow> sparse_wf bs2 \<Longrightarrow> sparse_wf bs3 \<Longrightarrow> set (map fst bs2) \<inter> set (map fst bs3) = {} \<Longrightarrow>
   n = card (sparse_elems bs3) \<Longrightarrow>
   \<exists>bs'. Intersection_loop bs bs3 n bs2 = Some (bs', card (sparse_elems bs')) \<and> sparse_wf bs' \<and>
     sparse_elems bs' = sparse_elems bs3 \<union> (sparse_elems bs \<inter> sparse_elems bs2)"
proof (induction bs bs3 n bs2 rule: Intersection_loop.induct)
  case (2 bs bs3 n i b2 bs2)
  have wf: "i \<notin> set (map fst bs2)" "unat i < 2 ^ 19" "length b2 = 128" "sparse_wf bs2"
    using 2 by (simp_all add: sparse_wf_Cons)
  have new: "i \<notin> set (map fst bs3)" "set (map fst bs2) \<inter> set (map fst bs3) = {}" using 2(7) by auto
  show ?case
  proof (cases "map_of bs i")
    case None
    then have "sparse_elems bs \<inter> block_elems i b2 = {}" by (auto simp: sparse_elems_def block_elems_def)
    then show ?thesis
      using 2(1) [OF None] None wf 2(4,6,8) new by (simp add: sparse_elems_Cons Int_Un_distrib)
  next
    case (Some b)
    have len: "length b = 128" using 2(4) Some by (simp add: sparse_wf_length)
    define b3 where "b3 = map2 (AND) b b2"
    have and_eq: "and_block b b2 = Some b3" using len wf by (simp add: and_block_def b3_def)
    have b3: "sparse_elems bs \<inter> block_elems i b2 = block_elems i b3" "length b3 = 128"
      using Some len wf by (auto simp: block_elems_def sparse_elems_def block_bits_map2 b3_def)
    have elems: "sparse_elems bs \<inter> sparse_elems ((i, b2) # bs2) = block_elems i b3 \<union> (sparse_elems bs \<inter> sparse_elems bs2)"
      using b3 wf by (auto simp: sparse_elems_Cons)
    show ?thesis
    proof (cases "PopCount64Slice b3 = 0")
      case True
      then have "block_elems i b3 = {}" by (simp add: card_block_bits block_elems_def)
      then show ?thesis
        using 2(3) [OF Some and_eq refl] True Some and_eq wf 2(4,6,8) new elems by simp
    next
      case False
      have map: "map_of bs3 i = None" using new(1) by (metis map_of_eq_None_iff set_map)
      have upd: "sparse_elems (AList.update i b3 bs3) = sparse_elems bs3 \<union> block_elems i b3"
        using map by (auto simp: sparse_elems_update block_elems_def) (auto simp: sparse_elems_def)
      have disj: "sparse_elems bs3 \<inter> block_elems i b3 = {}"
        using map by (auto simp: sparse_elems_def block_elems_def)
      have wf3: "sparse_wf (AList.update i b3 bs3)" using 2(6) wf b3 by (simp add: sparse_wf_update)
      have keys: "set (map fst bs2) \<inter> set (map fst (AList.update i b3 bs3)) = {}"
        using new wf(1) by (simp add: update_keys)
      have card: "n + PopCount64Slice b3 = card (sparse_elems (AList.update i b3 bs3))"
        using disj 2(8) wf b3 by (simp add: upd card_Un_disjoint card_block_elems card_block_bits)
      show ?thesis
        using 2(2) [OF Some and_eq refl False 2(4) wf(4) wf3 keys card] Some and_eq False elems upd
        by (auto simp: Let_def)
    qed
  qed
qed simp

section \<open>Scanning for the smallest and the largest element\<close>

lemma product_positions:
  "map (\<lambda>(j, k). 64 * j + k) (List.product [0..<m] [0..<64]) = [0..<64 * m]"
proof (induction m)
  case (Suc m)
  have "map (\<lambda>k. 64 * m + k) [0..<64] = [64 * m..<64 * m + 64]"
    by (intro nth_equalityI) simp_all
  then show ?case using Suc upt_add_eq_append [of 0 "64 * m" 64] by (simp add: product_concat_map o_def add.commute [of 64])
qed simp

lemma rev_product: "rev (List.product xs ys) = List.product (rev xs) (rev ys)"
  by (simp add: product_concat_map rev_concat rev_map o_def)

lemma scan_block_find:
  assumes "\<forall>j \<in> set js. j < length b" "{..<64} \<subseteq> set ks"
  shows "scan_block ks b js = Some (find (\<lambda>(j, k). bit (b ! j) k) (List.product js ks))"
  using assms(1)
proof (induction js)
  case (Cons j js)
  have app: "find P (xs @ ys) = (case find P xs of None \<Rightarrow> find P ys | Some x \<Rightarrow> Some x)" for P :: "nat \<times> nat \<Rightarrow> bool" and xs ys
    by (induction xs) auto
  have map: "find (\<lambda>(j, k). bit (b ! j) k) (map (Pair j) ks) = map_option (Pair j) (find (\<lambda>k. bit (b ! j) k) ks)"
    by (induction ks) auto
  have none: "find (bit (b ! j)) ks \<noteq> None" if nz: "b ! j \<noteq> 0"
  proof -
    obtain k where "bit (b ! j) k" using nz by (metis bit_0_eq bit_eqI bot_apply bot_bool_def)
    moreover have "k < 64" using bit_imp_le_length [OF \<open>bit (b ! j) k\<close>] by simp
    ultimately show ?thesis using assms(2) by (auto simp: find_None_iff)
  qed
  have zero: "find (bit (b ! j)) ks = None" if "b ! j = 0" using that by (simp add: find_None_iff)
  show ?case
    using Cons none zero
    by (auto simp: idx_Some bit_mask push_bit_1 app map cong: option.case_cong split: option.splits)
qed simp

text \<open>The position found, as a number below 8192.\<close>

definition position :: "nat \<times> nat \<Rightarrow> nat" where
  "position jk = 64 * fst jk + snd jk"

lemma find_map_iff: "find (P \<circ> f) xs = r \<Longrightarrow> find P (map f xs) = map_option f r"
  by (induction xs arbitrary: r) auto

lemma scan_block_positions:
  assumes "length b = 128"
  shows "\<exists>r. scan_block [0..<wordBits] b [0..<blockWords] = Some r \<and>
      map_option position r = find (\<lambda>n. n \<in> block_bits b) [0..<8192]"
    and "\<exists>r. scan_block (rev [0..<wordBits]) b (rev [0..<blockWords]) = Some r \<and>
      map_option position r = find (\<lambda>n. n \<in> block_bits b) (rev [0..<8192])"
proof -
  let ?Q = "\<lambda>(j, k). bit (b ! j) k" and ?p = "List.product [0..<128] [0..<64]"
  have f: "(\<lambda>(j, k). 64 * j + k) = position" by (auto simp: position_def)
  have pos: "map position ?p = [0..<8192]" using product_positions [of 128] by (simp add: f)
  have Q: "?Q x \<longleftrightarrow> ((\<lambda>n. n \<in> block_bits b) \<circ> position) x" if "x \<in> set ?p" for x
    using that assms by (auto simp: block_bits_def position_def)
  have find_eq: "find ?Q xs = find ((\<lambda>n. n \<in> block_bits b) \<circ> position) xs" if "set xs \<subseteq> set ?p" for xs
    using that Q by (induction xs) (auto split: prod.splits)
  have "scan_block [0..<wordBits] b [0..<blockWords] = Some (find ?Q ?p)"
    using assms by (subst scan_block_find) auto
  moreover have "map_option position (find ?Q ?p) = find (\<lambda>n. n \<in> block_bits b) [0..<8192]"
    using find_map_iff [OF find_eq [symmetric], of ?p] by (simp add: pos)
  ultimately show "\<exists>r. scan_block [0..<wordBits] b [0..<blockWords] = Some r \<and>
      map_option position r = find (\<lambda>n. n \<in> block_bits b) [0..<8192]" by blast
  have "scan_block (rev [0..<wordBits]) b (rev [0..<blockWords]) = Some (find ?Q (rev ?p))"
    using assms by (subst scan_block_find) (auto simp: rev_product)
  moreover have "map_option position (find ?Q (rev ?p)) = find (\<lambda>n. n \<in> block_bits b) (rev [0..<8192])"
    using find_map_iff [OF find_eq [symmetric], of "rev ?p"] by (simp add: pos rev_map [symmetric])
  ultimately show "\<exists>r. scan_block (rev [0..<wordBits]) b (rev [0..<blockWords]) = Some r \<and>
      map_option position r = find (\<lambda>n. n \<in> block_bits b) (rev [0..<8192])" by blast
qed

lemma find_first: "find P [0..<n] = Some m \<Longrightarrow> m < n \<and> P m \<and> (\<forall>i < m. \<not> P i)"
  by (auto simp: find_Some_iff)

lemma find_last: "find P (rev [0..<n]) = Some m \<Longrightarrow> m < n \<and> P m \<and> (\<forall>i < n. m < i \<longrightarrow> \<not> P i)"
  by (induction n) (auto simp: less_Suc_eq split: if_splits)

lemma unat_element_at:
  assumes "unat i < 2 ^ 19" "position jk < 8192"
  shows "unat (element_at i jk) = unat i * 8192 + position jk"
proof -
  have "element_at i jk = of_nat (unat i * 8192 + position jk)"
    by (simp add: element_at_def position_def ac_simps)
  then show ?thesis using assms by (simp only: unat_of_nat) simp
qed

lemma fold_min_key:
  assumes "ks \<noteq> []"
  shows "fold (\<lambda>i mi. if i < mi then i else mi) ks (0xffffffff :: u32) \<in> set ks \<and>
    (\<forall>i \<in> set ks. fold (\<lambda>i mi. if i < mi then i else mi) ks 0xffffffff \<le> i)" (is "?m \<in> _ \<and> _")
proof -
  have "(\<lambda>i mi. if i < mi then i else mi) = (min :: u32 \<Rightarrow> _)" by (auto simp: min_def fun_eq_iff)
  then have *: "?m = Min (insert 0xffffffff (set ks))" using Min.set_eq_fold [of "0xffffffff :: u32" ks] by simp
  have "i \<le> (0xffffffff :: u32)" for i
    using unsigned_less [of i, where 'a = nat] by (simp add: word_le_nat_alt)
  then have "Min (insert 0xffffffff (set ks)) = Min (set ks)"
    using assms by (simp add: min_def antisym)
  then show ?thesis using assms by (simp add: *)
qed

lemma fold_max_key:
  assumes "ks \<noteq> []"
  shows "fold (\<lambda>i mi. if i > mi then i else mi) ks (0 :: u32) \<in> set ks \<and>
    (\<forall>i \<in> set ks. i \<le> fold (\<lambda>i mi. if i > mi then i else mi) ks 0)" (is "?m \<in> _ \<and> _")
proof -
  have "(\<lambda>i mi. if i > mi then i else mi) = (max :: u32 \<Rightarrow> _)" by (auto simp: max_def fun_eq_iff)
  then have *: "?m = Max (insert 0 (set ks))" using Max.set_eq_fold [of "0 :: u32" ks] by simp
  have "Max (insert 0 (set ks)) = Max (set ks)" using assms by (simp add: max_def)
  then show ?thesis using assms by (simp add: *)
qed

lemma div_le_compare:
  assumes "a \<le> y div c" "a = y div c \<Longrightarrow> p \<le> y mod c" "p < c"
  shows "a * c + p \<le> (y :: nat)"
proof -
  have "a * c + p \<le> y div c * c + y mod c"
  proof (cases "a = y div c")
    case True
    then show ?thesis by (intro add_mono mult_right_mono assms(2)) simp_all
  next
    case False
    with assms(1) have "(a + 1) * c \<le> y div c * c" by (intro mult_le_mono) auto
    with assms(3) show ?thesis unfolding distrib_right by linarith
  qed
  then show ?thesis by simp
qed

lemma div_ge_compare:
  assumes "y div c \<le> a" "a = y div c \<Longrightarrow> y mod c \<le> p" "p < c"
  shows "(y :: nat) \<le> a * c + p"
proof -
  have "y div c * c + y mod c \<le> a * c + p"
  proof (cases "a = y div c")
    case True
    then show ?thesis by (intro add_mono mult_right_mono assms(2)) simp_all
  next
    case False
    with assms(1) have "(y div c + 1) * c \<le> a * c" by (intro mult_le_mono) auto
    moreover have "y mod c < c" using assms(3) by (intro mod_less_divisor) simp
    ultimately show ?thesis unfolding distrib_right by linarith
  qed
  then show ?thesis by simp
qed

lemma sparse_least:
  assumes "sparse_wf bs" "map_of bs mi = Some b" "\<forall>i \<in> set (map fst bs). mi \<le> i"
    "position jk < 8192" "position jk \<in> block_bits b" "\<forall>n < position jk. n \<notin> block_bits b"
  shows "element_at mi jk \<in> sparse_elems bs \<and> (\<forall>y \<in> sparse_elems bs. element_at mi jk \<le> y)"
proof -
  have mi: "unat mi < 2 ^ 19" using assms by (simp add: sparse_wf_def)
  have eq: "unat (element_at mi jk) = unat mi * 8192 + position jk"
    by (rule unat_element_at [OF mi assms(4)])
  then have "block_of (element_at mi jk) = mi" "unat (element_at mi jk) mod 8192 = position jk"
    using assms(4) by (simp_all add: word_unat_eq_iff unat_position(4))
  moreover have "element_at mi jk \<le> y" if y: "y \<in> sparse_elems bs" for y
  proof -
    obtain b' where b': "map_of bs (block_of y) = Some b'" "unat y mod 8192 \<in> block_bits b'"
      using y by (auto simp: sparse_elems_def)
    then have "mi \<le> block_of y" using assms(3) by (metis map_of_eq_None_iff option.distinct(1) set_map)
    then have le: "unat mi \<le> unat y div 8192" by (simp add: word_le_nat_alt unat_position)
    have "position jk \<le> unat y mod 8192" if "unat mi = unat y div 8192"
    proof -
      have "block_of y = mi" using that by (simp add: word_unat_eq_iff unat_position(4))
      then show ?thesis using assms(2,6) b' by (metis not_less option.inject)
    qed
    then have "unat mi * 8192 + position jk \<le> unat y"  using le assms(4) by (intro div_le_compare)
    then show ?thesis by (simp add: word_le_nat_alt eq)
  qed
  ultimately show ?thesis using assms by (simp add: sparse_elems_def)
qed

lemma sparse_greatest:
  assumes "sparse_wf bs" "map_of bs mi = Some b" "\<forall>i \<in> set (map fst bs). i \<le> mi"
    "position jk < 8192" "position jk \<in> block_bits b" "\<forall>n < 8192. position jk < n \<longrightarrow> n \<notin> block_bits b"
  shows "element_at mi jk \<in> sparse_elems bs \<and> (\<forall>y \<in> sparse_elems bs. y \<le> element_at mi jk)"
proof -
  have mi: "unat mi < 2 ^ 19" using assms by (simp add: sparse_wf_def)
  have eq: "unat (element_at mi jk) = unat mi * 8192 + position jk"
    by (rule unat_element_at [OF mi assms(4)])
  then have "block_of (element_at mi jk) = mi" "unat (element_at mi jk) mod 8192 = position jk"
    using assms(4) by (simp_all add: word_unat_eq_iff unat_position(4))
  moreover have "y \<le> element_at mi jk" if y: "y \<in> sparse_elems bs" for y
  proof -
    obtain b' where b': "map_of bs (block_of y) = Some b'" "unat y mod 8192 \<in> block_bits b'"
      using y by (auto simp: sparse_elems_def)
    then have "block_of y \<le> mi" using assms(3) by (metis map_of_eq_None_iff option.distinct(1) set_map)
    then have le: "unat y div 8192 \<le> unat mi" by (simp add: word_le_nat_alt unat_position)
    have "unat y mod 8192 \<le> position jk" if "unat mi = unat y div 8192"
    proof -
      have "block_of y = mi" using that by (simp add: word_unat_eq_iff unat_position(4))
      then show ?thesis using assms(2,6) b' by (metis mod_less_divisor not_less option.inject zero_less_numeral)
    qed
    then have "unat y \<le> unat mi * 8192 + position jk"  using le assms(4) by (intro div_ge_compare) auto
    then show ?thesis by (simp add: word_le_nat_alt eq)
  qed
  ultimately show ?thesis using assms by (simp add: sparse_elems_def)
qed

lemma sparse_delete_empty:
  "map_of bs i = Some b \<Longrightarrow> block_bits b = {} \<Longrightarrow> sparse_elems (AList.delete i bs) = sparse_elems bs"
  by (auto simp: sparse_elems_delete) (auto simp: sparse_elems_def)

lemma find_block_None: "length b = 128 \<Longrightarrow> find (\<lambda>n. n \<in> block_bits b) [0..<8192] = None \<Longrightarrow> block_bits b = {}"
  using block_bits_less [of _ b] by (fastforce simp: find_None_iff)

lemma find_block_rev_None:
  "length b = 128 \<Longrightarrow> find (\<lambda>n. n \<in> block_bits b) (rev [0..<8192]) = None \<Longrightarrow> block_bits b = {}"
  using block_bits_less [of _ b] by (fastforce simp: find_None_iff)

lemma blocks_update: "blocks (s\<lparr> blocks := bs \<rparr>) = bs"
  by simp

lemma SparseBitSet_Min_least:
  "sparse_wf (blocks s) \<Longrightarrow> \<exists>m s'. SparseBitSet_Min s = Some (m, s') \<and> sparse_wf (blocks s') \<and>
     sparse_elems (blocks s') = sparse_elems (blocks s) \<and>
     (if sparse_elems (blocks s) = {} then m = 0
      else m \<in> sparse_elems (blocks s) \<and> (\<forall>y \<in> sparse_elems (blocks s). m \<le> y))"
proof (induction s rule: SparseBitSet_Min.induct)
  case (1 s)
  define mi where "mi = fold (\<lambda>i mi. if i < mi then i else mi) (map fst (blocks s)) (0xffffffff :: u32)"
  show ?case
  proof (cases "blocks s = []")
    case False
    then have mi: "mi \<in> set (map fst (blocks s))" "\<forall>i \<in> set (map fst (blocks s)). mi \<le> i"
      using fold_min_key [of "map fst (blocks s)"] by (simp_all add: mi_def)
    then obtain b where b: "map_of (blocks s) mi = Some b" by (metis map_of_eq_None_iff not_Some_eq set_map)
    then have len: "length b = 128" using 1 by (simp add: sparse_wf_length)
    obtain r where r: "scan_block [0..<wordBits] b [0..<blockWords] = Some r"
        "map_option position r = find (\<lambda>n. n \<in> block_bits b) [0..<8192]"
      using scan_block_positions(1) [OF len] by blast
    show ?thesis
    proof (cases r)
      case None
      then have "block_bits b = {}" using r(2) find_block_None [OF len] by simp
      then have del: "sparse_elems (AList.delete mi (blocks s)) = sparse_elems (blocks s)"
        using b by (simp add: sparse_delete_empty)
      have step: "SparseBitSet_Min s = SparseBitSet_Min (s\<lparr> blocks := AList.delete mi (blocks s) \<rparr>)"
        using False b r(1) None by (subst SparseBitSet_Min.simps) (simp add: mi_def [symmetric])
      show ?thesis
        using 1(1) [OF False mi_def b r(1) None] 1(2) unfolding step by (simp only: blocks_update del sparse_wf_delete simp_thms)
    next
      case (Some jk)
      then have "position jk < 8192 \<and> position jk \<in> block_bits b \<and> (\<forall>n < position jk. n \<notin> block_bits b)"
        using r by (intro find_first) simp
      then have "element_at mi jk \<in> sparse_elems (blocks s) \<and> (\<forall>y \<in> sparse_elems (blocks s). element_at mi jk \<le> y)"
        using sparse_least [OF 1(2) b mi(2)] by blast
      moreover have "SparseBitSet_Min s = Some (element_at mi jk, s)"
        using False b r(1) Some by (subst SparseBitSet_Min.simps) (simp add: mi_def [symmetric])
      ultimately show ?thesis using 1(2) by auto
    qed
  qed (subst SparseBitSet_Min.simps, simp)
qed

lemma SparseBitSet_Max_greatest:
  "sparse_wf (blocks s) \<Longrightarrow> \<exists>m s'. SparseBitSet_Max s = Some (m, s') \<and> sparse_wf (blocks s') \<and>
     sparse_elems (blocks s') = sparse_elems (blocks s) \<and>
     (if sparse_elems (blocks s) = {} then m = 0
      else m \<in> sparse_elems (blocks s) \<and> (\<forall>y \<in> sparse_elems (blocks s). y \<le> m))"
proof (induction s rule: SparseBitSet_Max.induct)
  case (1 s)
  define mi where "mi = fold (\<lambda>i mi. if i > mi then i else mi) (map fst (blocks s)) (0 :: u32)"
  show ?case
  proof (cases "blocks s = []")
    case False
    then have mi: "mi \<in> set (map fst (blocks s))" "\<forall>i \<in> set (map fst (blocks s)). i \<le> mi"
      using fold_max_key [of "map fst (blocks s)"] by (simp_all add: mi_def)
    then obtain b where b: "map_of (blocks s) mi = Some b" by (metis map_of_eq_None_iff not_Some_eq set_map)
    then have len: "length b = 128" using 1 by (simp add: sparse_wf_length)
    obtain r where r: "scan_block (rev [0..<wordBits]) b (rev [0..<blockWords]) = Some r"
        "map_option position r = find (\<lambda>n. n \<in> block_bits b) (rev [0..<8192])"
      using scan_block_positions(2) [OF len] by blast
    show ?thesis
    proof (cases r)
      case None
      then have "block_bits b = {}" using r(2) find_block_rev_None [OF len] by simp
      then have del: "sparse_elems (AList.delete mi (blocks s)) = sparse_elems (blocks s)"
        using b by (simp add: sparse_delete_empty)
      have step: "SparseBitSet_Max s = SparseBitSet_Max (s\<lparr> blocks := AList.delete mi (blocks s) \<rparr>)"
        using False b r(1) None by (subst SparseBitSet_Max.simps) (simp add: mi_def [symmetric])
      show ?thesis
        using 1(1) [OF False mi_def b r(1) None] 1(2) unfolding step by (simp only: blocks_update del sparse_wf_delete simp_thms)
    next
      case (Some jk)
      then have "position jk < 8192 \<and> position jk \<in> block_bits b \<and> (\<forall>n < 8192. position jk < n \<longrightarrow> n \<notin> block_bits b)"
        using r by (intro find_last) simp
      then have "element_at mi jk \<in> sparse_elems (blocks s) \<and> (\<forall>y \<in> sparse_elems (blocks s). y \<le> element_at mi jk)"
        using sparse_greatest [OF 1(2) b mi(2)] by blast
      moreover have "SparseBitSet_Max s = Some (element_at mi jk, s)"
        using False b r(1) Some by (subst SparseBitSet_Max.simps) (simp add: mi_def [symmetric])
      ultimately show ?thesis using 1(2) by auto
    qed
  qed (subst SparseBitSet_Max.simps, simp)
qed

section \<open>Compacting, copying, writing and reading\<close>

lemma delete_filter: "AList.delete i bs = filter (\<lambda>(k, v). k \<noteq> i) bs"
  by (auto simp: AList.delete_eq case_prod_unfold intro!: filter_cong)

lemma Compact_fold:
  "fold (\<lambda>(i, block) bs. if PopCount64Slice block = 0 then AList.delete i bs else bs) xs bs =
   filter (\<lambda>(k, v). \<forall>(i, b) \<in> set xs. PopCount64Slice b = 0 \<longrightarrow> k \<noteq> i) bs"
proof (induction xs arbitrary: bs)
  case (Cons ib xs)
  then show ?case by (cases ib) (auto simp: delete_filter intro!: filter_cong)
qed simp

lemma Compact_filter:
  assumes "distinct (map fst (blocks s))"
  shows "blocks (SparseBitSet_Compact s) = filter (\<lambda>(i, b). PopCount64Slice b \<noteq> 0) (blocks s)"
proof -
  have *: "(\<forall>(i, b) \<in> set (blocks s). PopCount64Slice b = 0 \<longrightarrow> k \<noteq> i) \<longleftrightarrow> PopCount64Slice v \<noteq> 0"
    if "(k, v) \<in> set (blocks s)" for k v
    using that assms by (force dest: eq_key_imp_eq_value)
  then have "(case x of (k, v) \<Rightarrow> \<forall>(i, b) \<in> set (blocks s). PopCount64Slice b = 0 \<longrightarrow> k \<noteq> i) \<longleftrightarrow>
      (case x of (i, b) \<Rightarrow> PopCount64Slice b \<noteq> 0)" if "x \<in> set (blocks s)" for x
    using that by (cases x) simp
  then show ?thesis
    unfolding SparseBitSet_Compact_def blocks_update Compact_fold by (rule filter_cong [OF refl])
qed

lemma map_of_filter_distinct:
  "distinct (map fst bs) \<Longrightarrow>
   map_of (filter (\<lambda>(i, b). P b) bs) i = (case map_of bs i of Some b \<Rightarrow> if P b then Some b else None | None \<Rightarrow> None)"
  by (induction bs) (auto simp: dom_map_of_conv_image_fst split: option.splits dest: map_of_SomeD
      intro!: map_of_eq_None_iff [THEN iffD2])

lemma Compact_elems:
  assumes "sparse_wf (blocks s)"
  shows "sparse_wf (blocks (SparseBitSet_Compact s))"
    "sparse_elems (blocks (SparseBitSet_Compact s)) = sparse_elems (blocks s)"
    "\<forall>(i, b) \<in> set (blocks (SparseBitSet_Compact s)). block_bits b \<noteq> {}"
proof -
  have d: "distinct (map fst (blocks s))" using assms by (simp add: sparse_wf_def)
  have m: "map_of (blocks (SparseBitSet_Compact s)) i =
      (case map_of (blocks s) i of Some b \<Rightarrow> if PopCount64Slice b \<noteq> 0 then Some b else None | None \<Rightarrow> None)" for i
    unfolding Compact_filter [OF d] by (rule map_of_filter_distinct [OF d])
  show "sparse_wf (blocks (SparseBitSet_Compact s))"
    using assms d unfolding sparse_wf_def m
    by (auto simp: Compact_filter [OF d] distinct_map_filter split: option.splits if_splits)
  show "sparse_elems (blocks (SparseBitSet_Compact s)) = sparse_elems (blocks s)"
    unfolding sparse_elems_def m by (auto simp: card_block_bits split: option.splits if_splits)
  show "\<forall>(i, b) \<in> set (blocks (SparseBitSet_Compact s)). block_bits b \<noteq> {}"
    by (auto simp: Compact_filter [OF d] card_block_bits)
qed

lemma sparse_wf_length_le:
  assumes "sparse_wf bs"
  shows "length bs \<le> 2 ^ 19"
proof -
  have "set (map (unat \<circ> fst) bs) \<subseteq> {..<2 ^ 19}"
    using assms by (auto simp: sparse_wf_def dest!: weak_map_of_SomeI) 
  then have "card (set (map (unat \<circ> fst) bs)) \<le> 2 ^ 19"
    by (metis card_lessThan card_mono finite_lessThan)
  moreover have "distinct (map (unat \<circ> fst) bs)"
    using assms by (simp add: sparse_wf_def distinct_map inj_on_def word_unat_eq_iff)
  ultimately show ?thesis by (metis distinct_card length_map)
qed

lemma fold_update_map_of:
  "map_of (fold (\<lambda>i bs. AList.update i (f i) (AList.update i z bs)) ks bs) =
   (\<lambda>j. if j \<in> set ks then Some (f j) else map_of bs j)"
  by (induction ks arbitrary: bs) (auto simp: update_conv' fun_eq_iff)

lemma distinct_fold_update:
  "distinct (map fst bs) \<Longrightarrow> distinct (map fst (fold (\<lambda>i bs. AList.update i (f i) (AList.update i z bs)) ks bs))"
  by (induction ks arbitrary: bs) (simp_all add: distinct_update)

definition block_bytes :: "(u32 \<Rightarrow> block) \<Rightarrow> u32 list \<Rightarrow> u8 list" where
  "block_bytes f ks = concat (map (\<lambda>i. le_bytes 4 i @ le_slice_bytes 8 (f i)) ks)"

lemma Write_loop_bytes:
  "Write_loop buffer_write bs ks w =
   Inr (w @ block_bytes (\<lambda>i. case map_of bs i of Some b \<Rightarrow> b | None \<Rightarrow> []) ks)"
  by (induction ks arbitrary: w) (simp_all add: buffer_write_def block_bytes_def)

lemma Read_loop_bytes:
  "\<forall>i \<in> set ks. length (f i) = 128 \<Longrightarrow>
   Read_loop (length ks) bs (block_bytes f ks @ r) =
   (fold (\<lambda>i bs. AList.update i (f i) (AList.update i (replicate blockWords 0) bs)) ks bs, r, None)"
proof (induction ks arbitrary: bs)
  case (Cons i ks)
  have "le_slice 8 128 (le_slice_bytes 8 (f i)) = f i"
    using le_slice_bytes_inverse [of 8 "f i" "[]"] Cons.prems by simp
  moreover have "le_word (le_bytes 4 i) = i" by (rule le_word_bytes) simp
  ultimately show ?case using Cons by (simp add: block_bytes_def Let_def)
qed (simp add: block_bytes_def)

lemma sparse_roundtrip:
  assumes "sparse_wf (blocks s)"
  shows "\<exists>bs. snd (SparseBitSet_Write buffer_write s w) = Inr (w @ bs) \<and>
    (\<forall>s0 r. \<exists>s'. SparseBitSet_Read s0 (bs @ r) = (s', r, None) \<and> sparse_wf (blocks s') \<and>
       sparse_elems (blocks s') = sparse_elems (blocks s))"
proof -
  define c where "c = blocks (SparseBitSet_Compact s)"
  define f where "f = (\<lambda>i. case map_of c i of Some b \<Rightarrow> b | None \<Rightarrow> [])"
  define ks where "ks = sort (map fst c)"
  have wf: "sparse_wf c" and elems: "sparse_elems c = sparse_elems (blocks s)"
    using Compact_elems [OF assms] by (simp_all add: c_def)
  have len: "length ks = length c" "length c \<le> 2 ^ 19" "set ks = set (map fst c)"
    using sparse_wf_length_le [OF wf] by (simp_all add: ks_def)
  have f: "map_of c i = Some (f i)" "length (f i) = 128" if "i \<in> set ks" for i
  proof -
    obtain b where "map_of c i = Some b" using \<open>i \<in> set ks\<close> len(3) by (metis map_of_eq_None_iff not_None_eq set_map)
    then show "map_of c i = Some (f i)" "length (f i) = 128"
      using wf by (simp_all add: f_def sparse_wf_def)
  qed
  let ?bs = "le_bytes 4 (of_nat (length c) :: u32) @ block_bytes f ks"
  have wr: "snd (SparseBitSet_Write buffer_write s w) = Inr (w @ ?bs)"
    by (simp add: SparseBitSet_Write_def Let_def c_def [symmetric] Write_loop_bytes buffer_write_def f_def ks_def)
  have rd: "\<exists>s'. SparseBitSet_Read s0 (?bs @ r) = (s', r, None) \<and> sparse_wf (blocks s') \<and>
      sparse_elems (blocks s') = sparse_elems (blocks s)" for s0 r
  proof -
    define d where "d = fold (\<lambda>i bs. AList.update i (f i) (AList.update i (replicate blockWords 0) bs)) ks []"
    have le: "le_word (le_bytes 4 (of_nat (length c) :: u32)) = (of_nat (length c) :: u32)"
      by (rule le_word_bytes) simp
    have n: "unat (of_nat (length c) :: u32) = length ks" using len by (simp add: unat_of_nat)
    have "SparseBitSet_Read s0 (?bs @ r) = (s0\<lparr> blocks := d \<rparr>, r, None)"
      using Read_loop_bytes [of ks f "[]" r] f by (simp add: SparseBitSet_Read_def le n d_def)
    moreover have m: "map_of d = map_of c"
      unfolding d_def fold_update_map_of using f len(3) by (auto simp: fun_eq_iff) (metis map_of_eq_None_iff)
    moreover have "distinct (map fst d)" unfolding d_def by (rule distinct_fold_update) simp
    ultimately show ?thesis using wf elems by (simp add: sparse_wf_def sparse_elems_def)
  qed
  show ?thesis using wr rd by blast
qed

lemma Clone_blocks:
  assumes "distinct (map fst (blocks s))"
  shows "map_of (blocks (SparseBitSet_Clone s)) = map_of (blocks s)" "distinct (map fst (blocks (SparseBitSet_Clone s)))"
proof -
  have *: "map_of (fold (\<lambda>(i, b). AList.update i b) xs bs) = map_of bs ++ map_of xs"
    if "distinct (map fst xs)" for xs bs :: "(u32 \<times> block) list"
    using that
  proof (induction xs arbitrary: bs)
    case (Cons x xs)
    then have "map_of xs (fst x) = None" by (metis distinct.simps(2) list.simps(9) map_of_eq_None_iff set_map)
    with Cons show ?case by (cases x) (auto simp: update_conv' fun_eq_iff map_add_def split: option.splits)
  qed simp
  show "map_of (blocks (SparseBitSet_Clone s)) = map_of (blocks s)"
    using assms by (simp add: SparseBitSet_Clone_def *)
  have "distinct (map fst bs) \<Longrightarrow> distinct (map fst (fold (\<lambda>(i, b). AList.update i b) xs bs))" for xs bs :: "(u32 \<times> block) list"
    by (induction xs arbitrary: bs) (auto simp: distinct_update)
  then show "distinct (map fst (blocks (SparseBitSet_Clone s)))" by (simp add: SparseBitSet_Clone_def)
qed

section \<open>The contract of the sets\<close>

text \<open>
  What the three sets promise: \<open>carrier s\<close> is the range of numbers the set is made for,
  \<open>elems s\<close> the numbers in it. A set that can also delete extends the contract.
\<close>

locale int_set =
  fixes wf :: "'s \<Rightarrow> bool" and carrier elems :: "'s \<Rightarrow> u32 set"
    and add :: "'s \<Rightarrow> u32 \<Rightarrow> 's option" and contains :: "'s \<Rightarrow> u32 \<Rightarrow> bool option"
  assumes contains_elems: "wf s \<Longrightarrow> contains s x = Some (x \<in> elems s)"
    and add_elems: "wf s \<Longrightarrow> x \<in> carrier s \<Longrightarrow>
      \<exists>s'. add s x = Some s' \<and> wf s' \<and> carrier s' = carrier s \<and> elems s' = insert x (elems s)"

text \<open>Adding the numbers of a list one after the other.\<close>

primrec add_all :: "('s \<Rightarrow> u32 \<Rightarrow> 's option) \<Rightarrow> 's \<Rightarrow> u32 list \<Rightarrow> 's option" where
  "add_all add s [] = Some s"
| "add_all add s (x # xs) = do { s \<leftarrow> add s x; add_all add s xs }"

context int_set
begin

lemma add_all_elems:
  "wf s \<Longrightarrow> set xs \<subseteq> carrier s \<Longrightarrow>
   \<exists>s'. add_all add s xs = Some s' \<and> wf s' \<and> carrier s' = carrier s \<and> elems s' = elems s \<union> set xs"
proof (induction xs arbitrary: s)
  case (Cons x xs)
  then obtain s' where "add s x = Some s'" "wf s'" "carrier s' = carrier s" "elems s' = insert x (elems s)"
    using add_elems [of s x] by auto
  with Cons.IH [of s'] Cons.prems show ?case by auto
qed simp

lemma add_all_contains:
  "wf s \<Longrightarrow> elems s = {} \<Longrightarrow> set xs \<subseteq> carrier s \<Longrightarrow>
   \<exists>s'. add_all add s xs = Some s' \<and> (\<forall>x. contains s' x = Some (x \<in> set xs))"
  using add_all_elems [of s xs] by (auto simp: contains_elems)

end

text \<open>The operations of a set with deletion, and the last one that touched a number.\<close>

datatype set_op = AddOp u32 | RemoveOp u32

primrec op_arg :: "set_op \<Rightarrow> u32" where
  "op_arg (AddOp x) = x"
| "op_arg (RemoveOp x) = x"

primrec run_ops :: "('s \<Rightarrow> u32 \<Rightarrow> 's option) \<Rightarrow> ('s \<Rightarrow> u32 \<Rightarrow> 's option) \<Rightarrow> 's \<Rightarrow> set_op list \<Rightarrow> 's option" where
  "run_ops add remove s [] = Some s"
| "run_ops add remove s (oper # ops) =
     do { s \<leftarrow> (case oper of AddOp x \<Rightarrow> add s x | RemoveOp x \<Rightarrow> remove s x); run_ops add remove s ops }"

definition last_op :: "set_op list \<Rightarrow> u32 \<Rightarrow> set_op option" where
  "last_op ops x = find (\<lambda>oper. op_arg oper = x) (rev ops)"

locale int_set_remove = int_set wf "\<lambda>_. UNIV" elems add contains
  for wf :: "'s \<Rightarrow> bool" and elems :: "'s \<Rightarrow> u32 set"
    and add :: "'s \<Rightarrow> u32 \<Rightarrow> 's option" and contains :: "'s \<Rightarrow> u32 \<Rightarrow> bool option" +
  fixes remove :: "'s \<Rightarrow> u32 \<Rightarrow> 's option"
  assumes remove_elems: "wf s \<Longrightarrow> \<exists>s'. remove s x = Some s' \<and> wf s' \<and> elems s' = elems s - {x}"
begin

lemma run_ops_elems:
  "wf s \<Longrightarrow> \<exists>s'. run_ops add remove s ops = Some s' \<and> wf s' \<and>
    elems s' = {x. if last_op ops x = None then x \<in> elems s else last_op ops x = Some (AddOp x)}"
proof (induction ops arbitrary: s)
  case (Cons oper ops)
  have last: "last_op (oper # ops) x =
      (case last_op ops x of None \<Rightarrow> if op_arg oper = x then Some oper else None | Some p \<Rightarrow> Some p)" for x
  proof -
    have app: "find P (xs @ ys) = (case find P xs of None \<Rightarrow> find P ys | Some x \<Rightarrow> Some x)" for P :: "set_op \<Rightarrow> bool" and xs ys
      by (induction xs) auto
    show ?thesis by (simp add: last_op_def app split: option.splits)
  qed
  obtain s' where s': "(case oper of AddOp x \<Rightarrow> add s x | RemoveOp x \<Rightarrow> remove s x) = Some s'" "wf s'"
      "elems s' = (case oper of AddOp x \<Rightarrow> insert x (elems s) | RemoveOp x \<Rightarrow> elems s - {x})"
  proof (cases oper)
    case (AddOp x)
    then show thesis using add_elems [OF Cons.prems UNIV_I, of x] that by auto
  next
    case (RemoveOp x)
    then show thesis using remove_elems [OF Cons.prems, of x] that by auto
  qed
  obtain s'' where "run_ops add remove s' ops = Some s''" "wf s''"
      "elems s'' = {x. if last_op ops x = None then x \<in> elems s' else last_op ops x = Some (AddOp x)}"
    using Cons.IH [OF s'(2)] by blast
  moreover have "{x. if last_op ops x = None then x \<in> elems s' else last_op ops x = Some (AddOp x)} =
      {x. if last_op (oper # ops) x = None then x \<in> elems s else last_op (oper # ops) x = Some (AddOp x)}"
  proof (rule Collect_cong)
    fix x
    have "x \<in> elems s' \<longleftrightarrow> (if op_arg oper = x then oper = AddOp x else x \<in> elems s)"
      unfolding s'(3) by (cases oper) auto
    then show "(if last_op ops x = None then x \<in> elems s' else last_op ops x = Some (AddOp x)) =
        (if last_op (oper # ops) x = None then x \<in> elems s else last_op (oper # ops) x = Some (AddOp x))"
      unfolding last by (cases "last_op ops x") simp_all
  qed
  ultimately show ?case using s'(1) by auto
qed (simp add: last_op_def)

lemma run_ops_contains:
  "wf s \<Longrightarrow> elems s = {} \<Longrightarrow>
   \<exists>s'. run_ops add remove s ops = Some s' \<and> (\<forall>x. contains s' x = Some (last_op ops x = Some (AddOp x)))"
  using run_ops_elems [of s ops] by (auto simp: contains_elems)

end

section \<open>The three sets meet it\<close>

definition sparse_set_wf :: "SparseBitSet \<Rightarrow> bool" where
  "sparse_set_wf s = sparse_wf (blocks s)"

interpretation sparse: int_set_remove sparse_set_wf "sparse_elems \<circ> blocks" SparseBitSet_Add SparseBitSet_Contains SparseBitSet_Remove
  by unfold_locales (auto simp: sparse_set_wf_def SparseBitSet_Contains_iff SparseBitSet_Add_elems SparseBitSet_Remove_elems)

interpretation mapset: int_set_remove "\<lambda>_. True" "dom \<circ> mdata" "\<lambda>s x. Some (MapSet_Add s x)"
    "\<lambda>s x. Some (MapSet_Contains s x)" "\<lambda>s x. Some (MapSet_Delete s x)"
  by unfold_locales (auto simp: MapSet_Add_def MapSet_Contains_def MapSet_Delete_def)

definition fixed_wf :: "FixedBitSet \<Rightarrow> bool" where
  "fixed_wf s \<longleftrightarrow> fmin s \<le> fmax s \<and> length (fdata s) = 1 + unat (fmax s - fmin s)"

definition fixed_bit :: "FixedBitSet \<Rightarrow> u32 \<Rightarrow> bool" where
  "fixed_bit s x = bit (fdata s ! unat ((x - fmin s) div 64)) (unat ((x - fmin s) mod 64))"

definition fixed_carrier :: "FixedBitSet \<Rightarrow> u32 set" where
  "fixed_carrier s = {fmin s..fmax s}"

definition fixed_elems :: "FixedBitSet \<Rightarrow> u32 set" where
  "fixed_elems s = {x \<in> fixed_carrier s. fixed_bit s x}"

lemma fixed_in_range:
  assumes "fixed_wf s" "x \<in> fixed_carrier s"
  shows "unat ((x - fmin s) div 64) < length (fdata s)"
proof -
  have "unat (x - fmin s) \<le> unat (fmax s - fmin s)"
    using assms by (auto simp: fixed_carrier_def fixed_wf_def word_le_nat_alt unat_sub)
  moreover have "unat (x - fmin s) div 64 \<le> unat (x - fmin s)" by simp
  ultimately show ?thesis using assms(1) by (simp add: fixed_wf_def unat_div)
qed

lemma FixedBitSet_Add_elems:
  assumes "fixed_wf s" "x \<in> fixed_carrier s"
  shows "\<exists>s'. FixedBitSet_Add s x = Some s' \<and> fixed_wf s' \<and> fixed_carrier s' = fixed_carrier s \<and>
    fixed_elems s' = insert x (fixed_elems s)"
proof -
  define i k where "i = unat ((x - fmin s) div 64)" and "k = unat ((x - fmin s) mod 64)"
  define s' where "s' = s\<lparr> fdata := (fdata s)[i := fdata s ! i OR push_bit k 1] \<rparr>"
  have i: "i < length (fdata s)" using fixed_in_range [OF assms] by (simp add: i_def)
  have k: "k < 64" by (simp add: k_def unat_mod)
  have same: "unat ((y - fmin s) div 64) = i \<and> unat ((y - fmin s) mod 64) = k \<longleftrightarrow> y = x" for y
  proof
    assume "unat ((y - fmin s) div 64) = i \<and> unat ((y - fmin s) mod 64) = k"
    then have "(y - fmin s) div 64 = (x - fmin s) div 64" "(y - fmin s) mod 64 = (x - fmin s) mod 64"
      by (simp_all add: i_def k_def word_unat_eq_iff)
    then have "y - fmin s = x - fmin s" by (metis div_mult_mod_eq)
    then show "y = x" by simp
  qed (simp add: i_def k_def)
  have "fixed_bit s' y \<longleftrightarrow> fixed_bit s y \<or> y = x" for y
    using i k same [of y] by (auto simp: fixed_bit_def s'_def nth_list_update bit_or_iff push_bit_1 bit_exp_iff)
  moreover have "FixedBitSet_Add s x = Some s'"
    using i by (simp add: FixedBitSet_Add_def Let_def i_def [symmetric] k_def [symmetric] idx_Some put_Some s'_def)
  ultimately show ?thesis
    using assms by (auto simp: fixed_elems_def fixed_carrier_def fixed_wf_def s'_def)
qed

interpretation fixed: int_set fixed_wf fixed_carrier fixed_elems FixedBitSet_Add FixedBitSet_Contains
proof
  show "FixedBitSet_Contains s x = Some (x \<in> fixed_elems s)" if "fixed_wf s" for s x
    using fixed_in_range [OF that, of x]
    by (auto simp: FixedBitSet_Contains_def Let_def fixed_elems_def fixed_carrier_def fixed_bit_def
        idx_Some push_bit_1 bit_mask not_less)
qed (rule FixedBitSet_Add_elems)

lemma NewFixedBitSet_empty:
  "mi \<le> ma \<Longrightarrow> fixed_wf (NewFixedBitSet mi ma) \<and> fixed_elems (NewFixedBitSet mi ma) = {} \<and>
   fixed_carrier (NewFixedBitSet mi ma) = {mi..ma}"
proof -
  assume "mi \<le> ma"
  moreover have "fixed_wf (NewFixedBitSet mi ma)" using \<open>mi \<le> ma\<close> by (simp add: fixed_wf_def NewFixedBitSet_def)
  moreover have "unat ((x - mi) div 64) < 1 + unat (ma - mi)" if "x \<in> {mi..ma}" for x
    using fixed_in_range [of "NewFixedBitSet mi ma" x] \<open>fixed_wf _\<close> that
    by (simp add: NewFixedBitSet_def fixed_carrier_def)
  ultimately show ?thesis
    by (auto simp: fixed_elems_def fixed_carrier_def fixed_bit_def NewFixedBitSet_def simp del: replicate_Suc)
qed

section \<open>Properties\<close>

definition two_blocks :: SparseBitSet where
  "two_blocks = \<lparr> blocks = [(7, 5 # replicate 127 0), (2, replicate 128 0)] \<rparr>"

lemma two_blocks_wf: "sparse_set_wf two_blocks"
  by (simp add: sparse_set_wf_def two_blocks_def sparse_wf_Cons)

lemma sparse_wf_new: "sparse_set_wf NewSparseBitSet" "(sparse_elems \<circ> blocks) NewSparseBitSet = {}"
  by (simp_all add: sparse_set_wf_def NewSparseBitSet_def)

text \<open>
  C26. Any sequence of \<open>Add\<close> and \<open>Remove\<close> calls on a new sparse bit set runs without panicking,
  and afterwards \<open>Contains\<close> is true of exactly the numbers whose last call was an \<open>Add\<close>.
\<close>

theorem SparseBitSet_history:
  "\<exists>s. run_ops SparseBitSet_Add SparseBitSet_Remove NewSparseBitSet ops = Some s \<and>
    (\<forall>x. SparseBitSet_Contains s x = Some (last_op ops x = Some (AddOp x)))"
  by (rule sparse.run_ops_contains [OF sparse_wf_new])

text \<open>
  C29. On well-formed sparse sets \<open>Union\<close> and \<open>Intersection\<close> compute the union and the
  intersection of the elements, the count \<open>Intersection\<close> returns and \<open>Len\<close> are the numbers of
  elements, \<open>Clone\<close> keeps the elements, and none of them panics or breaks well-formedness.
\<close>

theorem SparseBitSet_algebra:
  assumes "sparse_set_wf s" "sparse_set_wf s2"
  shows "\<exists>u i. SparseBitSet_Union s s2 = Some u \<and> sparse_set_wf u \<and>
      sparse_elems (blocks u) = sparse_elems (blocks s) \<union> sparse_elems (blocks s2) \<and>
    SparseBitSet_Intersection s s2 = Some (i, SparseBitSet_Len i) \<and> sparse_set_wf i \<and>
      sparse_elems (blocks i) = sparse_elems (blocks s) \<inter> sparse_elems (blocks s2) \<and>
    SparseBitSet_Len s = card (sparse_elems (blocks s)) \<and>
    sparse_set_wf (SparseBitSet_Clone s) \<and> sparse_elems (blocks (SparseBitSet_Clone s)) = sparse_elems (blocks s)"
proof -
  have wf: "sparse_wf (blocks s)" "sparse_wf (blocks s2)" using assms by (simp_all add: sparse_set_wf_def)
  then have d: "distinct (map fst (blocks s))" by (simp add: sparse_wf_def)
  have "sparse_set_wf (SparseBitSet_Clone s) \<and> sparse_elems (blocks (SparseBitSet_Clone s)) = sparse_elems (blocks s)"
    using Clone_blocks [OF d] wf by (simp add: sparse_set_wf_def sparse_wf_def sparse_elems_def)
  then show ?thesis
    using sparse_Union [OF wf] sparse_Intersection [OF wf, of "[]" 0] sparse_Len [OF wf(1)]
    by (auto simp: SparseBitSet_Union_def SparseBitSet_Intersection_def SparseBitSet_Len_def sparse_Len sparse_set_wf_def)
qed

theorem SparseBitSet_algebra_witness:
  "sparse_set_wf two_blocks \<and> SparseBitSet_Len two_blocks = card (sparse_elems (blocks two_blocks))"
  using SparseBitSet_algebra [OF two_blocks_wf two_blocks_wf] two_blocks_wf by blast

text \<open>
  \<open>Min\<close> and \<open>Max\<close> end without panicking and return the least and the greatest element, 0
  for an empty set. They may drop empty blocks but change no element.
\<close>

theorem SparseBitSet_Min_Max:
  assumes "sparse_set_wf s"
  shows "\<exists>lo hi s1 s2. SparseBitSet_Min s = Some (lo, s1) \<and> SparseBitSet_Max s = Some (hi, s2) \<and>
    sparse_set_wf s1 \<and> sparse_set_wf s2 \<and>
    sparse_elems (blocks s1) = sparse_elems (blocks s) \<and> sparse_elems (blocks s2) = sparse_elems (blocks s) \<and>
    (if sparse_elems (blocks s) = {} then lo = 0 \<and> hi = 0
     else lo = Min (sparse_elems (blocks s)) \<and> hi = Max (sparse_elems (blocks s)))"
proof -
  have wf: "sparse_wf (blocks s)" using assms by (simp add: sparse_set_wf_def)
  have Min: "m = Min (sparse_elems (blocks s))" if "m \<in> sparse_elems (blocks s)" "\<forall>y \<in> sparse_elems (blocks s). m \<le> y" for m
    using that by (metis Min_eqI finite)
  have Max: "m = Max (sparse_elems (blocks s))" if "m \<in> sparse_elems (blocks s)" "\<forall>y \<in> sparse_elems (blocks s). y \<le> m" for m
    using that by (metis Max_eqI finite)
  show ?thesis
    using SparseBitSet_Min_least [OF wf] SparseBitSet_Max_greatest [OF wf] unfolding sparse_set_wf_def
    by (cases "sparse_elems (blocks s) = {}") (simp, metis Min Max)+
qed

theorem SparseBitSet_Min_Max_witness:
  "sparse_set_wf two_blocks \<and> (\<exists>lo hi s1 s2. SparseBitSet_Min two_blocks = Some (lo, s1) \<and> SparseBitSet_Max two_blocks = Some (hi, s2))"
  using SparseBitSet_Min_Max [OF two_blocks_wf] two_blocks_wf by blast

text \<open>
  C28. What \<open>Write\<close> writes, \<open>Read\<close> reads back into a set with the same elements, whatever set it
  is called on, without error, and it leaves the bytes that follow unread.
\<close>

theorem SparseBitSet_Read_Write:
  assumes "sparse_set_wf s"
  shows "\<exists>bs. snd (SparseBitSet_Write buffer_write s w) = Inr (w @ bs) \<and>
    (\<forall>s0 r. \<exists>s'. SparseBitSet_Read s0 (bs @ r) = (s', r, None) \<and> sparse_set_wf s' \<and>
       sparse_elems (blocks s') = sparse_elems (blocks s))"
  using sparse_roundtrip [of s w] assms by (simp add: sparse_set_wf_def)

theorem SparseBitSet_Read_Write_witness:
  "sparse_set_wf two_blocks \<and>
    (\<exists>bs s'. snd (SparseBitSet_Write buffer_write two_blocks []) = Inr bs \<and>
       SparseBitSet_Read NewSparseBitSet (bs @ [9]) = (s', [9], None))"
  using SparseBitSet_Read_Write [OF two_blocks_wf, of "[]"] two_blocks_wf by fastforce

end
