(* ===== verification/Encoding.thy ===== *)
theory Encoding
  imports Pack Base64
begin

unbundle bit_operations_syntax

text \<open>
  \<open>pkg/chromaprint/encoding.go\<close>: the compressed form of a fingerprint. A fingerprint is a list of
  32-bit hashes; each hash is written as the XOR with its predecessor, as the gaps between its set
  bits and a terminating zero. Gaps are 3-bit numbers, a gap of seven or more is written as 7 and
  its excess as a 5-bit number in a second section. The string form is the base64 of the bytes.
\<close>

section \<open>The code\<close>

text \<open>\<open>common_pb.Fingerprint\<close>; an \<open>int32\<close> is kept as its 32 bits.\<close>

record Fingerprint =
  Version :: u32
  Hashes :: "u32 list"

definition empty_fingerprint :: Fingerprint where
  "empty_fingerprint = \<lparr> Version = 0, Hashes = [] \<rparr>"

datatype decode_error = EmptyString | InvalidBase64 nat
datatype unpack_error = LessThan4Bytes | EmptyFingerprint | NotEnoughNormal | NotEnoughExceptional
datatype parse_error = InvalidFingerprint unpack_error | InvalidFingerprintString decode_error

definition DecodeFingerprintString :: "string \<Rightarrow> decode_error + u8 list" where
  "DecodeFingerprintString str =
     (if length str = 0 then Inl EmptyString
      else case b64_decode str of Inl off \<Rightarrow> Inl (InvalidBase64 off) | Inr data \<Rightarrow> Inr data)"

definition EncodeFingerprintToString :: "u8 list \<Rightarrow> string" where
  "EncodeFingerprintToString data = b64_encode data"

text \<open>\<open>binary.BigEndian.Uint32\<close>, which panics on fewer than four bytes.\<close>

definition be_uint32 :: "u8 list \<Rightarrow> u32 option" where
  "be_uint32 data = (if length data < 4 then None else Some (of_nat (radix 256 (rev (map unat (take 4 data))))))"

text \<open>
  The first loop over \<open>bits\<close>: where it breaks (the new length of \<open>bits\<close>), \<open>numValues\<close> and
  \<open>numExceptionalBits\<close>.
\<close>

fun scan_normal :: "nat \<Rightarrow> nat \<Rightarrow> nat \<Rightarrow> nat \<Rightarrow> u8 list \<Rightarrow> nat option \<times> nat \<times> nat" where
  "scan_normal totalValues numValues numExc bi [] = (None, numValues, numExc)"
| "scan_normal totalValues numValues numExc bi (b # bits) =
     (if b = 0
      then if numValues + 1 = totalValues then (Some (bi + 1), numValues + 1, numExc)
           else scan_normal totalValues (numValues + 1) numExc (bi + 1) bits
      else scan_normal totalValues numValues (if b = 7 then numExc + 1 else numExc) (bi + 1) bits)"

text \<open>The second loop: \<open>bits[bi] += exceptionalBits[ei]\<close>\<close>

fun add_exceptional :: "u8 list \<Rightarrow> nat \<Rightarrow> u8 list \<Rightarrow> u8 list option" where
  "add_exceptional exc ei [] = Some []"
| "add_exceptional exc ei (b # bits) =
     (if b = 7
      then do { e \<leftarrow> idx exc ei; bits' \<leftarrow> add_exceptional exc (ei + 1) bits; Some ((b + e) # bits') }
      else do { bits' \<leftarrow> add_exceptional exc ei bits; Some (b # bits') })"

text \<open>The third loop, which fills \<open>hashes\<close>.\<close>

fun decode_hashes :: "u32 list \<Rightarrow> nat \<Rightarrow> u8 \<Rightarrow> u8 list \<Rightarrow> u32 list option" where
  "decode_hashes hashes hi lastBit [] = Some hashes"
| "decode_hashes hashes hi lastBit (b # bits) =
     (if b = 0
      then do { hashes' \<leftarrow>
                  (if hi > 0
                   then do { h \<leftarrow> idx hashes hi; p \<leftarrow> idx hashes (hi - 1); put hashes hi (h XOR p) }
                   else Some hashes);
                decode_hashes hashes' (hi + 1) 0 bits }
      else do { let lastBit' = lastBit + b;
                h \<leftarrow> idx hashes hi;
                hashes' \<leftarrow> put hashes hi (h OR push_bit (unat (lastBit' - 1)) 1);
                decode_hashes hashes' hi lastBit' bits })"

text \<open>\<open>fp\<close> is nil or points to a message; the result is the error or the message afterwards.\<close>

definition unpackFingerprint ::
  "u8 list \<Rightarrow> Fingerprint option \<Rightarrow> (unpack_error + Fingerprint option) option" where
  "unpackFingerprint data fp =
     (if length data < 4 then Some (Inl LessThan4Bytes)
      else do {
        header \<leftarrow> be_uint32 data;
        let offset = 4;
        let version = drop_bit 24 header AND 0xff;
        let totalValues = unat (header AND 0xffffff);
        if totalValues = 0 then Some (Inl EmptyFingerprint)
        else do {
          data1 \<leftarrow> slice_from data offset;
          bits \<leftarrow> UnpackUint3Slice data1;
          let (brk, numValues, numExc) = scan_normal totalValues 0 0 0 bits;
          let (bits, offset) = (case brk of Some k \<Rightarrow> (take k bits, offset + (k * 3 + 7) div 8)
                                          | None \<Rightarrow> (bits, offset));
          if numValues \<noteq> totalValues then Some (Inl NotEnoughNormal)
          else do {
            r \<leftarrow> (if numExc > 0
                  then do { data2 \<leftarrow> slice_from data offset;
                            exc \<leftarrow> UnpackUint5Slice data2;
                            if length exc < numExc then Some (Inl NotEnoughExceptional)
                            else do { bits \<leftarrow> add_exceptional exc 0 bits; Some (Inr bits) } }
                  else Some (Inr bits));
            case r of
              Inl e \<Rightarrow> Some (Inl e)
            | Inr bits \<Rightarrow>
                (case fp of
                   None \<Rightarrow> Some (Inr None)
                 | Some fp \<Rightarrow>
                     do { hashes \<leftarrow> decode_hashes (replicate totalValues 0) 0 0 bits;
                          Some (Inr (Some (fp\<lparr> Version := version, Hashes := hashes \<rparr>))) })
          }
        }
      })"

definition ParseFingerprint :: "u8 list \<Rightarrow> (Fingerprint \<times> parse_error option) option" where
  "ParseFingerprint data =
     do { r \<leftarrow> unpackFingerprint data (Some empty_fingerprint);
          case r of
            Inl e \<Rightarrow> Some (empty_fingerprint, Some (InvalidFingerprint e))
          | Inr fp \<Rightarrow> Some (the fp, None) }"

definition ParseFingerprintString :: "string \<Rightarrow> (Fingerprint \<times> parse_error option) option" where
  "ParseFingerprintString str =
     (case DecodeFingerprintString str of
        Inl e \<Rightarrow> Some (empty_fingerprint, Some (InvalidFingerprintString e))
      | Inr data \<Rightarrow> ParseFingerprint data)"

definition ValidateFingerprint :: "u8 list \<Rightarrow> bool option" where
  "ValidateFingerprint data =
     do { r \<leftarrow> unpackFingerprint data None; Some (case r of Inl _ \<Rightarrow> False | Inr _ \<Rightarrow> True) }"

definition ValidateFingerprintString :: "string \<Rightarrow> bool option" where
  "ValidateFingerprintString str =
     (case DecodeFingerprintString str of
        Inl _ \<Rightarrow> Some False
      | Inr data \<Rightarrow> ValidateFingerprint data)"

text \<open>The loop over the bits of one value, and the loop over the hashes.\<close>

function compress_value ::
  "u32 \<Rightarrow> u8 \<Rightarrow> u8 \<Rightarrow> u8 list \<Rightarrow> u8 list \<Rightarrow> u8 list \<times> u8 list" where
  "compress_value val bitno lastBit normal exc =
     (if val \<noteq> 0
      then if val AND 1 \<noteq> 0
           then let gap = bitno - lastBit in
                if gap \<ge> 7 then compress_value (drop_bit 1 val) (bitno + 1) bitno (normal @ [7]) (exc @ [gap - 7])
                else compress_value (drop_bit 1 val) (bitno + 1) bitno (normal @ [gap]) exc
           else compress_value (drop_bit 1 val) (bitno + 1) lastBit normal exc
      else (normal, exc))"
  by pat_completeness auto

lemma drop_bit_1_less: "val \<noteq> 0 \<Longrightarrow> unat (drop_bit 1 val) < unat val" for val :: u32
proof -
  assume "val \<noteq> 0"
  then have "unat val \<noteq> 0" by (simp add: unat_eq_0)
  then show ?thesis by (simp add: unat_drop_bit_eq drop_bit_eq_div [where 'a = nat])
qed

termination compress_value
  by (relation "measure (\<lambda>(val, _). unat val)") (auto simp: drop_bit_1_less [simplified])

declare compress_value.simps [simp del]

fun compress_hashes :: "u32 \<Rightarrow> u8 list \<Rightarrow> u8 list \<Rightarrow> u32 list \<Rightarrow> u8 list \<times> u8 list" where
  "compress_hashes lastValue normal exc [] = (normal, exc)"
| "compress_hashes lastValue normal exc (h # hs) =
     (let (normal, exc) = compress_value (h XOR lastValue) 1 0 normal exc
      in compress_hashes h (normal @ [0]) exc hs)"

definition CompressFingerprint :: "Fingerprint \<Rightarrow> u8 list option" where
  "CompressFingerprint fp =
     (let (normalBits, exceptionBits) = compress_hashes 0 [] [] (Hashes fp);
          normalBitsSize = (length normalBits * 3 + 7) div 8;
          exceptionBitsSize = (length exceptionBits * 5 + 7) div 8;
          size = 4 + normalBitsSize + exceptionBitsSize;
          n = length (Hashes fp)
      in do {
           data \<leftarrow> put (replicate size 0) 0 (ucast (Version fp AND 255));
           data \<leftarrow> put data 1 (of_nat (drop_bit 16 (n AND 0xFF0000)));
           data \<leftarrow> put data 2 (of_nat (drop_bit 8 (n AND 0xFF00)));
           data \<leftarrow> put data 3 (of_nat (n AND 0xFF));
           tail3 \<leftarrow> slice_from data 4;
           (tail3, _) \<leftarrow> PackUint3Slice tail3 normalBits;
           let data = take 4 data @ tail3;
           tail5 \<leftarrow> slice_from data (4 + normalBitsSize);
           (tail5, _) \<leftarrow> PackUint5Slice tail5 exceptionBits;
           Some (take (4 + normalBitsSize) data @ tail5)
         })"

section \<open>The symbols of a fingerprint\<close>

text \<open>The gaps between the set bits of a value and the symbols of a list of hashes.\<close>

function gaps :: "u32 \<Rightarrow> u8 \<Rightarrow> u8 \<Rightarrow> u8 list" where
  "gaps v k lst =
     (if v = 0 then []
      else if v AND 1 \<noteq> 0 then (k - lst) # gaps (drop_bit 1 v) (k + 1) k
      else gaps (drop_bit 1 v) (k + 1) lst)"
  by pat_completeness auto
termination
  by (relation "measure (\<lambda>(v, _). unat v)") (auto simp: drop_bit_1_less [simplified])

declare gaps.simps [simp del]

fun symbols :: "u32 \<Rightarrow> u32 list \<Rightarrow> u8 list" where
  "symbols lastValue [] = []"
| "symbols lastValue (h # hs) = gaps (h XOR lastValue) 1 0 @ 0 # symbols h hs"

definition cap :: "u8 \<Rightarrow> u8" where
  "cap s = (if s \<ge> 7 then 7 else s)"

definition excess :: "u8 list \<Rightarrow> u8 list" where
  "excess ss = map (\<lambda>s. s - 7) (filter (\<lambda>s. s \<ge> 7) ss)"

lemma excess_simps [simp]:
  "excess [] = []" "excess (s # ss) = (if s \<ge> 7 then (s - 7) # excess ss else excess ss)"
  "excess (ss @ ts) = excess ss @ excess ts"
  by (simp_all add: excess_def)

lemma compress_value_gaps:
  "compress_value v k lst normal exc = (normal @ map cap (gaps v k lst), exc @ excess (gaps v k lst))"
proof (induction v k lst normal exc rule: compress_value.induct)
  case (1 v k lst normal exc)
  show ?case
    by (subst compress_value.simps, subst (1 2) gaps.simps)
      (use 1 in \<open>auto simp: Let_def cap_def\<close>)
qed

lemma compress_hashes_symbols:
  "compress_hashes lv normal exc hs = (normal @ map cap (symbols lv hs), exc @ excess (symbols lv hs))"
  by (induction lv normal exc hs rule: compress_hashes.induct)
    (auto simp: compress_value_gaps Let_def cap_def)

text \<open>Every gap is between 1 and 32.\<close>

lemma gaps_range:
  assumes "unat v < 2 ^ (33 - unat k)" "unat lst < unat k" "unat k \<le> 33"
  shows "\<forall>s \<in> set (gaps v k lst). 1 \<le> unat s \<and> unat s \<le> 32"
  using assms
proof (induction v k lst rule: gaps.induct)
  case (1 v k lst)
  show ?case
  proof (cases "v = 0")
    case True
    then show ?thesis by (simp add: gaps.simps)
  next
    case False
    then have "0 < unat v" by (simp add: unat_gt_0)
    then have k: "unat k \<le> 32" using 1(3,5) by (cases "unat k = 33") auto
    then have k1: "unat (k + 1) = unat k + 1" by (simp add: unat_word_ariths)
    have e: "33 - unat k = Suc (33 - unat (k + 1))" using k by (simp add: k1)
    have "unat (drop_bit 1 v) < 2 ^ (33 - unat (k + 1))"
      using 1(3) unfolding e by (simp add: unat_drop_bit_eq drop_bit_eq_div [where 'a = nat] less_mult_imp_div_less)
    moreover have "unat (k - lst) = unat k - unat lst" using 1(4) by (simp add: unat_sub word_le_nat_alt)
    ultimately show ?thesis
      using 1(1) [OF False] 1(2) [OF False] 1(4) k k1 by (subst gaps.simps) auto
  qed
qed

lemma gaps_1_range: "\<forall>s \<in> set (gaps v 1 0). 1 \<le> unat s \<and> unat s \<le> 32"
  using gaps_range [of v 1 0] unsigned_less [of v, where 'a = nat] by simp

lemma symbols_range: "s \<in> set (symbols lv hs) \<Longrightarrow> unat s \<le> 32"
  using gaps_1_range by (induction lv hs rule: symbols.induct) auto

section \<open>The loops of the decoder on the symbols\<close>

lemma cap_simps [simp]:
  "cap s = 0 \<longleftrightarrow> s = 0" "cap s = 7 \<longleftrightarrow> s \<ge> 7" "unat (cap s) < 8" "\<not> s \<ge> 7 \<Longrightarrow> cap s = s" "cap 0 = 0"
  by (auto simp: cap_def word_le_nat_alt word_less_nat_alt not_le)

lemma scan_normal_gaps:
  "\<forall>s \<in> set ss. s \<noteq> 0 \<Longrightarrow>
   scan_normal m nv ne bi (map cap ss @ rest) = scan_normal m nv (ne + length (excess ss)) (bi + length ss) rest"
  by (induction ss arbitrary: ne bi) auto

lemma scan_normal_symbols:
  "hs \<noteq> [] \<Longrightarrow> nv + length hs = m \<Longrightarrow>
   scan_normal m nv ne bi (map cap (symbols lv hs) @ rest) =
   (Some (bi + length (symbols lv hs)), m, ne + length (excess (symbols lv hs)))"
proof (induction hs arbitrary: nv ne bi lv)
  case (Cons h hs)
  have "\<forall>s \<in> set (gaps (h XOR lv) 1 0). s \<noteq> 0" using gaps_1_range by fastforce
  then show ?case
    using Cons by (cases "hs = []") (auto simp: scan_normal_gaps)
qed simp

lemma add_exceptional_excess:
  "drop ei exc = excess ss @ z \<Longrightarrow> add_exceptional exc ei (map cap ss) = Some ss"
proof (induction ss arbitrary: ei)
  case (Cons s ss)
  show ?case
  proof (cases "s \<ge> 7")
    case True
    then have "drop ei exc = (s - 7) # excess ss @ z" using Cons.prems by simp
    then have "ei < length exc" "exc ! ei = s - 7" "drop (ei + 1) exc = excess ss @ z"
      by (metis drop_all list.distinct(1) not_less, metis nth_via_drop, metis Suc_eq_plus1 drop_Suc drop_tl list.sel(3))
    then show ?thesis using True Cons.IH [of "ei + 1"] by (simp add: idx_Some cap_def)
  qed (use Cons in auto)
qed simp

lemma push_bit_odd_even:
  fixes v :: u32
  shows "v AND 1 \<noteq> 0 \<Longrightarrow> push_bit n 1 OR push_bit (n + 1) (drop_bit 1 v) = push_bit n v"
    and "v AND 1 = 0 \<Longrightarrow> push_bit (n + 1) (drop_bit 1 v) = push_bit n v"
proof -
  have 0: "v AND 1 \<noteq> 0 \<longleftrightarrow> bit v 0" by (simp add: and_one_eq bit_0 odd_iff_mod_2_eq_one)
  have *: "push_bit n x OR push_bit (n + 1) (drop_bit 1 v) = push_bit n (x OR push_bit 1 (drop_bit 1 v))" for x
    by (simp add: push_bit_or push_bit_push_bit)
  have **: "bit (push_bit 1 (drop_bit 1 v)) m \<longleftrightarrow> 0 < m \<and> bit v m" for m
    using bit_imp_le_length [of v m] by (auto simp: bit_push_bit_iff bit_drop_bit_eq Suc_le_eq simp del: push_bit_Suc)
  show "push_bit n 1 OR push_bit (n + 1) (drop_bit 1 v) = push_bit n v" if "v AND 1 \<noteq> 0"
  proof -
    have "1 OR push_bit 1 (drop_bit 1 v) = v"
      using that unfolding 0
      by (intro bit_word_eqI) (simp only: bit_or_iff bit_1_iff **, case_tac n, simp_all)
    then show ?thesis using * [of 1] by simp
  qed
  show "push_bit (n + 1) (drop_bit 1 v) = push_bit n v" if "v AND 1 = 0"
  proof -
    have "\<not> bit v 0" using that 0 by blast
    then have "push_bit 1 (drop_bit 1 v) = v"
      by (intro bit_word_eqI) (simp only: **, metis gr0I)
    then show ?thesis using * [of 0] by simp
  qed
qed

lemma decode_hashes_gaps:
  assumes "unat v < 2 ^ (33 - unat k)" "unat lst < unat k" "unat k \<le> 33" "hi < length hs"
  shows "decode_hashes hs hi lst (gaps v k lst @ 0 # rest) =
    decode_hashes (hs[hi := hs ! hi OR push_bit (unat k - 1) v]) hi lst' (0 # rest)"
  using assms
proof (induction v k lst arbitrary: hs rule: gaps.induct)
  case (1 v k lst)
  show ?case
  proof (cases "v = 0")
    case True
    then show ?thesis by (simp add: gaps.simps)
  next
    case False
    then have "0 < unat v" by (simp add: unat_gt_0)
    then have k: "unat k \<le> 32" using 1(3,5) by (cases "unat k = 33") auto
    then have k1: "unat (k + 1) = unat k + 1" by (simp add: unat_word_ariths)
    have e: "33 - unat k = Suc (33 - unat (k + 1))" using k by (simp add: k1)
    have v': "unat (drop_bit 1 v) < 2 ^ (33 - unat (k + 1))"
      using 1(3) unfolding e by (simp add: unat_drop_bit_eq drop_bit_eq_div [where 'a = nat] less_mult_imp_div_less)
    show ?thesis
    proof (cases "v AND 1 \<noteq> 0")
      case True
      have gap: "k - lst \<noteq> 0" using 1(4) by auto
      have shift: "unat (k - 1) = unat k - 1" using 1(4) by (simp add: unat_sub word_le_nat_alt)
      let ?hs = "hs[hi := hs ! hi OR push_bit (unat k - 1) 1]"
      have "hs ! hi OR push_bit (unat k - 1) v = ?hs ! hi OR push_bit (unat (k + 1) - 1) (drop_bit 1 v)"
        using push_bit_odd_even(1) [OF True, of "unat k - 1"] 1(4,6) by (simp add: k1 or.assoc)
      then show ?thesis
        using 1(1) [OF False True v', of ?hs] 1(4,6) False True gap k k1 shift
        by (subst gaps.simps) (simp add: idx_Some put_Some)
    next
      case even: False
      then show ?thesis
        using 1(2) [OF False _ v', of hs] push_bit_odd_even(2) [of v "unat k - 1"] 1(4,6) False k k1
        by (subst gaps.simps) simp
    qed
  qed
qed

lemma decode_hashes_symbols:
  "lv = (if ds = [] then 0 else last ds) \<Longrightarrow>
   decode_hashes (ds @ replicate (length hs) 0) (length ds) lst (symbols lv hs) = Some (ds @ hs)"
  if "hs = [] \<or> lst = 0"
  using that
proof (induction hs arbitrary: ds lv lst)
  case (Cons h hs)
  let ?st = "ds @ replicate (length (h # hs)) 0"
  have v: "unat (h XOR lv) < 2 ^ (33 - unat (1 :: u8))"
    using unsigned_less [of "h XOR lv", where 'a = nat] by simp
  have "decode_hashes ?st (length ds) 0 (gaps (h XOR lv) 1 0 @ 0 # symbols h hs) =
      decode_hashes (?st[length ds := ?st ! length ds OR push_bit (unat (1 :: u8) - 1) (h XOR lv)])
        (length ds) 0 (0 # symbols h hs)"
    by (rule decode_hashes_gaps [OF v]) simp_all
  also have "?st[length ds := ?st ! length ds OR push_bit (unat (1 :: u8) - 1) (h XOR lv)] =
      ds @ (h XOR lv) # replicate (length hs) 0"
    by simp
  also have "decode_hashes (ds @ (h XOR lv) # replicate (length hs) 0) (length ds) 0 (0 # symbols h hs) =
      decode_hashes ((ds @ [h]) @ replicate (length hs) 0) (length (ds @ [h])) 0 (symbols h hs)"
  proof (cases "ds = []")
    case False
    then have "(ds @ (h XOR lv) # replicate (length hs) 0) ! (length ds - 1) = lv"
      using Cons.prems by (simp add: nth_append last_conv_nth)
    then show ?thesis using False by (simp add: idx_Some put_Some xor.assoc)
  qed (use Cons.prems in simp)
  also have "\<dots> = Some ((ds @ [h]) @ hs)" by (rule Cons.IH) simp_all
  finally show ?case using Cons.prems by simp
qed simp

section \<open>Packed bytes followed by others\<close>

lemma unpacked_prefix:
  assumes "k * n \<le> 8 * length bs" "0 < k"
  shows "take n (unpacked k (bs @ ys)) = take n (unpacked k bs)"
proof -
  let ?V = "radix 256 (map unat bs)" and ?Y = "radix 256 (map unat ys)"
  have tk: "take n (digits b m v) = digits b n v" if "n \<le> m" for b m v :: nat
    using digits_add [of b n "m - n" v] that by simp
  have n: "n \<le> 8 * length bs div k" "n \<le> 8 * length (bs @ ys) div k"
    using assms by (simp_all add: less_eq_div_iff_mult_less_eq mult.commute)
  have eq: "(256 :: nat) ^ length bs = (2 ^ k) ^ n * 2 ^ (8 * length bs - k * n)"
  proof -
    have "(256 :: nat) ^ length bs = 2 ^ (8 * length bs)" by (simp add: power_mult)
    also have "\<dots> = 2 ^ (k * n + (8 * length bs - k * n))" using assms(1) by simp
    finally show ?thesis by (simp only: power_add power_mult)
  qed
  have "digits (2 ^ k) n (?V + 256 ^ length bs * ?Y) = digits (2 ^ k) n ?V"
  proof -
    have shift: "digits b n (v + b ^ n * x) = digits b n v" for b v x :: nat
      using digits_mod [of b n "v + b ^ n * x"] digits_mod [of b n v] by simp
    show ?thesis unfolding eq mult.assoc by (rule shift)
  qed
  then show ?thesis
    using n by (simp add: unpacked_def take_map tk radix_append)
qed

lemma unpacked_packed_append:
  assumes "\<forall>x \<in> set xs. unat x < 2 ^ k" "0 < k"
  shows "\<exists>z. unpacked k (packed k xs @ ys) = xs @ z"
proof -
  obtain z where z: "unpacked k (packed k xs) = xs @ replicate z 0"
    using unpacked_packed [OF assms] by blast
  have "take (length xs) (unpacked k (packed k xs @ ys)) = take (length xs) (unpacked k (packed k xs))"
    using assms(2) by (intro unpacked_prefix) simp_all
  then have "take (length xs) (unpacked k (packed k xs @ ys)) = xs" by (simp add: z)
  then show ?thesis by (metis append_take_drop_id)
qed

section \<open>The header\<close>

definition header_bytes :: "Fingerprint \<Rightarrow> u8 list" where
  "header_bytes fp = (let n = length (Hashes fp) in
     [ucast (Version fp AND 255), of_nat (drop_bit 16 (n AND 0xFF0000)),
      of_nat (drop_bit 8 (n AND 0xFF00)), of_nat (n AND 0xFF)])"

lemma nat_and_byte: "drop_bit k (n AND (255 * 2 ^ k)) = n div 2 ^ k mod 256" for n :: nat
proof -
  have "drop_bit k (n AND (255 * 2 ^ k)) = drop_bit k n AND drop_bit k (255 * 2 ^ k)"
    by (rule drop_bit_and)
  also have "drop_bit k (255 * 2 ^ k) = (255 :: nat)" by (simp add: drop_bit_eq_div [where 'a = nat])
  also have "drop_bit k n AND 255 = drop_bit k n mod 2 ^ 8"
    using take_bit_eq_mask [of 8 "drop_bit k n"] by (simp add: take_bit_eq_mod mask_eq_exp_minus_1)
  finally show ?thesis by (simp add: drop_bit_eq_div [where 'a = nat])
qed

lemma header_version: "(ucast (ucast (x AND 255) :: u8) :: u32) = x AND 255" for x :: u32
proof -
  have *: "(ucast (ucast y :: u8) :: u32) = y" if "unat y < 256" for y :: u32
    using that by (simp only: word_unat_eq_iff unsigned_ucast_eq) (simp add: unsigned_take_bit_eq take_bit_nat_eq_self)
  show ?thesis by (rule *) (use word_and_le1 [of x 255] in \<open>simp add: word_le_nat_alt\<close>)
qed

lemma digits_3: "digits b 3 v = [v mod b, v div b mod b, v div b div b mod b]"
  by (simp add: numeral_3_eq_3)

lemma header_parse:
  assumes "length (Hashes fp) < 2 ^ 24"
  shows "\<exists>header. be_uint32 (header_bytes fp @ rest) = Some header \<and>
    drop_bit 24 header AND 0xff = Version fp AND 255 \<and> unat (header AND 0xffffff) = length (Hashes fp)"
proof -
  define n where "n = length (Hashes fp)"
  define a where "a = unat (Version fp AND 255)"
  have a: "a < 256" using word_and_le1 [of "Version fp" 255] by (simp add: a_def word_le_nat_alt)
  define V where "V = n + 2 ^ 24 * a"
  have V: "V < 2 ^ 32" using a assms by (simp add: V_def n_def)
  have bytes: "map unat (header_bytes fp) = [a, n div 65536 mod 256, n div 256 mod 256, n mod 256]"
    using nat_and_byte [of 16 n] nat_and_byte [of 8 n] nat_and_byte [of 0 n] a
    by (simp add: header_bytes_def Let_def unat_of_nat n_def [symmetric] a_def unsigned_ucast_eq take_bit_nat_eq_self)
  have "n mod 256 + 256 * (n div 256 mod 256 + 256 * (n div 65536 mod 256)) = n"
  proof -
    have "radix 256 (digits 256 3 n) = n" using assms by (simp add: radix_digits n_def)
    then show ?thesis using div_mult2_eq [of n 256 256] by (simp add: digits_3)
  qed
  moreover have "n div 65536 mod 256 = n div 65536" using assms by (simp add: n_def)
  ultimately have "radix 256 (rev (map unat (header_bytes fp))) = V" by (simp add: bytes V_def)
  then have be: "be_uint32 (header_bytes fp @ rest) = Some (of_nat V)"
    by (simp add: be_uint32_def header_bytes_def Let_def)
  have u: "unat (of_nat V :: u32) = V" using V by (simp add: unat_of_nat)
  have low: "unat (of_nat V AND 0xffffff :: u32) = n"
  proof -
    have "(of_nat V :: u32) AND 0xffffff = take_bit 24 (of_nat V)"
      using take_bit_eq_mask [of 24 "of_nat V :: u32"] by (simp add: mask_eq_exp_minus_1)
    then have "unat (of_nat V AND 0xffffff :: u32) = take_bit 24 V"
      by (simp only: unsigned_take_bit_eq u)
    also have "\<dots> = n" using assms by (simp add: take_bit_eq_mod V_def n_def)
    finally show ?thesis .
  qed
  have high: "drop_bit 24 (of_nat V :: u32) AND 0xff = Version fp AND 255"
  proof -
    have "drop_bit 24 (of_nat V :: u32) AND 0xff = take_bit 8 (drop_bit 24 (of_nat V))"
      using take_bit_eq_mask [of 8 "drop_bit 24 (of_nat V) :: u32"] by (simp add: mask_eq_exp_minus_1)
    then have "unat (drop_bit 24 (of_nat V :: u32) AND 0xff) = take_bit 8 (drop_bit 24 V)"
      by (simp only: unsigned_take_bit_eq unat_drop_bit_eq u)
    also have "\<dots> = a"
      using a assms by (simp add: take_bit_eq_mod drop_bit_eq_div [where 'a = nat] V_def n_def)
    finally show ?thesis by (simp add: word_unat_eq_iff a_def)
  qed
  show ?thesis using be low high by (simp add: n_def)
qed

section \<open>Compressing and parsing\<close>

definition compressed :: "Fingerprint \<Rightarrow> u8 list" where
  "compressed fp = header_bytes fp @ packed 3 (map cap (symbols 0 (Hashes fp))) @ packed 5 (excess (symbols 0 (Hashes fp)))"

lemma cap_fits: "x \<in> set (map cap ss) \<Longrightarrow> unat x < 2 ^ 3"
  by auto

lemma excess_fits: "x \<in> set (excess (symbols lv hs)) \<Longrightarrow> unat x < 2 ^ 5"
proof -
  assume "x \<in> set (excess (symbols lv hs))"
  then obtain s where "s \<in> set (symbols lv hs)" "s \<ge> 7" "x = s - 7" by (auto simp: excess_def)
  then show ?thesis using symbols_range [of s lv hs] by (simp add: unat_sub word_le_nat_alt)
qed

lemma CompressFingerprint_eq: "CompressFingerprint fp = Some (compressed fp)"
proof -
  define ns es where "ns = map cap (symbols 0 (Hashes fp))" and "es = excess (symbols 0 (Hashes fp))"
  have ns: "\<forall>x \<in> set ns. unat x < 8" using cap_fits by (auto simp: ns_def)
  have es: "\<forall>x \<in> set es. unat x < 32" using excess_fits by (auto simp: es_def)
  define a b where "a = (length ns * 3 + 7) div 8" and "b = (length es * 5 + 7) div 8"
  have h: "length (header_bytes fp) = 4" by (simp add: header_bytes_def Let_def)
  have rep: "replicate (4 + a + b) (0 :: u8) = 0 # 0 # 0 # 0 # replicate (a + b) 0"
    by (simp add: eval_nat_numeral)
  show ?thesis
    unfolding CompressFingerprint_def compress_hashes_symbols append_Nil ns_def [symmetric] es_def [symmetric]
      prod.case Let_def a_def [symmetric] b_def [symmetric] rep
    using ns es h
    by (simp add: put_Some slice_from_Some PackUint3Slice_eq PackUint5Slice_eq store_def a_def b_def
        mult.commute compressed_def header_bytes_def Let_def flip: ns_def es_def)
qed

lemma unpackFingerprint_compressed:
  assumes "Hashes fp \<noteq> []" "length (Hashes fp) < 2 ^ 24"
  shows "unpackFingerprint (compressed fp) p =
    Some (Inr (map_option (\<lambda>q. q\<lparr> Version := Version fp AND 255, Hashes := Hashes fp \<rparr>) p))"
proof -
  let ?hs = "Hashes fp"
  define ss where "ss = symbols 0 ?hs"
  define ns where "ns = map cap ss"
  define P where "P = packed 3 ns"
  define Q where "Q = packed 5 (excess ss)"
  have data: "compressed fp = header_bytes fp @ P @ Q" by (simp add: compressed_def P_def Q_def ss_def ns_def)
  have h: "length (header_bytes fp) = 4" by (simp add: header_bytes_def Let_def)
  obtain hd where hd: "be_uint32 (compressed fp) = Some hd" "drop_bit 24 hd AND 0xff = Version fp AND 255"
      "unat (hd AND 0xffffff) = length ?hs"
    using header_parse [OF assms(2), of "P @ Q"] data by auto
  have d4: "slice_from (compressed fp) 4 = Some (P @ Q)" by (simp add: data h slice_from_def)
  obtain z where z: "unpacked 3 (P @ Q) = ns @ z"
    using unpacked_packed_append [of "map cap ss" 3 Q] cap_fits [of _ ss] by (auto simp: P_def ns_def)
  have scan: "scan_normal (length ?hs) 0 0 0 (ns @ z) = (Some (length ss), length ?hs, length (excess ss))"
    using scan_normal_symbols [OF assms(1), of 0 "length ?hs" 0 0 0 z] by (simp add: ss_def ns_def)
  have d5: "slice_from (compressed fp) (4 + (length ss * 3 + 7) div 8) = Some Q"
    by (simp add: data h slice_from_def P_def ns_def mult.commute)
  obtain z' where z': "unpacked 5 Q = excess ss @ z'"
    using unpacked_packed [of "excess ss" 5] excess_fits [of _ 0 ?hs] by (auto simp: Q_def ss_def)
  have exc: "add_exceptional (unpacked 5 Q) 0 ns = Some ss"
    unfolding ns_def by (rule add_exceptional_excess [of 0]) (simp add: z')
  have no_exc: "ns = ss" if "excess ss = []"
    using that unfolding ns_def by (induction ss) (auto split: if_splits)
  have dec: "decode_hashes (replicate (length ?hs) 0) 0 0 ss = Some ?hs"
    using decode_hashes_symbols [of ?hs 0 0 "[]"] by (simp add: ss_def)
  have dec': "decode_hashes (replicate (length ?hs) 0) 0 0 ns = Some ?hs" if "excess ss = []"
    using dec no_exc [OF that] by simp
  have len: "length ns = length ss" by (simp add: ns_def)
  have few: "\<not> length (unpacked 5 Q) < length (excess ss)" by (simp only: z') simp
  have "\<not> length (compressed fp) < 4" by (simp add: data h)
  moreover have "unat (hd AND 0xffffff) \<noteq> 0" using assms(1) hd(3) by simp
  ultimately show ?thesis
    unfolding unpackFingerprint_def
    using dec' few
    by (cases "excess ss = []"; cases p)
      (simp_all add: hd d4 d5 Let_def UnpackUint3Slice_eq UnpackUint5Slice_eq z scan len exc dec)
qed

section \<open>No input makes the parser panic\<close>

definition zeros :: "u8 list \<Rightarrow> nat" where
  "zeros bs = length (filter (\<lambda>b. b = 0) bs)"

definition sevens :: "u8 list \<Rightarrow> nat" where
  "sevens bs = length (filter (\<lambda>b. b = 7) bs)"

lemma zeros_simps [simp]:
  "zeros [] = 0" "zeros (b # bs) = (if b = 0 then zeros bs + 1 else zeros bs)" "zeros (bs @ cs) = zeros bs + zeros cs"
  "sevens [] = 0" "sevens (b # bs) = (if b = 7 then sevens bs + 1 else sevens bs)"
  by (simp_all add: zeros_def sevens_def)

lemma scan_normal_result:
  assumes "scan_normal m nv ne bi bs = (brk, nv', ne')" "nv < m"
  shows "case brk of None \<Rightarrow> nv' < m
    | Some k \<Rightarrow> nv' = m \<and> bi < k \<and> k \<le> bi + length bs \<and> nv + zeros (take (k - bi) bs) = m \<and>
        last (take (k - bi) bs) = 0 \<and> ne' = ne + sevens (take (k - bi) bs)"
  using assms
proof (induction m nv ne bi bs rule: scan_normal.induct)
  case (2 m nv ne bi b bs)
  have app: "take (k - bi) (b # bs) = b # take (k - (bi + 1)) bs" if "bi + 1 < k" for k
    using that by (simp add: take_Cons')
  show ?case
  proof (cases "b = 0 \<and> nv + 1 = m")
    case False
    then have "case brk of None \<Rightarrow> nv' < m
      | Some k \<Rightarrow> nv' = m \<and> bi + 1 < k \<and> k \<le> bi + 1 + length bs \<and>
          (if b = 0 then nv + 1 else nv) + zeros (take (k - (bi + 1)) bs) = m \<and>
          last (take (k - (bi + 1)) bs) = 0 \<and> ne' = (if b = 7 then ne + 1 else ne) + sevens (take (k - (bi + 1)) bs)"
      using 2 by (cases "b = 0") auto
    then show ?thesis
      by (cases brk) (auto simp: app split: if_splits)
  qed (use 2 in auto)
qed auto

lemma add_exceptional_total:
  assumes "\<forall>b \<in> set bs. unat b < 8" "\<forall>e \<in> set exc. unat e < 32" "ei + sevens bs \<le> length exc"
  shows "\<exists>bs'. add_exceptional exc ei bs = Some bs' \<and> length bs' = length bs \<and> zeros bs' = zeros bs \<and>
    (bs \<noteq> [] \<longrightarrow> (last bs' = 0 \<longleftrightarrow> last bs = 0))"
  using assms
proof (induction bs arbitrary: ei)
  case (Cons b bs)
  define ei' where "ei' = (if b = 7 then ei + 1 else ei)"
  have "ei' + sevens bs \<le> length exc" using Cons.prems(3) by (auto simp: ei'_def)
  then obtain bs' where bs': "add_exceptional exc ei' bs = Some bs'" "length bs' = length bs" "zeros bs' = zeros bs"
      "bs \<noteq> [] \<longrightarrow> (last bs' = 0 \<longleftrightarrow> last bs = 0)"
    using Cons.IH [of ei'] Cons.prems(1,2) by auto
  have nz: "7 + exc ! ei \<noteq> 0" if "b = 7"
  proof -
    have "unat (exc ! ei) < 32" using Cons.prems(2,3) that by simp
    then have "unat (7 + exc ! ei) = 7 + unat (exc ! ei)" by (simp add: unat_word_ariths)
    then show ?thesis by (metis add_eq_0_iff_both_eq_0 unat_0 zero_neq_numeral)
  qed
  have ei: "b = 7 \<Longrightarrow> ei < length exc" using Cons.prems(3) by simp
  show ?case
  proof (cases "b = 7")
    case True
    then show ?thesis using bs' nz ei by (auto simp: ei'_def idx_Some)
  next
    case False
    then show ?thesis using bs' by (auto simp: ei'_def)
  qed
qed simp

lemma decode_hashes_total:
  "hi + zeros bs \<le> length hs \<Longrightarrow> bs = [] \<or> last bs = 0 \<Longrightarrow>
   \<exists>hs'. decode_hashes hs hi lst bs = Some hs' \<and> length hs' = length hs"
proof (induction hs hi lst bs rule: decode_hashes.induct)
  case (2 hs hi lst b bs)
  have last: "bs = [] \<or> last bs = 0" "bs = [] \<longrightarrow> b = 0" using 2(4) by (auto split: if_splits)
  have "\<exists>x. x = 0 \<and> x \<in> set (b # bs)" using last(2) last_in_set [of bs] last(1) by (metis list.set_intros)
  then have "0 < zeros (b # bs)" unfolding zeros_def by (metis (mono_tags, lifting) filter_empty_conv length_greater_0_conv)
  then have hi: "hi < length hs" using 2(3) by simp
  show ?case
  proof (cases "b = 0")
    case True
    define hs2 where "hs2 = (if hi > 0 then hs[hi := hs ! hi XOR hs ! (hi - 1)] else hs)"
    have hs2: "(if hi > 0 then do { h \<leftarrow> idx hs hi; p \<leftarrow> idx hs (hi - 1); put hs hi (h XOR p) } else Some hs) = Some hs2"
        "length hs2 = length hs"
      using hi by (simp_all add: hs2_def idx_Some put_Some)
    then show ?thesis using 2(1) [OF True hs2(1)] 2(3) True last by auto
  next
    case False
    then have "bs \<noteq> []" using last by auto
    then show ?thesis 
      using 2(2) [OF False refl, of "hs ! hi" "hs[hi := hs ! hi OR push_bit (unat (lst + b - 1)) 1]"] 2(3) False last hi
      by (simp add: idx_Some put_Some Let_def)
  qed
qed simp

lemma unpacked_fits: "b \<in> set (unpacked k bs) \<Longrightarrow> 0 < k \<Longrightarrow> k \<le> 8 \<Longrightarrow> unat b < 2 ^ k"
proof -
  assume b: "b \<in> set (unpacked k bs)" and k: "0 < k" "k \<le> 8"
  then obtain d where d: "b = of_nat d" "d < 2 ^ k"
    using digits_less [of "2 ^ k"] by (auto simp: unpacked_def)
  moreover have "d mod 256 \<le> d" by simp
  ultimately show ?thesis by (simp add: unat_of_nat)
qed

text \<open>The part behind the scan for the normal bits, when it has found them all.\<close>

lemma unpackFingerprint_scanned:
  assumes "\<not> length data < 4" and hd: "be_uint32 data = Some h" and m_def: "m = unat (h AND 0xffffff)" and m: "m \<noteq> 0"
    and bits_def: "bits = unpacked 3 (drop 4 data)" and scan: "scan_normal m 0 0 0 bits = (Some k, nv, ne)"
  shows "\<exists>r. unpackFingerprint data fp = Some r \<and>
    unpackFingerprint data None = Some (case r of Inl e \<Rightarrow> Inl e | Inr _ \<Rightarrow> Inr None) \<and>
    (case r of Inl _ \<Rightarrow> True
     | Inr None \<Rightarrow> fp = None
     | Inr (Some q) \<Rightarrow> fp \<noteq> None \<and> 0 < length (Hashes q) \<and> length (Hashes q) < 2 ^ 24 \<and>
         (\<exists>hd. be_uint32 data = Some hd \<and> Version q = drop_bit 24 hd AND 0xff \<and>
            length (Hashes q) = unat (hd AND 0xffffff)))"
proof -
  have m24: "m < 2 ^ 24" using word_and_le1 [of h "0xffffff"] by (simp add: m_def word_le_nat_alt)
  note unfold = unpackFingerprint_def hd Let_def m_def [symmetric] slice_from_Some UnpackUint3Slice_eq
    bits_def [symmetric] scan UnpackUint5Slice_eq
  let ?bits = "take k bits"
  have k: "nv = m" "0 < k" "k \<le> length bits" "zeros ?bits = m" "last ?bits = 0" "ne = sevens ?bits"
    using scan_normal_result [OF scan] m by simp_all
  have off: "4 + (k * 3 + 7) div 8 \<le> length data"
    using k(3) assms(1) by (simp add: bits_def)
  define exc where "exc = unpacked 5 (drop (4 + (k * 3 + 7) div 8) data)"
  have fits: "\<forall>b \<in> set ?bits. unat b < 8" "\<forall>e \<in> set exc. unat e < 32"
    using unpacked_fits [of _ 3 "drop 4 data"] unpacked_fits [of _ 5] in_set_takeD [of _ k bits]
    by (fastforce simp: bits_def exc_def)+
  have nonempty: "?bits \<noteq> []" using k by auto
  have dec: "\<exists>hs'. decode_hashes (replicate m 0) 0 0 bs = Some hs' \<and> length hs' = m"
    if "zeros bs = m" "last bs = 0" for bs
    using decode_hashes_total [of 0 bs "replicate m 0" 0] that by simp
  consider "ne = 0" | "0 < ne" "length exc < ne" | "0 < ne" "ne \<le> length exc" by linarith
  then show ?thesis
  proof cases
    case 1
    obtain h0 where "decode_hashes (replicate m 0) 0 0 ?bits = Some h0" "length h0 = m"
      using dec [OF k(4,5)] by blast
    then show ?thesis using assms(1) m k(1) 1 m24 by (cases fp) (simp_all add: unfold)
  next
    case 2
    then show ?thesis using assms(1) m k(1) off by (simp add: unfold exc_def)
  next
    case 3
    then obtain b1 where b1: "add_exceptional exc 0 ?bits = Some b1" "zeros b1 = m" "last b1 = 0"
      using add_exceptional_total [OF fits, of 0] nonempty k(4,5,6) by auto
    obtain h1 where "decode_hashes (replicate m 0) 0 0 b1 = Some h1" "length h1 = m"
      using dec [OF b1(2,3)] by blast
    then show ?thesis
      using assms(1) m k(1) off 3 b1(1) m24 by (cases fp) (simp_all add: unfold exc_def [symmetric])
  qed
qed

lemma unpackFingerprint_total:
  "\<exists>r. unpackFingerprint data fp = Some r \<and>
    unpackFingerprint data None = Some (case r of Inl e \<Rightarrow> Inl e | Inr _ \<Rightarrow> Inr None) \<and>
    (case r of Inl _ \<Rightarrow> True
     | Inr None \<Rightarrow> fp = None
     | Inr (Some q) \<Rightarrow> fp \<noteq> None \<and> 0 < length (Hashes q) \<and> length (Hashes q) < 2 ^ 24 \<and>
         (\<exists>hd. be_uint32 data = Some hd \<and> Version q = drop_bit 24 hd AND 0xff \<and>
            length (Hashes q) = unat (hd AND 0xffffff)))"
proof (cases "length data < 4")
  case True
  then show ?thesis by (simp add: unpackFingerprint_def)
next
  case False
  then obtain hd where hd: "be_uint32 data = Some hd" by (simp add: be_uint32_def)
  let ?m = "unat (hd AND 0xffffff)" and ?bits = "unpacked 3 (drop 4 data)"
  obtain brk nv ne where scan: "scan_normal ?m 0 0 0 ?bits = (brk, nv, ne)" by (metis prod_cases3)
  consider "?m = 0" | "?m \<noteq> 0" "brk = None" | k where "?m \<noteq> 0" "brk = Some k" by (cases brk) auto
  then show ?thesis
  proof cases
    case 1
    then show ?thesis using False by (simp add: unpackFingerprint_def hd Let_def)
  next
    case 2
    then have "nv \<noteq> ?m" using scan_normal_result [OF scan] by simp
    then show ?thesis
      using False 2 by (simp add: unpackFingerprint_def hd Let_def slice_from_Some UnpackUint3Slice_eq scan)
  next
    case 3
    from unpackFingerprint_scanned [OF False hd refl 3(1) refl scan [unfolded 3(2)]] show ?thesis .
  qed
qed

lemma compressed_not_Nil [simp]: "compressed fp \<noteq> []"
  by (simp add: compressed_def header_bytes_def Let_def)

lemma ParseFingerprintString_compressed:
  assumes "Hashes fp \<noteq> []" "length (Hashes fp) < 2 ^ 24"
  shows "ParseFingerprintString (EncodeFingerprintToString (compressed fp)) =
    Some (\<lparr> Version = Version fp AND 255, Hashes = Hashes fp \<rparr>, None)"
  using assms
  by (simp add: unpackFingerprint_compressed ParseFingerprint_def empty_fingerprint_def
      ParseFingerprintString_def DecodeFingerprintString_def EncodeFingerprintToString_def)

section \<open>Properties\<close>

text \<open>
  C1. Compressing a fingerprint and parsing the result gives it back, through the bytes and
  through the base64 string, up to the version being cut to its low byte: for every non-empty
  fingerprint of fewer than \<open>2^24\<close> hashes \<open>CompressFingerprint\<close> does not panic, its output is
  accepted by \<open>ValidateFingerprint\<close>, and the parsers return the hashes without an error.
\<close>

theorem ParseFingerprint_CompressFingerprint:
  assumes "Hashes fp \<noteq> []" "length (Hashes fp) < 2 ^ 24"
  shows "\<exists>data. CompressFingerprint fp = Some data \<and>
    ParseFingerprint data = Some (\<lparr> Version = Version fp AND 255, Hashes = Hashes fp \<rparr>, None) \<and>
    ParseFingerprintString (EncodeFingerprintToString data) =
      Some (\<lparr> Version = Version fp AND 255, Hashes = Hashes fp \<rparr>, None) \<and>
    ValidateFingerprint data = Some True \<and>
    ValidateFingerprintString (EncodeFingerprintToString data) = Some True"
  using assms ParseFingerprintString_compressed [OF assms]
  by (simp add: CompressFingerprint_eq unpackFingerprint_compressed ParseFingerprint_def empty_fingerprint_def
      ValidateFingerprint_def ValidateFingerprintString_def DecodeFingerprintString_def
      EncodeFingerprintToString_def)

theorem ParseFingerprint_CompressFingerprint_witness:
  "\<exists>data. CompressFingerprint \<lparr> Version = 1, Hashes = [0x80000001, 0x80000003, 0] \<rparr> = Some data \<and>
    ParseFingerprintString (EncodeFingerprintToString data) =
      Some (\<lparr> Version = 1, Hashes = [0x80000001, 0x80000003, 0] \<rparr>, None)"
  using ParseFingerprint_CompressFingerprint [of "\<lparr> Version = 1, Hashes = [0x80000001, 0x80000003, 0] \<rparr>"]
  by auto

lemma ParseFingerprintString_returns:
  "\<exists>fp err. ParseFingerprintString str = Some (fp, err) \<and>
     (err = None \<longrightarrow> 0 < length (Hashes fp) \<and> length (Hashes fp) < 2 ^ 24)"
proof (cases "DecodeFingerprintString str")
  case (Inr data)
  then show ?thesis
    using unpackFingerprint_total [of data "Some empty_fingerprint"]
    by (auto simp: ParseFingerprintString_def ParseFingerprint_def split: sum.splits option.splits)
qed (simp add: ParseFingerprintString_def)

text \<open>
  C21. No string makes the parser panic: \<open>ParseFingerprintString\<close> always returns, either an empty
  fingerprint and an error or, without an error, a fingerprint of between 1 and \<open>2^24 - 1\<close>
  hashes; \<open>ValidateFingerprintString\<close> returns as well, and it says true exactly when parsing
  gives no error.
\<close>

theorem ParseFingerprintString_total:
  "\<exists>fp err. ParseFingerprintString str = Some (fp, err) \<and>
    (case err of Some _ \<Rightarrow> fp = empty_fingerprint
     | None \<Rightarrow> 0 < length (Hashes fp) \<and> length (Hashes fp) < 2 ^ 24) \<and>
    ValidateFingerprintString str = Some (err = None)"
proof (cases "DecodeFingerprintString str")
  case (Inr data)
  show ?thesis
    using unpackFingerprint_total [of data "Some empty_fingerprint"]
    by (auto simp: ParseFingerprintString_def ValidateFingerprintString_def Inr ParseFingerprint_def
        ValidateFingerprint_def split: sum.splits option.splits)
qed (simp add: ParseFingerprintString_def ValidateFingerprintString_def)

end
