(* ===== verification/IndexClient.thy ===== *)
theory IndexClient
  imports GoStrings "HOL-Library.Sublist"
begin

text \<open>
  \<open>pkg/fpindex/client.go\<close>: the client of the index server's line protocol. A request is one line,
  the answer is one line that starts with \<open>OK\<close> or \<open>ERR\<close>. The connection is a record: the lines
  the server has received, the bytes it has sent that the client has not read, the deadline set
  on it, and a script of faults that decides, at every point where the code can observe an error
  of the network or of its context, whether it does. The server is a parameter \<open>srv\<close> of the
  model: the bytes it answers to a line, given the lines before it.
\<close>

section \<open>Text formats\<close>

datatype client_error =
  CtxError | WriteError | ReadError | CloseError | ServerError string | InvalidResponse string
| ErrTxDone | ErrTxActive | ErrClientNotOK | ErrInvalidResultFormat | NumError num_error | DialError

record pb_Result =
  Id :: u32
  Hits :: u32

definition kPrefixOK :: string where "kPrefixOK = ''OK ''"
definition kPrefixERR :: string where "kPrefixERR = ''ERR ''"

text \<open>One item of a search response, and the loop over the items.\<close>

definition decode_item :: "string \<Rightarrow> client_error + pb_Result" where
  "decode_item item =
     (case split_on (CHR '':'') item of
        [f0, f1] \<Rightarrow>
          (case parse_uint 32 f0 of
             Inl _ \<Rightarrow> Inl ErrInvalidResultFormat
           | Inr i \<Rightarrow>
               (case parse_uint 32 f1 of
                  Inl _ \<Rightarrow> Inl ErrInvalidResultFormat
                | Inr hits \<Rightarrow> Inr \<lparr> Id = of_nat i, Hits = of_nat hits \<rparr>))
      | _ \<Rightarrow> Inl ErrInvalidResultFormat)"

fun decode_items :: "('a \<Rightarrow> 'e + 'b) \<Rightarrow> 'a list \<Rightarrow> 'e + 'b list" where
  "decode_items f [] = Inr []"
| "decode_items f (x # xs) =
     (case f x of
        Inl e \<Rightarrow> Inl e
      | Inr y \<Rightarrow> (case decode_items f xs of Inl e \<Rightarrow> Inl e | Inr ys \<Rightarrow> Inr (y # ys)))"

definition DecodeResults :: "string \<Rightarrow> client_error + pb_Result list" where
  "DecodeResults encoded =
     (if length encoded = 0 then Inr []
      else decode_items decode_item (split_on (CHR '' '') encoded))"

definition decode_hash :: "string \<Rightarrow> client_error + u32" where
  "decode_hash item = (case parse_int 32 item of Inl e \<Rightarrow> Inl (NumError e) | Inr v \<Rightarrow> Inr (of_int v))"

definition DecodeFingerprint :: "string \<Rightarrow> client_error + u32 list" where
  "DecodeFingerprint encoded =
     (let encoded = (if has_prefix encoded ''{'' \<and> has_suffix encoded ''}''
                     then trim encoded ''{}'' else encoded)
      in decode_items decode_hash (split_on (CHR '','') encoded))"

text \<open>The loop of \<open>EncodeFingerprint\<close>, which writes a comma before every hash but the first.\<close>

fun encode_hashes :: "nat \<Rightarrow> u32 list \<Rightarrow> string" where
  "encode_hashes i [] = []"
| "encode_hashes i (h # hs) = (if i > 0 then '','' else []) @ format_int (sint h) @ encode_hashes (i + 1) hs"

definition EncodeFingerprint :: "u32 list \<Rightarrow> bool \<Rightarrow> string" where
  "EncodeFingerprint hashes braces =
     (if braces then ''{'' else []) @ encode_hashes 0 hashes @ (if braces then ''}'' else [])"

section \<open>The connection\<close>

record Conn =
  conn_deadline :: "int option"
  written :: "string list"
  unread :: string
  faults :: "bool list"

text \<open>A context: its deadline. Whether \<open>ctx.Err()\<close> is nil when asked is a matter of the faults.\<close>

record Context =
  Deadline :: "int option"

definition fault :: "Conn \<Rightarrow> bool \<times> Conn" where
  "fault c = (case faults c of [] \<Rightarrow> (False, c) | f # fs \<Rightarrow> (f, c\<lparr> faults := fs \<rparr>))"

type_synonym server = "string list \<Rightarrow> string \<Rightarrow> string"

definition deliver :: "server \<Rightarrow> Conn \<Rightarrow> string \<Rightarrow> Conn" where
  "deliver srv c line = c\<lparr> written := written c @ [line], unread := unread c @ srv (written c) line \<rparr>"

text \<open>
  \<open>WriteLine\<close>: the result says whether there was an error; a failed flush may still deliver. The server
  takes what is written for one line, as it is when no argument holds a line break; the callers in the
  repository send numbers and the name \<open>max_document_id\<close>.
\<close>

definition WriteLine :: "server \<Rightarrow> Conn \<Rightarrow> string \<Rightarrow> bool \<times> Conn" where
  "WriteLine srv c line =
     (let (f, c) = fault c in
      if f then (True, c)
      else let (f, c) = fault c in
        if f then (let (d, c) = fault c in (True, if d then deliver srv c line else c))
        else (False, deliver srv c line))"

definition newline :: char where "newline = CHR 0x0A"

definition ReadLine :: "Conn \<Rightarrow> string option \<times> Conn" where
  "ReadLine c =
     (let (f, c) = fault c in
      if f then (None, c)
      else if newline \<in> set (unread c)
      then (Some (trim_right (takeWhile (\<lambda>x. x \<noteq> newline) (unread c) @ [newline]) [CHR 0x0D, newline]),
            c\<lparr> unread := tl (dropWhile (\<lambda>x. x \<noteq> newline) (unread c)) \<rparr>)
      else (None, c\<lparr> unread := [] \<rparr>))"

section \<open>The client\<close>

record IndexClientTx =
  tx_done :: bool

record IndexClient =
  conn :: Conn
  closed :: bool
  hasError :: bool
  hasDeadline :: bool
  numRequests :: u64
  numResponses :: u64
  client_tx :: "IndexClientTx option"

definition NewIndexClient :: "Conn \<Rightarrow> IndexClient" where
  "NewIndexClient cn = \<lparr> conn = cn, closed = False, hasError = False, hasDeadline = False,
     numRequests = 0, numResponses = 0, client_tx = None \<rparr>"

definition IsOK :: "IndexClient \<Rightarrow> bool" where
  "IsOK c \<longleftrightarrow> \<not> closed c \<and> \<not> hasError c \<and> numRequests c = numResponses c"

text \<open>\<open>ctx.Err() != nil\<close>\<close>

definition ctx_err :: "IndexClient \<Rightarrow> bool \<times> IndexClient" where
  "ctx_err c = (let (f, cn) = fault (conn c) in (f, c\<lparr> conn := cn \<rparr>))"

definition sendRequest ::
  "server \<Rightarrow> Context \<Rightarrow> string \<Rightarrow> IndexClient \<Rightarrow> (client_error + string) \<times> IndexClient" where
  "sendRequest srv ctx request c =
     (let c = (if Deadline ctx \<noteq> None \<or> hasDeadline c
               then c\<lparr> conn := (conn c)\<lparr> conn_deadline := Deadline ctx \<rparr>, hasDeadline := Deadline ctx \<noteq> None \<rparr>
               else c);
          (e, c) = ctx_err c
      in if e then (Inl CtxError, c)
      else let (e, cn) = WriteLine srv (conn c) request; c = c\<lparr> conn := cn \<rparr>
      in if e then (Inl WriteError, c\<lparr> hasError := True \<rparr>)
      else let c = c\<lparr> numRequests := numRequests c + 1 \<rparr>; (e, c) = ctx_err c
      in if e then (Inl CtxError, c)
      else let (r, cn) = ReadLine (conn c); c = c\<lparr> conn := cn \<rparr>
      in case r of
           None \<Rightarrow> (Inl ReadError, c\<lparr> hasError := True \<rparr>)
         | Some response \<Rightarrow>
             if has_prefix response kPrefixOK
             then (Inr (trim_prefix response kPrefixOK), c\<lparr> numResponses := numResponses c + 1 \<rparr>)
             else if has_prefix response kPrefixERR
             then (Inl (ServerError (trim_prefix response kPrefixERR)), c\<lparr> numResponses := numResponses c + 1 \<rparr>)
             else (Inl (InvalidResponse response), c\<lparr> hasError := True \<rparr>))"

definition Ping :: "server \<Rightarrow> Context \<Rightarrow> IndexClient \<Rightarrow> (client_error + unit) \<times> IndexClient" where
  "Ping srv ctx c = map_prod (map_sum id (\<lambda>_. ())) id (sendRequest srv ctx ''echo'' c)"

definition GetAttribute :: "server \<Rightarrow> Context \<Rightarrow> string \<Rightarrow> IndexClient \<Rightarrow> (client_error + string) \<times> IndexClient" where
  "GetAttribute srv ctx name c = sendRequest srv ctx (''get attribute '' @ name) c"

definition SetAttribute ::
  "server \<Rightarrow> Context \<Rightarrow> string \<Rightarrow> string \<Rightarrow> IndexClient \<Rightarrow> (client_error + unit) \<times> IndexClient" where
  "SetAttribute srv ctx name v c =
     map_prod (map_sum id (\<lambda>_. ())) id (sendRequest srv ctx (''set attribute '' @ name @ '' '' @ v) c)"

definition Search ::
  "server \<Rightarrow> Context \<Rightarrow> u32 list \<Rightarrow> IndexClient \<Rightarrow> (client_error + pb_Result list) \<times> IndexClient" where
  "Search srv ctx hashes c =
     (case sendRequest srv ctx (''search '' @ EncodeFingerprint hashes False) c of
        (Inl e, c) \<Rightarrow> (Inl e, c)
      | (Inr response, c) \<Rightarrow> (DecodeResults response, c))"

section \<open>Transactions\<close>

definition Tx_begin :: "server \<Rightarrow> Context \<Rightarrow> IndexClient \<Rightarrow> client_error option \<times> IndexClient" where
  "Tx_begin srv ctx c =
     (let (e, c) = ctx_err c in
      if e then (Some CtxError, c)
      else case sendRequest srv ctx ''begin'' c of (Inl e, c) \<Rightarrow> (Some e, c) | (Inr _, c) \<Rightarrow> (None, c))"

definition Tx_Insert ::
  "server \<Rightarrow> Context \<Rightarrow> u32 \<Rightarrow> u32 list \<Rightarrow> IndexClientTx \<times> IndexClient \<Rightarrow>
   client_error option \<times> IndexClientTx \<times> IndexClient" where
  "Tx_Insert srv ctx i hashes tc =
     (let (tx, c) = tc in
      if tx_done tx then (Some ErrTxDone, tx, c)
      else let (e, c) = ctx_err c in
      if e then (Some CtxError, tx, c)
      else case sendRequest srv ctx (''insert '' @ format_uint (unat i) @ '' '' @ EncodeFingerprint hashes False) c of
             (Inl e, c) \<Rightarrow> (Some e, tx, c)
           | (Inr _, c) \<Rightarrow> (None, tx, c))"

text \<open>\<open>Commit\<close> and \<open>Rollback\<close>, which differ in the request only\<close>

definition Tx_finish ::
  "string \<Rightarrow> server \<Rightarrow> Context \<Rightarrow> IndexClientTx \<times> IndexClient \<Rightarrow> client_error option \<times> IndexClientTx \<times> IndexClient" where
  "Tx_finish request srv ctx tc =
     (let (tx, c) = tc in
      if tx_done tx then (Some ErrTxDone, tx, c)
      else let (e, c) = ctx_err c in
      if e then (Some CtxError, tx, c)
      else case sendRequest srv ctx request c of
             (Inl e, c) \<Rightarrow> (Some e, tx, c)
           | (Inr _, c) \<Rightarrow> (None, tx\<lparr> tx_done := True \<rparr>, c\<lparr> client_tx := None \<rparr>))"

definition Tx_Commit where "Tx_Commit = Tx_finish ''commit''"
definition Tx_Rollback where "Tx_Rollback = Tx_finish ''rollback''"

definition BeginTx ::
  "server \<Rightarrow> Context \<Rightarrow> IndexClient \<Rightarrow> (client_error + IndexClientTx) \<times> IndexClient" where
  "BeginTx srv ctx c =
     (if client_tx c \<noteq> None then (Inl ErrTxActive, c)
      else let tx = \<lparr> tx_done = False \<rparr> in
        case Tx_begin srv ctx c of (Some e, c) \<Rightarrow> (Inl e, c) | (None, c) \<Rightarrow> (Inr tx, c))"

text \<open>The loop of \<open>Insert\<close> over the fingerprints, then the commit.\<close>

fun Insert_loop ::
  "server \<Rightarrow> Context \<Rightarrow> (u32 \<times> u32 list) list \<Rightarrow> IndexClientTx \<times> IndexClient \<Rightarrow>
   (client_error + unit) \<times> IndexClient" where
  "Insert_loop srv ctx [] tc =
     (case Tx_Commit srv ctx tc of (Some e, tx, c) \<Rightarrow> (Inl e, c) | (None, tx, c) \<Rightarrow> (Inr (), c))"
| "Insert_loop srv ctx ((i, hashes) # fps) tc =
     (case Tx_Insert srv ctx i hashes tc of
        (Some e, tc) \<Rightarrow> (Inl e, snd (snd (Tx_Rollback srv ctx tc)))
      | (None, tc) \<Rightarrow> Insert_loop srv ctx fps tc)"

definition Insert ::
  "server \<Rightarrow> Context \<Rightarrow> (u32 \<times> u32 list) list \<Rightarrow> IndexClient \<Rightarrow> (client_error + unit) \<times> IndexClient" where
  "Insert srv ctx fingerprints c =
     (if length fingerprints = 0 then (Inr (), c)
      else case BeginTx srv ctx c of
             (Inl e, c) \<Rightarrow> (Inl e, c)
           | (Inr tx, c) \<Rightarrow> Insert_loop srv ctx fingerprints (tx, c))"

definition Close :: "server \<Rightarrow> Context \<Rightarrow> IndexClient \<Rightarrow> client_error option \<times> IndexClient" where
  "Close srv ctx c =
     (if closed c then (None, c)
      else let (e, c) = (case client_tx c of
                           None \<Rightarrow> (None, c)
                         | Some tx \<Rightarrow> (case Tx_Rollback srv ctx (tx, c) of (e, tx, c) \<Rightarrow> (e, c)))
      in if e \<noteq> None then (e, c)
      else let (f, cn) = fault (conn c); c = c\<lparr> conn := cn \<rparr>
      in if f then (Some CloseError, c) else (None, c\<lparr> closed := True \<rparr>))"

section \<open>The text formats are inverted\<close>

lemma encode_hashes_join:
  "encode_hashes 0 hs = join_with (CHR '','') (map (\<lambda>h. format_int (sint h)) hs)"
proof -
  have pos: "0 < i \<Longrightarrow> encode_hashes i hs = concat (map (\<lambda>h. '','' @ format_int (sint h)) hs)" for i hs
    by (induction hs arbitrary: i) auto
  have join: "join_with c (w # ws) = w @ concat (map (\<lambda>v. c # v) ws)" for c w ws
    by (induction ws arbitrary: w) auto
  show ?thesis by (cases hs) (simp_all add: pos join comp_def)
qed

lemma decode_items_map: "(\<And>x. x \<in> set xs \<Longrightarrow> f (g x) = Inr x) \<Longrightarrow> decode_items f (map g xs) = Inr xs"
  by (induction xs) auto

lemma sint_range_32: "- (2 ^ (32 - 1)) \<le> sint h" "sint h < 2 ^ (32 - 1)" for h :: u32
  using sint_ge [of h] sint_lt [of h] by simp_all

lemma decode_hash_format: "decode_hash (format_int (sint h)) = Inr h"
  using parse_int_format [OF sint_range_32] by (simp add: decode_hash_def)

lemma hash_no_comma: "CHR '','' \<notin> set (format_int i)"
  using format_int_chars [of "CHR '',''" i] by auto

lemma decode_joined:
  "hs \<noteq> [] \<Longrightarrow> decode_items decode_hash (split_on (CHR '','') (encode_hashes 0 hs)) = Inr hs"
  by (simp add: encode_hashes_join split_on_join hash_no_comma decode_items_map decode_hash_format)

lemma encode_hashes_chars:
  "c \<in> set (encode_hashes i hs) \<Longrightarrow> c = CHR '','' \<or> c = CHR ''-'' \<or> 48 \<le> (of_char c :: nat) \<and> (of_char c :: nat) \<le> 57"
  using format_int_chars by (induction hs arbitrary: i) (auto split: if_splits)

lemma DecodeFingerprint_EncodeFingerprint_eq:
  assumes "hs \<noteq> []"
  shows "DecodeFingerprint (EncodeFingerprint hs braces) = Inr hs"
proof -
  define s where "s = encode_hashes 0 hs"
  have no_brace: "c \<notin> set ''{}''" if "c \<in> set s" for c
    using encode_hashes_chars [of c 0 hs] that by (auto simp: s_def)
  have "hd (''{'' @ s) = CHR ''{''" by simp
  have s: "s \<noteq> []" using assms by (cases hs) (simp_all add: s_def)
  show ?thesis
  proof (cases braces)
    case False
    have "\<not> has_prefix s ''{''" using s no_brace [of "hd s"] by (cases s) auto
    with False show ?thesis using decode_joined [OF assms] by (simp add: DecodeFingerprint_def EncodeFingerprint_def s_def)
  next
    case True
    have "trim (''{'' @ s @ ''}'') ''{}'' = s"
    proof -
      have "trim_left (''{'' @ s @ ''}'') ''{}'' = s @ ''}''"
        using s no_brace [of "hd s"] by (cases s) (auto simp: trim_left_def)
      moreover have "trim_right (s @ ''}'') ''{}'' = s"
        using s no_brace [of "last s"] by (intro trim_right_append) auto
      ultimately show ?thesis by (simp add: trim_def)
    qed
    moreover have "has_suffix (''{'' @ s @ ''}'') ''}''" by (simp add: has_suffix_def)
    ultimately show ?thesis
      using True decode_joined [OF assms] by (simp add: DecodeFingerprint_def EncodeFingerprint_def s_def)
  qed
qed

text \<open>The text of search results, as the server writes them.\<close>

definition format_result :: "pb_Result \<Rightarrow> string" where
  "format_result r = format_uint (unat (Id r)) @ '':'' @ format_uint (unat (Hits r))"

definition format_results :: "pb_Result list \<Rightarrow> string" where
  "format_results rs = join_with (CHR '' '') (map format_result rs)"

lemma decode_item_format: "decode_item (format_result r) = Inr r"
proof -
  have colon: "CHR '':'' \<notin> set (format_uint n)" for n
    using format_uint_chars [of "CHR '':''" n] by auto
  have u: "unat x < 2 ^ 32" for x :: u32 using unsigned_less [of x, where 'a = nat] by simp
  show ?thesis
    using parse_uint_format [OF u [of "Id r"]] parse_uint_format [OF u [of "Hits r"]]
    by (simp add: decode_item_def format_result_def split_on_append split_on_word colon)
qed

lemma format_result_no_space: "CHR '' '' \<notin> set (format_result r)"
  using format_uint_chars [of "CHR '' ''"] by (fastforce simp: format_result_def)

lemma DecodeResults_format: "DecodeResults (format_results rs) = Inr rs"
proof (cases rs)
  case (Cons r rs')
  have "format_results rs \<noteq> []" unfolding Cons format_results_def
    by (cases rs') (simp_all add: format_result_def)
  then show ?thesis
    by (simp add: DecodeResults_def format_results_def split_on_join Cons format_result_no_space
        decode_items_map decode_item_format del: list.map)
qed (simp add: DecodeResults_def format_results_def)

section \<open>Invariants of the client\<close>

text \<open>The calls a user of the client can make; the state is the client and the transactions begun.\<close>

inductive client_step :: "server \<Rightarrow> IndexClient \<times> IndexClientTx list \<Rightarrow> IndexClient \<times> IndexClientTx list \<Rightarrow> bool"
  for srv :: server where
  "client_step srv (c, txs) (snd (Ping srv ctx c), txs)"
| "client_step srv (c, txs) (snd (GetAttribute srv ctx name c), txs)"
| "client_step srv (c, txs) (snd (SetAttribute srv ctx name v c), txs)"
| "client_step srv (c, txs) (snd (Search srv ctx hashes c), txs)"
| "client_step srv (c, txs) (snd (Insert srv ctx fps c), txs)"
| "BeginTx srv ctx c = (Inl e, c') \<Longrightarrow> client_step srv (c, txs) (c', txs)"
| "BeginTx srv ctx c = (Inr tx, c') \<Longrightarrow> client_step srv (c, txs) (c', txs @ [tx])"
| "i < length txs \<Longrightarrow> Tx_Insert srv ctx doc hashes (txs ! i, c) = (r, tx, c') \<Longrightarrow> client_step srv (c, txs) (c', txs[i := tx])"
| "i < length txs \<Longrightarrow> Tx_Commit srv ctx (txs ! i, c) = (r, tx, c') \<Longrightarrow> client_step srv (c, txs) (c', txs[i := tx])"
| "i < length txs \<Longrightarrow> Tx_Rollback srv ctx (txs ! i, c) = (r, tx, c') \<Longrightarrow> client_step srv (c, txs) (c', txs[i := tx])"
| "client_step srv (c, txs) (snd (Close srv ctx c), txs)"

definition fresh_conn :: "bool list \<Rightarrow> Conn" where
  "fresh_conn fs = \<lparr> conn_deadline = None, written = [], unread = [], faults = fs \<rparr>"

inductive client_reachable :: "server \<Rightarrow> IndexClient \<times> IndexClientTx list \<Rightarrow> bool"
  for srv :: server where
  new_client: "client_reachable srv (NewIndexClient (fresh_conn fs), [])"
| client_call: "client_reachable srv s \<Longrightarrow> client_step srv s s' \<Longrightarrow> client_reachable srv s'"

text \<open>A property that one request and the bookkeeping of the calls keep is kept by every call.\<close>

locale client_keeps =
  fixes srv :: server and I :: "IndexClient \<Rightarrow> bool"
  assumes send: "I c \<Longrightarrow> I (snd (sendRequest srv ctx request c))"
    and err: "I c \<Longrightarrow> I (snd (ctx_err c))"
    and finish: "I c \<Longrightarrow> I (c\<lparr> client_tx := None \<rparr>)"
    and close: "I c \<Longrightarrow> I (c\<lparr> closed := True \<rparr>)"
begin

lemma send': "sendRequest srv ctx request c = (r, c') \<Longrightarrow> I c \<Longrightarrow> I c'"
  using send [of c ctx request] by simp

lemma err': "ctx_err c = (e, c') \<Longrightarrow> I c \<Longrightarrow> I c'"
  using err [of c] by simp

lemma fault': "fault (conn c) = (f, cn) \<Longrightarrow> I c \<Longrightarrow> I (c\<lparr> conn := cn \<rparr>)"
  using err [of c] by (simp add: ctx_err_def)

lemma keep_simple:
  "I c \<Longrightarrow> I (snd (Ping srv ctx c))" "I c \<Longrightarrow> I (snd (GetAttribute srv ctx name c))"
  "I c \<Longrightarrow> I (snd (SetAttribute srv ctx name v c))" "I c \<Longrightarrow> I (snd (Search srv ctx hashes c))"
  using send by (auto simp: Ping_def GetAttribute_def SetAttribute_def Search_def map_prod_def case_prod_unfold
      split: sum.splits dest: send')

lemma keep_begin: "BeginTx srv ctx c = (r, c') \<Longrightarrow> I c \<Longrightarrow> I c'"
  by (auto simp: BeginTx_def Tx_begin_def Let_def split: if_splits prod.splits option.splits sum.splits
      dest: send' err')

lemma keep_tx_insert: "Tx_Insert srv ctx i hashes (tx, c) = (r, tx', c') \<Longrightarrow> I c \<Longrightarrow> I c'"
  by (auto simp: Tx_Insert_def Let_def split: if_splits prod.splits sum.splits dest: send' err')

lemma keep_finish: "Tx_finish request srv ctx (tx, c) = (r, tx', c') \<Longrightarrow> I c \<Longrightarrow> I c'"
  by (auto simp: Tx_finish_def Let_def split: if_splits prod.splits sum.splits dest: send' err' intro: finish)

lemma keep_insert_loop: "Insert_loop srv ctx fps (tx, c) = (r, c') \<Longrightarrow> I c \<Longrightarrow> I c'"
proof (induction fps arbitrary: tx c)
  case Nil
  then show ?case
    by (auto simp: Tx_Commit_def split: prod.splits option.splits dest: keep_finish)
next
  case (Cons fp fps)
  obtain i hashes where fp: "fp = (i, hashes)" by (cases fp)
  obtain e tx1 c1 where ins: "Tx_Insert srv ctx i hashes (tx, c) = (e, tx1, c1)" by (metis prod_cases3)
  then have I1: "I c1" using Cons.prems(2) keep_tx_insert by blast
  obtain e2 tx2 c2 where rb: "Tx_Rollback srv ctx (tx1, c1) = (e2, tx2, c2)" by (metis prod_cases3)
  then have "I c2" using I1 keep_finish by (simp add: Tx_Rollback_def)
  then show ?case using Cons.prems Cons.IH [of tx1 c1] I1 by (cases e) (auto simp: fp ins rb)
qed

lemma keep_insert_loop': "I c \<Longrightarrow> I (snd (Insert_loop srv ctx fps (tx, c)))"
  using keep_insert_loop by (metis prod.collapse)

lemma keep_insert: "I c \<Longrightarrow> I (snd (Insert srv ctx fps c))"
  by (auto simp: Insert_def split: prod.splits sum.splits dest: keep_begin intro: keep_insert_loop')

lemma keep_close: "I c \<Longrightarrow> I (snd (Close srv ctx c))"
  by (auto simp: Close_def Let_def Tx_Rollback_def split: prod.splits option.splits if_splits
      dest: keep_finish fault' intro: close)

lemma keep_step: "client_step srv s s' \<Longrightarrow> I (fst s) \<Longrightarrow> I (fst s')"
  by (erule client_step.cases)
    (auto simp: Tx_Commit_def Tx_Rollback_def intro: keep_simple keep_insert keep_close
      dest: keep_begin keep_tx_insert keep_finish)

end

locale client_invariant = client_keeps +
  assumes new: "I (NewIndexClient (fresh_conn fs))"
begin

lemma reachable: "client_reachable srv s \<Longrightarrow> I (fst s)"
  by (induction rule: client_reachable.induct) (auto simp: new intro: keep_step)

end

lemma fault_keeps: "fault cn = (f, cn') \<Longrightarrow>
  conn_deadline cn' = conn_deadline cn \<and> written cn' = written cn \<and> unread cn' = unread cn"
  by (auto simp: fault_def split: list.splits)

text \<open>What a request can do to the client, the deadlines and faults aside.\<close>

definition reply_line :: "string \<Rightarrow> string" where
  "reply_line s = trim_right (takeWhile (\<lambda>x. x \<noteq> newline) s @ [newline]) [CHR 0x0D, newline]"

definition after_line :: "string \<Rightarrow> string" where
  "after_line s = tl (dropWhile (\<lambda>x. x \<noteq> newline) s)"

lemma WriteLine_cases:
  assumes "WriteLine srv cn line = (e, cn')"
  shows "e \<or> written cn' = written cn @ [line] \<and> unread cn' = unread cn @ srv (written cn) line"
    "conn_deadline cn' = conn_deadline cn"
  using assms by (auto simp: WriteLine_def deliver_def Let_def split: prod.splits if_splits dest!: fault_keeps)

lemma ReadLine_cases:
  assumes "ReadLine cn = (r, cn')"
  shows "r = None \<or> newline \<in> set (unread cn) \<and> r = Some (reply_line (unread cn)) \<and> unread cn' = after_line (unread cn)"
    "conn_deadline cn' = conn_deadline cn" "written cn' = written cn"
  using assms by (auto simp: ReadLine_def Let_def reply_line_def after_line_def split: prod.splits if_splits dest!: fault_keeps)

lemma sendRequest_cases:
  assumes "sendRequest srv ctx request c = (res, c')"
  shows "closed c' = closed c \<and> client_tx c' = client_tx c \<and>
    (hasError c \<longrightarrow> hasError c') \<and>
    (hasError c' \<and> (\<forall>s. res \<noteq> Inr s)
     \<or> hasError c' = hasError c \<and> res = Inl CtxError \<and> numRequests c' = numRequests c \<and> numResponses c' = numResponses c \<and>
        written (conn c') = written (conn c) \<and> unread (conn c') = unread (conn c)
     \<or> hasError c' = hasError c \<and> res = Inl CtxError \<and> numRequests c' = numRequests c + 1 \<and> numResponses c' = numResponses c \<and>
        written (conn c') = written (conn c) @ [request] \<and> unread (conn c') = unread (conn c) @ srv (written (conn c)) request
     \<or> hasError c' = hasError c \<and> numRequests c' = numRequests c + 1 \<and> numResponses c' = numResponses c + 1 \<and>
        written (conn c') = written (conn c) @ [request] \<and>
        newline \<in> set (unread (conn c) @ srv (written (conn c)) request) \<and>
        unread (conn c') = after_line (unread (conn c) @ srv (written (conn c)) request) \<and>
        (let l = reply_line (unread (conn c) @ srv (written (conn c)) request) in
         if has_prefix l kPrefixOK then res = Inr (trim_prefix l kPrefixOK)
         else has_prefix l kPrefixERR \<and> res = Inl (ServerError (trim_prefix l kPrefixERR))))"
proof -
  define c0 where "c0 = (if Deadline ctx \<noteq> None \<or> hasDeadline c
     then c\<lparr> conn := (conn c)\<lparr> conn_deadline := Deadline ctx \<rparr>, hasDeadline := Deadline ctx \<noteq> None \<rparr> else c)"
  have c0: "hasError c0 = hasError c" "closed c0 = closed c" "client_tx c0 = client_tx c" "numRequests c0 = numRequests c"
      "numResponses c0 = numResponses c" "written (conn c0) = written (conn c)" "unread (conn c0) = unread (conn c)"
    by (simp_all add: c0_def)
  obtain e1 n1 where 1: "fault (conn c0) = (e1, n1)" by (metis prod.collapse)
  obtain e2 n2 where 2: "WriteLine srv n1 request = (e2, n2)" by (metis prod.collapse)
  obtain e3 n3 where 3: "fault n2 = (e3, n3)" by (metis prod.collapse)
  obtain r n4 where 4: "ReadLine n3 = (r, n4)" by (metis prod.collapse)
  note steps = fault_keeps [OF 1] WriteLine_cases [OF 2] fault_keeps [OF 3] ReadLine_cases [OF 4] c0
  note send = assms [unfolded sendRequest_def c0_def [symmetric] Let_def ctx_err_def 1 prod.case]
  consider (early) e1 | (sending) "\<not> e1" e2 | (late) "\<not> e1" "\<not> e2" e3 | (reading) "\<not> e1" "\<not> e2" "\<not> e3" by blast
  then show ?thesis
  proof cases
    case early
    then have "res = Inl CtxError" "c' = c0\<lparr> conn := n1 \<rparr>" using send by simp_all
    then show ?thesis using steps by simp
  next
    case sending
    then have "res = Inl WriteError" "c' = c0\<lparr> conn := n2, hasError := True \<rparr>" using send by (simp_all add: 2)
    then show ?thesis using steps by simp
  next
    case late
    then have "res = Inl CtxError" "c' = c0\<lparr> numRequests := numRequests c0 + 1, conn := n3 \<rparr>" using send by (simp_all add: 2 3)
    then show ?thesis using steps late by simp
  next
    case reading
    from reading send
    have "c' = c0\<lparr> numRequests := numRequests c0 + 1, conn := n4, hasError := True \<rparr> \<and> (\<forall>s. res \<noteq> Inr s) \<or>
        (\<exists>l. r = Some l \<and> c' = c0\<lparr> numRequests := numRequests c0 + 1, conn := n4, numResponses := numResponses c0 + 1 \<rparr> \<and>
          (if has_prefix l kPrefixOK then res = Inr (trim_prefix l kPrefixOK)
           else has_prefix l kPrefixERR \<and> res = Inl (ServerError (trim_prefix l kPrefixERR))))"
      by (cases r) (auto simp: 2 3 4 split: if_splits)
    then show ?thesis using steps reading by (elim disjE exE conjE) simp_all
  qed
qed

section \<open>Requests and replies stay in step\<close>

text \<open>A server that answers every request with one line.\<close>

definition one_line :: "server \<Rightarrow> bool" where
  "one_line srv \<longleftrightarrow> (\<forall>h r. \<exists>w. srv h r = w @ [newline] \<and> newline \<notin> set w)"

definition lines :: "string \<Rightarrow> nat" where
  "lines s = length (filter (\<lambda>x. x = newline) s)"

definition in_sync :: "IndexClient \<Rightarrow> bool" where
  "in_sync c \<longleftrightarrow> hasError c \<or>
     (unread (conn c) = [] \<or> last (unread (conn c)) = newline) \<and>
     numRequests c = numResponses c + of_nat (lines (unread (conn c))) \<and>
     lines (unread (conn c)) \<le> length (written (conn c))"

lemma lines_simps [simp]: "lines [] = 0" "lines (s @ t) = lines s + lines t"
  by (simp_all add: lines_def)

lemma lines_eq_0: "s = [] \<or> last s = newline \<Longrightarrow> lines s = 0 \<Longrightarrow> s = []"
  by (cases s rule: rev_cases) (auto simp: lines_def)

lemma one_line_reply: "one_line srv \<Longrightarrow> lines (srv h r) = 1 \<and> srv h r \<noteq> [] \<and> last (srv h r) = newline"
proof -
  assume "one_line srv"
  then obtain w where w: "srv h r = w @ [newline]" "newline \<notin> set w" unfolding one_line_def by blast
  then have "lines w = 0" by (auto simp: lines_def filter_empty_conv)
  with w show ?thesis by (simp add: lines_def)
qed

lemma after_line_lines:
  assumes "newline \<in> set s" "last s = newline"
  shows "Suc (lines (after_line s)) = lines s" "after_line s = [] \<or> last (after_line s) = newline"
proof -
  obtain w t where s: "s = w @ newline # t" "newline \<notin> set w" using assms(1) by (metis split_list_first)
  have d: "dropWhile (\<lambda>x. x \<noteq> newline) s = newline # t"
    unfolding s(1) using s(2) by (subst dropWhile_append2) auto
  have "lines w = 0" using s(2) by (auto simp: lines_def filter_empty_conv)
  then show "Suc (lines (after_line s)) = lines s" by (simp add: after_line_def d) (simp add: s lines_def)
  show "after_line s = [] \<or> last (after_line s) = newline"
    using assms(2) by (simp add: after_line_def d) (simp add: s split: if_splits)
qed

lemma in_sync_send:
  assumes "one_line srv" "in_sync c" "sendRequest srv ctx request c = (res, c')"
  shows "in_sync c'"
proof (cases "hasError c'")
  case False
  let ?u = "unread (conn c) @ srv (written (conn c)) request"
  have ok: "\<not> hasError c" using sendRequest_cases [OF assms(3)] False by blast
  have u: "newline \<in> set ?u" "last ?u = newline" "lines ?u = lines (unread (conn c)) + 1"
    using one_line_reply [OF assms(1), of "written (conn c)" request]
    by (simp_all, metis last_in_set)
  show ?thesis
    using sendRequest_cases [OF assms(3)] False ok assms(2) u after_line_lines [OF u(1,2)]
    unfolding in_sync_def by (auto simp: add.commute)
qed (simp add: in_sync_def)

lemma in_sync_OK:
  assumes "in_sync c" "IsOK c" "length (written (conn c)) < 2 ^ 64"
  shows "unread (conn c) = []"
proof -
  have "of_nat (lines (unread (conn c))) = (0 :: u64)" "lines (unread (conn c)) < 2 ^ 64"
    using assms by (auto simp: in_sync_def IsOK_def)
  moreover have "unat (of_nat n :: u64) = n" if "n < 2 ^ 64" for n :: nat using that by (simp add: unat_of_nat)
  ultimately have "lines (unread (conn c)) = 0" by (metis unat_0)
  then show ?thesis using assms lines_eq_0 by (auto simp: in_sync_def IsOK_def)
qed

interpretation sync: client_invariant srv "\<lambda>c. one_line srv \<longrightarrow> in_sync c" for srv
proof
  show "one_line srv \<longrightarrow> in_sync (NewIndexClient (fresh_conn fs))" for fs
    by (simp add: in_sync_def NewIndexClient_def fresh_conn_def)
  show "one_line srv \<longrightarrow> in_sync (snd (sendRequest srv ctx request c))" if "one_line srv \<longrightarrow> in_sync c" for c ctx request
    using in_sync_send [of srv c ctx request "fst (sendRequest srv ctx request c)"] that by (metis prod.collapse)
  show "one_line srv \<longrightarrow> in_sync (snd (ctx_err c))" if "one_line srv \<longrightarrow> in_sync c" for c
    using that by (auto simp: ctx_err_def in_sync_def split: prod.splits dest!: fault_keeps)
qed (simp_all add: in_sync_def)

interpretation no_tx: client_invariant srv "\<lambda>c. client_tx c = None" for srv
proof
  show "client_tx (snd (sendRequest srv ctx request c)) = None" if "client_tx c = None" for c ctx request
    using sendRequest_cases [of srv ctx request c "fst (sendRequest srv ctx request c)"] that by (metis prod.collapse)
qed (simp_all add: NewIndexClient_def ctx_err_def case_prod_unfold Let_def)

definition deadline_set :: "IndexClient \<Rightarrow> bool" where
  "deadline_set c \<longleftrightarrow> (hasDeadline c \<longleftrightarrow> conn_deadline (conn c) \<noteq> None)"

lemma sendRequest_deadline:
  assumes "sendRequest srv ctx request c = (r, c')" "deadline_set c"
  shows "deadline_set c' \<and> conn_deadline (conn c') = Deadline ctx"
proof -
  define c0 where "c0 = (if Deadline ctx \<noteq> None \<or> hasDeadline c
     then c\<lparr> conn := (conn c)\<lparr> conn_deadline := Deadline ctx \<rparr>, hasDeadline := Deadline ctx \<noteq> None \<rparr> else c)"
  have c0: "(hasDeadline c0 \<longleftrightarrow> Deadline ctx \<noteq> None) \<and> conn_deadline (conn c0) = Deadline ctx"
    using assms(2) by (auto simp: c0_def deadline_set_def)
  obtain e1 n1 where 1: "fault (conn c0) = (e1, n1)" by (metis prod.collapse)
  obtain e2 n2 where 2: "WriteLine srv n1 request = (e2, n2)" by (metis prod.collapse)
  obtain e3 n3 where 3: "fault n2 = (e3, n3)" by (metis prod.collapse)
  obtain l n4 where 4: "ReadLine n3 = (l, n4)" by (metis prod.collapse)
  note send = assms(1) [unfolded sendRequest_def c0_def [symmetric] Let_def ctx_err_def 1 prod.case]
  have d: "conn_deadline n1 = Deadline ctx" "conn_deadline n2 = Deadline ctx"
      "conn_deadline n3 = Deadline ctx" "conn_deadline n4 = Deadline ctx"
    using fault_keeps [OF 1] WriteLine_cases [OF 2] fault_keeps [OF 3] ReadLine_cases [OF 4] c0 by simp_all
  show ?thesis
    using send c0 d by (cases e1; cases e2; cases e3; cases l) (auto simp: 2 3 4 deadline_set_def split: if_splits)
qed

interpretation deadline: client_invariant srv deadline_set for srv
proof
  show "deadline_set (snd (sendRequest srv ctx request c))" if "deadline_set c" for c ctx request
    using sendRequest_deadline [of srv ctx request c "fst (sendRequest srv ctx request c)"] that by (metis prod.collapse)
  show "deadline_set (snd (ctx_err c))" if "deadline_set c" for c
    using that by (auto simp: ctx_err_def deadline_set_def split: prod.splits dest!: fault_keeps)
qed (simp_all add: deadline_set_def NewIndexClient_def fresh_conn_def)

section \<open>A client that is not OK stays so\<close>

lemma sendRequest_not_OK:
  assumes "one_line srv" "in_sync c" "sendRequest srv ctx request c = (r, c')" "\<not> IsOK c"
    "length (written (conn c)) + 1 < 2 ^ 64"
  shows "\<not> IsOK c'"
proof
  assume ok: "IsOK c'"
  have cs: "closed c' = closed c" "hasError c \<longrightarrow> hasError c'"
    using sendRequest_cases [OF assms(3)] by blast+
  have e: "\<not> hasError c'" "\<not> hasError c" "\<not> closed c" using ok cs by (auto simp: IsOK_def)
  have len: "length (written (conn c')) \<le> length (written (conn c)) + 1"
    using sendRequest_cases [OF assms(3)] e(1) by auto
  have u: "unread (conn c') = []"
    using in_sync_OK [OF in_sync_send [OF assms(1-3)] ok] len assms(5) by simp
  have ne: "numRequests c \<noteq> numResponses c" using assms(4) e by (simp add: IsOK_def)
  have nz: "lines (unread (conn c)) \<noteq> 0"
  proof
    assume "lines (unread (conn c)) = 0"
    then show False using assms(2) e ne by (simp add: in_sync_def)
  qed
  then have un: "unread (conn c) \<noteq> []" by auto
  let ?u = "unread (conn c) @ srv (written (conn c)) request"
  have l: "newline \<in> set ?u" "last ?u = newline" "lines ?u = lines (unread (conn c)) + 1"
    using one_line_reply [OF assms(1), of "written (conn c)" request] by (simp_all, metis last_in_set)
  then have "after_line ?u \<noteq> []"
    using after_line_lines(1) [OF l(1,2)] l(3) nz by auto
  then show False
    using sendRequest_cases [OF assms(3)] e u un one_line_reply [OF assms(1), of "written (conn c)" request] by auto
qed

section \<open>The lines of an insertion\<close>

definition insert_line :: "u32 \<times> u32 list \<Rightarrow> string" where
  "insert_line fp = ''insert '' @ format_uint (unat (fst fp)) @ '' '' @ EncodeFingerprint (snd fp) False"

lemma sendRequest_written:
  assumes "sendRequest srv ctx request c = (r, c')"
  shows "written (conn c') = written (conn c) \<or> written (conn c') = written (conn c) @ [request]"
    "r = Inr s \<Longrightarrow> written (conn c') = written (conn c) @ [request]"
proof -
  define c0 where "c0 = (if Deadline ctx \<noteq> None \<or> hasDeadline c
     then c\<lparr> conn := (conn c)\<lparr> conn_deadline := Deadline ctx \<rparr>, hasDeadline := Deadline ctx \<noteq> None \<rparr> else c)"
  obtain e1 n1 where 1: "fault (conn c0) = (e1, n1)" by (metis prod.collapse)
  obtain e2 n2 where 2: "WriteLine srv n1 request = (e2, n2)" by (metis prod.collapse)
  obtain e3 n3 where 3: "fault n2 = (e3, n3)" by (metis prod.collapse)
  obtain l n4 where 4: "ReadLine n3 = (l, n4)" by (metis prod.collapse)
  note send = assms [unfolded sendRequest_def c0_def [symmetric] Let_def ctx_err_def 1 prod.case]
  have w: "written n1 = written (conn c)" "written n2 = written n1 \<or> written n2 = written n1 @ [request]"
      "written n3 = written n2" "written n4 = written n2"
    using fault_keeps [OF 1] 2 fault_keeps [OF 3] ReadLine_cases [OF 4]
    by (auto simp: c0_def WriteLine_def deliver_def Let_def split: prod.splits if_splits dest!: fault_keeps)
  show "written (conn c') = written (conn c) \<or> written (conn c') = written (conn c) @ [request]"
    using send w by (cases e1; cases e2; cases e3; cases l) (auto simp: 2 3 4 c0_def split: if_splits)
  show "r = Inr s \<Longrightarrow> written (conn c') = written (conn c) @ [request]"
    using sendRequest_cases [OF assms] by auto
qed

lemma ctx_err_written: "ctx_err c = (e, c') \<Longrightarrow> written (conn c') = written (conn c)"
  by (auto simp: ctx_err_def split: prod.splits dest!: fault_keeps)

lemma Tx_Insert_written:
  assumes "Tx_Insert srv ctx i hashes (tx, c) = (e, tx', c')" "\<not> tx_done tx"
  shows "tx' = tx" "written (conn c') = written (conn c) \<or> written (conn c') = written (conn c) @ [insert_line (i, hashes)]"
    "e = None \<Longrightarrow> written (conn c') = written (conn c) @ [insert_line (i, hashes)]"
  using assms
  by (auto simp: Tx_Insert_def Let_def insert_line_def split: prod.splits if_splits sum.splits
      dest!: ctx_err_written dest: sendRequest_written)

lemma Tx_finish_written:
  assumes "Tx_finish request srv ctx (tx, c) = (e, tx', c')" "\<not> tx_done tx"
  shows "written (conn c') = written (conn c) \<or> written (conn c') = written (conn c) @ [request]"
    "e = None \<Longrightarrow> written (conn c') = written (conn c) @ [request]"
  using assms
  by (auto simp: Tx_finish_def Let_def split: prod.splits if_splits sum.splits
      dest!: ctx_err_written dest: sendRequest_written)

lemma Insert_loop_written:
  "Insert_loop srv ctx fps (tx, c) = (r, c') \<Longrightarrow> \<not> tx_done tx \<Longrightarrow>
   \<exists>ws. written (conn c') = written (conn c) @ ws \<and>
     (prefix ws (map insert_line fps @ [''commit'']) \<or>
      (\<exists>ws'. ws = ws' @ [''rollback''] \<and> prefix ws' (map insert_line fps))) \<and>
     (r = Inr () \<longrightarrow> ws = map insert_line fps @ [''commit''])"
proof (induction fps arbitrary: c)
  case Nil
  obtain e tx' c1 where 1: "Tx_Commit srv ctx (tx, c) = (e, tx', c1)" by (metis prod_cases3)
  then have "c1 = c'" "r = Inr () \<longleftrightarrow> e = None" using Nil by (auto split: option.splits)
  then show ?case using Tx_finish_written [OF 1 [unfolded Tx_Commit_def] Nil(2)] by auto
next
  case (Cons fp fps)
  obtain i hashes where fp: "fp = (i, hashes)" by (cases fp)
  obtain e tx1 c1 where ins: "Tx_Insert srv ctx i hashes (tx, c) = (e, tx1, c1)" by (metis prod_cases3)
  note w = Tx_Insert_written [OF ins Cons.prems(2), folded fp]
  show ?case
  proof (cases e)
    case None
    then have "Insert_loop srv ctx fps (tx, c1) = (r, c')" using Cons.prems by (simp add: fp ins w(1))
    from Cons.IH [OF this Cons.prems(2)] obtain ws where ws: "written (conn c') = written (conn c1) @ ws"
      "prefix ws (map insert_line fps @ [''commit'']) \<or> (\<exists>ws'. ws = ws' @ [''rollback''] \<and> prefix ws' (map insert_line fps))"
      "r = Inr () \<longrightarrow> ws = map insert_line fps @ [''commit'']" by blast
    then show ?thesis
      using w(3) [OF None] by (intro exI [of _ "insert_line fp # ws"]) auto
  next
    case (Some err)
    obtain e2 tx2 c2 where rb: "Tx_Rollback srv ctx (tx, c1) = (e2, tx2, c2)" by (metis prod_cases3)
    then have "c2 = c'" "r = Inl err" using Cons.prems Some by (simp_all add: fp ins w(1))
    then show ?thesis
      using w(2) Tx_finish_written(1) [OF rb [unfolded Tx_Rollback_def] Cons.prems(2)] by auto
  qed
qed

interpretation stuck: client_keeps srv
  "\<lambda>c. one_line srv \<longrightarrow> in_sync c \<and> (\<not> IsOK c \<or> 2 ^ 64 \<le> length (written (conn c)) + 1)" for srv
proof
  let ?I = "\<lambda>c. one_line srv \<longrightarrow> in_sync c \<and> (\<not> IsOK c \<or> 2 ^ 64 \<le> length (written (conn c)) + 1)"
  show "?I (snd (sendRequest srv ctx request c))" if I: "?I c" for c ctx request
  proof (cases "one_line srv")
    case True
    obtain r c' where c': "sendRequest srv ctx request c = (r, c')" by (metis prod.collapse)
    have "length (written (conn c)) \<le> length (written (conn c'))"
      using sendRequest_written(1) [OF c'] by auto
    moreover have "in_sync c'" using I True in_sync_send [OF True _ c'] by blast
    moreover have "\<not> IsOK c'" if "\<not> 2 ^ 64 \<le> length (written (conn c)) + 1"
      using I True that sendRequest_not_OK [OF True _ c'] by simp
    ultimately show ?thesis unfolding c' snd_conv by (meson add_le_mono1 le_trans)
  qed simp
  show "?I (snd (ctx_err c))" if "?I c" for c
    using that sync.err [of srv c] by (auto simp: ctx_err_def IsOK_def split: prod.splits dest!: fault_keeps)
qed (simp_all add: in_sync_def IsOK_def)

lemma client_unread:
  assumes "client_reachable srv (c, txs)" "one_line srv" "length (written (conn c)) < 2 ^ 64" "IsOK c"
  shows "unread (conn c) = []"
  using sync.reachable [OF assms(1)] assms in_sync_OK [of c] by simp

lemma client_reply:
  assumes "client_reachable srv (c, txs)" "one_line srv" "length (written (conn c)) < 2 ^ 64" "IsOK c"
    and send: "sendRequest srv ctx request c = (Inr s, c')"
  shows "reply_line (srv (written (conn c)) request) = kPrefixOK @ s \<and> unread (conn c') = [] \<and> IsOK c'"
proof -
  have u: "unread (conn c) = []" by (rule client_unread [OF assms(1-4)])
  obtain w where w: "srv (written (conn c)) request = w @ [newline]" "newline \<notin> set w"
    using assms(2) unfolding one_line_def by blast
  then have "dropWhile (\<lambda>x. x \<noteq> newline) (w @ [newline]) = [newline]" by (subst dropWhile_append2) auto
  then have after: "after_line (srv (written (conn c)) request) = []" by (simp add: after_line_def w(1))
  have *: "closed c' = closed c" "hasError c' = hasError c" "numRequests c' = numRequests c + 1"
      "numResponses c' = numResponses c + 1" "unread (conn c') = []"
      "has_prefix (reply_line (srv (written (conn c)) request)) kPrefixOK"
      "s = trim_prefix (reply_line (srv (written (conn c)) request)) kPrefixOK"
    using sendRequest_cases [OF send] assms(4) u after by (auto simp: Let_def IsOK_def split: if_splits)
  then have "reply_line (srv (written (conn c)) request) = kPrefixOK @ s"
    by (metis append_take_drop_id has_prefix_take trim_prefix_def)
  then show ?thesis using * assms(4) by (simp add: IsOK_def)
qed

lemma Insert_lines:
  "\<exists>ws. written (conn (snd (Insert srv ctx fps c))) = written (conn c) @ ws \<and>
     (prefix ws ([''begin''] @ map insert_line fps @ [''commit'']) \<or>
      (\<exists>ws'. ws = ws' @ [''rollback''] \<and> prefix ws' ([''begin''] @ map insert_line fps))) \<and>
     (case fst (Insert srv ctx fps c) of
        Inl _ \<Rightarrow> True
      | Inr _ \<Rightarrow> ws = (if fps = [] then [] else [''begin''] @ map insert_line fps @ [''commit'']))"
proof (cases "fps = []")
  case False
  obtain rb c1 where b: "BeginTx srv ctx c = (rb, c1)" by (metis prod.collapse)
  show ?thesis
  proof (cases rb)
    case (Inl e)
    have "written (conn c1) = written (conn c) \<or> written (conn c1) = written (conn c) @ [''begin'']"
      using b by (auto simp: BeginTx_def Tx_begin_def Let_def split: if_splits prod.splits sum.splits option.splits
          dest!: ctx_err_written dest: sendRequest_written)
    then show ?thesis using False by (auto simp: Insert_def b Inl)
  next
    case (Inr tx)
    have w1: "written (conn c1) = written (conn c) @ [''begin'']" "\<not> tx_done tx"
      using b Inr by (auto simp: BeginTx_def Tx_begin_def Let_def split: if_splits prod.splits sum.splits option.splits
          dest!: ctx_err_written dest: sendRequest_written(2))
    obtain r c' where l: "Insert_loop srv ctx fps (tx, c1) = (r, c')" by (metis prod.collapse)
    from Insert_loop_written [OF l w1(2)] obtain ws where ws: "written (conn c') = written (conn c1) @ ws"
      "prefix ws (map insert_line fps @ [''commit'']) \<or> (\<exists>ws'. ws = ws' @ [''rollback''] \<and> prefix ws' (map insert_line fps))"
      "r = Inr () \<longrightarrow> ws = map insert_line fps @ [''commit'']" by blast
    show ?thesis
      using ws w1 False by (intro exI [of _ "''begin'' # ws"]) (auto simp: Insert_def b Inr l split: sum.splits)
  qed
qed (simp add: Insert_def)

section \<open>Properties\<close>

text \<open>
  C2. As long as the server answers every request with one line, a client that reports itself
  OK has read every reply: in every reachable state (of fewer than \<open>2^64\<close> requests) nothing
  is left unread, and a request that succeeds then returns the reply to this very request, not
  an older one, and leaves the client OK.
\<close>

theorem client_in_sync:
  assumes "client_reachable srv (c, txs)" "one_line srv" "length (written (conn c)) < 2 ^ 64" "IsOK c"
  shows "unread (conn c) = [] \<and>
    (\<forall>ctx request s c'. sendRequest srv ctx request c = (Inr s, c') \<longrightarrow>
       reply_line (srv (written (conn c)) request) = kPrefixOK @ s \<and> unread (conn c') = [] \<and> IsOK c')"
  using client_unread [OF assms] client_reply [OF assms] by blast

theorem client_in_sync_witness:
  "\<exists>srv c. client_reachable srv (c, []) \<and> IsOK c \<and> one_line srv \<and> unread (conn c) = []"
proof -
  let ?c = "NewIndexClient (fresh_conn [])"
  define srv where "srv = (\<lambda>(h :: string list) (r :: string). ''OK 1'' @ [newline])"
  have one: "one_line srv" by (auto simp: one_line_def srv_def newline_def)
  have "unread (conn ?c) = []"
    using client_in_sync [OF client_reachable.new_client [of srv "[]"] one]
    by (simp add: IsOK_def NewIndexClient_def fresh_conn_def)
  moreover have "IsOK ?c" by (simp add: IsOK_def NewIndexClient_def)
  ultimately show ?thesis using one client_reachable.new_client by blast
qed

text \<open>
  A client that is no longer OK never becomes OK again, whatever calls are made on it (up to
  \<open>2^64\<close> requests): a reply that was left unread is never silently taken for a later one.
\<close>

theorem client_stays_not_OK:
  assumes "client_reachable srv (c, txs)" "one_line srv" "\<not> IsOK c" "client_step srv (c, txs) (c', txs')"
    "length (written (conn c')) + 1 < 2 ^ 64"
  shows "\<not> IsOK c'"
  using stuck.keep_step [OF assms(4)] sync.reachable [OF assms(1)] assms by simp

theorem client_stays_not_OK_witness:
  "\<exists>srv c c'. client_reachable srv (c, []) \<and> \<not> IsOK c \<and> client_step srv (c, []) (c', []) \<and> \<not> IsOK c'"
proof -
  define srv where "srv = (\<lambda>(h :: string list) (r :: string). ''OK 1'' @ [newline])"
  have one: "one_line srv" by (auto simp: one_line_def srv_def newline_def)
  let ?ctx = "\<lparr> Deadline = None \<rparr>" and ?c0 = "NewIndexClient (fresh_conn [True])"
  define c where "c = snd (Close srv ?ctx (NewIndexClient (fresh_conn [])))"
  have "client_step srv (NewIndexClient (fresh_conn []), []) (c, [])" unfolding c_def by (rule client_step.intros)
  then have reach: "client_reachable srv (c, [])" by (rule client_reachable.client_call [OF client_reachable.new_client])
  have nok: "\<not> IsOK c" by (simp add: c_def Close_def NewIndexClient_def fresh_conn_def fault_def IsOK_def)
  have st: "client_step srv (c, []) (snd (Close srv ?ctx c), [])" by (rule client_step.intros)
  have len: "length (written (conn (snd (Close srv ?ctx c)))) + 1 < 2 ^ 64"
    by (simp add: c_def Close_def NewIndexClient_def fresh_conn_def fault_def)
  have "\<not> IsOK (snd (Close srv ?ctx c))" by (rule client_stays_not_OK [OF reach one nok st len])
  then show ?thesis using reach nok st by blast
qed

text \<open>
  C5. What \<open>Insert\<close> sends. Whatever fails, the lines the server receives are a prefix of
  \<open>begin\<close>, one \<open>insert\<close> per fingerprint in order, \<open>commit\<close>; or a prefix without the commit
  followed by \<open>rollback\<close>, so a failed insertion is never committed. Without an error the whole
  script is sent, and nothing when there are no fingerprints.
\<close>

theorem Insert_script:
  "\<exists>ws. written (conn (snd (Insert srv ctx fps c))) = written (conn c) @ ws \<and>
     (prefix ws ([''begin''] @ map insert_line fps @ [''commit'']) \<or>
      (\<exists>ws'. ws = ws' @ [''rollback''] \<and> prefix ws' ([''begin''] @ map insert_line fps))) \<and>
     (case fst (Insert srv ctx fps c) of
        Inl _ \<Rightarrow> True
      | Inr _ \<Rightarrow> ws = (if fps = [] then [] else [''begin''] @ map insert_line fps @ [''commit'']))"
  by (rule Insert_lines)

text \<open>
  \<open>BeginTx\<close> never records the transaction it starts: in every reachable state \<open>c.tx\<close> is nil,
  so a second \<open>BeginTx\<close> is never refused with \<open>ErrTxActive\<close> and \<open>Close\<close> sends no request.
\<close>

theorem client_tx_never_recorded:
  assumes "client_reachable srv (c, txs)"
  shows "client_tx c = None \<and> fst (BeginTx srv ctx c) \<noteq> Inl ErrTxActive \<and>
    written (conn (snd (Close srv ctx c))) = written (conn c)"
proof -
  have none: "client_tx c = None" using no_tx.reachable [OF assms] by simp
  moreover have "e \<noteq> ErrTxActive" if "sendRequest srv ctx ''begin'' c' = (Inl e, c'')" for e c' c''
    using that by (auto simp: sendRequest_def Let_def split: prod.splits if_splits option.splits)
  ultimately have "fst (BeginTx srv ctx c) \<noteq> Inl ErrTxActive"
    by (auto simp: BeginTx_def Tx_begin_def Let_def split: prod.splits if_splits option.splits sum.splits)
  moreover have "written (conn (snd (Close srv ctx c))) = written (conn c)"
    using none by (auto simp: Close_def Let_def split: prod.splits dest!: fault_keeps)
  ultimately show ?thesis using none by blast
qed

theorem client_tx_never_recorded_witness:
  "\<exists>srv c txs. client_reachable srv (c, txs) \<and> txs \<noteq> [] \<and> client_tx c = None"
proof -
  define srv where "srv = (\<lambda>(h :: string list) (r :: string). ''OK '' @ [newline])"
  let ?ctx = "\<lparr> Deadline = None \<rparr>" and ?c0 = "NewIndexClient (fresh_conn [])"
  have "fst (BeginTx srv ?ctx ?c0) = Inr \<lparr> tx_done = False \<rparr>"
    unfolding srv_def by code_simp
  then have "client_step srv (?c0, []) (snd (BeginTx srv ?ctx ?c0), [] @ [\<lparr> tx_done = False \<rparr>])"
    by (intro client_step.intros(7)) (simp only: prod_eq_iff fst_conv snd_conv)
  then have "client_reachable srv (snd (BeginTx srv ?ctx ?c0), [] @ [\<lparr> tx_done = False \<rparr>])"
    by (rule client_reachable.client_call [OF client_reachable.new_client])
  from client_tx_never_recorded [OF this] this show ?thesis by blast
qed

text \<open>
  Deadlines do not leak from one request to the next: in every reachable state a request sets
  the connection's deadline to the one of its own context, clearing an earlier one.
\<close>

theorem request_deadline:
  assumes "client_reachable srv (c, txs)"
  shows "conn_deadline (conn (snd (sendRequest srv ctx request c))) = Deadline ctx"
  using deadline.reachable [OF assms] sendRequest_deadline [of srv ctx request c]
  by (metis fst_conv prod.collapse)

theorem request_deadline_witness:
  "\<exists>srv c. client_reachable srv (c, []) \<and>
    conn_deadline (conn (snd (sendRequest srv \<lparr> Deadline = Some 7 \<rparr> ''echo'' c))) = Some 7"
  using request_deadline [OF client_reachable.new_client [of "\<lambda>h r. []" "[]"], of "\<lparr> Deadline = Some 7 \<rparr>" "''echo''"]
    client_reachable.new_client [of "\<lambda>h r. []" "[]"] by auto

text \<open>
  The text formats of the protocol are read back: \<open>DecodeFingerprint\<close> inverts
  \<open>EncodeFingerprint\<close>, with and without braces, on every non-empty list of hashes.
\<close>

theorem DecodeFingerprint_EncodeFingerprint:
  assumes "hashes \<noteq> []"
  shows "DecodeFingerprint (EncodeFingerprint hashes braces) = Inr hashes"
  by (rule DecodeFingerprint_EncodeFingerprint_eq [OF assms])

theorem DecodeFingerprint_EncodeFingerprint_witness:
  "DecodeFingerprint (EncodeFingerprint [0xffffffff, 1, 2, 3] True) = Inr [0xffffffff, 1, 2, 3]"
  using DecodeFingerprint_EncodeFingerprint [of "[0xffffffff, 1, 2, 3]" True] by simp

end
