(* ===== verification/Updater.thy ===== *)
theory Updater
  imports IndexClient
begin

text \<open>
  The users of the index client in \<open>pkg/fpindex\<close>: \<open>GetLastFingerprintID\<close> (\<open>index.go\<close>), the
  callbacks of the connection pool (\<open>client_pool.go\<close>), the proxy's handlers (\<open>proxy.go\<close>) and the
  loop that feeds new fingerprints to the index (\<open>updater.go\<close>). Times and durations are integers
  in nanoseconds. The database, the dialer and the pool itself are parameters: what the code
  gets from them is an argument.
\<close>

section \<open>Configuration\<close>

definition Millisecond :: int where "Millisecond = 1000000"
definition Second :: int where "Second = 1000 * Millisecond"
definition Minute :: int where "Minute = 60 * Second"

lemmas durations = Millisecond_def Second_def Minute_def

record IndexConfig =
  Host :: string
  Port :: int
  MaxKeepAlive :: int
  PingInterval :: int

definition NewIndexConfig :: IndexConfig where
  "NewIndexConfig = \<lparr> Host = ''localhost'', Port = 6080, MaxKeepAlive = 60 * Second, PingInterval = 1 * Second \<rparr>"

section \<open>The last fingerprint\<close>

text \<open>\<open>GetLastFingerprintID\<close> works on any \<open>Index\<close>: \<open>get\<close> is its method \<open>GetAttribute\<close>.\<close>

definition GetLastFingerprintID ::
  "(string \<Rightarrow> 's \<Rightarrow> (client_error + string) \<times> 's) \<Rightarrow> 's \<Rightarrow> (client_error + u32) \<times> 's" where
  "GetLastFingerprintID get s =
     (case get ''max_document_id'' s of
        (Inl e, s) \<Rightarrow> (Inl e, s)
      | (Inr strValue, s) \<Rightarrow>
          (if strValue = '''' then Inr 0
           else case parse_uint 32 strValue of Inl e \<Rightarrow> Inl (NumError e) | Inr v \<Rightarrow> Inr (of_nat v), s))"

section \<open>The pool\<close>

record PooledObject =
  Object :: IndexClient
  CreateTime :: int
  LastBorrowTime :: int

text \<open>\<open>Connect\<close>: \<open>dial\<close> is the outcome of \<open>DialContext\<close>.\<close>

definition ConnectWithConfig :: "unit + Conn \<Rightarrow> client_error + IndexClient" where
  "ConnectWithConfig dial = (case dial of Inl _ \<Rightarrow> Inl DialError | Inr cn \<Rightarrow> Inr (NewIndexClient cn))"

definition MakeObject :: "int \<Rightarrow> unit + Conn \<Rightarrow> client_error + PooledObject" where
  "MakeObject now dial =
     (case ConnectWithConfig dial of
        Inl e \<Rightarrow> Inl e
      | Inr client \<Rightarrow> Inr \<lparr> Object = client, CreateTime = now, LastBorrowTime = now \<rparr>)"

definition DestroyObject :: "server \<Rightarrow> Context \<Rightarrow> PooledObject \<Rightarrow> client_error option \<times> PooledObject" where
  "DestroyObject srv ctx obj = (let (e, c) = Close srv ctx (Object obj) in (e, obj\<lparr> Object := c \<rparr>))"

definition ValidateObject ::
  "server \<Rightarrow> Context \<Rightarrow> IndexConfig \<Rightarrow> int \<Rightarrow> PooledObject \<Rightarrow> bool \<times> PooledObject" where
  "ValidateObject srv ctx cfg now obj =
     (if \<not> IsOK (Object obj) then (False, obj)
      else if now - CreateTime obj > MaxKeepAlive cfg then (False, obj)
      else if now - LastBorrowTime obj > PingInterval cfg
      then (case Ping srv ctx (Object obj) of
              (Inl _, c) \<Rightarrow> (False, obj\<lparr> Object := c \<rparr>)
            | (Inr _, c) \<Rightarrow> (True, obj\<lparr> Object := c \<rparr>))
      else (True, obj))"

definition ActivateObject :: "PooledObject \<Rightarrow> client_error option" where
  "ActivateObject obj = (if \<not> IsOK (Object obj) then Some ErrClientNotOK else None)"

definition PassivateObject :: "PooledObject \<Rightarrow> client_error option" where
  "PassivateObject obj = (if \<not> IsOK (Object obj) then Some ErrClientNotOK else None)"

text \<open>The pool's \<open>Search\<close> and \<open>Insert\<close>: \<open>borrow\<close> is the outcome of \<open>BorrowObject\<close>, and the
  second result the client that is handed back with \<open>ReturnObject\<close>.\<close>

definition Pool_Search ::
  "server \<Rightarrow> Context \<Rightarrow> client_error + IndexClient \<Rightarrow> u32 list \<Rightarrow> (client_error + pb_Result list) \<times> IndexClient option" where
  "Pool_Search srv ctx borrow hashes =
     (case borrow of Inl e \<Rightarrow> (Inl e, None) | Inr c \<Rightarrow> map_prod id Some (Search srv ctx hashes c))"

definition Pool_Insert ::
  "server \<Rightarrow> Context \<Rightarrow> client_error + IndexClient \<Rightarrow> (u32 \<times> u32 list) list \<Rightarrow> (client_error + unit) \<times> IndexClient option" where
  "Pool_Insert srv ctx borrow fps =
     (case borrow of Inl e \<Rightarrow> (Inl e, None) | Inr c \<Rightarrow> map_prod id Some (Insert srv ctx fps c))"

section \<open>The proxy\<close>

text \<open>\<open>context.WithTimeout\<close> at time \<open>now\<close>: the earlier of the two deadlines\<close>

definition WithTimeout :: "int \<Rightarrow> Context \<Rightarrow> int \<Rightarrow> Context" where
  "WithTimeout now ctx timeout =
     (let d = now + timeout in
      \<lparr> Deadline = Some (case Deadline ctx of None \<Rightarrow> d | Some d' \<Rightarrow> min d d') \<rparr>)"

definition Proxy_Search ::
  "server \<Rightarrow> int \<Rightarrow> int \<Rightarrow> Context \<Rightarrow> client_error + IndexClient \<Rightarrow> u32 list \<Rightarrow>
   (client_error + pb_Result list) \<times> IndexClient option" where
  "Proxy_Search srv requestTimeout now ctx borrow hashes =
     (let ctx = (if requestTimeout > 0 then WithTimeout now ctx requestTimeout else ctx)
      in Pool_Search srv ctx borrow hashes)"

definition Proxy_Insert ::
  "server \<Rightarrow> int \<Rightarrow> int \<Rightarrow> Context \<Rightarrow> client_error + IndexClient \<Rightarrow> (u32 \<times> u32 list) list \<Rightarrow>
   (client_error + unit) \<times> IndexClient option" where
  "Proxy_Insert srv requestTimeout now ctx borrow fps =
     (let ctx = (if requestTimeout > 0 then WithTimeout now ctx requestTimeout else ctx)
      in Pool_Insert srv ctx borrow fps)"

section \<open>The updater\<close>

definition UpdateBatchSize :: int where "UpdateBatchSize = 10000"
definition NoDelay :: int where "NoDelay = 0 * Millisecond"
definition MinDelay :: int where "MinDelay = 10 * Millisecond"
definition MaxDelay :: int where "MaxDelay = Minute"

record Updater =
  delay :: int
  idx_client :: "IndexClient option"

text \<open>What one iteration of the loop meets: the dialer, the clock, and the database's answer to
  \<open>GetNextFingerprints(lastID, true, limit)\<close>.\<close>

record Round =
  dial :: "unit + Conn"
  clock :: int
  next_fingerprints :: "u32 \<Rightarrow> int \<Rightarrow> unit + (u32 \<times> u32 list) list"

text \<open>One iteration: how long it sleeps first, and the state after it, \<open>None\<close> when \<open>log.Fatal\<close>
  ends the process.\<close>

definition updater_sleep :: "Updater \<Rightarrow> int" where
  "updater_sleep u = (if delay u > NoDelay then (if delay u > MaxDelay then MaxDelay else delay u) else 0)"

definition updater_work :: "server \<Rightarrow> Round \<Rightarrow> Updater \<Rightarrow> IndexClient \<Rightarrow> Updater" where
  "updater_work srv rd u c =
     (let ctx = WithTimeout (clock rd) \<lparr> Deadline = None \<rparr> (60 * Second) in
      case GetLastFingerprintID (GetAttribute srv ctx) c of
        (Inl _, c) \<Rightarrow> u\<lparr> delay := MaxDelay, idx_client := Some c \<rparr>
      | (Inr lastID, c) \<Rightarrow>
          (case next_fingerprints rd lastID UpdateBatchSize of
             Inl _ \<Rightarrow> u\<lparr> delay := MaxDelay, idx_client := Some c \<rparr>
           | Inr fingerprints \<Rightarrow>
               (case Insert srv ctx fingerprints c of
                  (Inl _, c) \<Rightarrow> u\<lparr> delay := MaxDelay, idx_client := Some c \<rparr>
                | (Inr _, c) \<Rightarrow>
                    u\<lparr> delay := (if length fingerprints = 0
                                 then if delay u > NoDelay then delay u + (delay u * 10) div 100 else MinDelay
                                 else NoDelay),
                       idx_client := Some c \<rparr>)))"

definition updater_round :: "server \<Rightarrow> Round \<Rightarrow> Updater \<Rightarrow> Updater option" where
  "updater_round srv rd u =
     (let u = (if delay u > NoDelay \<and> delay u > MaxDelay then u\<lparr> delay := MaxDelay \<rparr> else u) in
      case (case idx_client u of None \<Rightarrow> ConnectWithConfig (dial rd) | Some c \<Rightarrow> Inr c) of
        Inl _ \<Rightarrow> None
      | Inr c \<Rightarrow>
          if \<not> IsOK c then Some (u\<lparr> idx_client := None, delay := MaxDelay \<rparr>)
          else Some (updater_work srv rd u c))"

section \<open>The runs of the updater\<close>

inductive updater_reachable :: "server \<Rightarrow> Updater \<Rightarrow> bool" for srv :: server where
  updater_start: "updater_reachable srv \<lparr> delay = 0, idx_client = None \<rparr>"
| updater_next: "updater_reachable srv u \<Longrightarrow> (\<forall>cn. dial rd = Inr cn \<longrightarrow> (\<exists>fs. cn = fresh_conn fs)) \<Longrightarrow>
    updater_round srv rd u = Some u' \<Longrightarrow> updater_reachable srv u'"

lemma GetLast_step: "GetLastFingerprintID (GetAttribute srv ctx) c = (r, c') \<Longrightarrow> client_step srv (c, txs) (c', txs)"
  using client_step.intros(2) [of srv c txs ctx "''max_document_id''"]
  by (auto simp: GetLastFingerprintID_def split: prod.splits sum.splits if_splits)

lemma Insert_step: "Insert srv ctx fps c = (r, c') \<Longrightarrow> client_step srv (c, txs) (c', txs)"
  using client_step.intros(5) [of srv c txs ctx fps] by simp

lemma updater_work_client:
  assumes "client_reachable srv (c, [])" "idx_client (updater_work srv rd u c) = Some c'"
  shows "client_reachable srv (c', [])"
proof -
  let ?ctx = "WithTimeout (clock rd) \<lparr> Deadline = None \<rparr> (60 * Second)"
  obtain r c1 where 1: "GetLastFingerprintID (GetAttribute srv ?ctx) c = (r, c1)" by (metis prod.collapse)
  have c1: "client_reachable srv (c1, [])"
    by (rule client_reachable.client_call [OF assms(1) GetLast_step [OF 1]])
  show ?thesis
  proof (cases r)
    case (Inl e)
    then show ?thesis using assms(2) c1 by (simp add: updater_work_def Let_def 1)
  next
    case (Inr lastID)
    show ?thesis
    proof (cases "next_fingerprints rd lastID UpdateBatchSize")
      case (Inl e)
      then show ?thesis using assms(2) c1 Inr by (simp add: updater_work_def Let_def 1)
    next
      case fps: (Inr fps)
      obtain r2 c2 where 2: "Insert srv ?ctx fps c1 = (r2, c2)" by (metis prod.collapse)
      have "client_reachable srv (c2, [])"
        by (rule client_reachable.client_call [OF c1 Insert_step [OF 2]])
      then show ?thesis
        using assms(2) Inr fps by (cases r2) (simp_all add: updater_work_def Let_def 1 2)
    qed
  qed
qed

lemma updater_client_reachable:
  "updater_reachable srv u \<Longrightarrow> idx_client u = Some c \<Longrightarrow> client_reachable srv (c, [])"
proof (induction arbitrary: c rule: updater_reachable.induct)
  case (updater_next u rd u')
  define v where "v = (if delay u > NoDelay \<and> delay u > MaxDelay then u\<lparr> delay := MaxDelay \<rparr> else u)"
  have v: "idx_client v = idx_client u" by (simp add: v_def)
  define start where "start = (case idx_client u of None \<Rightarrow> ConnectWithConfig (dial rd) | Some c \<Rightarrow> Inr c)"
  have rnd: "updater_round srv rd u = (case start of Inl _ \<Rightarrow> None | Inr c \<Rightarrow>
      if \<not> IsOK c then Some (v\<lparr> idx_client := None, delay := MaxDelay \<rparr>) else Some (updater_work srv rd v c))"
    unfolding updater_round_def v_def [symmetric] start_def by (simp add: Let_def v)
  obtain c0 where c0: "start = Inr c0" "IsOK c0" "u' = updater_work srv rd v c0"
    using updater_next.hyps(3) updater_next.prems unfolding rnd by (auto split: sum.splits if_splits)
  have "client_reachable srv (c0, [])"
  proof (cases "idx_client u")
    case None
    then obtain fs where "c0 = NewIndexClient (fresh_conn fs)"
      using c0(1) updater_next.hyps(2) by (auto simp: start_def ConnectWithConfig_def split: sum.splits)
    then show ?thesis by (simp add: client_reachable.new_client)
  next
    case (Some c1)
    then show ?thesis using updater_next.IH c0(1) by (simp add: start_def)
  qed
  then show ?case using updater_work_client c0(3) updater_next.prems by blast
qed simp

text \<open>The delays a round can set.\<close>

definition clamped :: "int \<Rightarrow> int" where
  "clamped d = (if d > NoDelay \<and> d > MaxDelay then MaxDelay else d)"

lemma updater_work_delay:
  "delay (updater_work srv rd u c) \<in>
    {MaxDelay, NoDelay, if delay u > NoDelay then delay u + (delay u * 10) div 100 else MinDelay}"
  by (simp add: updater_work_def Let_def split: prod.splits sum.splits)

lemma updater_round_delay:
  assumes "updater_round srv rd u = Some u'"
  shows "delay u' \<in> {MaxDelay, NoDelay,
    if clamped (delay u) > NoDelay then clamped (delay u) + (clamped (delay u) * 10) div 100 else MinDelay}"
proof -
  define v where "v = (if delay u > NoDelay \<and> delay u > MaxDelay then u\<lparr> delay := MaxDelay \<rparr> else u)"
  have "delay v = clamped (delay u)" by (simp add: v_def clamped_def)
  then show ?thesis
    using assms updater_work_delay [of srv rd v] unfolding updater_round_def v_def [symmetric] Let_def
    by (auto split: sum.splits if_splits) metis+
qed

lemma updater_delay_range: "updater_reachable srv u \<Longrightarrow> delay u = 0 \<or> MinDelay \<le> delay u"
proof (induction rule: updater_reachable.induct)
  case (updater_next u rd u')
  then show ?case
    using updater_round_delay [OF updater_next.hyps(3)]
    by (auto simp: clamped_def durations MinDelay_def MaxDelay_def NoDelay_def split: if_splits)
qed simp

section \<open>Properties\<close>

text \<open>
  The updater's back-off. Starting with no delay, whatever the rounds meet, a round never
  sleeps longer than a minute; after it the delay is a minute (something failed), zero (new
  fingerprints were added) or, when there was nothing to add, 10 ms at first and then a tenth
  more than the time just slept, so an idle updater sleeps longer each time until the cap.
\<close>

theorem updater_backoff:
  assumes "updater_reachable srv u" "updater_round srv rd u = Some u'"
  shows "0 \<le> updater_sleep u \<and> updater_sleep u \<le> MaxDelay \<and>
    (delay u' = MaxDelay \<or> delay u' = NoDelay \<or>
     updater_sleep u = 0 \<and> delay u' = MinDelay \<or>
     0 < updater_sleep u \<and> delay u' = updater_sleep u + updater_sleep u div 10 \<and> updater_sleep u < delay u') \<and>
    updater_sleep u' \<le> MaxDelay"
proof -
  have tenth: "d * 10 div 100 = d div 10" for d :: int by simp
  have grow: "d < d + d div 10" if "MinDelay \<le> d" for d
    using that by (simp add: MinDelay_def durations)
  have sleep: "updater_sleep u = clamped (delay u) \<or> delay u \<le> 0 \<and> updater_sleep u = 0" "updater_sleep u' \<le> MaxDelay"
    "0 \<le> updater_sleep u" "updater_sleep u \<le> MaxDelay"
    by (auto simp: updater_sleep_def clamped_def NoDelay_def MaxDelay_def durations)
  have "delay u = 0 \<or> MinDelay \<le> clamped (delay u)"
    using updater_delay_range [OF assms(1)] by (auto simp: clamped_def MinDelay_def MaxDelay_def durations)
  then show ?thesis
    using updater_round_delay [OF assms(2)] sleep grow [of "clamped (delay u)"]
    by (auto simp: tenth NoDelay_def MinDelay_def MaxDelay_def durations clamped_def)
qed

definition one_round :: Round where
  "one_round = \<lparr> dial = Inr (fresh_conn []), clock = 0, next_fingerprints = (\<lambda>_ _. Inr []) \<rparr>"

theorem updater_backoff_witness:
  "\<exists>u'. updater_round (\<lambda>h r. []) one_round \<lparr> delay = 0, idx_client = None \<rparr> = Some u' \<and> updater_sleep u' \<le> MaxDelay"
proof -
  obtain u' where u': "updater_round (\<lambda>h r. []) one_round \<lparr> delay = 0, idx_client = None \<rparr> = Some u'"
    by (simp add: updater_round_def one_round_def ConnectWithConfig_def IsOK_def NewIndexClient_def NoDelay_def)
  show ?thesis using updater_backoff [OF updater_reachable.updater_start u'] u' by blast
qed

text \<open>The steps of a round that added something: each went well, in this order.\<close>

lemma updater_work_productive:
  assumes "delay (updater_work srv rd w c) = NoDelay" and "ctx = WithTimeout (clock rd) \<lparr> Deadline = None \<rparr> (60 * Second)"
  shows "\<exists>v c1 lastID fps c2. sendRequest srv ctx ''get attribute max_document_id'' c = (Inr v, c1) \<and>
    (if v = [] then lastID = 0 else parse_uint 32 v = Inr (unat lastID)) \<and>
    next_fingerprints rd lastID UpdateBatchSize = Inr fps \<and> fps \<noteq> [] \<and> Insert srv ctx fps c1 = (Inr (), c2) \<and>
    idx_client (updater_work srv rd w c) = Some c2"
proof -
  have md: "MaxDelay \<noteq> NoDelay" "MinDelay \<noteq> NoDelay" by (simp_all add: MaxDelay_def MinDelay_def NoDelay_def durations)
  have grow: "d + d * 10 div 100 \<noteq> NoDelay" if "NoDelay < d" for d :: int using that by (simp add: NoDelay_def)
  obtain r c1 where g: "GetLastFingerprintID (GetAttribute srv ctx) c = (r, c1)" by (metis prod.collapse)
  note work = updater_work_def [of srv rd w c, folded assms(2), unfolded Let_def g prod.case]
  obtain lastID where r: "r = Inr lastID" using assms(1) md by (cases r) (simp_all add: work)
  obtain fps where fps: "next_fingerprints rd lastID UpdateBatchSize = Inr fps"
    using assms(1) md by (cases "next_fingerprints rd lastID UpdateBatchSize") (simp_all add: work r)
  obtain r2 c2 where ins: "Insert srv ctx fps c1 = (r2, c2)" by (metis prod.collapse)
  have r2: "r2 = Inr ()" using assms(1) md by (cases r2) (simp_all add: work r fps ins)
  have ne: "fps \<noteq> []" using assms(1) md grow [of "delay w"] by (auto simp: work r fps ins r2 split: if_splits)
  obtain r0 where get: "sendRequest srv ctx ''get attribute max_document_id'' c = (r0, c1)"
    using g by (auto simp: GetLastFingerprintID_def GetAttribute_def split: prod.splits sum.splits if_splits)
  then obtain v where v: "r0 = Inr v" using g r by (cases r0) (simp_all add: GetLastFingerprintID_def GetAttribute_def)
  have "if v = [] then lastID = 0 else parse_uint 32 v = Inr (unat lastID)"
    using g get v r parse_uint_less [of 32 v]
    by (auto simp: GetLastFingerprintID_def GetAttribute_def unat_of_nat split: sum.splits if_splits)
  moreover have "idx_client (updater_work srv rd w c) = Some c2" by (simp add: work r fps ins r2)
  ultimately show ?thesis using get v fps ne ins r2 by blast
qed

text \<open>
  C22. What a productive round sends. When a round adds fingerprints, the connection receives
  exactly: the question for the largest id in the index, then the complete script of one
  transaction with every fingerprint the database returned for that id and the batch size, in
  the order of the database. The answer the id is taken from is the reply to that question.
\<close>

theorem updater_round_script:
  assumes "updater_reachable srv u" "one_line srv" "updater_round srv rd u = Some u'"
    "delay u' = NoDelay" "idx_client u = Some c" "length (written (conn c)) < 2 ^ 64"
  shows "\<exists>c' v lastID fps. idx_client u' = Some c' \<and>
    reply_line (srv (written (conn c)) ''get attribute max_document_id'') = kPrefixOK @ v \<and>
    (if v = [] then lastID = 0 else parse_uint 32 v = Inr (unat lastID)) \<and>
    next_fingerprints rd lastID UpdateBatchSize = Inr fps \<and> fps \<noteq> [] \<and>
    written (conn c') = written (conn c) @ [''get attribute max_document_id''] @
      [''begin''] @ map insert_line fps @ [''commit'']"
proof -
  define ctx where "ctx = WithTimeout (clock rd) \<lparr> Deadline = None \<rparr> (60 * Second)"
  define w where "w = (if delay u > NoDelay \<and> delay u > MaxDelay then u\<lparr> delay := MaxDelay \<rparr> else u)"
  have c: "IsOK c" and u': "u' = updater_work srv rd w c"
    using assms(3,4,5) unfolding updater_round_def w_def [symmetric] Let_def
    by (auto simp: w_def MaxDelay_def NoDelay_def durations split: if_splits)
  obtain v c1 lastID fps c2 where get: "sendRequest srv ctx ''get attribute max_document_id'' c = (Inr v, c1)"
    and last: "if v = [] then lastID = 0 else parse_uint 32 v = Inr (unat lastID)"
    and fps: "next_fingerprints rd lastID UpdateBatchSize = Inr fps" "fps \<noteq> []"
    and ins: "Insert srv ctx fps c1 = (Inr (), c2)" and c2: "idx_client u' = Some c2"
    using updater_work_productive [OF assms(4) [unfolded u'] ctx_def] u' by blast
  note reach = updater_client_reachable [OF assms(1,5)]
  have "written (conn c2) = written (conn c1) @ [''begin''] @ map insert_line fps @ [''commit'']"
    using Insert_lines [of srv ctx fps c1] fps(2) by (auto simp: ins)
  then have "written (conn c2) = written (conn c) @ [''get attribute max_document_id''] @ [''begin''] @ map insert_line fps @ [''commit'']"
    using sendRequest_written(2) [OF get refl] by simp
  with client_reply [OF reach assms(2,6) c get] last fps c2 show ?thesis by blast
qed

text \<open>A server that knows one fingerprint and accepts everything.\<close>

definition tame_server :: server where
  "tame_server h r = ''OK '' @ [newline]"

definition productive :: Round where
  "productive = \<lparr> dial = Inr (fresh_conn []), clock = 0, next_fingerprints = (\<lambda>i _. Inr [(i + 1, [5])]) \<rparr>"

definition idle_updater :: Updater where
  "idle_updater = the (updater_round tame_server one_round \<lparr> delay = 0, idx_client = None \<rparr>)"

theorem updater_round_script_witness:
  "\<exists>u' c c'. updater_round tame_server productive idle_updater = Some u' \<and> delay u' = NoDelay \<and>
    idx_client idle_updater = Some c \<and> idx_client u' = Some c' \<and>
    (\<exists>fps. written (conn c') = written (conn c) @ [''get attribute max_document_id''] @
      [''begin''] @ map insert_line fps @ [''commit''])"
proof -
  have one: "one_line tame_server"
    by (auto simp: one_line_def tame_server_def newline_def)
  have reach: "updater_reachable tame_server idle_updater"
    by (rule updater_reachable.updater_next [OF updater_reachable.updater_start, of one_round])
      (auto simp: one_round_def idle_updater_def updater_round_def ConnectWithConfig_def IsOK_def NewIndexClient_def NoDelay_def)
  have "map_option (\<lambda>c. length (written (conn c))) (idx_client idle_updater) = Some 1" by code_simp
  then obtain c where c: "idx_client idle_updater = Some c" "length (written (conn c)) = 1" by auto
  have "map_option delay (updater_round tame_server productive idle_updater) = Some NoDelay" by code_simp
  then obtain u' where u': "updater_round tame_server productive idle_updater = Some u'" "delay u' = NoDelay" by auto
  have "length (written (conn c)) < 2 ^ 64" using c(2) by simp
  from updater_round_script [OF reach one u' c(1) this] show ?thesis using u' c by blast
qed

text \<open>
  The pool hands out only good connections: when \<open>ValidateObject\<close> says yes, the client is OK,
  also after the ping the check may have sent, it is not older than \<open>MaxKeepAlive\<close>, and it was
  either borrowed within \<open>PingInterval\<close> or has just answered the ping.
\<close>

theorem ValidateObject_OK:
  assumes "ValidateObject srv ctx cfg now obj = (True, obj')"
  shows "IsOK (Object obj') \<and> ActivateObject obj' = None \<and> PassivateObject obj' = None \<and>
    CreateTime obj' = CreateTime obj \<and> now - CreateTime obj' \<le> MaxKeepAlive cfg \<and>
    (now - LastBorrowTime obj \<le> PingInterval cfg \<and> obj' = obj \<or>
     fst (Ping srv ctx (Object obj)) = Inr () \<and> written (conn (Object obj')) = written (conn (Object obj)) @ [''echo''])"
proof (cases "now - LastBorrowTime obj > PingInterval cfg")
  case False
  then show ?thesis
    using assms by (auto simp: ValidateObject_def ActivateObject_def PassivateObject_def split: if_splits)
next
  case True
  obtain r c where send: "sendRequest srv ctx ''echo'' (Object obj) = (r, c)" by (metis prod.collapse)
  have ok: "IsOK (Object obj)" "now - CreateTime obj \<le> MaxKeepAlive cfg"
    using assms by (auto simp: ValidateObject_def split: if_splits)
  obtain s where r: "r = Inr s" and obj': "obj' = obj\<lparr> Object := c \<rparr>"
    using assms True ok send by (cases r) (auto simp: ValidateObject_def Ping_def)
  have "IsOK c" using sendRequest_cases [OF send] r ok(1) by (auto simp: IsOK_def)
  then show ?thesis
    using sendRequest_written(2) [OF send r] ok obj' True send r
    by (simp add: Ping_def ActivateObject_def PassivateObject_def)
qed

theorem ValidateObject_OK_witness:
  "\<exists>obj obj'. ValidateObject tame_server \<lparr> Deadline = None \<rparr> NewIndexConfig (5 * Second) obj = (True, obj') \<and>
    written (conn (Object obj')) = [''echo'']"
proof -
  let ?obj = "\<lparr> Object = NewIndexClient (fresh_conn []), CreateTime = 0, LastBorrowTime = 0 \<rparr>"
  let ?v = "ValidateObject tame_server \<lparr> Deadline = None \<rparr> NewIndexConfig (5 * Second) ?obj"
  have "fst ?v = True" by code_simp
  then have v: "?v = (True, snd ?v)" by (simp only: prod_eq_iff fst_conv snd_conv)
  from ValidateObject_OK [OF v] have "written (conn (Object (snd ?v))) = [''echo''] \<or> snd ?v = ?obj \<and> 5 * Second \<le> Second"
    by (auto simp: NewIndexConfig_def NewIndexClient_def fresh_conn_def)
  then have "written (conn (Object (snd ?v))) = [''echo'']" by (simp add: durations)
  with v show ?thesis by blast
qed

end
