(* ===== verification/GoSort.thy ===== *)
theory GoSort
  imports GoLib
begin

text \<open>
  \<open>sort.Slice\<close> and \<open>sort.Search\<close> of the Go standard library. \<open>sort.Slice\<close> sees the slice only
  through the comparison of two positions and the swap of two elements, and does not promise a
  stable order: an algorithm is a function from the length and the comparison of positions to a
  rearrangement of the positions, and the documented contract is the predicate \<open>sort_contract\<close>.
  Theorems are stated for every algorithm with that contract; insertion sort is one of them.
\<close>

type_synonym sort_alg = "nat \<Rightarrow> (nat \<Rightarrow> nat \<Rightarrow> bool) \<Rightarrow> nat list"

definition sort_slice :: "sort_alg \<Rightarrow> ('a \<Rightarrow> 'a \<Rightarrow> bool) \<Rightarrow> 'a list \<Rightarrow> 'a list" where
  "sort_slice S lt xs = map (\<lambda>i. xs ! i) (S (length xs) (\<lambda>i j. lt (xs ! i) (xs ! j)))"

definition strict_weak :: "nat \<Rightarrow> (nat \<Rightarrow> nat \<Rightarrow> bool) \<Rightarrow> bool" where
  "strict_weak n lt \<longleftrightarrow>
     (\<forall>i<n. \<not> lt i i) \<and>
     (\<forall>i<n. \<forall>j<n. \<forall>k<n. lt i j \<longrightarrow> lt j k \<longrightarrow> lt i k) \<and>
     (\<forall>i<n. \<forall>j<n. \<forall>k<n. \<not> lt i j \<longrightarrow> \<not> lt j k \<longrightarrow> \<not> lt i k)"

definition sort_contract :: "sort_alg \<Rightarrow> bool" where
  "sort_contract S \<longleftrightarrow>
     (\<forall>n lt. mset (S n lt) = mset [0..<n] \<and>
        (strict_weak n lt \<longrightarrow> sorted_wrt (\<lambda>i j. \<not> lt j i) (S n lt)))"

section \<open>What the contract gives\<close>

lemma sort_contract_mset: "sort_contract S \<Longrightarrow> mset (S n lt) = mset [0..<n]"
  by (simp add: sort_contract_def)

lemma mset_sort_slice:
  assumes "sort_contract S"
  shows "mset (sort_slice S lt xs) = mset xs"
proof -
  have "mset (sort_slice S lt xs) = image_mset (\<lambda>i. xs ! i) (mset [0..<length xs])"
    by (simp only: sort_slice_def mset_map sort_contract_mset [OF assms])
  also have "\<dots> = mset (map (\<lambda>i. xs ! i) [0..<length xs])" by (simp only: mset_map)
  finally show ?thesis by (simp only: map_nth)
qed

lemma length_sort_slice: "sort_contract S \<Longrightarrow> length (sort_slice S lt xs) = length xs"
  by (metis mset_sort_slice size_mset)

lemma set_sort_slice: "sort_contract S \<Longrightarrow> set (sort_slice S lt xs) = set xs"
  by (metis mset_sort_slice set_mset_mset)

text \<open>A comparison by a key, or by any total preorder.\<close>

lemma sorted_sort_slice:
  assumes S: "sort_contract S"
    and irr: "\<And>x. x \<in> set xs \<Longrightarrow> \<not> lt x x"
    and trans: "\<And>x y z. x \<in> set xs \<Longrightarrow> y \<in> set xs \<Longrightarrow> z \<in> set xs \<Longrightarrow> lt x y \<Longrightarrow> lt y z \<Longrightarrow> lt x z"
    and neg: "\<And>x y z. x \<in> set xs \<Longrightarrow> y \<in> set xs \<Longrightarrow> z \<in> set xs \<Longrightarrow> \<not> lt x y \<Longrightarrow> \<not> lt y z \<Longrightarrow> \<not> lt x z"
  shows "sorted_wrt (\<lambda>x y. \<not> lt y x) (sort_slice S lt xs)"
proof -
  let ?l = "\<lambda>i j. lt (xs ! i) (xs ! j)"
  have "strict_weak (length xs) ?l"
    unfolding strict_weak_def using irr trans neg by (meson nth_mem)
  then have "sorted_wrt (\<lambda>i j. \<not> ?l j i) (S (length xs) ?l)"
    using S by (simp add: sort_contract_def)
  then show ?thesis by (simp add: sort_slice_def sorted_wrt_map)
qed

lemma sorted_sort_slice_key:
  fixes key :: "'a \<Rightarrow> 'k::linorder"
  assumes "sort_contract S"
  shows "sorted (map key (sort_slice S (\<lambda>x y. key x < key y) xs))"
proof -
  have "sorted_wrt (\<lambda>x y. \<not> key y < key x) (sort_slice S (\<lambda>x y. key x < key y) xs)"
    by (rule sorted_sort_slice [OF assms]) simp_all
  then show ?thesis by (simp only: sorted_wrt_map not_less)
qed

section \<open>Insertion sort\<close>

primrec insert_pos :: "(nat \<Rightarrow> nat \<Rightarrow> bool) \<Rightarrow> nat \<Rightarrow> nat list \<Rightarrow> nat list" where
  "insert_pos lt x [] = [x]"
| "insert_pos lt x (y # ys) = (if lt y x then y # insert_pos lt x ys else x # y # ys)"

definition insertion_sort :: sort_alg where
  "insertion_sort n lt = foldr (insert_pos lt) [0..<n] []"

lemma mset_insert_pos [simp]: "mset (insert_pos lt x ys) = add_mset x (mset ys)"
  by (induction ys) auto

lemma set_insert_pos [simp]: "set (insert_pos lt x ys) = insert x (set ys)"
  by (induction ys) auto

lemma mset_foldr_insert_pos: "mset (foldr (insert_pos lt) xs []) = mset xs"
  by (induction xs) auto

lemma sorted_insert_pos:
  assumes sw: "strict_weak n lt" and x: "x < n" and ys: "set ys \<subseteq> {..<n}"
    and sorted: "sorted_wrt (\<lambda>i j. \<not> lt j i) ys"
  shows "sorted_wrt (\<lambda>i j. \<not> lt j i) (insert_pos lt x ys)"
  using ys sorted
proof (induction ys)
  case (Cons y ys)
  have y: "y < n" and ysn: "\<And>z. z \<in> set ys \<Longrightarrow> z < n" using Cons.prems by auto
  show ?case
  proof (cases "lt y x")
    case True
    then have "\<not> lt x y"
      using sw x y unfolding strict_weak_def by meson
    with True Cons show ?thesis by auto
  next
    case False
    have "\<not> lt z x" if "z \<in> set ys" for z
      using False sw x y ysn [OF that] Cons.prems(2) that unfolding strict_weak_def
      by (metis sorted_wrt.simps(2))
    with False Cons.prems show ?thesis by auto
  qed
qed simp

lemma insertion_sort_contract: "sort_contract insertion_sort"
proof -
  have "sorted_wrt (\<lambda>i j. \<not> lt j i) (foldr (insert_pos lt) xs [])"
    if "strict_weak n lt" "set xs \<subseteq> {..<n}" for n lt xs
    using that(2)
  proof (induction xs)
    case (Cons x xs)
    have "set (foldr (insert_pos lt) xs []) = set xs"
      by (metis mset_foldr_insert_pos set_mset_mset)
    with Cons show ?case by (auto intro!: sorted_insert_pos [OF that(1)])
  qed simp
  then show ?thesis
    by (simp add: sort_contract_def insertion_sort_def mset_foldr_insert_pos lessThan_atLeast0)
qed

section \<open>\<open>sort.Search\<close>\<close>

text \<open>The binary search for the least \<open>i\<close> in \<open>[i, j]\<close> with \<open>f i\<close>, as the library writes it.\<close>

function search_loop :: "(nat \<Rightarrow> bool) \<Rightarrow> nat \<Rightarrow> nat \<Rightarrow> nat" where
  "search_loop f i j =
     (if i < j
      then let h = (i + j) div 2 in if \<not> f h then search_loop f (h + 1) j else search_loop f i h
      else i)"
  by auto
termination by (relation "measure (\<lambda>(f, i, j). j - i)") auto

declare search_loop.simps [simp del]

definition sort_Search :: "nat \<Rightarrow> (nat \<Rightarrow> bool) \<Rightarrow> nat" where
  "sort_Search n f = search_loop f 0 n"

lemma search_loop_correct:
  assumes "i \<le> j" and "\<forall>k < i. \<not> f k" and "\<forall>a b. a \<le> b \<longrightarrow> b < n \<longrightarrow> f a \<longrightarrow> f b" and "j \<le> n"
    and "\<forall>k. j \<le> k \<longrightarrow> k < n \<longrightarrow> f k"
  shows "search_loop f i j \<le> n \<and> (\<forall>k < n. f k \<longleftrightarrow> search_loop f i j \<le> k)"
  using assms
proof (induction f i j rule: search_loop.induct)
  case (1 f i j)
  let ?h = "(i + j) div 2"
  show ?case
  proof (cases "i < j")
    case True
    then have h: "i \<le> ?h" "?h < j" by auto
    note mono = "1.prems"(3) and low = "1.prems"(2) and jn = "1.prems"(4)
    show ?thesis
    proof (cases "f ?h")
      case True
      have up: "\<forall>k. ?h \<le> k \<longrightarrow> k < n \<longrightarrow> f k" using mono True by blast
      have "search_loop f i ?h \<le> n \<and> (\<forall>k < n. f k \<longleftrightarrow> search_loop f i ?h \<le> k)"
      proof (rule "1.IH"(2) [OF \<open>i < j\<close> refl _ h(1) low mono _ up])
        show "\<not> \<not> f ?h" using True by blast
        show "?h \<le> n" using h jn by linarith
      qed
      then have goal: ?thesis if "search_loop f i j = search_loop f i ?h" unfolding that .
      have "search_loop f i j = search_loop f i ?h"
        using True \<open>i < j\<close> by (subst search_loop.simps) (simp add: Let_def)
      then show ?thesis by (rule goal)
    next
      case False
      have low': "\<forall>k < ?h + 1. \<not> f k"
      proof (intro allI impI notI)
        fix k assume "k < ?h + 1" "f k"
        then show False using False mono h jn by (metis Suc_eq_plus1 less_Suc_eq_le less_le_trans)
      qed
      have "search_loop f (?h + 1) j \<le> n \<and> (\<forall>k < n. f k \<longleftrightarrow> search_loop f (?h + 1) j \<le> k)"
      proof (rule "1.IH"(1) [OF \<open>i < j\<close> refl False _ low' mono jn "1.prems"(5)])
        show "?h + 1 \<le> j" using h by linarith
      qed
      then have goal: ?thesis if "search_loop f i j = search_loop f (?h + 1) j" unfolding that .
      have "search_loop f i j = search_loop f (?h + 1) j"
        using False \<open>i < j\<close> by (subst search_loop.simps) (simp add: Let_def)
      then show ?thesis by (rule goal)
    qed
  next
    case False
    with "1.prems"(1) have "i = j" by simp
    moreover have "search_loop f i j = i" using False by (subst search_loop.simps) simp
    ultimately show ?thesis using "1.prems" by (metis not_less)
  qed
qed

lemma sort_Search_correct:
  "\<forall>a b. a \<le> b \<longrightarrow> b < n \<longrightarrow> f a \<longrightarrow> f b \<Longrightarrow>
   sort_Search n f \<le> n \<and> (\<forall>k < n. f k \<longleftrightarrow> sort_Search n f \<le> k)"
  unfolding sort_Search_def by (rule search_loop_correct) auto

end
