(* ===== verification/Signal.thy ===== *)
theory Signal
  imports GoLib "HOL-Library.Signed_Division"
begin

text \<open>
  \<open>util/signal/filter.go\<close>: border handling, convolution, kernels and gradients of float slices.
  Floating point is a parameter: a record \<open>('f, 'g) floats\<close> with the operations of \<open>float64\<close>
  (\<open>'f\<close>) and \<open>float32\<close> (\<open>'g\<close>) that the code uses. The definitions keep the order of the code's
  operations, so that with the operations of IEEE 754 they compute what the code computes; a
  theorem about every \<open>F\<close> holds whatever the rounding, one about \<open>real_floats\<close> states what the
  code computes up to rounding.
\<close>

section \<open>Floating point\<close>

record ('f, 'g) floats =
  f_int :: "int \<Rightarrow> 'f"
  f_lit :: "rat \<Rightarrow> 'f"
  f_add :: "'f \<Rightarrow> 'f \<Rightarrow> 'f"
  f_sub :: "'f \<Rightarrow> 'f \<Rightarrow> 'f"
  f_mul :: "'f \<Rightarrow> 'f \<Rightarrow> 'f"
  f_div :: "'f \<Rightarrow> 'f \<Rightarrow> 'f"
  f_lt :: "'f \<Rightarrow> 'f \<Rightarrow> bool"
  f_le :: "'f \<Rightarrow> 'f \<Rightarrow> bool"
  f_min :: "'f \<Rightarrow> 'f \<Rightarrow> 'f"
  f_abs :: "'f \<Rightarrow> 'f"
  f_floor :: "'f \<Rightarrow> 'f"
  f_round :: "'f \<Rightarrow> 'f"
  f_exp :: "'f \<Rightarrow> 'f"
  f_pow :: "'f \<Rightarrow> 'f \<Rightarrow> 'f"
  int_of_f :: "'f \<Rightarrow> int"
  f32 :: "'f \<Rightarrow> 'g"
  g_le :: "'g \<Rightarrow> 'g \<Rightarrow> bool"

text \<open>Exact arithmetic on real numbers.\<close>

definition real_floats :: "(real, real) floats" where
  "real_floats = \<lparr>
     f_int = of_int, f_lit = of_rat, f_add = (+), f_sub = (-), f_mul = (*), f_div = (/),
     f_lt = (<), f_le = (\<le>), f_min = min, f_abs = abs, f_floor = (\<lambda>x. of_int \<lfloor>x\<rfloor>), 
     f_round = (\<lambda>x. if x < 0 then - of_int \<lfloor>1/2 - x\<rfloor> else of_int \<lfloor>x + 1/2\<rfloor>), f_exp = exp,
     f_pow = (powr), int_of_f = (\<lambda>x. if x < 0 then \<lceil>x\<rceil> else \<lfloor>x\<rfloor>), f32 = (\<lambda>x. x), g_le = (\<le>) \<rparr>"

lemma real_floats_simps [simp]:
  "f_int real_floats = of_int" "f_lit real_floats = of_rat" "f_add real_floats = (+)"
  "f_sub real_floats = (-)" "f_mul real_floats = (*)" "f_div real_floats = (/)"
  "f_lt real_floats = (<)" "f_le real_floats = (\<le>)" "f_min real_floats = min"
  "f_abs real_floats = abs" "f_exp real_floats = exp" "f_pow real_floats = (powr)"
  "f32 real_floats = (\<lambda>x. x)" "g_le real_floats = (\<le>)"
  by (simp_all add: real_floats_def)

section \<open>Borders\<close>

datatype BorderType = BorderConstant | BorderNearest | BorderWrap | BorderReflect | BorderMirror

record 'f Border =
  border_Type :: BorderType
  border_Value :: 'f

text \<open>
  \<open>src[i]\<close> for an \<open>int\<close> index, and the two loops that fold the index back into the slice; a loop
  that never ends has the result \<open>None\<close>.
\<close>

definition elem_at :: "'a list \<Rightarrow> int \<Rightarrow> 'a option" where
  "elem_at xs i = (if 0 \<le> i \<and> i < int (length xs) then Some (xs ! nat i) else None)"

partial_function (option) mirror_loop :: "int \<Rightarrow> int \<Rightarrow> int option" where
  [code]: "mirror_loop n i =
     (if i < 0 \<or> i \<ge> n then (if i < 0 then mirror_loop n (- i) else mirror_loop n (2 * n - i - 2))
      else Some i)"

partial_function (option) reflect_loop :: "int \<Rightarrow> int \<Rightarrow> int option" where
  [code]: "reflect_loop n i =
     (if i < 0 \<or> i \<ge> n then (if i < 0 then reflect_loop n (- i - 1) else reflect_loop n (2 * n - i - 1))
      else Some i)"

definition Interpolate :: "'f Border \<Rightarrow> 'f list \<Rightarrow> int \<Rightarrow> 'f option" where
  "Interpolate b src i =
     (let n = int (length src) in
      if i \<ge> 0 \<and> i < n then elem_at src i
      else case border_Type b of
        BorderConstant \<Rightarrow> Some (border_Value b)
      | BorderNearest \<Rightarrow> if i < 0 then elem_at src 0 else elem_at src (n - 1)
      | BorderWrap \<Rightarrow>
          if n = 0 then None
          else if i < 0 then elem_at src (((i smod n) + n) smod n) else elem_at src (i smod n)
      | BorderMirror \<Rightarrow>
          if n = 1 then elem_at src 0 else Option.bind (mirror_loop n i) (elem_at src)
      | BorderReflect \<Rightarrow>
          if n = 1 then elem_at src 0 else Option.bind (reflect_loop n i) (elem_at src))"

section \<open>Convolution\<close>

text \<open>The inner loop, over the kern, with the access to the input as a parameter.\<close>

fun conv_sum :: "('f, 'g) floats \<Rightarrow> (int \<Rightarrow> 'f option) \<Rightarrow> int \<Rightarrow> 'f list \<Rightarrow> 'f \<Rightarrow> 'f option" where
  "conv_sum F look k [] s = Some s"
| "conv_sum F look k (x # kern) s =
     Option.bind (look k) (\<lambda>v. conv_sum F look (k + 1) kern (f_add F s (f_mul F v x)))"

definition conv_point :: "('f, 'g) floats \<Rightarrow> 'f list \<Rightarrow> 'f list \<Rightarrow> 'f Border \<Rightarrow> int \<Rightarrow> 'f option" where
  "conv_point F src kern border i =
     (let width = int (length kern); halfWidth = width div 2; k = i - halfWidth in
      if k \<ge> 0 \<and> k \<le> int (length src) - width
      then conv_sum F (elem_at src) k kern (f_int F 0)
      else conv_sum F (Interpolate border src) k kern (f_int F 0))"

fun conv_loop :: "('f, 'g) floats \<Rightarrow> 'f list \<Rightarrow> 'f list \<Rightarrow> 'f Border \<Rightarrow> nat list \<Rightarrow> 'f list \<Rightarrow> 'f list option" where
  "conv_loop F src kern border [] dst = Some dst"
| "conv_loop F src kern border (i # is) dst =
     Option.bind (conv_point F src kern border (int i)) (\<lambda>v.
     Option.bind (put dst i v) (conv_loop F src kern border is))"

definition Convolve :: "('f, 'g) floats \<Rightarrow> 'f list \<Rightarrow> 'f list \<Rightarrow> 'f list \<Rightarrow> 'f Border \<Rightarrow> 'f list option" where
  "Convolve F src dst kern border = conv_loop F src kern border [0..<length dst] dst"

section \<open>Kernels\<close>

text \<open>\<open>make([]float64, width)\<close>, which panics for a negative width.\<close>

definition make_floats :: "('f, 'g) floats \<Rightarrow> int \<Rightarrow> 'f list option" where
  "make_floats F width = (if width < 0 then None else Some (replicate (nat width) (f_int F 0)))"

definition BoxFilter :: "('f, 'g) floats \<Rightarrow> 'f list \<Rightarrow> 'f list \<Rightarrow> int \<Rightarrow> 'f Border \<Rightarrow> 'f list option" where
  "BoxFilter F src dst width border =
     (let alpha = f_div F (f_lit F 1) (f_int F width) in
      Option.bind (make_floats F width) (\<lambda>kern.
      Convolve F src dst (map (\<lambda>_. alpha) kern) border))"

fun gauss_loop :: "('f, 'g) floats \<Rightarrow> 'f \<Rightarrow> int \<Rightarrow> nat \<Rightarrow> 'f list \<Rightarrow> 'f \<Rightarrow> 'f list \<times> 'f" where
  "gauss_loop F scale len i [] s = ([], s)"
| "gauss_loop F scale len i (_ # dst) s =
     (let x = f_int F (int i - (len - 1) div 2);
          t = f_exp F (f_mul F (f_mul F x x) scale);
          (ts, s') = gauss_loop F scale len (i + 1) dst (f_add F s t)
      in (t # ts, s'))"

definition GaussianKernel :: "('f, 'g) floats \<Rightarrow> 'f list \<Rightarrow> 'f \<Rightarrow> 'f list" where
  "GaussianKernel F dst sigma =
     (let scale = f_div F (f_lit F (- 1)) (f_mul F (f_mul F (f_int F 2) sigma) sigma);
          (dst, s) = gauss_loop F scale (int (length dst)) 0 dst (f_int F 0);
          alpha = f_div F (f_int F 1) s
      in map (\<lambda>x. f_mul F x alpha) dst)"

definition GaussianFilter :: "('f, 'g) floats \<Rightarrow> 'f list \<Rightarrow> 'f list \<Rightarrow> int \<Rightarrow> 'f \<Rightarrow> 'f Border \<Rightarrow> 'f list option" where
  "GaussianFilter F src dst width sigma border =
     (let width = (if width \<le> 0
                   then 1 + 2 * int_of_f F (f_floor F (f_add F (f_mul F sigma (f_int F 4)) (f_lit F (1/2))))
                   else width) in
      Option.bind (make_floats F width) (\<lambda>kern.
      Convolve F src dst (GaussianKernel F kern sigma) border))"

section \<open>Gradient\<close>

fun gradient_loop :: "('f, 'g) floats \<Rightarrow> 'f list \<Rightarrow> nat list \<Rightarrow> 'f list \<Rightarrow> 'f list option" where
  "gradient_loop F src [] dst = Some dst"
| "gradient_loop F src (i # is) dst =
     Option.bind (idx src (i + 1)) (\<lambda>b.
     Option.bind (idx src (i - 1)) (\<lambda>a.
     Option.bind (put dst i (f_mul F (f_lit F (1/2)) (f_sub F b a))) (gradient_loop F src is)))"

definition Gradient :: "('f, 'g) floats \<Rightarrow> 'f list \<Rightarrow> 'f list \<Rightarrow> 'f list option" where
  "Gradient F src dst =
     (let n = length src in
      if n = 0 then Some dst
      else if n = 1 then put dst 0 (f_int F 0)
      else
        Option.bind (put dst 0 (f_sub F (src ! 1) (src ! 0))) (\<lambda>dst.
        Option.bind (gradient_loop F src [1..<n - 1] dst) (\<lambda>dst.
        put dst (n - 1) (f_sub F (src ! (n - 1)) (src ! (n - 2))))))"

section \<open>Border handling as a periodic extension\<close>

definition reflect_index :: "int \<Rightarrow> int \<Rightarrow> int" where
  "reflect_index n i = (let m = i mod (2 * n) in if m < n then m else 2 * n - 1 - m)"

definition mirror_index :: "int \<Rightarrow> int \<Rightarrow> int" where
  "mirror_index n i = (let m = i mod (2 * n - 2) in if m < n then m else 2 * n - 2 - m)"

lemma mod_complement:
  fixes p :: int
  assumes "0 < p"
  shows "(p - 1 - i) mod p = p - 1 - i mod p"
proof -
  have "p - 1 - i = (p - 1 - i mod p) + p * (- (i div p))"
    using mult_div_mod_eq [of p i] by (simp add: algebra_simps)
  then have "(p - 1 - i) mod p = (p - 1 - i mod p) mod p" by (metis mod_mult_self2)
  moreover have "0 \<le> p - 1 - i mod p" "p - 1 - i mod p < p"
    using pos_mod_bound [OF assms, of i] pos_mod_sign [OF assms, of i] by linarith+
  ultimately show ?thesis by simp
qed

lemma reflect_index_step:
  assumes "1 \<le> n"
  shows "reflect_index n (- i - 1) = reflect_index n i" and "reflect_index n (2 * n - i - 1) = reflect_index n i"
proof -
  have a: "(- i - 1) mod (2 * n) = (2 * n - 1 - i) mod (2 * n)"
    using mod_add_self2 [of "- i - 1" "2 * n"] by (simp add: algebra_simps)
  have b: "(2 * n - 1 - i) mod (2 * n) = 2 * n - 1 - i mod (2 * n)"
    using assms by (intro mod_complement) simp
  show "reflect_index n (2 * n - i - 1) = reflect_index n i"
  proof -
    have "2 * n - i - 1 = 2 * n - 1 - i" by simp
    then show ?thesis by (simp only: reflect_index_def b Let_def) simp
  qed
  show "reflect_index n (- i - 1) = reflect_index n i"
    using a b by (simp add: reflect_index_def Let_def)
qed

lemma mirror_index_step:
  assumes "2 \<le> n"
  shows "mirror_index n (- i) = mirror_index n i" and "mirror_index n (2 * n - i - 2) = mirror_index n i"
proof -
  let ?p = "2 * n - 2"
  have a: "(2 * n - i - 2) mod ?p = (- i) mod ?p"
    using mod_add_self2 [of "- i" ?p] by (simp add: algebra_simps)
  have b: "(- i) mod ?p = (if i mod ?p = 0 then 0 else ?p - i mod ?p)"
    by (simp add: zmod_zminus1_eq_if)
  show c: "mirror_index n (- i) = mirror_index n i"
    using assms b by (auto simp add: mirror_index_def Let_def)
  show "mirror_index n (2 * n - i - 2) = mirror_index n i"
    using a c by (simp add: mirror_index_def Let_def)
qed

lemma reflect_index_range: "1 \<le> n \<Longrightarrow> 0 \<le> reflect_index n i \<and> reflect_index n i < n"
  using pos_mod_bound [of "2 * n" i] pos_mod_sign [of "2 * n" i] by (auto simp: reflect_index_def Let_def)

lemma mirror_index_range: "2 \<le> n \<Longrightarrow> 0 \<le> mirror_index n i \<and> mirror_index n i < n"
proof -
  assume n: "2 \<le> n"
  then have "0 < 2 * n - 2" by linarith
  then have "0 \<le> i mod (2 * n - 2)" "i mod (2 * n - 2) < 2 * n - 2"
    by (rule pos_mod_sign, rule pos_mod_bound)
  with n show ?thesis unfolding mirror_index_def Let_def by (simp split: if_split)
qed

lemma reflect_loop_eq: "1 \<le> n \<Longrightarrow> reflect_loop n i = Some (reflect_index n i)"
proof (induction "nat (if i < 0 then - 2 * i else 2 * i + 1)" arbitrary: i rule: less_induct)
  case less
  note step = reflect_index_step [OF less.prems]
  consider "i < 0" | "0 \<le> i" "i < n" | "i \<ge> n" by linarith
  then show ?case
  proof cases
    case 1
    then have "reflect_loop n (- i - 1) = Some (reflect_index n (- i - 1))"
      using less.prems by (intro less.hyps) auto
    with 1 show ?thesis by (subst reflect_loop.simps) (simp add: step)
  next
    case 2
    then show ?thesis by (subst reflect_loop.simps) (simp add: reflect_index_def)
  next
    case 3
    then have "reflect_loop n (2 * n - i - 1) = Some (reflect_index n (2 * n - i - 1))"
      using less.prems by (intro less.hyps) auto
    with 3 less.prems show ?thesis by (subst reflect_loop.simps) (simp add: step)
  qed
qed

lemma mirror_loop_eq: "2 \<le> n \<Longrightarrow> mirror_loop n i = Some (mirror_index n i)"
proof (induction "nat (if i < 0 then - 2 * i + 1 else 2 * i)" arbitrary: i rule: less_induct)
  case less
  note step = mirror_index_step [OF less.prems]
  consider "i < 0" | "0 \<le> i" "i < n" | "i \<ge> n" by linarith
  then show ?case
  proof cases
    case 1
    then have "mirror_loop n (- i) = Some (mirror_index n (- i))"
      using less.prems by (intro less.hyps) auto
    with 1 show ?thesis by (subst mirror_loop.simps) (simp add: step)
  next
    case 2
    then show ?thesis using less.prems
      by (subst mirror_loop.simps) (cases "i = 2 * n - 2"; simp add: mirror_index_def)
  next
    case 3
    then have "mirror_loop n (2 * n - i - 2) = Some (mirror_index n (2 * n - i - 2))"
      using less.prems by (intro less.hyps) auto
    with 3 less.prems show ?thesis by (subst mirror_loop.simps) (simp add: step)
  qed
qed

text \<open>The value at any position of the extension of a non-empty slice.\<close>

definition extend :: "'f Border \<Rightarrow> 'f list \<Rightarrow> int \<Rightarrow> 'f" where
  "extend b src i =
     (let n = int (length src) in
      if 0 \<le> i \<and> i < n then src ! nat i
      else case border_Type b of
        BorderConstant \<Rightarrow> border_Value b
      | BorderNearest \<Rightarrow> src ! nat (max 0 (min (n - 1) i))
      | BorderWrap \<Rightarrow> src ! nat (i mod n)
      | BorderReflect \<Rightarrow> src ! nat (reflect_index n i)
      | BorderMirror \<Rightarrow> src ! nat (if n = 1 then 0 else mirror_index n i))"

lemma smod_nonneg:
  fixes n :: int
  shows "0 < n \<Longrightarrow> 0 \<le> i \<Longrightarrow> i smod n = i mod n"
  by (simp add: signed_modulo_int_def signed_divide_int_def sgn_if minus_mult_div_eq_mod mult.commute)

lemma smod_wrap:
  fixes n :: int
  assumes "0 < n" and "i < 0"
  shows "((i smod n) + n) smod n = i mod n"
proof -
  have e: "i smod n = - ((- i) mod n)"
    using assms
    by (simp add: signed_modulo_int_def signed_divide_int_def minus_mult_div_eq_mod algebra_simps)
  have "0 \<le> (i smod n) + n" using pos_mod_bound [OF assms(1), of "- i"] unfolding e by linarith
  then have "((i smod n) + n) smod n = ((i smod n) + n) mod n" by (rule smod_nonneg [OF assms(1)])
  then show ?thesis unfolding e by (simp add: mod_minus_eq)
qed

lemma Interpolate_eq_extend:
  assumes "src \<noteq> []"
  shows "Interpolate b src i = Some (extend b src i)"
proof (cases "0 \<le> i \<and> i < int (length src)")
  case True
  then show ?thesis by (simp add: Interpolate_def extend_def Let_def elem_at_def)
next
  case False
  let ?n = "int (length src)"
  have n: "1 \<le> ?n" using assms by (cases src) auto
  then have n0: "0 < ?n" "?n \<noteq> 0" by linarith+
  have cond: "(0 \<le> i \<and> i < ?n) = False" using False by simp
  note defs = Interpolate_def extend_def Let_def cond if_False
  show ?thesis
  proof (cases "border_Type b")
    case BorderConstant
    then show ?thesis by (simp only: defs) simp
  next
    case BorderNearest
    have "max 0 (min (?n - 1) i) = (if i < 0 then 0 else ?n - 1)" using False n by auto
    with BorderNearest assms show ?thesis by (simp only: defs) (simp add: elem_at_def)
  next
    case BorderWrap
    have "0 \<le> i mod ?n" "i mod ?n < ?n" using n0 by simp_all
    with BorderWrap n0 show ?thesis by (simp only: defs) (simp add: elem_at_def smod_wrap smod_nonneg)
  next
    case BorderReflect
    have "reflect_index 1 i = 0" by (simp add: reflect_index_def Let_def) presburger
    with BorderReflect n reflect_index_range [OF n] show ?thesis
      by (simp only: defs) (auto simp: elem_at_def reflect_loop_eq)
  next
    case BorderMirror
    show ?thesis
    proof (cases "?n = 1")
      case True
      with BorderMirror show ?thesis by (simp only: defs) (simp add: elem_at_def)
    next
      case no1: False
      with n have n2: "2 \<le> ?n" by linarith
      with BorderMirror no1 mirror_index_range [OF n2] show ?thesis
        by (simp only: defs) (simp add: elem_at_def mirror_loop_eq [OF n2])
    qed
  qed
qed

section \<open>The filters return, and what they return\<close>

lemma conv_sum_eq:
  assumes "\<And>j. j < length kern \<Longrightarrow> look (k + int j) = Some (g (k + int j))"
  shows "conv_sum F look k kern s =
    Some (foldl (\<lambda>s (j, x). f_add F s (f_mul F (g (k + int j)) x)) s (enumerate 0 kern))"
  using assms
proof (induction kern arbitrary: k s)
  case (Cons x kern)
  have "look k = Some (g k)" using Cons.prems [of 0] by simp
  moreover have "conv_sum F look (k + 1) kern s' =
      Some (foldl (\<lambda>s (j, x). f_add F s (f_mul F (g (k + 1 + int j)) x)) s' (enumerate 0 kern))" for s'
    using Cons.prems [of "Suc j" for j] by (intro Cons.IH) (simp add: add.assoc)
  moreover have "foldl (\<lambda>s (j, x). f_add F s (f_mul F (g (k + int j)) x)) s' (enumerate (Suc 0) kern) =
      foldl (\<lambda>s (j, x). f_add F s (f_mul F (g (k + 1 + int j)) x)) s' (enumerate 0 kern)" for s'
    by (simp add: enumerate_Suc_eq [of 0] foldl_map case_prod_unfold add.assoc add.commute add.left_commute)
  ultimately show ?case by simp
qed simp

text \<open>One point of the convolution of the extended input.\<close>

definition conv_spec :: "('f, 'g) floats \<Rightarrow> 'f list \<Rightarrow> 'f list \<Rightarrow> 'f Border \<Rightarrow> int \<Rightarrow> 'f" where
  "conv_spec F src kern border i =
     foldl (\<lambda>s (j, x). f_add F s (f_mul F (extend border src (i - int (length kern) div 2 + int j)) x))
       (f_int F 0) (enumerate 0 kern)"

lemma conv_point_eq:
  assumes "src \<noteq> []"
  shows "conv_point F src kern border i = Some (conv_spec F src kern border i)"
proof -
  let ?k = "i - int (length kern) div 2"
  have "elem_at src (?k + int j) = Some (extend border src (?k + int j))"
    if "0 \<le> ?k" "?k \<le> int (length src) - int (length kern)" "j < length kern" for j
    using that by (simp add: elem_at_def extend_def Let_def)
  then show ?thesis
    by (simp add: conv_point_def conv_spec_def Let_def conv_sum_eq Interpolate_eq_extend [OF assms])
qed

lemma conv_loop_eq:
  assumes "src \<noteq> []" and "\<forall>i \<in> set is. i < length dst"
  shows "conv_loop F src kern border is dst =
    Some (foldl (\<lambda>d i. d[i := conv_spec F src kern border (int i)]) dst is)"
  using assms(2)
  by (induction "is" arbitrary: dst) (simp_all add: conv_point_eq [OF assms(1)] go_simps)

lemma foldl_update_all:
  "n \<le> length dst \<Longrightarrow> foldl (\<lambda>d i. d[i := f i]) dst [0..<n] = map f [0..<n] @ drop n dst"
proof (induction n)
  case (Suc n)
  then have "drop n dst = dst ! n # drop (Suc n) dst" by (intro Cons_nth_drop_Suc [symmetric]) simp
  with Suc show ?case by (simp add: list_update_append)
qed simp

lemma Convolve_eq:
  "src \<noteq> [] \<Longrightarrow> Convolve F src dst kern border =
     Some (map (\<lambda>i. conv_spec F src kern border (int i)) [0..<length dst])"
  by (simp add: Convolve_def conv_loop_eq foldl_update_all)

lemma Convolve_empty [simp]: "Convolve F src [] kern border = Some []"
  by (simp add: Convolve_def)

lemma length_gauss_loop [simp]: "length (fst (gauss_loop F scale l i dst s)) = length dst"
  by (induction dst arbitrary: i s) (simp_all add: Let_def case_prod_unfold)

lemma length_GaussianKernel [simp]: "length (GaussianKernel F dst sigma) = length dst"
  by (simp add: GaussianKernel_def Let_def case_prod_unfold)

lemma GaussianFilter_total:
  assumes "0 < width" and "src \<noteq> [] \<or> dst = []"
  shows "\<exists>dst'. GaussianFilter F src dst width sigma border = Some dst' \<and> length dst' = length dst"
  using assms by (auto simp: GaussianFilter_def make_floats_def Convolve_eq)

lemma gradient_loop_eq:
  assumes "\<forall>i \<in> set is. 0 < i \<and> i + 1 < length src" and "length dst = length src"
  shows "gradient_loop F src is dst =
    Some (foldl (\<lambda>d i. d[i := f_mul F (f_lit F (1/2)) (f_sub F (src ! (i + 1)) (src ! (i - 1)))]) dst is)"
  using assms by (induction "is" arbitrary: dst) (simp_all add: put_def idx_def less_imp_diff_less)

lemma length_foldl_update [simp]: "length (foldl (\<lambda>d i. d[i := f i]) dst is) = length dst"
  by (induction "is" arbitrary: dst) auto

lemma nth_foldl_update:
  "distinct is \<Longrightarrow> j < length dst \<Longrightarrow>
   foldl (\<lambda>d i. d[i := f i]) dst is ! j = (if j \<in> set is then f j else dst ! j)"
proof (induction "is" arbitrary: dst)
  case (Cons i "is")
  then show ?case by (auto simp: nth_list_update)
qed simp

lemma Gradient_eq:
  assumes "length dst = length src"
  shows "\<exists>dst'. Gradient F src dst = Some dst' \<and> length dst' = length src \<and>
    (\<forall>i < length src. dst' ! i =
       (if length src = 1 then f_int F 0
        else if i = 0 then f_sub F (src ! 1) (src ! 0)
        else if i = length src - 1 then f_sub F (src ! i) (src ! (i - 1))
        else f_mul F (f_lit F (1/2)) (f_sub F (src ! (i + 1)) (src ! (i - 1)))))"
proof -
  consider "length src = 0" | "length src = 1" | "length src \<ge> 2" by linarith
  then show ?thesis
  proof cases
    case 3
    let ?d = "dst[0 := f_sub F (src ! 1) (src ! 0)]"
    let ?f = "\<lambda>i. f_mul F (f_lit F (1/2)) (f_sub F (src ! (i + 1)) (src ! (i - 1)))"
    let ?r = "(foldl (\<lambda>d i. d[i := ?f i]) ?d [1..<length src - 1])
      [length src - 1 := f_sub F (src ! (length src - 1)) (src ! (length src - 2))]"
    have "\<forall>i \<in> set [1..<length src - 1]. 0 < i \<and> i + 1 < length src" by auto
    then have "gradient_loop F src [1..<length src - 1] ?d =
        Some (foldl (\<lambda>d i. d[i := ?f i]) ?d [1..<length src - 1])"
      using assms by (intro gradient_loop_eq) simp_all
    moreover have "src \<noteq> []" "length src \<noteq> Suc 0" using 3 by auto
    ultimately have "Gradient F src dst = Some ?r"
      using 3 assms by (simp add: Gradient_def Let_def go_simps)
    moreover have "?r ! i = (if i = 0 then f_sub F (src ! 1) (src ! 0)
        else if i = length src - 1 then f_sub F (src ! i) (src ! (i - 1)) else ?f i)"
      if "i < length src" for i
      using that 3 assms
      by (auto simp: nth_list_update nth_foldl_update numeral_2_eq_2)
    ultimately show ?thesis using 3 assms by (intro exI [of _ ?r]) simp
  qed (use assms in \<open>auto simp: Gradient_def go_simps\<close>)
qed

section \<open>Properties\<close>

text \<open>
  Reading any position of a non-empty slice through a border returns, the two index loops
  included, and gives the value of the extension of the slice: constant, clamped, periodic, or
  mirrored without or with the border element as the axis.
\<close>

theorem Interpolate_extend:
  "src \<noteq> [] \<Longrightarrow> Interpolate b src i = Some (extend b src i)"
  by (rule Interpolate_eq_extend)

theorem Interpolate_extend_witness:
  "Interpolate \<lparr> border_Type = BorderReflect, border_Value = 0 \<rparr> [10, 20, 30 :: real] (- 2) = Some 20"
  by (subst Interpolate_extend) (simp_all add: extend_def reflect_index_def)

text \<open>
  C39. Convolving a non-empty slice never fails and computes, at every position of the output, the
  sum over the kernel of the extended input: the fast branch of the code, for the positions whose
  window lies inside the input, agrees with the branch through the border.
\<close>

theorem Convolve_convolution:
  "src \<noteq> [] \<Longrightarrow> Convolve F src dst kern border =
     Some (map (\<lambda>i. foldl (\<lambda>s (j, x). f_add F s
         (f_mul F (extend border src (int i - int (length kern) div 2 + int j)) x)) (f_int F 0) (enumerate 0 kern))
       [0..<length dst])"
  by (rule Convolve_eq [unfolded conv_spec_def])

theorem Convolve_convolution_witness:
  "Convolve real_floats [1, 2, 3] [0, 0, 0] [1, 1, 1] \<lparr> border_Type = BorderReflect, border_Value = 0 \<rparr> =
   Some [4, 6, 8]"
  by (subst Convolve_convolution) (simp_all add: extend_def reflect_index_def eval_nat_numeral upt_rec)

text \<open>
  The gradient of a slice is defined for every output slice of its length: half the difference
  of the neighbours inside, the difference to the only neighbour at the ends, zero for one element.
\<close>

theorem Gradient_differences:
  assumes "length dst = length src"
  shows "\<exists>dst'. Gradient real_floats src dst = Some dst' \<and> length dst' = length src \<and>
    (\<forall>i < length src. dst' ! i =
       (if length src = 1 then 0
        else if i = 0 then src ! 1 - src ! 0
        else if i = length src - 1 then src ! i - src ! (i - 1)
        else (src ! (i + 1) - src ! (i - 1)) / 2))"
proof -
  have half: "of_rat (1 / 2) * x = x / (2 :: real)" for x by (simp add: of_rat_divide)
  from Gradient_eq [OF assms, of real_floats] show ?thesis
    by (simp only: real_floats_simps of_int_0 half)
qed

theorem Gradient_differences_witness:
  "\<exists>dst'. Gradient real_floats [1, 4, 9] [0, 0, 0] = Some dst' \<and> dst' ! 1 = 4"
  using Gradient_differences [of "[0, 0, 0]" "[1, 4, 9]"] by fastforce

end
