(* ===== verification/Match.thy ===== *)
theory Match
  imports Encoding Bits Signal GoSort "HOL-Library.Sublist"
begin

unbundle bit_operations_syntax

text \<open>
  \<open>pkg/chromaprint/match.go\<close>: comparing fingerprints. Two fingerprints are aligned by a histogram
  of the offsets at which their masked hashes agree, then compared or cut into matching sections
  at the best offset. The floating point operations \<open>F\<close> and the sorting algorithm \<open>S\<close> are
  parameters (see the theories Signal and GoSort). Go's \<open>int\<close> is an integer, \<open>None\<close> a panic.
\<close>

section \<open>Queries\<close>

text \<open>\<open>1 << uint(n)\<close> on \<open>uint32\<close>, with the conversion of a negative \<open>n\<close> to \<open>uint\<close>.\<close>

definition shl_one :: "int \<Rightarrow> u32" where
  "shl_one n = (let k = n mod 2 ^ 64 in if k < 32 then push_bit (nat k) 1 else 0)"

definition hashBitMask :: "int \<Rightarrow> u32" where
  "hashBitMask nbits =
     (if nbits \<le> 16 then 0xaaaaaaaa AND (shl_one (nbits * 2) - 1)
      else 0xaaaaaaaa OR (0x55555555 AND (shl_one ((nbits - 16) * 2) - 1)))"

definition ExtractQuery :: "Fingerprint \<Rightarrow> int \<Rightarrow> Fingerprint" where
  "ExtractQuery fp numBits =
     (let hmask = hashBitMask numBits in fp\<lparr> Hashes := map (\<lambda>hash. hash AND hmask) (Hashes fp) \<rparr>)"

section \<open>Configurations and results\<close>

record FingerprintConfig =
  SampleRate :: int
  FrameSize :: int
  FrameOverlap :: int
  MaxFilterWidth :: int
  NumFilterCoefficients :: int

text \<open>Durations are in nanoseconds; a sample rate of zero panics.\<close>

definition micros :: "int \<Rightarrow> FingerprintConfig \<Rightarrow> int option" where
  "micros d c = (if SampleRate c = 0 then None else Some (1000 * (d * 1000000 sdiv SampleRate c)))"

definition ItemDuration :: "FingerprintConfig \<Rightarrow> int option" where
  "ItemDuration c = micros (FrameSize c - FrameOverlap c) c"

definition Delay :: "FingerprintConfig \<Rightarrow> int option" where
  "Delay c = micros ((FrameSize c - FrameOverlap c) *
     ((NumFilterCoefficients c - 1) + (MaxFilterWidth c - 1)) + FrameOverlap c) c"

definition Config_Offset :: "FingerprintConfig \<Rightarrow> int \<Rightarrow> int option" where
  "Config_Offset c i = map_option (\<lambda>d. d * i) (ItemDuration c)"

definition Config_Duration :: "FingerprintConfig \<Rightarrow> int \<Rightarrow> int option" where
  "Config_Duration c i =
     (if i = 0 then Some 0
      else Option.bind (Config_Offset c i) (\<lambda>o'. map_option (\<lambda>d. o' + d) (Delay c)))"

definition FingerprintConfigs :: "int \<Rightarrow> FingerprintConfig option" where
  "FingerprintConfigs v =
     (if v = 1 then Some \<lparr> SampleRate = 11025, FrameSize = 4096, FrameOverlap = 4096 - 4096 sdiv 3,
        MaxFilterWidth = 16, NumFilterCoefficients = 5 \<rparr>
      else None)"

record 'f MatchingSection =
  sec_Offset :: int
  sec_Start :: int
  sec_End :: int
  sec_Score :: 'f

record 'f MatchResult =
  mr_Version :: int
  mr_Config :: FingerprintConfig
  MasterLength :: int
  QueryLength :: int
  Sections :: "'f MatchingSection list"

definition Empty :: "'f MatchResult \<Rightarrow> bool" where
  "Empty mr = (length (Sections mr) = 0)"

definition MatchingDuration :: "'f MatchResult \<Rightarrow> int option" where
  "MatchingDuration mr =
     Config_Duration (mr_Config mr) (foldl (\<lambda>n s. n + (sec_End s - sec_Start s)) 0 (Sections mr))"

definition QueryOffset :: "'f MatchResult \<Rightarrow> int option" where
  "QueryOffset mr =
     (case Sections mr of [] \<Rightarrow> Some 0
      | s # _ \<Rightarrow> if sec_Offset s < 0 then Config_Offset (mr_Config mr) (sec_Start s - sec_Offset s)
                else Config_Offset (mr_Config mr) (sec_Start s))"

definition QueryDuration :: "'f MatchResult \<Rightarrow> int option" where
  "QueryDuration mr = Config_Duration (mr_Config mr) (QueryLength mr)"

definition MasterOffset :: "'f MatchResult \<Rightarrow> int option" where
  "MasterOffset mr =
     (case Sections mr of [] \<Rightarrow> Some 0
      | s # _ \<Rightarrow> if sec_Offset s > 0 then Config_Offset (mr_Config mr) (sec_Start s + sec_Offset s)
                else Config_Offset (mr_Config mr) (sec_Start s))"

definition MasterDuration :: "'f MatchResult \<Rightarrow> int option" where
  "MasterDuration mr = Config_Duration (mr_Config mr) (MasterLength mr)"

section \<open>Alignment\<close>

record HashOffset =
  Hash :: u32
  Offset :: int

record 'f OffsetHit =
  hit_Offset :: int
  Count :: 'f

definition hash_offsets :: "u32 \<Rightarrow> u32 list \<Rightarrow> HashOffset list" where
  "hash_offsets hmask hashes =
     map (\<lambda>(offset, hash). \<lparr> Hash = hash AND hmask, Offset = int offset \<rparr>) (enumerate 0 hashes)"

text \<open>\<open>for i < len(queryHashes) && queryHashes[i].Hash < mo.Hash { i++ }\<close>\<close>

function skip_smaller :: "HashOffset list \<Rightarrow> u32 \<Rightarrow> nat \<Rightarrow> nat" where
  "skip_smaller qs h i =
     (if i < length qs \<and> Hash (qs ! i) < h then skip_smaller qs h (i + 1) else i)"
  by auto
termination by (relation "measure (\<lambda>(qs, h, i). length qs - i)") auto

declare skip_smaller.simps [simp del]

text \<open>\<open>counts[offset] += 1\<close>\<close>

definition bump :: "('f, 'g) floats \<Rightarrow> int \<Rightarrow> 'f list \<Rightarrow> 'f list option" where
  "bump F offset counts =
     Option.bind (elem_at counts offset) (\<lambda>c. Some (counts[nat offset := f_add F c (f_int F 1)]))"

function count_equal :: "('f, 'g) floats \<Rightarrow> int \<Rightarrow> HashOffset list \<Rightarrow> HashOffset \<Rightarrow> nat \<Rightarrow> 'f list \<Rightarrow> 'f list option" where
  "count_equal F maxOffset qs mo j counts =
     (if j < length qs \<and> Hash (qs ! j) = Hash mo
      then let offset = Offset mo - Offset (qs ! j) in
           if maxOffset = 0 \<or> (- maxOffset \<le> offset \<and> offset \<le> maxOffset)
           then Option.bind (bump F (offset + int (length qs)) counts)
                  (count_equal F maxOffset qs mo (j + 1))
           else count_equal F maxOffset qs mo (j + 1) counts
      else Some counts)"
  by auto
termination by (relation "measure (\<lambda>(F, m, qs, mo, j, counts). length qs - j)") auto

declare count_equal.simps [simp del]

fun align_counts :: "('f, 'g) floats \<Rightarrow> int \<Rightarrow> HashOffset list \<Rightarrow> HashOffset list \<Rightarrow> nat \<Rightarrow> 'f list \<Rightarrow> 'f list option" where
  "align_counts F maxOffset qs [] i counts = Some counts"
| "align_counts F maxOffset qs (mo # ms) i counts =
     (let i = skip_smaller qs (Hash mo) i in
      if i \<ge> length qs then Some counts
      else Option.bind (count_equal F maxOffset qs mo i counts) (align_counts F maxOffset qs ms i))"

definition top_count :: "('f, 'g) floats \<Rightarrow> 'f list \<Rightarrow> 'f" where
  "top_count F sc = foldl (\<lambda>topCount c. if f_lt F topCount c then c else topCount) (f_int F 0) sc"

definition MaxOffsetThresholdDiv :: int where "MaxOffsetThresholdDiv = 10"

definition count_threshold :: "('f, 'g) floats \<Rightarrow> 'f list \<Rightarrow> 'f" where
  "count_threshold F sc =
     (let t = f_div F (top_count F sc) (f_int F MaxOffsetThresholdDiv)
      in if f_lt F t (f_int F 2) then f_int F 2 else t)"

text \<open>The test of one position of the smoothed histogram, and the loop over the positions.\<close>

definition is_peak :: "('f, 'g) floats \<Rightarrow> 'f list \<Rightarrow> nat \<Rightarrow> bool" where
  "is_peak F sc offset =
     (let count = sc ! offset;
          previousCount = (if offset > 0 then sc ! (offset - 1) else f_int F 0);
          nextCount = (if offset < length sc - 1 then sc ! (offset + 1) else f_int F 0)
      in f_le F (count_threshold F sc) count \<and> f_le F previousCount count \<and> f_lt F nextCount count)"

definition offset_hits :: "('f, 'g) floats \<Rightarrow> 'f list \<Rightarrow> nat \<Rightarrow> 'f OffsetHit list" where
  "offset_hits F sc nq =
     map (\<lambda>offset. \<lparr> hit_Offset = int offset - int nq, Count = sc ! offset \<rparr>)
       (filter (is_peak F sc) [0..<length sc])"

definition AlignFingerprints :: "('f, 'g) floats \<Rightarrow> sort_alg \<Rightarrow> Fingerprint \<Rightarrow> Fingerprint \<Rightarrow> int \<Rightarrow> int \<Rightarrow> int \<Rightarrow> 'f OffsetHit list option" where
  "AlignFingerprints F S master query numBits limit maxOffset =
     (let hmask = hashBitMask numBits;
          queryHashes = sort_slice S (\<lambda>a b. Hash a < Hash b) (hash_offsets hmask (Hashes query));
          masterHashes = sort_slice S (\<lambda>a b. Hash a < Hash b) (hash_offsets hmask (Hashes master));
          numCounts = length masterHashes + length queryHashes + 1
      in Option.bind (align_counts F maxOffset queryHashes masterHashes 0 (replicate numCounts (f_int F 0))) (\<lambda>counts.
         Option.bind (GaussianFilter F counts (replicate numCounts (f_int F 0)) 3 (f_lit F (13/10))
            \<lparr> border_Type = BorderReflect, border_Value = f_int F 0 \<rparr>) (\<lambda>smoothedCounts.
         let offsetHits = sort_slice S (\<lambda>a b. f_le F (Count b) (Count a))
               (offset_hits F smoothedCounts (length queryHashes))
         in if int (length offsetHits) > limit
            then (if limit < 0 then None else Some (take (nat limit) offsetHits))
            else Some offsetHits)))"

section \<open>The score of two aligned fingerprints\<close>

definition NumUniqBits :: int where "NumUniqBits = 16"

text \<open>
  The loop that moves the first of every run of equal hashes to the front, on the slice it
  ranges over: \<open>i\<close> is the position of the loop, \<open>n\<close> is \<open>uniqueCount\<close>.
\<close>

function uniq_loop :: "nat \<Rightarrow> nat \<Rightarrow> u32 list \<Rightarrow> nat" where
  "uniq_loop i n hs =
     (if i < length hs
      then if n = 0 \<or> hs ! i \<noteq> hs ! (n - 1) then uniq_loop (i + 1) (n + 1) (hs[n := hs ! i])
           else uniq_loop (i + 1) n hs
      else n)"
  by auto
termination by (relation "measure (\<lambda>(i, n, hs). length hs - i)") auto

declare uniq_loop.simps [simp del]

definition countUniqueHashes :: "sort_alg \<Rightarrow> u32 list \<Rightarrow> int \<Rightarrow> nat" where
  "countUniqueHashes S hashes numBits =
     (let hmask = hashBitMask numBits;
          maskedHashes = sort_slice S (<) (map (\<lambda>hash. hash AND hmask) hashes)
      in uniq_loop 0 0 maskedHashes)"

definition bit_error :: "u32 list \<Rightarrow> u32 list \<Rightarrow> nat" where
  "bit_error as bs = foldl (\<lambda>e (a, b). e + PopCount32 (a XOR b)) 0 (zip as bs)"

definition clamp_ratio :: "('f, 'g) floats \<Rightarrow> nat \<Rightarrow> nat \<Rightarrow> 'f" where
  "clamp_ratio F uniq sz =
     f_min F (f_lit F 1)
       (f_add F (f_div F (f_int F (int uniq + 10)) (f_int F (int sz))) (f_lit F (1/2)))"

definition score_of :: "('f, 'g) floats \<Rightarrow> nat \<Rightarrow> nat \<Rightarrow> nat \<Rightarrow> 'f \<Rightarrow> 'f" where
  "score_of F sz minSize bitError diversity =
     (let score = f_mul F (f_div F (f_int F (int sz)) (f_int F (int minSize)))
            (f_sub F (f_lit F 1) (f_div F (f_int F (int bitError)) (f_int F (int sz * 32))));
          score = (if f_lt F score (f_lit F 0) then f_lit F 0 else score)
      in if f_lt F diversity (f_lit F 1)
         then f_pow F score (f_sub F (f_lit F 8) (f_mul F (f_lit F 7) diversity)) else score)"

text \<open>The score of the aligned slices, and the slicing at the offset.\<close>

definition aligned_score :: "('f, 'g) floats \<Rightarrow> sort_alg \<Rightarrow> nat \<Rightarrow> 'f \<Rightarrow> u32 list \<Rightarrow> u32 list \<Rightarrow> 'f" where
  "aligned_score F S minSize support ahashes bhashes =
     (let asize = length ahashes; bsize = length bhashes; sz = min asize bsize in
      if sz = 0 then f_lit F 0
      else
        let auniq = countUniqueHashes S ahashes NumUniqBits;
            buniq = countUniqueHashes S bhashes NumUniqBits
        in if f_lt F support (f_mul F (f_int F (int (max auniq buniq))) (f_lit F (2/100)))
           then f_lit F 0
           else
             let diversity = f_min F (clamp_ratio F auniq asize) (clamp_ratio F buniq bsize);
                 bitError = bit_error ahashes bhashes
             in score_of F sz minSize bitError diversity)"

definition CompareAlignedFingerprints :: "('f, 'g) floats \<Rightarrow> sort_alg \<Rightarrow> Fingerprint \<Rightarrow> Fingerprint \<Rightarrow> 'f OffsetHit \<Rightarrow> 'f option" where
  "CompareAlignedFingerprints F S a b offset =
     (let minSize = min (length (Hashes a)) (length (Hashes b)) in
      if minSize = 0 then Some (f_lit F 0)
      else if hit_Offset offset < 0
      then map_option (aligned_score F S minSize (Count offset) (Hashes a))
             (slice_from (Hashes b) (nat (- hit_Offset offset)))
      else map_option (\<lambda>ahashes. aligned_score F S minSize (Count offset) ahashes (Hashes b))
             (slice_from (Hashes a) (nat (hit_Offset offset))))"

section \<open>Matching sections\<close>

definition edge_at :: "('f, 'g) floats \<Rightarrow> 'f list \<Rightarrow> 'f list \<Rightarrow> nat \<Rightarrow> bool option" where
  "edge_at F grad smooth i =
     Option.bind (idx grad (i - 1)) (\<lambda>g0. Option.bind (idx grad i) (\<lambda>g1.
     Option.bind (idx grad (i + 1)) (\<lambda>g2. Option.bind (idx smooth i) (\<lambda>s.
     let x0 = f_abs F g0; x1 = f_abs F g1; x2 = f_abs F g2 in
     Some (f_le F x0 x1 \<and> f_lt F x2 x1 \<and>
           f_lt F (f_lit F (1/2)) (f_div F x1 (f_add F (f_int F 1) (f_div F s (f_int F 4)))))))))"

fun edges_loop :: "('f, 'g) floats \<Rightarrow> 'f list \<Rightarrow> 'f list \<Rightarrow> nat list \<Rightarrow> nat list option" where
  "edges_loop F grad smooth [] = Some []"
| "edges_loop F grad smooth (i # is) =
     Option.bind (edge_at F grad smooth i) (\<lambda>e.
     map_option (\<lambda>es. if e then i # es else es) (edges_loop F grad smooth is))"

fun sum_diff :: "('f, 'g) floats \<Rightarrow> 'f list \<Rightarrow> nat list \<Rightarrow> 'f \<Rightarrow> 'f option" where
  "sum_diff F diff [] s = Some s"
| "sum_diff F diff (j # js) s = Option.bind (idx diff j) (\<lambda>d. sum_diff F diff js (f_add F s d))"

fun sections_loop :: "('f, 'g) floats \<Rightarrow> 'f list \<Rightarrow> int \<Rightarrow> nat list \<Rightarrow> 'f MatchingSection list option" where
  "sections_loop F diff offset (a # b # es) =
     Option.bind (sum_diff F diff [a..<b] (f_int F 0)) (\<lambda>s.
     let score = f_div F s (f_int F (int b - int a));
         m = \<lparr> sec_Offset = offset, sec_Start = int a, sec_End = int b, sec_Score = score \<rparr>
     in map_option (\<lambda>ms. if f_lt F score (f_int F 13) then m # ms else ms)
          (sections_loop F diff offset (b # es)))"
| "sections_loop F diff offset _ = Some []"

text \<open>The sections of two aligned slices, and the slicing at the offset.\<close>

definition match_sections :: "('f, 'g) floats \<Rightarrow> int \<Rightarrow> u32 list \<Rightarrow> u32 list \<Rightarrow> 'f MatchingSection list option" where
  "match_sections F offset masterHashes queryHashes =
     (let n = min (length masterHashes) (length queryHashes);
          diff = map (\<lambda>i. f_int F (int (PopCount32 (masterHashes ! i XOR queryHashes ! i)))) [0..<n]
      in Option.bind (GaussianFilter F diff (replicate n (f_int F 0)) 9 (f_lit F (13/10))
           \<lparr> border_Type = BorderReflect, border_Value = f_int F 0 \<rparr>) (\<lambda>smoothedDiff.
         Option.bind (Gradient F smoothedDiff (replicate n (f_int F 0))) (\<lambda>smoothedDiffGradient.
         Option.bind (edges_loop F smoothedDiffGradient smoothedDiff [1..<n - 1]) (\<lambda>edges.
         sections_loop F diff offset (0 # edges @ [n])))))"

definition matchAlignedFingerprints :: "('f, 'g) floats \<Rightarrow> Fingerprint \<Rightarrow> Fingerprint \<Rightarrow> int \<Rightarrow> 'f MatchingSection list option" where
  "matchAlignedFingerprints F master query offset =
     Option.bind (if offset \<ge> 0 then slice_from (Hashes master) (nat offset) else Some (Hashes master)) (\<lambda>masterHashes.
     Option.bind (if offset \<ge> 0 then Some (Hashes query) else slice_from (Hashes query) (nat (- offset))) (\<lambda>queryHashes.
     match_sections F offset masterHashes queryHashes))"

section \<open>The matcher\<close>

datatype match_error =
  ErrInvalidFingerprintVersion | MasterTooLong | QueryTooLong

record FingerprintMatcher =
  NumAlignBits :: int
  MaxOffset :: int
  MaxOffsetCandidates :: int

definition NewFingerprintMatcher :: FingerprintMatcher where
  "NewFingerprintMatcher = \<lparr> NumAlignBits = 14, MaxOffset = 80, MaxOffsetCandidates = 1 \<rparr>"

definition Compare :: "('f, 'g) floats \<Rightarrow> sort_alg \<Rightarrow> FingerprintMatcher \<Rightarrow> Fingerprint \<Rightarrow> Fingerprint \<Rightarrow> (match_error + 'g) option" where
  "Compare F S fm master query =
     (if Version master \<noteq> Version query then Some (Inl ErrInvalidFingerprintVersion)
      else case FingerprintConfigs (sint (Version master)) of
        None \<Rightarrow> Some (Inl ErrInvalidFingerprintVersion)
      | Some _ \<Rightarrow>
          if int (length (Hashes master)) \<ge> 65536 then Some (Inl MasterTooLong)
          else if int (length (Hashes query)) \<ge> 65536 then Some (Inl QueryTooLong)
          else Option.bind (AlignFingerprints F S master query (NumAlignBits fm) (MaxOffsetCandidates fm) (MaxOffset fm)) (\<lambda>offsetHits.
            case offsetHits of [] \<Rightarrow> Some (Inr (f32 F (f_lit F 0)))
            | hit # _ \<Rightarrow> map_option (\<lambda>score. Inr (f32 F score)) (CompareAlignedFingerprints F S master query hit)))"

fun match_loop :: "('f, 'g) floats \<Rightarrow> Fingerprint \<Rightarrow> Fingerprint \<Rightarrow> 'f OffsetHit list \<Rightarrow> 'f MatchResult \<Rightarrow> 'f MatchResult option" where
  "match_loop F master query [] result = Some result"
| "match_loop F master query (hit # hits) result =
     Option.bind (matchAlignedFingerprints F master query (hit_Offset hit)) (\<lambda>sections.
     if length sections > 0 then Some (result\<lparr> Sections := sections \<rparr>)
     else match_loop F master query hits result)"

definition Match :: "('f, 'g) floats \<Rightarrow> sort_alg \<Rightarrow> FingerprintMatcher \<Rightarrow> Fingerprint \<Rightarrow> Fingerprint \<Rightarrow> (match_error + 'f MatchResult) option" where
  "Match F S fm master query =
     (if Version master \<noteq> Version query then Some (Inl ErrInvalidFingerprintVersion)
      else case FingerprintConfigs (sint (Version master)) of
        None \<Rightarrow> Some (Inl ErrInvalidFingerprintVersion)
      | Some config \<Rightarrow>
          if int (length (Hashes master)) \<ge> 65536 then Some (Inl MasterTooLong)
          else if int (length (Hashes query)) \<ge> 65536 then Some (Inl QueryTooLong)
          else
            let result = \<lparr> mr_Version = sint (Version master), mr_Config = config,
                  MasterLength = int (length (Hashes master)), QueryLength = int (length (Hashes query)),
                  Sections = [] \<rparr>
            in Option.bind (AlignFingerprints F S master query (NumAlignBits fm) (MaxOffsetCandidates fm) (MaxOffset fm)) (\<lambda>offsetHits.
               map_option Inr (match_loop F master query offsetHits result)))"

definition CompareFingerprints :: "('f, 'g) floats \<Rightarrow> sort_alg \<Rightarrow> Fingerprint \<Rightarrow> Fingerprint \<Rightarrow> (match_error + 'g) option" where
  "CompareFingerprints F S master query = Compare F S NewFingerprintMatcher master query"

definition MatchFingerprints :: "('f, 'g) floats \<Rightarrow> sort_alg \<Rightarrow> Fingerprint \<Rightarrow> Fingerprint \<Rightarrow> (match_error + 'f MatchResult) option" where
  "MatchFingerprints F S master query = Match F S NewFingerprintMatcher master query"

section \<open>Counting distinct hashes\<close>

lemma remdups_adj_snoc:
  "remdups_adj (xs @ [x]) = (if xs \<noteq> [] \<and> last xs = x then remdups_adj xs else remdups_adj xs @ [x])"
  by (induction xs rule: remdups_adj.induct) auto

lemma uniq_loop_eq:
  assumes "i \<le> length xs" and "take n hs = remdups_adj (take i xs)" and "drop i hs = drop i xs"
    and "length hs = length xs" and "n = length (remdups_adj (take i xs))"
  shows "uniq_loop i n hs = length (remdups_adj xs)"
  using assms
proof (induction "length xs - i" arbitrary: i n hs)
  case 0
  then show ?case by (subst uniq_loop.simps) simp
next
  case (Suc k)
  let ?r = "remdups_adj (take i xs)"
  have i: "i < length xs" using Suc.hyps by simp
  have n: "n \<le> i" using Suc.prems(5) remdups_adj_length [of "take i xs"] i by simp
  have x: "hs ! i = xs ! i" using Suc.prems(3,4) i by (metis hd_drop_conv_nth)
  have step: "remdups_adj (take (Suc i) xs) =
      (if take i xs \<noteq> [] \<and> last (take i xs) = xs ! i then ?r else ?r @ [xs ! i])"
    using i by (simp only: take_Suc_conv_app_nth remdups_adj_snoc)
  have dropi: "drop (Suc i) hs = drop (Suc i) xs" using Suc.prems(3) by (metis drop_Suc tl_drop)
  have n0: "n = 0 \<longleftrightarrow> take i xs = []" using Suc.prems(5) by simp
  have last: "hs ! (n - 1) = last (take i xs)" if "n \<noteq> 0"
  proof -
    have "?r \<noteq> []" using that Suc.prems(5) by auto
    then have "last ?r = ?r ! (n - 1)" unfolding Suc.prems(5) by (rule last_conv_nth)
    also have "\<dots> = take n hs ! (n - 1)" by (simp only: Suc.prems(2))
    also have "\<dots> = hs ! (n - 1)" using that by simp
    finally show ?thesis by simp
  qed
  show ?case
  proof (cases "n = 0 \<or> hs ! i \<noteq> hs ! (n - 1)")
    case True
    then have r: "remdups_adj (take (Suc i) xs) = ?r @ [xs ! i]" using step n0 last x by auto
    have "uniq_loop (i + 1) (n + 1) (hs[n := hs ! i]) = length (remdups_adj xs)"
    proof (rule Suc.hyps(1))
      show "take (n + 1) (hs[n := hs ! i]) = remdups_adj (take (i + 1) xs)"
        using r Suc.prems(2,4) i n x by (simp add: take_Suc_conv_app_nth)
      show "drop (i + 1) (hs[n := hs ! i]) = drop (i + 1) xs" using dropi n by simp
    qed (use Suc.hyps Suc.prems i r in simp_all)
    with True i Suc.prems(4) show ?thesis by (subst uniq_loop.simps) simp
  next
    case False
    then have r: "remdups_adj (take (Suc i) xs) = ?r" using step n0 last x by auto
    have "uniq_loop (i + 1) n hs = length (remdups_adj xs)"
      by (rule Suc.hyps(1)) (use Suc.hyps Suc.prems i r dropi in simp_all)
    with False i Suc.prems(4) show ?thesis by (subst uniq_loop.simps) simp
  qed
qed

lemma length_remdups_adj_sorted:
  fixes xs :: "'a::linorder list"
  shows "sorted xs \<Longrightarrow> length (remdups_adj xs) = card (set xs)"
proof (induction xs rule: remdups_adj.induct)
  case (3 x y xs)
  then show ?case by (cases "x = y") (auto simp: card_insert_if)
qed simp_all

lemma countUniqueHashes_eq:
  assumes "sort_contract S"
  shows "countUniqueHashes S hashes nbits = card ((\<lambda>h. h AND hashBitMask nbits) ` set hashes)"
proof -
  let ?xs = "sort_slice S (<) (map (\<lambda>h. h AND hashBitMask nbits) hashes)"
  have "sorted ?xs" using sorted_sort_slice_key [OF assms, of "\<lambda>x. x"] by simp
  then show ?thesis
    by (simp add: countUniqueHashes_def Let_def uniq_loop_eq [of 0 ?xs] length_remdups_adj_sorted
        set_sort_slice [OF assms])
qed

section \<open>The histogram of offsets\<close>

lemma length_hash_offsets [simp]: "length (hash_offsets m hs) = length hs"
  by (simp add: hash_offsets_def)

lemma nth_hash_offsets:
  "i < length hs \<Longrightarrow> hash_offsets m hs ! i = \<lparr> Hash = hs ! i AND m, Offset = int i \<rparr>"
  by (simp add: hash_offsets_def nth_enumerate_eq)

lemma Offset_hash_offsets: "q \<in> set (hash_offsets m hs) \<Longrightarrow> 0 \<le> Offset q \<and> Offset q < int (length hs)"
  by (auto simp: in_set_conv_nth nth_hash_offsets)

lemma skip_smaller_eq:
  "i \<le> length qs \<Longrightarrow> skip_smaller qs h i = i + length (takeWhile (\<lambda>q. Hash q < h) (drop i qs))"
proof (induction qs h i rule: skip_smaller.induct)
  case (1 qs h i)
  show ?case
  proof (cases "i < length qs")
    case True
    then have "drop i qs = qs ! i # drop (Suc i) qs" by (rule Cons_nth_drop_Suc [symmetric])
    with 1 True show ?thesis by (subst skip_smaller.simps) auto
  qed (use 1 in \<open>subst skip_smaller.simps; simp\<close>)
qed

text \<open>The positions one element of the master fingerprint adds to, and adding to all of them.\<close>

definition pair_offsets :: "int \<Rightarrow> int \<Rightarrow> HashOffset \<Rightarrow> HashOffset list \<Rightarrow> int list" where
  "pair_offsets maxOffset n mo qs =
     map (\<lambda>q. Offset mo - Offset q + n)
       (filter (\<lambda>q. maxOffset = 0 \<or> (- maxOffset \<le> Offset mo - Offset q \<and> Offset mo - Offset q \<le> maxOffset)) qs)"

definition tally :: "('f, 'g) floats \<Rightarrow> int list \<Rightarrow> 'f list \<Rightarrow> 'f list" where
  "tally F ks counts = foldl (\<lambda>cs k. cs[nat k := f_add F (cs ! nat k) (f_int F 1)]) counts ks"

lemma tally_simps [simp]:
  "tally F [] counts = counts"
  "tally F (k # ks) counts = tally F ks (counts[nat k := f_add F (counts ! nat k) (f_int F 1)])"
  "tally F (ks @ ks') counts = tally F ks' (tally F ks counts)"
  by (simp_all add: tally_def)

lemma length_tally [simp]: "length (tally F ks counts) = length counts"
  by (induction ks arbitrary: counts) simp_all

lemma iterate_add:
  "((\<lambda>c. f_add F c u) ^^ n) (f_add F x u) = f_add F (((\<lambda>c. f_add F c u) ^^ n) x) u"
  by (induction n) simp_all

lemma nth_tally:
  "\<forall>k \<in> set ks. 0 \<le> k \<Longrightarrow> i < length counts \<Longrightarrow>
   tally F ks counts ! i = ((\<lambda>c. f_add F c (f_int F 1)) ^^ count_list ks (int i)) (counts ! i)"
proof (induction ks arbitrary: counts)
  case (Cons k ks)
  then show ?case by (auto simp: nth_list_update iterate_add)
qed simp

lemma bump_eq: "0 \<le> k \<Longrightarrow> k < int (length counts) \<Longrightarrow> bump F k counts = Some (tally F [k] counts)"
  by (simp add: bump_def elem_at_def)

lemma count_equal_eq:
  assumes "\<forall>q \<in> set qs. 0 \<le> Offset mo - Offset q + int (length qs) \<and>
      Offset mo - Offset q + int (length qs) < int (length counts)"
  shows "count_equal F maxOffset qs mo j counts =
    Some (tally F (pair_offsets maxOffset (int (length qs)) mo
      (takeWhile (\<lambda>q. Hash q = Hash mo) (drop j qs))) counts)"
  using assms
proof (induction "length qs - j" arbitrary: j counts)
  case 0
  then show ?case by (subst count_equal.simps) (simp add: pair_offsets_def)
next
  case (Suc k)
  then have j: "j < length qs" by simp
  then have d: "drop j qs = qs ! j # drop (Suc j) qs" by (rule Cons_nth_drop_Suc [symmetric])
  let ?o = "Offset mo - Offset (qs ! j) + int (length qs)"
  have o: "0 \<le> ?o" "?o < int (length counts)" using Suc.prems j by auto
  have IH: "count_equal F maxOffset qs mo (j + 1) cs =
      Some (tally F (pair_offsets maxOffset (int (length qs)) mo
        (takeWhile (\<lambda>q. Hash q = Hash mo) (drop (Suc j) qs))) cs)"
    if "length cs = length counts" for cs
    using Suc.hyps Suc.prems that by simp
  have skip: ?case if "Hash (qs ! j) \<noteq> Hash mo"
    using that d by (subst count_equal.simps) (simp add: pair_offsets_def)
  let ?in = "maxOffset = 0 \<or> - maxOffset \<le> Offset mo - Offset (qs ! j) \<and> Offset mo - Offset (qs ! j) \<le> maxOffset"
  let ?w = "takeWhile (\<lambda>q. Hash q = Hash mo)"
  have w: "?w (drop j qs) = qs ! j # ?w (drop (Suc j) qs)" if "Hash (qs ! j) = Hash mo"
    using that d by simp
  show ?case
  proof (cases "Hash (qs ! j) = Hash mo")
    case True
    note h = this
    show ?thesis
    proof (cases ?in)
      case True
      then have "pair_offsets maxOffset (int (length qs)) mo (?w (drop j qs)) =
          ?o # pair_offsets maxOffset (int (length qs)) mo (?w (drop (Suc j) qs))"
        unfolding w [OF h] pair_offsets_def by (simp only: filter.simps if_True list.map)
      moreover have "count_equal F maxOffset qs mo j counts =
          count_equal F maxOffset qs mo (j + 1) (tally F [?o] counts)"
        using h j True
        by (subst count_equal.simps) (simp only: Let_def bump_eq [OF o] simp_thms if_True bind.bind_lunit)
      ultimately show ?thesis using IH [of "tally F [?o] counts"] by simp
    next
      case False
      then have "pair_offsets maxOffset (int (length qs)) mo (?w (drop j qs)) =
          pair_offsets maxOffset (int (length qs)) mo (?w (drop (Suc j) qs))"
        unfolding w [OF h] pair_offsets_def by (simp only: filter.simps if_False)
      moreover have "count_equal F maxOffset qs mo j counts = count_equal F maxOffset qs mo (j + 1) counts"
        using h j False by (subst count_equal.simps) (simp only: Let_def simp_thms if_True if_False)
      ultimately show ?thesis using IH [of counts] by simp
    qed
  qed (rule skip)
qed

lemma takeWhile_eq_filter_sorted:
  fixes h :: "'k::linorder"
  assumes "sorted (map key xs)" and "\<forall>x \<in> set (take i xs). key x < h"
  shows "filter (\<lambda>x. key x = h) xs =
    takeWhile (\<lambda>x. key x = h) (drop (length (takeWhile (\<lambda>x. key x < h) (drop i xs))) (drop i xs))"
proof -
  have sorted_case: "filter (\<lambda>x. key x = h) ys =
      takeWhile (\<lambda>x. key x = h) (drop (length (takeWhile (\<lambda>x. key x < h) ys)) ys)"
    if "sorted (map key ys)" for ys
    using that
  proof (induction ys)
    case (Cons y ys)
    have eq: "filter (\<lambda>x. key x = h) ys = takeWhile (\<lambda>x. key x = h) ys" if "h \<le> key y"
    proof -
      have "takeWhile (\<lambda>x. key x < h) ys = []"
        using that Cons.prems by (cases ys) auto
      with Cons show ?thesis by simp
    qed
    consider "key y < h" | "key y = h" | "h < key y" by fastforce
    then show ?case
    proof cases
      case 3
      then have "filter (\<lambda>x. key x = h) ys = []" using Cons.prems by (auto simp: filter_empty_conv)
      with 3 show ?thesis by auto
    qed (use Cons eq in auto)
  qed simp
  have "filter (\<lambda>x. key x = h) xs = filter (\<lambda>x. key x = h) (take i xs @ drop i xs)" by simp
  also have "\<dots> = filter (\<lambda>x. key x = h) (drop i xs)"
    using assms(2) by (auto simp del: append_take_drop_id simp: filter_empty_conv)
  also have "sorted (map key (drop i xs))" using assms(1) by (simp only: drop_map [symmetric] sorted_wrt_drop)
  from sorted_case [OF this] show ?thesis using calculation by simp
qed

lemma align_counts_eq:
  assumes "sorted (map Hash qs)" and "sorted (map Hash ms)" and "i \<le> length qs"
    and "\<forall>q \<in> set (take i qs). \<forall>mo \<in> set ms. Hash q < Hash mo"
    and "\<forall>mo \<in> set ms. \<forall>q \<in> set qs. 0 \<le> Offset mo - Offset q + int (length qs) \<and>
      Offset mo - Offset q + int (length qs) < int (length counts)"
  shows "align_counts F maxOffset qs ms i counts =
    Some (tally F (concat (map (\<lambda>mo. pair_offsets maxOffset (int (length qs)) mo
      (filter (\<lambda>q. Hash q = Hash mo) qs)) ms)) counts)"
  using assms(2-5)
proof (induction ms arbitrary: i counts)
  case (Cons mo ms)
  let ?i = "skip_smaller qs (Hash mo) i"
  let ?w = "takeWhile (\<lambda>q. Hash q < Hash mo) (drop i qs)"
  have i: "?i = i + length ?w" using Cons.prems(2) by (rule skip_smaller_eq)
  have ile: "?i \<le> length qs"
    using length_takeWhile_le [of "\<lambda>q. Hash q < Hash mo" "drop i qs"] Cons.prems(2) unfolding i by simp
  have take: "take ?i qs = take i qs @ ?w"
    unfolding i take_add by (simp add: takeWhile_eq_take [symmetric])
  have below: "\<forall>q \<in> set (take ?i qs). Hash q < Hash mo"
    using Cons.prems(3) unfolding take by (auto dest: set_takeWhileD)
  have f: "filter (\<lambda>q. Hash q = Hash mo) qs = takeWhile (\<lambda>q. Hash q = Hash mo) (drop ?i qs)"
    using takeWhile_eq_filter_sorted [OF assms(1), of i "Hash mo"] Cons.prems(3)
    unfolding i by (simp add: add.commute)
  have below_ms: "\<forall>q \<in> set (take ?i qs). \<forall>mo' \<in> set ms. Hash q < Hash mo'"
    using below Cons.prems(1) by fastforce
  show ?case
  proof (cases "?i \<ge> length qs")
    case True
    then have "\<forall>q \<in> set qs. \<forall>mo' \<in> set (mo # ms). Hash q < Hash mo'" using below below_ms by simp
    then have "\<forall>mo' \<in> set (mo # ms). pair_offsets maxOffset (int (length qs)) mo'
        (filter (\<lambda>q. Hash q = Hash mo') qs) = []"
      by (fastforce simp: pair_offsets_def filter_empty_conv)
    then have "concat (map (\<lambda>mo. pair_offsets maxOffset (int (length qs)) mo
        (filter (\<lambda>q. Hash q = Hash mo) qs)) (mo # ms)) = []"
      by simp
    with True show ?thesis by (simp only: align_counts.simps Let_def if_True tally_simps)
  next
    case False
    let ?p = "pair_offsets maxOffset (int (length qs)) mo (filter (\<lambda>q. Hash q = Hash mo) qs)"
    have "count_equal F maxOffset qs mo ?i counts = Some (tally F ?p counts)"
      using Cons.prems(4) unfolding f by (intro count_equal_eq) simp
    moreover have "align_counts F maxOffset qs ms ?i (tally F ?p counts) =
        Some (tally F (concat (map (\<lambda>mo. pair_offsets maxOffset (int (length qs)) mo
          (filter (\<lambda>q. Hash q = Hash mo) qs)) ms)) (tally F ?p counts))"
      using Cons.prems(1,4) ile below_ms by (intro Cons.IH) simp_all
    ultimately show ?thesis using False by (simp add: Let_def)
  qed
qed simp

text \<open>How often a position is hit, counted on the sorted lists and then on the fingerprints.\<close>

lemma count_list_concat_map: "count_list (concat (map f xs)) k = (\<Sum>x\<leftarrow>xs. count_list (f x) k)"
  by (induction xs) simp_all

lemma count_list_map_filter: "count_list (map f (filter P xs)) k = length (filter (\<lambda>x. P x \<and> f x = k) xs)"
  by (induction xs) auto

lemma sum_list_mset_eq: "mset xs = mset ys \<Longrightarrow> sum_list (map f xs) = sum_list (map f ys)"
  for f :: "'a \<Rightarrow> nat"
  by (metis mset_map sum_mset_sum_list)

lemma length_filter_mset_eq: "mset xs = mset ys \<Longrightarrow> length (filter P xs) = length (filter P ys)"
  by (metis mset_filter size_mset)

definition in_range :: "int \<Rightarrow> int \<Rightarrow> bool" where
  "in_range maxOffset d \<longleftrightarrow> maxOffset = 0 \<or> (- maxOffset \<le> d \<and> d \<le> maxOffset)"

definition matches_at :: "u32 \<Rightarrow> int \<Rightarrow> u32 list \<Rightarrow> u32 list \<Rightarrow> int \<Rightarrow> (nat \<times> nat) set" where
  "matches_at m maxOffset mh qh d =
     {(i, j). i < length mh \<and> j < length qh \<and> mh ! i AND m = qh ! j AND m \<and>
              in_range maxOffset d \<and> int i - int j = d}"

lemma count_hits:
  assumes "mset ms = mset (hash_offsets m mh)" and "mset qs = mset (hash_offsets m qh)"
  shows "count_list (concat (map (\<lambda>mo. pair_offsets maxOffset n mo (filter (\<lambda>q. Hash q = Hash mo) qs)) ms)) k =
    card (matches_at m maxOffset mh qh (k - n))"
proof -
  let ?P = "\<lambda>mo q. Hash q = Hash mo \<and> in_range maxOffset (Offset mo - Offset q) \<and> Offset mo - Offset q + n = k"
  let ?g = "\<lambda>mo. length (filter (?P mo) (hash_offsets m qh))"
  have "count_list (pair_offsets maxOffset n mo (filter (\<lambda>q. Hash q = Hash mo) qs)) k = ?g mo" for mo
    unfolding pair_offsets_def count_list_map_filter filter_filter in_range_def [symmetric] conj_assoc
    by (rule length_filter_mset_eq [OF assms(2)])
  then have "?thesis \<longleftrightarrow> sum_list (map ?g ms) = card (matches_at m maxOffset mh qh (k - n))"
    by (simp add: count_list_concat_map)
  also have "sum_list (map ?g ms) = sum_list (map ?g (hash_offsets m mh))"
    by (rule sum_list_mset_eq [OF assms(1)])
  also have "\<dots> = (\<Sum>i<length mh. ?g (hash_offsets m mh ! i))"
    by (simp add: sum_list_sum_nth lessThan_atLeast0)
  also have "\<dots> = (\<Sum>i<length mh. card {j. j < length qh \<and> mh ! i AND m = qh ! j AND m \<and>
      in_range maxOffset (k - n) \<and> int i - int j = k - n})"
  proof (rule sum.cong [OF refl])
    fix i assume "i \<in> {..<length mh}"
    then show "?g (hash_offsets m mh ! i) = card {j. j < length qh \<and> mh ! i AND m = qh ! j AND m \<and>
        in_range maxOffset (k - n) \<and> int i - int j = k - n}"
      by (auto simp: length_filter_conv_card nth_hash_offsets intro!: arg_cong [where f = card])
  qed
  also have "\<dots> = card (SIGMA i:{..<length mh}. {j. j < length qh \<and> mh ! i AND m = qh ! j AND m \<and>
      in_range maxOffset (k - n) \<and> int i - int j = k - n})"
    by (rule card_SigmaI [symmetric]) auto
  also have "(SIGMA i:{..<length mh}. {j. j < length qh \<and> mh ! i AND m = qh ! j AND m \<and>
      in_range maxOffset (k - n) \<and> int i - int j = k - n}) = matches_at m maxOffset mh qh (k - n)"
    by (auto simp: matches_at_def)
  finally show ?thesis by simp
qed

text \<open>\<open>n\<close> added to zero by ones, which is what the code's counter holds.\<close>

definition counted :: "('f, 'g) floats \<Rightarrow> nat \<Rightarrow> 'f" where
  "counted F n = ((\<lambda>c. f_add F c (f_int F 1)) ^^ n) (f_int F 0)"

definition histogram :: "('f, 'g) floats \<Rightarrow> u32 \<Rightarrow> int \<Rightarrow> u32 list \<Rightarrow> u32 list \<Rightarrow> 'f list" where
  "histogram F m maxOffset mh qh =
     map (\<lambda>k. counted F (card (matches_at m maxOffset mh qh (int k - int (length qh)))))
       [0..<length mh + length qh + 1]"

lemma counted_real: "counted real_floats n = real n"
  by (induction n) (simp_all add: counted_def)

lemma align_counts_histogram:
  assumes S: "sort_contract S"
  shows "align_counts F maxOffset (sort_slice S (\<lambda>a b. Hash a < Hash b) (hash_offsets m qh))
      (sort_slice S (\<lambda>a b. Hash a < Hash b) (hash_offsets m mh)) 0
      (replicate (length mh + length qh + 1) (f_int F 0)) = Some (histogram F m maxOffset mh qh)"
proof -
  let ?qs = "sort_slice S (\<lambda>a b. Hash a < Hash b) (hash_offsets m qh)"
  let ?ms = "sort_slice S (\<lambda>a b. Hash a < Hash b) (hash_offsets m mh)"
  let ?z = "replicate (length mh + length qh + 1) (f_int F 0)"
  let ?ks = "concat (map (\<lambda>mo. pair_offsets maxOffset (int (length ?qs)) mo
      (filter (\<lambda>q. Hash q = Hash mo) ?qs)) ?ms)"
  have len: "length ?qs = length qh" by (simp add: length_sort_slice [OF S])
  have bounds: "0 \<le> Offset mo - Offset q + int (length qh) \<and>
      Offset mo - Offset q + int (length qh) < int (length ?z)"
    if "mo \<in> set ?ms" "q \<in> set ?qs" for mo q
    using that Offset_hash_offsets [of mo m mh] Offset_hash_offsets [of q m qh]
    by (simp add: set_sort_slice [OF S])
  have eq: "align_counts F maxOffset ?qs ?ms 0 ?z = Some (tally F ?ks ?z)"
    by (rule align_counts_eq)
      (use bounds in \<open>simp_all add: sorted_sort_slice_key [OF S] len del: length_replicate\<close>)
  have pos: "\<forall>k \<in> set ?ks. 0 \<le> k"
    using bounds by (auto simp: pair_offsets_def len)
  have "tally F ?ks ?z ! i = histogram F m maxOffset mh qh ! i" if "i < length mh + length qh + 1" for i
  proof -
    have "tally F ?ks ?z ! i = ((\<lambda>c. f_add F c (f_int F 1)) ^^ count_list ?ks (int i)) (?z ! i)"
      by (rule nth_tally [OF pos]) (use that in simp)
    also have "count_list ?ks (int i) = card (matches_at m maxOffset mh qh (int i - int (length qh)))"
      unfolding len by (rule count_hits) (rule mset_sort_slice [OF S])+
    finally show ?thesis using that by (simp add: histogram_def counted_def del: upt_Suc replicate_Suc)
  qed
  then have "tally F ?ks ?z = histogram F m maxOffset mh qh"
    by (intro nth_equalityI) (simp_all add: histogram_def)
  with eq show ?thesis by simp
qed

section \<open>No panics\<close>

lemma AlignFingerprints_Some:
  assumes S: "sort_contract S" and "0 \<le> limit"
  shows "\<exists>hits. AlignFingerprints F S master query nbits limit maxOffset = Some hits \<and>
    int (length hits) \<le> limit \<and>
    (\<forall>h \<in> set hits. - int (length (Hashes query)) \<le> hit_Offset h \<and>
       hit_Offset h \<le> int (length (Hashes master)))"
proof -
  let ?mh = "Hashes master" and ?qh = "Hashes query"
  let ?n = "length ?mh + length ?qh + 1"
  let ?h = "histogram F (hashBitMask nbits) maxOffset ?mh ?qh"
  let ?b = "\<lparr> border_Type = BorderReflect, border_Value = f_int F 0 \<rparr>"
  have "?h \<noteq> []" by (simp add: histogram_def)
  then obtain sc where sc: "GaussianFilter F ?h (replicate ?n (f_int F 0)) 3 (f_lit F (13/10)) ?b = Some sc"
    and len: "length sc = ?n"
    using GaussianFilter_total [of 3 ?h "replicate ?n (f_int F 0)" F "f_lit F (13/10)" ?b] by auto
  let ?hits = "sort_slice S (\<lambda>a b. f_le F (Count b) (Count a)) (offset_hits F sc (length ?qh))"
  have "AlignFingerprints F S master query nbits limit maxOffset =
      (if int (length ?hits) > limit then Some (take (nat limit) ?hits) else Some ?hits)"
    using assms(2) align_counts_histogram [OF S, of F maxOffset "hashBitMask nbits" ?qh ?mh] sc
    by (simp add: AlignFingerprints_def Let_def length_sort_slice [OF S])
  moreover have "- int (length ?qh) \<le> hit_Offset h \<and> hit_Offset h \<le> int (length ?mh)"
    if "h \<in> set ?hits" for h
    using that by (auto simp: set_sort_slice [OF S] offset_hits_def len simp del: upt_Suc)
  ultimately show ?thesis using assms(2) by (auto dest: in_set_takeD)
qed

lemma slice_from_some: "n \<le> length xs \<Longrightarrow> slice_from xs n = Some (drop n xs)"
  by (simp add: slice_from_def)

lemma CompareAligned_Some:
  assumes "- int (length (Hashes b)) \<le> hit_Offset h" and "hit_Offset h \<le> int (length (Hashes a))"
  shows "\<exists>s. CompareAlignedFingerprints F S a b h = Some s"
  using assms by (auto simp: CompareAlignedFingerprints_def Let_def slice_from_some nat_le_iff)

lemma subseq_in_set: "subseq xs ys \<Longrightarrow> x \<in> set xs \<Longrightarrow> x \<in> set ys"
  by (auto dest: list_emb_set)

lemma subseq_sorted: "subseq xs ys \<Longrightarrow> sorted ys \<Longrightarrow> sorted xs"
  by (induction rule: list_emb.induct) (auto dest: list_emb_set)

lemma edges_loop_Some:
  assumes "\<forall>i \<in> set is. i + 1 < length grad" and "length smooth = length grad"
  shows "\<exists>es. edges_loop F grad smooth is = Some es \<and> subseq es is"
  using assms
proof (induction "is")
  case (Cons i "is")
  then obtain es where "edges_loop F grad smooth is = Some es" "subseq es is" by auto
  moreover have "\<exists>e. edge_at F grad smooth i = Some e"
    using Cons.prems by (simp add: edge_at_def idx_def less_imp_diff_less Let_def)
  ultimately show ?case by auto
qed simp

lemma sum_diff_Some: "\<forall>j \<in> set js. j < length diff \<Longrightarrow> \<exists>s'. sum_diff F diff js s = Some s'"
proof (induction js arbitrary: s)
  case (Cons j js)
  then have "\<exists>s'. sum_diff F diff js (f_add F s (diff ! j)) = Some s'" by simp
  with Cons.prems show ?case by (simp add: idx_def)
qed simp

text \<open>Sections lie between consecutive edges: in order, disjoint, inside \<open>[a, n]\<close>.\<close>

fun sections_in :: "int \<Rightarrow> int \<Rightarrow> 'f MatchingSection list \<Rightarrow> bool" where
  "sections_in a n [] = True"
| "sections_in a n (m # ms) \<longleftrightarrow>
     a \<le> sec_Start m \<and> sec_Start m \<le> sec_End m \<and> sec_End m \<le> n \<and> sections_in (sec_End m) n ms"

lemma sections_in_mono: "sections_in b n ms \<Longrightarrow> a \<le> b \<Longrightarrow> sections_in a n ms"
  by (cases ms) auto

lemma sections_in_bounds:
  "sections_in a n ms \<Longrightarrow> m \<in> set ms \<Longrightarrow> a \<le> sec_Start m \<and> sec_Start m \<le> sec_End m \<and> sec_End m \<le> n"
  by (induction a n ms rule: sections_in.induct) force+

lemma sections_loop_Some:
  assumes "sorted edges" and "\<forall>e \<in> set edges. e \<le> length diff" and "edges \<noteq> []"
  shows "\<exists>ms. sections_loop F diff offset edges = Some ms \<and>
    sections_in (int (hd edges)) (int (length diff)) ms \<and> (\<forall>m \<in> set ms. sec_Offset m = offset)"
  using assms
proof (induction F diff offset edges rule: sections_loop.induct)
  case (1 F diff offset a b es)
  obtain s where s: "sum_diff F diff [a..<b] (f_int F 0) = Some s"
    using sum_diff_Some [of "[a..<b]" diff F "f_int F 0"] "1.prems"(2) by auto
  obtain ms where ms: "sections_loop F diff offset (b # es) = Some ms"
    "sections_in (int b) (int (length diff)) ms" "\<forall>m \<in> set ms. sec_Offset m = offset"
    using "1.IH" [OF s refl refl] "1.prems" by auto
  moreover have "int a \<le> int b" "int b \<le> int (length diff)" using "1.prems" by auto
  ultimately show ?case using s by (auto simp: Let_def intro: sections_in_mono)
qed simp_all

lemma match_sections_Some:
  "\<exists>ms. match_sections F offset mh qh = Some ms \<and>
    sections_in 0 (int (min (length mh) (length qh))) ms \<and> (\<forall>m \<in> set ms. sec_Offset m = offset)"
proof -
  define n where "n = min (length mh) (length qh)"
  define diff where "diff = map (\<lambda>i. f_int F (int (PopCount32 (mh ! i XOR qh ! i)))) [0..<n]"
  let ?b = "\<lparr> border_Type = BorderReflect, border_Value = f_int F 0 \<rparr>"
  let ?z = "replicate n (f_int F 0)"
  have len: "length diff = n" by (simp add: diff_def)
  then have "diff \<noteq> [] \<or> ?z = []" by (cases n) auto
  then obtain sm where sm: "GaussianFilter F diff ?z 9 (f_lit F (13/10)) ?b = Some sm" "length sm = n"
    using GaussianFilter_total [of 9 diff ?z F "f_lit F (13/10)" ?b] by auto
  then obtain g where g: "Gradient F sm ?z = Some g" "length g = n"
    using Gradient_eq [of ?z sm F] by auto
  obtain es where es: "edges_loop F g sm [1..<n - 1] = Some es" "subseq es [1..<n - 1]"
  proof -
    have "\<forall>i \<in> set [1..<n - 1]. i + 1 < length g" unfolding g(2) by auto
    from edges_loop_Some [OF this, of sm F] g(2) sm(2) show ?thesis using that by metis
  qed
  have "sorted es" using es(2) by (rule subseq_sorted) (rule sorted_upt)
  moreover have in_es: "e < n" if "e \<in> set es" for e
    using subseq_in_set [OF es(2) that] by auto
  ultimately have "sorted (0 # es @ [n])" by (auto simp: sorted_append less_imp_le)
  then obtain ms where ms: "sections_loop F diff offset (0 # es @ [n]) = Some ms"
    "sections_in 0 (int n) ms" "\<forall>m \<in> set ms. sec_Offset m = offset"
    using sections_loop_Some [of "0 # es @ [n]" diff F offset] in_es unfolding len
    by (auto simp: less_imp_le simp del: sorted_wrt.simps)
  have "match_sections F offset mh qh = sections_loop F diff offset (0 # es @ [n])"
    unfolding match_sections_def Let_def n_def [symmetric] diff_def [symmetric]
    by (simp only: sm(1) g(1) es(1) bind.bind_lunit)
  with ms show ?thesis unfolding n_def by (intro exI [of _ ms]) simp
qed

lemma matchAligned_Some:
  assumes "- int (length (Hashes query)) \<le> offset" and "offset \<le> int (length (Hashes master))"
  shows "\<exists>ms. matchAlignedFingerprints F master query offset = Some ms \<and>
    sections_in 0 (min (int (length (Hashes master)) - max 0 offset) (int (length (Hashes query)) - max 0 (- offset))) ms \<and>
    (\<forall>m \<in> set ms. sec_Offset m = offset)"
proof -
  let ?mh = "if offset \<ge> 0 then drop (nat offset) (Hashes master) else Hashes master"
  let ?qh = "if offset \<ge> 0 then Hashes query else drop (nat (- offset)) (Hashes query)"
  have "matchAlignedFingerprints F master query offset = match_sections F offset ?mh ?qh"
    using assms by (simp add: matchAlignedFingerprints_def slice_from_some)
  moreover have "int (min (length ?mh) (length ?qh)) =
      min (int (length (Hashes master)) - max 0 offset) (int (length (Hashes query)) - max 0 (- offset))"
    using assms by auto
  ultimately show ?thesis using match_sections_Some [of F offset ?mh ?qh] by simp
qed

section \<open>Properties of matching\<close>

definition comparable :: "Fingerprint \<Rightarrow> Fingerprint \<Rightarrow> bool" where
  "comparable master query \<longleftrightarrow>
     Version master = 1 \<and> Version query = 1 \<and>
     length (Hashes master) < 65536 \<and> length (Hashes query) < 65536"

lemma FingerprintConfigs_Some:
  "(FingerprintConfigs (sint v) = None \<longleftrightarrow> v \<noteq> 1)" for v :: u32
proof -
  have "sint v = 1 \<longleftrightarrow> v = 1" using signed_word_eqI [of v 1] by auto
  then show ?thesis by (simp add: FingerprintConfigs_def)
qed

text \<open>The checks the matcher starts with: one error, the same from both operations, or none.\<close>

lemma Compare_checks:
  "\<not> comparable master query \<Longrightarrow>
   \<exists>e. CompareFingerprints F S master query = Some (Inl e) \<and> MatchFingerprints F S master query = Some (Inl e)"
  using FingerprintConfigs_Some [of "Version master"]
  by (auto simp: comparable_def CompareFingerprints_def MatchFingerprints_def Compare_def Match_def not_less
      split: option.splits)

lemma Compare_comparable:
  assumes "comparable master query" and "sort_contract S"
  obtains "CompareFingerprints F S master query = Some (Inr (f32 F (f_lit F 0)))"
  | h s where "- int (length (Hashes query)) \<le> hit_Offset h" "hit_Offset h \<le> int (length (Hashes master))"
      "CompareAlignedFingerprints F S master query h = Some s"
      "CompareFingerprints F S master query = Some (Inr (f32 F s))"
proof -
  have v: "FingerprintConfigs (sint (Version master)) \<noteq> None"
    using assms(1) FingerprintConfigs_Some [of "Version master"] by (simp add: comparable_def)
  obtain hits where al: "AlignFingerprints F S master query 14 1 80 = Some hits"
    and bounds: "\<forall>h \<in> set hits. - int (length (Hashes query)) \<le> hit_Offset h \<and> hit_Offset h \<le> int (length (Hashes master))"
    using AlignFingerprints_Some [OF assms(2), of 1 F master query 14 80] by auto
  have eq: "CompareFingerprints F S master query =
      (case hits of [] \<Rightarrow> Some (Inr (f32 F (f_lit F 0)))
       | hit # _ \<Rightarrow> map_option (\<lambda>score. Inr (f32 F score)) (CompareAlignedFingerprints F S master query hit))"
    using assms(1) v al
    by (auto simp: comparable_def CompareFingerprints_def Compare_def NewFingerprintMatcher_def
        split: option.split)
  show thesis
  proof (cases hits)
    case Nil
    with eq show thesis by (intro that(1)) simp
  next
    case (Cons h hs)
    with bounds have b: "- int (length (Hashes query)) \<le> hit_Offset h" "hit_Offset h \<le> int (length (Hashes master))"
      by auto
    then obtain s where "CompareAlignedFingerprints F S master query h = Some s"
      using CompareAligned_Some by blast
    with eq Cons b show thesis by (intro that(2)) simp_all
  qed
qed

lemma CompareFingerprints_Some:
  assumes "sort_contract S"
  shows "\<exists>r. CompareFingerprints F S master query = Some r"
proof (cases "comparable master query")
  case True
  from Compare_comparable [OF True assms, of F] show ?thesis by metis
next
  case False
  from Compare_checks [OF this, of F S] show ?thesis by blast
qed

text \<open>Sections inside both fingerprints.\<close>

definition inside :: "Fingerprint \<Rightarrow> Fingerprint \<Rightarrow> 'f MatchingSection \<Rightarrow> bool" where
  "inside master query m \<longleftrightarrow>
     0 \<le> sec_Start m \<and> sec_Start m \<le> sec_End m \<and>
     sec_End m + max 0 (sec_Offset m) \<le> int (length (Hashes master)) \<and>
     sec_End m + max 0 (- sec_Offset m) \<le> int (length (Hashes query))"

lemma match_loop_Some:
  assumes "\<forall>h \<in> set hits. - int (length (Hashes query)) \<le> hit_Offset h \<and> hit_Offset h \<le> int (length (Hashes master))"
    and "Sections result = []"
  shows "\<exists>mr. match_loop F master query hits result = Some mr \<and> mr = result\<lparr> Sections := Sections mr \<rparr> \<and>
    (\<forall>m \<in> set (Sections mr). inside master query m) \<and>
    (\<exists>n. sections_in 0 n (Sections mr) \<and> n \<le> int (length (Hashes master)) \<and> n \<le> int (length (Hashes query)))"
  using assms
proof (induction hits)
  case Nil
  then show ?case by (auto intro!: exI [of _ 0])
next
  case (Cons h hits)
  let ?n = "min (int (length (Hashes master)) - max 0 (hit_Offset h)) (int (length (Hashes query)) - max 0 (- hit_Offset h))"
  obtain ms where ms: "matchAlignedFingerprints F master query (hit_Offset h) = Some ms"
    "sections_in 0 ?n ms" "\<forall>m \<in> set ms. sec_Offset m = hit_Offset h"
    using matchAligned_Some [of query "hit_Offset h" master F] Cons.prems by auto
  show ?case
  proof (cases ms)
    case Nil
    with ms Cons show ?thesis by simp
  next
    case (Cons m ms')
    have "inside master query m" if "m \<in> set ms" for m
      using sections_in_bounds [OF ms(2) that] ms(3) that by (auto simp: inside_def)
    moreover have "?n \<le> int (length (Hashes master))" "?n \<le> int (length (Hashes query))" by simp_all
    ultimately show ?thesis using ms Cons by (auto intro!: exI [of _ ?n])
  qed
qed

lemma Match_comparable:
  assumes "comparable master query" and "sort_contract S"
  shows "\<exists>mr. MatchFingerprints F S master query = Some (Inr mr) \<and>
    FingerprintConfigs 1 = Some (mr_Config mr) \<and>
    MasterLength mr = int (length (Hashes master)) \<and> QueryLength mr = int (length (Hashes query)) \<and>
    (\<forall>m \<in> set (Sections mr). inside master query m) \<and>
    (\<exists>n. sections_in 0 n (Sections mr) \<and> n \<le> MasterLength mr \<and> n \<le> QueryLength mr)"
proof -
  obtain config where v: "FingerprintConfigs 1 = Some config" by (simp add: FingerprintConfigs_def)
  have one: "sint (Version master) = 1" using assms(1) by (simp add: comparable_def)
  obtain hits where al: "AlignFingerprints F S master query 14 1 80 = Some hits"
    and bounds: "\<forall>h \<in> set hits. - int (length (Hashes query)) \<le> hit_Offset h \<and> hit_Offset h \<le> int (length (Hashes master))"
    using AlignFingerprints_Some [OF assms(2), of 1 F master query 14 80] by auto
  let ?r = "\<lparr> mr_Version = sint (Version master), mr_Config = config,
      MasterLength = int (length (Hashes master)), QueryLength = int (length (Hashes query)), Sections = [] \<rparr>"
  have eq: "MatchFingerprints F S master query = map_option Inr (match_loop F master query hits ?r)"
    using assms(1) v one al
    by (simp add: comparable_def MatchFingerprints_def Match_def NewFingerprintMatcher_def)
  obtain mr where mr: "match_loop F master query hits ?r = Some mr" "mr = ?r\<lparr> Sections := Sections mr \<rparr>"
    "\<forall>m \<in> set (Sections mr). inside master query m"
    "\<exists>n. sections_in 0 n (Sections mr) \<and> n \<le> int (length (Hashes master)) \<and> n \<le> int (length (Hashes query))"
    using match_loop_Some [OF bounds, of ?r F] by auto
  have fields: "mr_Config mr = config" "MasterLength mr = int (length (Hashes master))"
    "QueryLength mr = int (length (Hashes query))"
    using arg_cong [OF mr(2), of mr_Config] arg_cong [OF mr(2), of MasterLength]
      arg_cong [OF mr(2), of QueryLength] by simp_all
  show ?thesis
    by (intro exI [of _ mr]) (use eq mr fields v in simp)
qed

text \<open>
  C4. Comparing and matching never panic, whatever the floating point does and however the sorting
  breaks ties: two fingerprints of version 1 with fewer than 65536 hashes each give a score and a
  match whose sections lie inside both fingerprints, any other two give the same error from both.
\<close>

theorem matching_total:
  assumes "sort_contract S"
  shows "if comparable master query
    then (\<exists>score. CompareFingerprints F S master query = Some (Inr score)) \<and>
         (\<exists>mr. MatchFingerprints F S master query = Some (Inr mr) \<and>
            (\<forall>m \<in> set (Sections mr). inside master query m))
    else \<exists>e. CompareFingerprints F S master query = Some (Inl e) \<and> MatchFingerprints F S master query = Some (Inl e)"
proof (cases "comparable master query")
  case True
  then have "\<exists>score. CompareFingerprints F S master query = Some (Inr score)"
    by (rule Compare_comparable [OF _ assms, of master query F]) blast+
  with True Match_comparable [OF True assms, of F] show ?thesis by auto
qed (simp add: Compare_checks)

theorem matching_total_witness:
  "if comparable \<lparr> Version = 1, Hashes = [1, 2] \<rparr> \<lparr> Version = 1, Hashes = [] \<rparr>
   then (\<exists>score. CompareFingerprints real_floats insertion_sort \<lparr> Version = 1, Hashes = [1, 2] \<rparr> \<lparr> Version = 1, Hashes = [] \<rparr> = Some (Inr score)) \<and>
        (\<exists>mr. MatchFingerprints real_floats insertion_sort \<lparr> Version = 1, Hashes = [1, 2] \<rparr> \<lparr> Version = 1, Hashes = [] \<rparr> = Some (Inr mr) \<and>
           (\<forall>m \<in> set (Sections mr). inside \<lparr> Version = 1, Hashes = [1, 2] \<rparr> \<lparr> Version = 1, Hashes = [] \<rparr> m))
   else \<exists>e. CompareFingerprints real_floats insertion_sort \<lparr> Version = 1, Hashes = [1, 2] \<rparr> \<lparr> Version = 1, Hashes = [] \<rparr> = Some (Inl e) \<and>
        MatchFingerprints real_floats insertion_sort \<lparr> Version = 1, Hashes = [1, 2] \<rparr> \<lparr> Version = 1, Hashes = [] \<rparr> = Some (Inl e)"
  by (rule matching_total [OF insertion_sort_contract])

text \<open>
  C7. The merge of the two sorted hash lists fills the histogram of offsets correctly: the counter
  of every offset holds the number of pairs of positions at that offset whose masked hashes agree,
  when the offset is within the maximum (or there is none), and zero otherwise.
\<close>

theorem align_counts_card:
  assumes "sort_contract S"
  shows "align_counts real_floats maxOffset
      (sort_slice S (\<lambda>a b. Hash a < Hash b) (hash_offsets m (Hashes query)))
      (sort_slice S (\<lambda>a b. Hash a < Hash b) (hash_offsets m (Hashes master))) 0
      (replicate (length (Hashes master) + length (Hashes query) + 1) 0) =
    Some (map (\<lambda>k. real (card {(i, j). i < length (Hashes master) \<and> j < length (Hashes query) \<and>
        Hashes master ! i AND m = Hashes query ! j AND m \<and>
        (maxOffset = 0 \<or> \<bar>int i - int j\<bar> \<le> maxOffset) \<and> int i - int j = int k - int (length (Hashes query))}))
      [0..<length (Hashes master) + length (Hashes query) + 1])"
proof -
  have "matches_at m maxOffset (Hashes master) (Hashes query) (int k - int (length (Hashes query))) =
      {(i, j). i < length (Hashes master) \<and> j < length (Hashes query) \<and>
        Hashes master ! i AND m = Hashes query ! j AND m \<and>
        (maxOffset = 0 \<or> \<bar>int i - int j\<bar> \<le> maxOffset) \<and> int i - int j = int k - int (length (Hashes query))}" for k
    by (auto simp: matches_at_def in_range_def)
  then show ?thesis
    using align_counts_histogram [OF assms, of real_floats maxOffset m "Hashes query" "Hashes master"]
    by (simp add: histogram_def counted_real del: upt_Suc)
qed

theorem align_counts_card_witness:
  "align_counts real_floats 80
      (sort_slice insertion_sort (\<lambda>a b. Hash a < Hash b) (hash_offsets 0xff (Hashes \<lparr> Version = 1, Hashes = [5, 7] \<rparr>)))
      (sort_slice insertion_sort (\<lambda>a b. Hash a < Hash b) (hash_offsets 0xff (Hashes \<lparr> Version = 1, Hashes = [7] \<rparr>))) 0
      (replicate (length (Hashes \<lparr> Version = 1, Hashes = [7 :: u32] \<rparr>) + length (Hashes \<lparr> Version = 1, Hashes = [5, 7 :: u32] \<rparr>) + 1) 0) \<noteq> None"
  by (subst align_counts_card [OF insertion_sort_contract]) simp

text \<open>
  \<open>countUniqueHashes\<close>, which sorts the masked hashes and moves the first of every run to the
  front of the slice while it ranges over it, returns the number of distinct masked hashes.
\<close>

theorem countUniqueHashes_card:
  assumes "sort_contract S"
  shows "countUniqueHashes S hashes numBits = card ((\<lambda>h. h AND hashBitMask numBits) ` set hashes)"
  using assms by (rule countUniqueHashes_eq)

theorem countUniqueHashes_card_witness:
  "countUniqueHashes insertion_sort [2, 3, 8, 2] 16 = card ((\<lambda>h. h AND hashBitMask 16) ` set [2, 3, 8, 2])"
  by (rule countUniqueHashes_card [OF insertion_sort_contract])

section \<open>The score\<close>

lemma PopCount32_le: "PopCount32 x \<le> 32"
proof -
  have "PopCount32 x = card {i. bit x i}" by (simp add: PopCount32_bit_count bit_count_word)
  also have "\<dots> \<le> card {..<32 :: nat}" by (rule card_mono) (auto dest: bit_imp_le_length)
  finally show ?thesis by simp
qed

lemma bit_error_le: "bit_error as bs \<le> 32 * min (length as) (length bs)"
proof -
  have "foldl (\<lambda>e (a, b). e + PopCount32 (a XOR b)) e ps \<le> e + 32 * length ps" for e ps
  proof (induction ps arbitrary: e)
    case (Cons p ps)
    have "foldl (\<lambda>e (a, b). e + PopCount32 (a XOR b)) e (p # ps)
        \<le> (e + PopCount32 (fst p XOR snd p)) + 32 * length ps"
      using Cons.IH [of "e + PopCount32 (fst p XOR snd p)"] by (simp add: case_prod_unfold)
    with PopCount32_le [of "fst p XOR snd p"] show ?case by simp
  qed simp
  from this [of 0 "zip as bs"] show ?thesis by (simp add: bit_error_def)
qed

lemma score_of_bounds:
  assumes "0 < sz" and "sz \<le> minSize" and "err \<le> 32 * sz"
  shows "0 \<le> score_of real_floats sz minSize err d \<and> score_of real_floats sz minSize err d \<le> 1"
proof -
  let ?a = "real sz / real minSize" and ?b = "1 - real err / (real sz * 32)"
  have "0 \<le> ?a" "?a \<le> 1" "0 \<le> ?b" "?b \<le> 1" using assms by (simp_all add: field_simps)
  then have s: "0 \<le> ?a * ?b" "?a * ?b \<le> 1" by (simp_all only: mult_nonneg_nonneg mult_le_one)
  have "0 \<le> (?a * ?b) powr (8 - 7 * d) \<and> (?a * ?b) powr (8 - 7 * d) \<le> 1" if "d < 1"
    using that s by (auto intro!: powr_le1)
  with s show ?thesis by (simp add: score_of_def Let_def)
qed

lemma aligned_score_bounds:
  assumes "min (length as) (length bs) \<le> n"
  shows "0 \<le> aligned_score real_floats S n c as bs \<and> aligned_score real_floats S n c as bs \<le> 1"
proof -
  have "0 < min (length as) (length bs) \<Longrightarrow>
      0 \<le> score_of real_floats (min (length as) (length bs)) n (bit_error as bs) d \<and>
      score_of real_floats (min (length as) (length bs)) n (bit_error as bs) d \<le> 1" for d
    by (rule score_of_bounds) (use assms bit_error_le in simp_all)
  then show ?thesis by (auto simp: aligned_score_def Let_def)
qed

lemma CompareAligned_bounds:
  assumes "CompareAlignedFingerprints real_floats S a b h = Some s"
  shows "0 \<le> s \<and> s \<le> 1"
  using assms
  by (auto simp: CompareAlignedFingerprints_def Let_def slice_from_def split: if_splits
      intro!: aligned_score_bounds [THEN conjunct1] aligned_score_bounds [THEN conjunct2])

text \<open>
  C40. Up to rounding, the score of two comparable fingerprints is a number between 0 and 1.
\<close>

theorem score_bounds:
  assumes "sort_contract S" and "comparable master query"
  shows "\<exists>score. CompareFingerprints real_floats S master query = Some (Inr score) \<and> 0 \<le> score \<and> score \<le> 1"
  by (rule Compare_comparable [OF assms(2,1), of real_floats]) (auto dest: CompareAligned_bounds)

theorem score_bounds_witness:
  "\<exists>score. CompareFingerprints real_floats insertion_sort \<lparr> Version = 1, Hashes = [1, 2, 3] \<rparr> \<lparr> Version = 1, Hashes = [2, 3] \<rparr> =
     Some (Inr score) \<and> 0 \<le> score \<and> score \<le> 1"
  by (rule score_bounds [OF insertion_sort_contract]) (simp add: comparable_def)

text \<open>
  A fingerprint aligned with itself scores exactly 1, provided the alignment has the support the
  code asks for, a fiftieth of the number of distinct hashes.
\<close>

theorem self_score:
  assumes "sort_contract S" and "Hashes fp \<noteq> []"
    and "real (card ((\<lambda>h. h AND hashBitMask 16) ` set (Hashes fp))) / 50 \<le> support"
  shows "CompareAlignedFingerprints real_floats S fp fp \<lparr> hit_Offset = 0, Count = support \<rparr> = Some 1"
proof -
  have "bit_error xs xs = 0" for xs
  proof -
    have "PopCount32 0 = 0" by code_simp
    then have "foldl (\<lambda>e (a, b). e + PopCount32 (a XOR b)) 0 (zip xs xs) = 0"
      by (induction xs) simp_all
    then show ?thesis by (simp add: bit_error_def)
  qed
  moreover have "\<not> support < real (countUniqueHashes S (Hashes fp) NumUniqBits) * (1 / 50)"
    using assms(3) by (simp add: countUniqueHashes_eq [OF assms(1)] NumUniqBits_def)
  ultimately show ?thesis
    using assms(2)
    by (simp add: CompareAlignedFingerprints_def Let_def slice_from_def aligned_score_def score_of_def of_rat_divide)
qed

theorem self_score_witness:
  "CompareAlignedFingerprints real_floats insertion_sort \<lparr> Version = 1, Hashes = [1, 2] \<rparr> \<lparr> Version = 1, Hashes = [1, 2] \<rparr>
     \<lparr> hit_Offset = 0, Count = 2 \<rparr> = Some 1"
proof (rule self_score [OF insertion_sort_contract])
  show "real (card ((\<lambda>h. h AND hashBitMask 16) ` set (Hashes \<lparr> Version = 1, Hashes = [1, 2] \<rparr>))) / 50 \<le> 2"
    using card_image_le [of "{1, 2 :: u32}" "\<lambda>h. h AND hashBitMask 16"] by simp
qed simp

section \<open>Durations\<close>

lemma sections_total:
  "sections_in a n ms \<Longrightarrow> a \<le> n \<Longrightarrow>
   0 \<le> foldl (\<lambda>l s. l + (sec_End s - sec_Start s)) 0 ms \<and>
   foldl (\<lambda>l s. l + (sec_End s - sec_Start s)) 0 ms \<le> n - a"
proof -
  have shift: "foldl (\<lambda>l s. l + (sec_End s - sec_Start s)) k ms = k + foldl (\<lambda>l s. l + (sec_End s - sec_Start s)) 0 ms"
    for k and ms :: "'a MatchingSection list"
  proof (induction ms arbitrary: k)
    case (Cons m ms)
    show ?case
      using Cons.IH [of "k + (sec_End m - sec_Start m)"] Cons.IH [of "sec_End m - sec_Start m"] by simp
  qed simp
  show "sections_in a n ms \<Longrightarrow> a \<le> n \<Longrightarrow> ?thesis"
  proof (induction a n ms rule: sections_in.induct)
    case (2 a n m ms)
    then show ?case using shift [of "sec_End m - sec_Start m" ms] by auto
  qed simp
qed

text \<open>
  The times of a match fit its fingerprints: the matching duration is defined, not negative
  and at most the durations of the query and of the master, and the match starts no later than each
  of them ends.
\<close>

theorem match_durations:
  assumes "sort_contract S" and "MatchFingerprints F S master query = Some (Inr mr)"
  shows "\<exists>d q m qo mo. MatchingDuration mr = Some d \<and> QueryDuration mr = Some q \<and> MasterDuration mr = Some m \<and>
    QueryOffset mr = Some qo \<and> MasterOffset mr = Some mo \<and>
    0 \<le> d \<and> d \<le> q \<and> d \<le> m \<and> 0 \<le> qo \<and> qo \<le> q \<and> 0 \<le> mo \<and> mo \<le> m"
proof -
  have "comparable master query"
    using Compare_checks [of master query F S] assms(2) by auto
  from Match_comparable [OF this assms(1), of F] assms(2) obtain n where
    config: "FingerprintConfigs 1 = Some (mr_Config mr)" and
    sections: "\<forall>s \<in> set (Sections mr). inside master query s" and
    lengths: "MasterLength mr = int (length (Hashes master))" "QueryLength mr = int (length (Hashes query))" and
    n: "sections_in 0 n (Sections mr)" "n \<le> MasterLength mr" "n \<le> QueryLength mr"
    by auto
  have c: "mr_Config mr = \<lparr> SampleRate = 11025, FrameSize = 4096, FrameOverlap = 2731,
      MaxFilterWidth = 16, NumFilterCoefficients = 5 \<rparr>"
    using config by (simp add: FingerprintConfigs_def)
  have offset: "Config_Offset (mr_Config mr) i = Some (123809000 * i)" for i
    by (simp add: c Config_Offset_def ItemDuration_def micros_def)
  have duration: "Config_Duration (mr_Config mr) i = Some (if i = 0 then 0 else 123809000 * i + 2600090000)" for i
    by (simp add: c Config_Duration_def Delay_def micros_def offset [unfolded c])
  let ?l = "foldl (\<lambda>l s. l + (sec_End s - sec_Start s)) 0 (Sections mr)"
  have l: "0 \<le> ?l" "?l \<le> MasterLength mr" "?l \<le> QueryLength mr"
    using sections_total [OF n(1)] n lengths by (cases "Sections mr"; force)+
  have first: "0 \<le> sec_Start s \<and> sec_Start s + max 0 (sec_Offset s) \<le> MasterLength mr \<and>
      sec_Start s + max 0 (- sec_Offset s) \<le> QueryLength mr" if "Sections mr = s # ss" for s ss
    using sections that by (simp add: inside_def lengths)
  show ?thesis
    using l first lengths
    by (auto simp: MatchingDuration_def QueryDuration_def MasterDuration_def QueryOffset_def MasterOffset_def
        duration offset split: list.splits)
qed

theorem match_durations_witness:
  "\<exists>mr d q. MatchFingerprints real_floats insertion_sort \<lparr> Version = 1, Hashes = [1, 2, 3] \<rparr> \<lparr> Version = 1, Hashes = [2, 3] \<rparr> =
     Some (Inr mr) \<and> MatchingDuration mr = Some d \<and> QueryDuration mr = Some q \<and> 0 \<le> d \<and> d \<le> q"
proof -
  have "comparable \<lparr> Version = 1, Hashes = [1, 2, 3] \<rparr> \<lparr> Version = 1, Hashes = [2, 3] \<rparr>"
    by (simp add: comparable_def)
  from Match_comparable [OF this insertion_sort_contract, of real_floats] obtain mr where
    mr: "MatchFingerprints real_floats insertion_sort \<lparr> Version = 1, Hashes = [1, 2, 3] \<rparr> \<lparr> Version = 1, Hashes = [2, 3] \<rparr> = Some (Inr mr)"
    by blast
  with match_durations [OF insertion_sort_contract mr] show ?thesis by blast
qed

end
