(* ===== verification/IndexQuery.thy ===== *)
theory IndexQuery
  imports Updater Encoding GoSort
begin

unbundle bit_operations_syntax

text \<open>
  \<open>pkg/fpstore/index.go\<close>: what the fingerprint store asks the index, and which of the index's
  answers it looks at. A slice that the code fills up to \<open>querySize\<close> is the list of what it holds;
  \<open>None\<close> is a panic.
\<close>

section \<open>The query\<close>

definition QuerySize :: nat where "QuerySize = 120"
definition QueryStart :: int where "QueryStart = 80"
definition QueryBitMask :: u32 where "QueryBitMask = 0xFFFFFFF0"
definition SilenceHash :: u32 where "SilenceHash = 627964279"

fun count_clean :: "u32 list \<Rightarrow> int" where
  "count_clean [] = 0"
| "count_clean (hash # hashes) = (if hash \<noteq> SilenceHash then 1 else 0) + count_clean hashes"

fun extract_loop :: "u32 list \<Rightarrow> u32 set \<Rightarrow> u32 list \<Rightarrow> u32 list" where
  "extract_loop [] queryHashes query = query"
| "extract_loop (hash # hashes) queryHashes query =
     (if length query < QuerySize
      then if hash = SilenceHash then extract_loop hashes queryHashes query
           else let hash = hash AND QueryBitMask in
             if hash \<in> queryHashes then extract_loop hashes queryHashes query
             else extract_loop hashes (insert hash queryHashes) (query @ [hash])
      else query)"

definition ExtractLegacyQuery :: "Fingerprint \<Rightarrow> u32 list" where
  "ExtractLegacyQuery fp =
     (let cleanSize = count_clean (Hashes fp) in
      if cleanSize \<le> 0 then []
      else extract_loop (drop (nat (max 0 (min (cleanSize - int QuerySize) QueryStart))) (Hashes fp)) {} [])"

section \<open>The results\<close>

definition better :: "pb_Result \<Rightarrow> pb_Result \<Rightarrow> bool" where
  "better a b \<longleftrightarrow> Hits a > Hits b \<or> (Hits a = Hits b \<and> Id a < Id b)"

definition hits_threshold :: "pb_Result \<Rightarrow> u32" where
  "hits_threshold r = (Hits r * 10 + 50) div 100"

definition filterIndexSearchResults :: "sort_alg \<Rightarrow> pb_Result list \<Rightarrow> int \<Rightarrow> pb_Result list option" where
  "filterIndexSearchResults S results limit =
     (let results = sort_slice S better results in
      Option.bind
        (if limit = 0 \<or> int (length results) > limit
         then Option.bind (idx results 0) (\<lambda>r.
           let threshold = hits_threshold r;
               thresholdIndex = sort_Search (length results) (\<lambda>i. Hits (results ! i) < threshold)
           in Some (if limit = 0 \<or> limit > int thresholdIndex then int thresholdIndex else limit))
         else Some limit)
        (\<lambda>limit. Some (if limit > 0 \<and> int (length results) > limit then take (nat limit) results else results)))"

text \<open>
  \<open>Search\<close>: the borrowed client, the candidate ids or the error, and the client returned.
\<close>

definition Index_Search ::
  "sort_alg \<Rightarrow> server \<Rightarrow> Context \<Rightarrow> client_error + IndexClient \<Rightarrow> Fingerprint \<Rightarrow> int \<Rightarrow>
   ((client_error + u64 list) \<times> IndexClient option) option" where
  "Index_Search S srv ctx borrow fp limit =
     (let hashes = ExtractLegacyQuery fp in
      if length hashes = 0 then Some (Inr [], None)
      else case Pool_Search srv ctx borrow hashes of
        (Inl err, c) \<Rightarrow> Some (Inl err, c)
      | (Inr results, c) \<Rightarrow>
          map_option (\<lambda>results. (Inr (map (\<lambda>result. ucast (Id result)) results), c))
            (filterIndexSearchResults S results limit))"

section \<open>What the query is\<close>

text \<open>The first occurrences in a list, in order.\<close>

fun firsts :: "'a set \<Rightarrow> 'a list \<Rightarrow> 'a list" where
  "firsts seen [] = []"
| "firsts seen (x # xs) = (if x \<in> seen then firsts seen xs else x # firsts (insert x seen) xs)"

lemma set_firsts: "set (firsts seen xs) = set xs - seen"
  by (induction seen xs rule: firsts.induct) auto

lemma distinct_firsts: "distinct (firsts seen xs)"
  by (induction seen xs rule: firsts.induct) (auto simp: set_firsts)

definition clean :: "u32 list \<Rightarrow> u32 list" where
  "clean hs = map (\<lambda>h. h AND QueryBitMask) (filter (\<lambda>h. h \<noteq> SilenceHash) hs)"

definition query_start :: "u32 list \<Rightarrow> nat" where
  "query_start hs = nat (max 0 (min (count_clean hs - int QuerySize) QueryStart))"

lemma extract_loop_eq:
  "length query \<le> QuerySize \<Longrightarrow>
   extract_loop hs seen query = take QuerySize (query @ firsts seen (clean hs))"
proof (induction hs seen query rule: extract_loop.induct)
  case (2 hash hs seen query)
  show ?case
  proof (cases "length query < QuerySize")
    case True
    with 2 show ?thesis by (simp add: clean_def Let_def)
  qed (use 2 in simp)
qed (simp add: clean_def)

lemma count_clean_filter: "count_clean hs = int (length (filter (\<lambda>h. h \<noteq> SilenceHash) hs))"
  by (induction hs) simp_all

lemma ExtractLegacyQuery_eq:
  "ExtractLegacyQuery fp = take QuerySize (firsts {} (clean (drop (query_start (Hashes fp)) (Hashes fp))))"
proof (cases "count_clean (Hashes fp) \<le> 0")
  case True
  then have "filter (\<lambda>h. h \<noteq> SilenceHash) (Hashes fp) = []" by (simp add: count_clean_filter)
  then have "filter (\<lambda>h. h \<noteq> SilenceHash) (drop n (Hashes fp)) = []" for n
    by (metis filter_empty_conv in_set_dropD)
  with True show ?thesis by (simp add: ExtractLegacyQuery_def clean_def)
qed (simp add: ExtractLegacyQuery_def query_start_def extract_loop_eq)

text \<open>Enough hashes are left behind the start.\<close>

lemma filter_drop_length: "length (filter P xs) \<le> length (filter P (drop n xs)) + n"
proof (induction n arbitrary: xs)
  case (Suc n)
  show ?case
  proof (cases xs)
    case (Cons x xs')
    with Suc.IH [of xs'] show ?thesis by simp
  qed simp
qed simp

lemma clean_after_start:
  "min (int QuerySize) (count_clean hs) \<le> int (length (clean (drop (query_start hs) hs)))"
proof -
  have "count_clean hs \<le> int (length (clean (drop (query_start hs) hs))) + int (query_start hs)"
    using filter_drop_length [of "\<lambda>h. h \<noteq> SilenceHash" hs "query_start hs"]
    by (simp add: count_clean_filter clean_def)
  moreover have "int (query_start hs) \<le> max 0 (count_clean hs - int QuerySize)"
    by (simp add: query_start_def)
  ultimately show ?thesis by linarith
qed

text \<open>
  C35. The query for a fingerprint is the first 120 distinct values among its non-silent hashes,
  masked to 28 bits, behind the start position; it is empty exactly when the fingerprint is silent.
\<close>

theorem ExtractLegacyQuery_firsts:
  "ExtractLegacyQuery fp = take 120 (firsts {} (map (\<lambda>h. h AND 0xFFFFFFF0)
       (filter (\<lambda>h. h \<noteq> 627964279) (drop (query_start (Hashes fp)) (Hashes fp))))) \<and>
   distinct (ExtractLegacyQuery fp) \<and> length (ExtractLegacyQuery fp) \<le> 120 \<and>
   (ExtractLegacyQuery fp = [] \<longleftrightarrow> set (Hashes fp) \<subseteq> {627964279})"
proof -
  let ?c = "clean (drop (query_start (Hashes fp)) (Hashes fp))"
  have "firsts {} ?c = [] \<longleftrightarrow> ?c = []" by (metis set_firsts Diff_empty set_empty)
  moreover have "?c = [] \<longleftrightarrow> count_clean (Hashes fp) = 0"
  proof
    assume "?c = []"
    then show "count_clean (Hashes fp) = 0"
      using clean_after_start [of "Hashes fp"] by (auto simp: QuerySize_def count_clean_filter min_def split: if_splits)
  next
    assume "count_clean (Hashes fp) = 0"
    then show "?c = []"
      by (auto simp: count_clean_filter clean_def filter_empty_conv dest: in_set_dropD)
  qed
  moreover have "count_clean (Hashes fp) = 0 \<longleftrightarrow> set (Hashes fp) \<subseteq> {627964279}"
    by (auto simp: count_clean_filter filter_empty_conv SilenceHash_def)
  ultimately show ?thesis
    by (simp add: ExtractLegacyQuery_eq QuerySize_def distinct_firsts clean_def QueryBitMask_def SilenceHash_def)
qed

section \<open>What the filter keeps\<close>

lemma better_sorted:
  assumes "sort_contract S"
  shows "sorted_wrt (\<lambda>x y. \<not> better y x) (sort_slice S better xs)"
  by (rule sorted_sort_slice [OF assms]) (auto simp: better_def)

lemma hits_threshold_le: "hits_threshold r \<le> Hits r \<or> Hits r = 0"
proof -
  let ?x = "unat (Hits r)"
  have t: "unat (hits_threshold r) = (?x * 10 + 50) mod 2 ^ 32 div 100"
    by (simp add: hits_threshold_def unat_div unat_word_ariths mod_simps)
  show ?thesis
  proof (cases "?x * 10 + 50 < 2 ^ 32")
    case True
    then have "unat (hits_threshold r) = (?x * 10 + 50) div 100" using t by simp
    then have "?x = 0 \<or> unat (hits_threshold r) \<le> ?x" by linarith
    then show ?thesis by (auto simp: word_le_nat_alt unat_eq_0)
  next
    case False
    then have "42949672 \<le> ?x" by simp
    moreover have "(?x * 10 + 50) mod 2 ^ 32 div 100 \<le> 42949672"
    proof -
      have "(?x * 10 + 50) mod 2 ^ 32 < (2 :: nat) ^ 32" by (rule mod_less_divisor) simp
      then have "(?x * 10 + 50) mod 2 ^ 32 \<le> 4294967295" by simp
      then have "(?x * 10 + 50) mod 2 ^ 32 div 100 \<le> 4294967295 div 100" by (rule div_le_mono)
      then show ?thesis by simp
    qed
    ultimately show ?thesis using t by (simp add: word_le_nat_alt)
  qed
qed

lemma sorted_hits:
  assumes "sorted_wrt (\<lambda>x y. \<not> better y x) rs" and "i \<le> j" and "j < length rs"
  shows "Hits (rs ! j) \<le> Hits (rs ! i)"
proof (cases "i = j")
  case False
  with assms have "\<not> better (rs ! j) (rs ! i)" by (simp add: sorted_wrt_iff_nth_less)
  then show ?thesis by (auto simp: better_def)
qed simp

lemma filterIndexSearchResults_prefix':
  assumes "sort_contract S" and "results \<noteq> []" and "0 \<le> limit"
  shows "\<exists>out rest. filterIndexSearchResults S results limit = Some out \<and>
    mset (out @ rest) = mset results \<and> sorted_wrt (\<lambda>a b. \<not> better b a) (out @ rest) \<and> out \<noteq> [] \<and>
    (limit > 0 \<longrightarrow> int (length out) \<le> limit) \<and>
    (rest \<noteq> [] \<longrightarrow> (\<forall>r \<in> set out. hits_threshold (hd out) \<le> Hits r)) \<and>
    (\<forall>r \<in> set rest. Hits r < hits_threshold (hd out) \<or> (limit > 0 \<and> int (length out) = limit))"
proof -
  let ?rs = "sort_slice S better results"
  have ms: "mset ?rs = mset results" and srt: "sorted_wrt (\<lambda>a b. \<not> better b a) ?rs"
    by (rule mset_sort_slice [OF assms(1)], rule better_sorted [OF assms(1)])
  have ne: "?rs \<noteq> []" using ms assms(2) by (metis mset_zero_iff_right)
  then have len: "0 < length ?rs" by simp
  show ?thesis
  proof (cases "limit = 0 \<or> int (length ?rs) > limit")
    case False
    then have "filterIndexSearchResults S results limit = Some ?rs"
      by (auto simp: filterIndexSearchResults_def Let_def)
    with False ms srt ne show ?thesis by (intro exI [of _ ?rs] exI [of _ "[]"]) auto
  next
    case cut: True
    define t where "t = hits_threshold (?rs ! 0)"
    define k where "k = sort_Search (length ?rs) (\<lambda>i. Hits (?rs ! i) < t)"
    have "k \<le> length ?rs \<and> (\<forall>i < length ?rs. Hits (?rs ! i) < t \<longleftrightarrow> k \<le> i)"
      unfolding k_def
      by (rule sort_Search_correct) (meson sorted_hits [OF srt] order_le_less_trans)
    then have k: "k \<le> length ?rs" "\<And>i. i < length ?rs \<Longrightarrow> Hits (?rs ! i) < t \<longleftrightarrow> k \<le> i" by auto
    have "t \<le> Hits (?rs ! 0)"
      using hits_threshold_le [of "?rs ! 0"] unfolding t_def by (auto simp: hits_threshold_def)
    then have k0: "0 < k" using k(2) [OF len] by (metis linorder_not_less not_gr_zero le0)
    define n where "n = (if limit = 0 \<or> limit > int k then k else nat limit)"
    have n: "0 < n" "n \<le> k" "limit > 0 \<longrightarrow> int n \<le> limit" "n < k \<longrightarrow> limit > 0 \<and> int n = limit"
      using k0 assms(3) by (auto simp: n_def)
    have res: "filterIndexSearchResults S results limit = Some (take n ?rs)"
      using cut len n k(1) k0 assms(3)
      by (auto simp: filterIndexSearchResults_def Let_def idx_def t_def [symmetric] k_def [symmetric] n_def)
    have hd: "hd (take n ?rs) = ?rs ! 0" using n(1) len by (simp add: hd_conv_nth)
    have keep: "t \<le> Hits r" if "r \<in> set (take n ?rs)" for r
    proof -
      from that obtain i where "i < n" "i < length ?rs" "r = ?rs ! i" by (auto simp: in_set_conv_nth)
      with k(2) n(2) show ?thesis by (meson linorder_not_less less_le_trans)
    qed
    have drop: "Hits r < t \<or> (limit > 0 \<and> int n = limit)" if "r \<in> set (drop n ?rs)" for r
    proof -
      from that obtain i where "i < length (drop n ?rs)" "r = drop n ?rs ! i" by (metis in_set_conv_nth)
      then have i: "n + i < length ?rs" "r = ?rs ! (n + i)" by simp_all
      show ?thesis
      proof (cases "n < k")
        case False
        with n(2) k(2) [OF i(1)] i(2) show ?thesis by simp
      qed (use n(4) in simp)
    qed
    have "length (take n ?rs) = n" using n(2) k(1) by simp
    then show ?thesis
      using res ms srt n(1,3) len hd keep drop unfolding t_def
      by (intro exI [of _ "take n ?rs"] exI [of _ "drop n ?rs"]) auto
  qed
qed

lemma filter_panics_iff:
  assumes "sort_contract S"
  shows "filterIndexSearchResults S results limit = None \<longleftrightarrow> results = [] \<and> limit \<le> 0"
proof -
  have "length (sort_slice S better results) = length results" by (rule length_sort_slice [OF assms])
  then show ?thesis by (auto simp: filterIndexSearchResults_def Let_def idx_def)
qed

lemma filter_length:
  assumes S: "sort_contract S" and "0 < limit"
    and out: "filterIndexSearchResults S results limit = Some out"
  shows "int (length out) \<le> limit \<and> set out \<subseteq> set results"
proof (cases "results = []")
  case True
  then have "sort_slice S better results = []"
    using length_sort_slice [OF S, of better results] by simp
  with assms True show ?thesis
    by (simp add: filterIndexSearchResults_def)
next
  case False
  then obtain rest where "mset (out @ rest) = mset results" "int (length out) \<le> limit"
    using filterIndexSearchResults_prefix' [OF S, of results limit] assms by auto
  then show ?thesis by (metis Un_upper1 set_append set_mset_mset)
qed

text \<open>
  C20. The filter panics only when there is nothing to filter and no positive limit. Otherwise it
  returns a prefix of the results ordered by hits, then by id: not empty, within the limit; when it
  cuts, every result it keeps reaches a tenth of the best one's hits, computed as the code does on
  32 bits, and it drops a result only because its hits are lower or the limit is used up.
\<close>

theorem filterIndexSearchResults_prefix:
  assumes "sort_contract S" and "results \<noteq> []" and "0 \<le> limit"
  shows "\<exists>out rest. filterIndexSearchResults S results limit = Some out \<and>
    mset (out @ rest) = mset results \<and> sorted_wrt (\<lambda>a b. \<not> better b a) (out @ rest) \<and> out \<noteq> [] \<and>
    (limit > 0 \<longrightarrow> int (length out) \<le> limit) \<and>
    (rest \<noteq> [] \<longrightarrow> (\<forall>r \<in> set out. hits_threshold (hd out) \<le> Hits r)) \<and>
    (\<forall>r \<in> set rest. Hits r < hits_threshold (hd out) \<or> (limit > 0 \<and> int (length out) = limit))"
  by (rule filterIndexSearchResults_prefix' [OF assms])

theorem filterIndexSearchResults_prefix_witness:
  "\<exists>out rest. filterIndexSearchResults insertion_sort [\<lparr> Id = 1, Hits = 2 \<rparr>, \<lparr> Id = 2, Hits = 100 \<rparr>] 1 = Some out \<and>
     mset (out @ rest) = mset [\<lparr> Id = 1, Hits = 2 \<rparr>, \<lparr> Id = 2, Hits = 100 \<rparr>] \<and> out \<noteq> [] \<and> int (length out) \<le> 1"
  using filterIndexSearchResults_prefix [OF insertion_sort_contract, of "[\<lparr> Id = 1, Hits = 2 \<rparr>, \<lparr> Id = 2, Hits = 100 \<rparr>]" 1]
  by fastforce

end
