(* ===== verification/FingerprintDB.thy ===== *)
theory FingerprintDB
  imports IndexClient Retry Signal
begin

text \<open>
  \<open>database/fingerprint_db\<close>: the array types that travel between Go and PostgreSQL, and the queries
  of \<open>FingerprintDB\<close>. The database is a parameter of each operation: what it answers to a query
  text and its arguments.
\<close>

section \<open>Arrays\<close>

text \<open>
  A slice of \<open>int32\<close> or \<open>uint32\<close>, \<open>None\<close> for the nil slice; the words are the same, their reading
  differs. \<open>sql_src\<close> is what the driver hands to \<open>Scan\<close>.
\<close>

datatype sql_src = SrcBytes string | SrcString string | SrcNil | SrcOther

definition array_text :: "u32 list \<Rightarrow> string" where
  "array_text a = ''{'' @ encode_hashes 0 a @ ''}''"

definition Uint32Array_Value :: "u32 list option \<Rightarrow> string option" where
  "Uint32Array_Value a = (case a of None \<Rightarrow> None | Some a \<Rightarrow> Some (array_text a))"

definition Uint32Array_scanString :: "string \<Rightarrow> num_error + u32 list" where
  "Uint32Array_scanString src =
     (let src = (if has_prefix src ''{'' \<and> has_suffix src ''}'' then trim src ''{}'' else src)
      in decode_items (\<lambda>item. case parse_int 32 item of Inl e \<Rightarrow> Inl e | Inr v \<Rightarrow> Inr (of_int v))
           (split_on (CHR '','') src))"

datatype scan_error = ScanNum num_error | CannotConvert

definition scan_result :: "num_error + u32 list \<Rightarrow> scan_error + u32 list option" where
  "scan_result r = (case r of Inl e \<Rightarrow> Inl (ScanNum e) | Inr a \<Rightarrow> Inr (Some a))"

definition Uint32Array_Scan :: "sql_src \<Rightarrow> scan_error + u32 list option" where
  "Uint32Array_Scan src =
     (case src of
        SrcBytes s \<Rightarrow> scan_result (Uint32Array_scanString s)
      | SrcString s \<Rightarrow> scan_result (Uint32Array_scanString s)
      | SrcNil \<Rightarrow> Inr None
      | SrcOther \<Rightarrow> Inl CannotConvert)"

definition Int32Array_Value :: "u32 list option \<Rightarrow> string option" where
  "Int32Array_Value a = (case a of None \<Rightarrow> None | Some a \<Rightarrow> Some (array_text a))"

definition Int32Array_scanString :: "string \<Rightarrow> num_error + u32 list" where
  "Int32Array_scanString src =
     (let src = (if has_prefix src ''{'' \<and> has_suffix src ''}'' then trim src ''{}'' else src)
      in decode_items (\<lambda>item. case parse_int 32 item of Inl e \<Rightarrow> Inl e | Inr v \<Rightarrow> Inr (of_int v))
           (split_on (CHR '','') src))"

definition Int32Array_Scan :: "sql_src \<Rightarrow> scan_error + u32 list option" where
  "Int32Array_Scan src =
     (case src of
        SrcBytes s \<Rightarrow> scan_result (Int32Array_scanString s)
      | SrcString s \<Rightarrow> scan_result (Int32Array_scanString s)
      | SrcNil \<Rightarrow> Inr None
      | SrcOther \<Rightarrow> Inl CannotConvert)"

section \<open>Reading rows\<close>

text \<open>
  The rows of a query: those \<open>Next\<close> moves to before it returns false, the reason it does, which is
  \<open>None\<close> at the end of the result, and the error of \<open>Close\<close>.
\<close>

record 'r Rows =
  fetched :: "'r list"
  iter_err :: "go_error option"
  close_err :: "go_error option"

datatype db_error = QueryError go_error | ScanError | CloseError_db go_error

text \<open>\<open>GetLastFingerprintID\<close>: the row of \<open>max(id)\<close> is NULL for an empty table, which an \<open>int\<close> does not take.\<close>

definition max_id_query :: string where "max_id_query = ''SELECT max(id) FROM fingerprint''"

definition DB_GetLastFingerprintID :: "(string \<Rightarrow> go_error + int option) \<Rightarrow> db_error + int" where
  "DB_GetLastFingerprintID query_row =
     (case query_row max_id_query of
        Inl err \<Rightarrow> if err = Sentinel ErrNoRows then Inr 0 else Inl (QueryError err)
      | Inr None \<Rightarrow> Inl ScanError
      | Inr (Some i) \<Rightarrow> Inr i)"

definition next_query :: "bool \<Rightarrow> string" where
  "next_query extractQuery =
     ''SELECT id, '' @ (if extractQuery then ''acoustid_extract_query(fingerprint)'' else ''fingerprint'') @
     '' AS fingerprint FROM fingerprint WHERE id > $1 ORDER BY id LIMIT $2''"

text \<open>The loop over the rows: an id that is no \<open>uint32\<close> or an unreadable array ends it.\<close>

fun scan_fingerprints :: "(int \<times> sql_src) list \<Rightarrow> db_error + (u32 \<times> u32 list) list" where
  "scan_fingerprints [] = Inr []"
| "scan_fingerprints ((i, src) # rows) =
     (if i < 0 \<or> i \<ge> 2 ^ 32 then Inl ScanError
      else case Uint32Array_Scan src of
        Inl _ \<Rightarrow> Inl ScanError
      | Inr hashes \<Rightarrow>
          (case scan_fingerprints rows of
             Inl e \<Rightarrow> Inl e
           | Inr fps \<Rightarrow> Inr ((of_int i, case hashes of None \<Rightarrow> [] | Some hs \<Rightarrow> hs) # fps)))"

definition GetNextFingerprints ::
  "(string \<Rightarrow> u32 \<Rightarrow> int \<Rightarrow> go_error + (int \<times> sql_src) Rows) \<Rightarrow> u32 \<Rightarrow> bool \<Rightarrow> int \<Rightarrow>
   db_error + (u32 \<times> u32 list) list" where
  "GetNextFingerprints query_ctx lastID extractQuery limit =
     (case query_ctx (next_query extractQuery) lastID limit of
        Inl err \<Rightarrow> Inl (QueryError err)
      | Inr rows \<Rightarrow>
          (case scan_fingerprints (fetched rows) of
             Inl e \<Rightarrow> Inl e
           | Inr fingerprints \<Rightarrow>
               (case close_err rows of Some e \<Rightarrow> Inl (CloseError_db e) | None \<Rightarrow> Inr fingerprints)))"

section \<open>Scoring candidates\<close>

record 'f ScoredSearchMatch =
  FingerprintID :: int
  TrackID :: int
  TrackGID :: string
  match_Score :: 'f

text \<open>\<open>duration.Seconds()\<close>, and the window of lengths around a duration in nanoseconds\<close>

definition Seconds :: "('f, 'g) floats \<Rightarrow> int \<Rightarrow> 'f" where
  "Seconds F d = f_add F (f_int F (d sdiv 1000000000)) (f_div F (f_int F (d smod 1000000000)) (f_lit F 1000000000))"

definition duration_window :: "('f, 'g) floats \<Rightarrow> int \<Rightarrow> int \<times> int" where
  "duration_window F duration =
     (let minDurationSecs = int_of_f F (f_round F (f_sub F (Seconds F duration) (f_int F 7)))
      in (minDurationSecs, minDurationSecs + 14))"

text \<open>
  The argument of \<open>SET LOCAL statement_timeout\<close>, when the statement is sent: \<open>now\<close> is the time and
  \<open>dl\<close> the context's deadline, both in nanoseconds.
\<close>

definition statement_timeout :: "int \<Rightarrow> int option \<Rightarrow> int option" where
  "statement_timeout now dl =
     (case dl of None \<Rightarrow> None
      | Some d \<Rightarrow> let t = ((now - d) * 99) sdiv 100 in if t > 0 then Some t else None)"

fun scan_matches :: "('f ScoredSearchMatch option) list \<Rightarrow> db_error + 'f ScoredSearchMatch list" where
  "scan_matches [] = Inr []"
| "scan_matches (None # rows) = Inl ScanError"
| "scan_matches (Some m # rows) =
     (case scan_matches rows of Inl e \<Rightarrow> Inl e | Inr ms \<Rightarrow> Inr (m # ms))"

text \<open>
  \<open>begins\<close> says whether \<open>BeginTx\<close> returned a transaction; the code does not look at its error, and
  uses the nil transaction. The query gets the text of the hashes, the candidates and the window.
  The result has the statement timeout that was sent, and the matches or the error.
\<close>

definition ScoreSearchMatches ::
  "('f, 'g) floats \<Rightarrow> bool \<Rightarrow> int \<Rightarrow> int option \<Rightarrow>
   (string option \<Rightarrow> int list \<Rightarrow> int \<Rightarrow> int \<Rightarrow> go_error + 'f ScoredSearchMatch option Rows) \<Rightarrow>
   u32 list \<Rightarrow> int list \<Rightarrow> int \<Rightarrow> (int option \<times> (db_error + 'f ScoredSearchMatch list)) option" where
  "ScoreSearchMatches F begins now dl query hashes candidateIDs duration =
     (if \<not> begins then None
      else let (minDurationSecs, maxDurationSecs) = duration_window F duration in
        Some (statement_timeout now dl,
          case query (Uint32Array_Value (Some hashes)) candidateIDs minDurationSecs maxDurationSecs of
            Inl err \<Rightarrow> Inl (QueryError err)
          | Inr rows \<Rightarrow> scan_matches (fetched rows)))"

section \<open>Arrays are read back\<close>

lemma trim_braces: "s \<noteq> [] \<Longrightarrow> \<forall>c \<in> set s. c \<notin> set ''{}'' \<Longrightarrow> trim (''{'' @ s @ ''}'') ''{}'' = s"
proof -
  assume s: "s \<noteq> []" "\<forall>c \<in> set s. c \<notin> set ''{}''"
  have "trim_left (''{'' @ s @ ''}'') ''{}'' = s @ ''}''"
    using s by (cases s) (auto simp: trim_left_def)
  moreover have "trim_right (s @ ''}'') ''{}'' = s"
    using s by (intro trim_right_append) auto
  ultimately show ?thesis by (simp add: trim_def)
qed

lemma decode_array_item: "(case parse_int 32 item of Inl e \<Rightarrow> Inl e | Inr v \<Rightarrow> Inr (of_int v)) =
    (case decode_hash item of Inl (NumError e) \<Rightarrow> Inl e | Inl _ \<Rightarrow> Inl ErrSyntax | Inr h \<Rightarrow> Inr h)"
  by (simp add: decode_hash_def split: sum.split)

lemma scanString_array_text:
  assumes "a \<noteq> []"
  shows "Uint32Array_scanString (array_text a) = Inr a"
proof -
  let ?s = "encode_hashes 0 a"
  have ne: "?s \<noteq> []" using assms by (cases a) simp_all
  have clean: "\<forall>c \<in> set ?s. c \<notin> set ''{}''" using encode_hashes_chars [of _ 0 a] by fastforce
  have t: "trim (array_text a) ''{}'' = ?s" unfolding array_text_def by (rule trim_braces [OF ne clean])
  have "has_prefix (array_text a) ''{''" "has_suffix (array_text a) ''}''"
    by (simp_all add: array_text_def has_suffix_def)
  moreover have "decode_items (\<lambda>item. case parse_int 32 item of Inl e \<Rightarrow> Inl e | Inr v \<Rightarrow> Inr (of_int v))
      (split_on (CHR '','') ?s) = Inr a"
  proof -
    have "(case parse_int 32 (format_int (sint h)) of Inl e \<Rightarrow> Inl e | Inr v \<Rightarrow> Inr (of_int v)) = Inr h" for h :: u32
      using parse_int_format [OF sint_range_32, of h] by simp
    then show ?thesis
      using assms by (simp add: encode_hashes_join split_on_join hash_no_comma decode_items_map)
  qed
  ultimately show ?thesis by (simp add: Uint32Array_scanString_def t)
qed

text \<open>
  What \<open>Value\<close> writes for an array, \<open>Scan\<close> reads back, as text and as bytes, for signed and
  unsigned arrays: the nil array as NULL, every non-empty one as itself. The empty array is the
  exception: it is written as \<open>{}\<close>, which \<open>Scan\<close> rejects.
\<close>

theorem array_Scan_Value:
  "(case Uint32Array_Value a of None \<Rightarrow> Uint32Array_Scan SrcNil
    | Some s \<Rightarrow> Uint32Array_Scan (SrcString s)) = (if a = Some [] then Inl (ScanNum ErrSyntax) else Inr a) \<and>
   (case Int32Array_Value a of None \<Rightarrow> Int32Array_Scan SrcNil
    | Some s \<Rightarrow> Int32Array_Scan (SrcBytes s)) = (if a = Some [] then Inl (ScanNum ErrSyntax) else Inr a)"
proof (cases a)
  case None
  then show ?thesis
    by (simp add: Uint32Array_Value_def Uint32Array_Scan_def Int32Array_Value_def Int32Array_Scan_def)
next
  case (Some xs)
  have same: "Int32Array_scanString = Uint32Array_scanString"
    by (simp add: fun_eq_iff Int32Array_scanString_def Uint32Array_scanString_def)
  have "Uint32Array_scanString (array_text xs) = (if xs = [] then Inl ErrSyntax else Inr xs)"
  proof (cases "xs = []")
    case True
    have "Uint32Array_scanString (array_text []) = Inl ErrSyntax" by code_simp
    with True show ?thesis by simp
  qed (simp add: scanString_array_text)
  with Some show ?thesis
    by (simp add: Uint32Array_Value_def Uint32Array_Scan_def Int32Array_Value_def Int32Array_Scan_def
        same scan_result_def)
qed

text \<open>
  When a deadline is set and still ahead, no statement timeout is sent to the database: the code
  subtracts the deadline from the time instead of the time from the deadline.
\<close>

theorem statement_timeout_never:
  assumes "now \<le> d"
    and "ScoreSearchMatches F begins now (Some d) query hashes candidateIDs duration = Some (timeout, r)"
  shows "timeout = None"
proof -
  have "((now - d) * 99) sdiv 100 \<le> 0"
    using assms(1) by (simp add: signed_divide_int_def sgn_if pos_imp_zdiv_nonneg_iff)
  then have "statement_timeout now (Some d) = None" by (simp add: statement_timeout_def Let_def)
  with assms(2) show ?thesis
    by (auto simp: ScoreSearchMatches_def split: if_splits prod.splits)
qed

theorem statement_timeout_never_witness:
  "\<exists>r. ScoreSearchMatches real_floats True 5 (Some 1000000) (\<lambda>_ _ _ _. Inl (Sentinel ErrNoRows)) [1] [2] 3 = Some (None, r)"
proof -
  obtain t r where r: "ScoreSearchMatches real_floats True 5 (Some 1000000) (\<lambda>_ _ _ _. Inl (Sentinel ErrNoRows)) [1] [2] 3 = Some (t, r)"
    by (auto simp: ScoreSearchMatches_def split: prod.split)
  with statement_timeout_never [OF _ r] show ?thesis by simp
qed

end
