(* ===== verification/FpStore.thy ===== *)
theory FpStore
  imports FingerprintDB IndexQuery Match
begin

text \<open>
  \<open>pkg/fpstore\<close>: the fingerprint store. The code of the repository is modelled in full: the
  compressed encoding, the Redis cache, the PostgreSQL store and the gRPC service over the three
  interfaces \<open>FingerprintCache\<close>, \<open>FingerprintStore\<close> and \<open>FingerprintIndex\<close>. What it calls of other
  packages is a parameter: the codec (protobuf and zstd), the Redis client, the database, the
  clock of a request. All of them act on a world of type \<open>'w\<close>. A Go map is an association list, the
  nil map is \<open>None\<close>; \<open>None\<close> as the result of an operation is a panic. Logging is left out.
\<close>

section \<open>Encoding\<close>

record codec =
  marshal :: "Fingerprint \<Rightarrow> go_error + u8 list"
  unmarshal :: "u8 list \<Rightarrow> go_error + Fingerprint"
  new_writer :: "go_error option"
  encode_all :: "u8 list \<Rightarrow> u8 list"
  new_reader :: "go_error option"
  decode_all :: "u8 list \<Rightarrow> go_error + u8 list"

definition CompressEncodedFingerprint :: "codec \<Rightarrow> u8 list \<Rightarrow> go_error + u8 list" where
  "CompressEncodedFingerprint C data =
     (case new_writer C of Some err \<Rightarrow> Inl err | None \<Rightarrow> Inr (encode_all C data))"

definition UncompressEncodedFingerprint :: "codec \<Rightarrow> u8 list \<Rightarrow> go_error + u8 list" where
  "UncompressEncodedFingerprint C data =
     (case new_reader C of Some err \<Rightarrow> Inl err | None \<Rightarrow> decode_all C data)"

definition EncodeFingerprint_fp :: "codec \<Rightarrow> Fingerprint \<Rightarrow> go_error + u8 list" where
  "EncodeFingerprint_fp C fp =
     (case marshal C fp of Inl err \<Rightarrow> Inl err | Inr data \<Rightarrow> CompressEncodedFingerprint C data)"

definition DecodeFingerprint_fp :: "codec \<Rightarrow> u8 list \<Rightarrow> go_error + Fingerprint" where
  "DecodeFingerprint_fp C data =
     (case UncompressEncodedFingerprint C data of Inl err \<Rightarrow> Inl err | Inr data \<Rightarrow> unmarshal C data)"

section \<open>The cache\<close>

type_synonym fp_map = "(u64 \<times> Fingerprint) list"

datatype redis_reply = ReplyNil | ReplyString "u8 list" | ReplyOther string

text \<open>\<open>redis.Nil\<close>, the error of a missing key, is \<open>Inr None\<close>.\<close>

record 'w redis_client =
  redis_MGet :: "string list \<Rightarrow> 'w \<Rightarrow> (go_error + redis_reply list) \<times> 'w"
  redis_Get :: "string \<Rightarrow> 'w \<Rightarrow> (go_error + u8 list option) \<times> 'w"
  redis_Set :: "string \<Rightarrow> u8 list \<Rightarrow> int \<Rightarrow> 'w \<Rightarrow> go_error option \<times> 'w"
  redis_Del :: "string \<Rightarrow> 'w \<Rightarrow> go_error option \<times> 'w"

text \<open>\<open>fmt.Sprintf\<close> with the verb \<open>%x\<close>\<close>

definition hex_char :: "nat \<Rightarrow> char" where
  "hex_char d = char_of (if d < 10 then 48 + d else 87 + d)"

fun format_hex :: "nat \<Rightarrow> string" where
  "format_hex n = (if n < 16 then [hex_char n] else format_hex (n div 16) @ [hex_char (n mod 16)])"

declare format_hex.simps [simp del]

definition cacheKey :: "u64 \<Rightarrow> string" where
  "cacheKey i = ''f:'' @ format_hex (unat i)"

definition cache_ttl :: int where
  "cache_ttl = 7 * 24 * 3600 * 1000000000"

text \<open>The loop over the replies; a reply that is no string is a miss.\<close>

fun read_replies :: "codec \<Rightarrow> u64 list \<Rightarrow> nat \<Rightarrow> redis_reply list \<Rightarrow> fp_map \<Rightarrow> (go_error + fp_map) option" where
  "read_replies C ids i [] fpMap = Some (Inr fpMap)"
| "read_replies C ids i (reply # replies) fpMap =
     (case reply of
        ReplyString data \<Rightarrow>
          (case DecodeFingerprint_fp C data of
             Inl err \<Rightarrow> Some (Inl (Wrapped ''failed to unmarshal fingerprint data'' err))
           | Inr fp \<Rightarrow> Option.bind (idx ids i) (\<lambda>k. read_replies C ids (i + 1) replies (AList.update k fp fpMap)))
      | _ \<Rightarrow> read_replies C ids (i + 1) replies fpMap)"

definition Cache_GetMulti :: "codec \<Rightarrow> 'w redis_client \<Rightarrow> u64 list \<Rightarrow> 'w \<Rightarrow> ((go_error + fp_map option) \<times> 'w) option" where
  "Cache_GetMulti C R ids w =
     (if length ids = 0 then Some (Inr None, w)
      else case redis_MGet R (map cacheKey ids) w of
        (Inl err, w) \<Rightarrow> Some (Inl (Wrapped ''failed to get fingerprints from cache'' err), w)
      | (Inr values, w) \<Rightarrow>
          map_option (\<lambda>r. (case r of Inl err \<Rightarrow> Inl err | Inr m \<Rightarrow> Inr (Some m), w))
            (read_replies C ids 0 values []))"

definition Cache_Get :: "codec \<Rightarrow> 'w redis_client \<Rightarrow> u64 \<Rightarrow> 'w \<Rightarrow> (go_error + Fingerprint option) \<times> 'w" where
  "Cache_Get C R i w =
     (case redis_Get R (cacheKey i) w of
        (Inl err, w) \<Rightarrow> (Inl (Wrapped ''failed to get fingerprint from cache'' err), w)
      | (Inr None, w) \<Rightarrow> (Inr None, w)
      | (Inr (Some data), w) \<Rightarrow>
          (case DecodeFingerprint_fp C data of
             Inl err \<Rightarrow> (Inl (Wrapped ''failed to unmarshal fingerprint data'' err), w)
           | Inr fp \<Rightarrow> (Inr (Some fp), w)))"

definition Cache_Set :: "codec \<Rightarrow> 'w redis_client \<Rightarrow> u64 \<Rightarrow> Fingerprint \<Rightarrow> 'w \<Rightarrow> go_error option \<times> 'w" where
  "Cache_Set C R i fp w =
     (case EncodeFingerprint_fp C fp of
        Inl err \<Rightarrow> (Some (Wrapped ''failed to marshal fingerprint data'' err), w)
      | Inr data \<Rightarrow>
          (case redis_Set R (cacheKey i) data cache_ttl w of
             (Some err, w) \<Rightarrow> (Some (Wrapped ''failed to set fingerprint in cache'' err), w)
           | (None, w) \<Rightarrow> (None, w)))"

definition Cache_Delete :: "'w redis_client \<Rightarrow> u64 \<Rightarrow> 'w \<Rightarrow> go_error option \<times> 'w" where
  "Cache_Delete R i w =
     (case redis_Del R (cacheKey i) w of
        (Some err, w) \<Rightarrow> (Some (Wrapped ''failed to delete fingerprint from cache'' err), w)
      | (None, w) \<Rightarrow> (None, w))"

section \<open>The store\<close>

text \<open>
  The statements of the store, one operation each, and whether the request's context is done when
  the \<open>n\<close>-th wait of a retry that starts in a world would end.
\<close>

record 'w database =
  db_insert_v2 :: "u8 list \<Rightarrow> 'w \<Rightarrow> (go_error + u64) \<times> 'w"
  db_delete_v2 :: "u64 \<Rightarrow> 'w \<Rightarrow> go_error option \<times> 'w"
  db_count_v1 :: "u64 \<Rightarrow> 'w \<Rightarrow> (go_error + int) \<times> 'w"
  db_select_v1 :: "u64 \<Rightarrow> 'w \<Rightarrow> (go_error + sql_src) \<times> 'w"
  db_select_v2 :: "u64 \<Rightarrow> 'w \<Rightarrow> (go_error + u8 list) \<times> 'w"
  ctx_done :: "'w \<Rightarrow> nat \<Rightarrow> bool"

text \<open>An operation that scans a row into a variable, which it resets first.\<close>

definition scan_op :: "('w \<Rightarrow> (go_error + 'r) \<times> 'w) \<Rightarrow> 'v \<Rightarrow> ('r \<Rightarrow> go_error + 'v) \<Rightarrow> 'v \<times> 'w \<Rightarrow> go_error option \<times> 'v \<times> 'w" where
  "scan_op query zero scan vw =
     (case query (snd vw) of
        (Inl err, w) \<Rightarrow> (Some err, zero, w)
      | (Inr row, w) \<Rightarrow>
          (case scan row of Inl err \<Rightarrow> (Some err, zero, w) | Inr v \<Rightarrow> (None, v, w)))"

definition retry_scan :: "'w database \<Rightarrow> ('w \<Rightarrow> (go_error + 'r) \<times> 'w) \<Rightarrow> 'v \<Rightarrow> ('r \<Rightarrow> go_error + 'v) \<Rightarrow> 'w \<Rightarrow> go_error option \<times> 'v \<times> 'w" where
  "retry_scan D query zero scan w =
     (let (err, (v, w), _) = retryOnConnectionError (ctx_done D w) (scan_op query zero scan) (zero, w)
      in (err, v, w))"

definition Store_Insert :: "codec \<Rightarrow> 'w database \<Rightarrow> Fingerprint \<Rightarrow> 'w \<Rightarrow> (go_error + u64) \<times> 'w" where
  "Store_Insert C D fp w =
     (case EncodeFingerprint_fp C fp of
        Inl err \<Rightarrow> (Inl err, w)
      | Inr data \<Rightarrow> db_insert_v2 D data w)"

definition checkV1 :: "'w database \<Rightarrow> u64 \<Rightarrow> 'w \<Rightarrow> (go_error + bool) \<times> 'w" where
  "checkV1 D i w =
     (case retry_scan D (db_count_v1 D i) (0 :: int) Inr w of
        (Some err, _, w) \<Rightarrow> (Inl err, w)
      | (None, n, w) \<Rightarrow> (Inr (n > 0), w))"

definition ErrCannotDeleteLegacyFingerprint :: go_error where
  "ErrCannotDeleteLegacyFingerprint = OtherError ''cannot delete legacy fingerprint'' []"

definition Store_Delete :: "'w database \<Rightarrow> u64 \<Rightarrow> 'w \<Rightarrow> go_error option \<times> 'w" where
  "Store_Delete D i w =
     (case checkV1 D i w of
        (Inl err, w) \<Rightarrow> (Some err, w)
      | (Inr existsAsV1, w) \<Rightarrow>
          if existsAsV1 then (Some ErrCannotDeleteLegacyFingerprint, w) else db_delete_v2 D i w)"

text \<open>An error of the array's \<open>Scan\<close>, as \<open>database/sql\<close> reports it.\<close>

definition scan_array :: "sql_src \<Rightarrow> go_error + u32 list option" where
  "scan_array src =
     (case Uint32Array_Scan src of
        Inl _ \<Rightarrow> Inl (Wrapped ''sql: Scan error'' (OtherError ''invalid array'' []))
      | Inr hashes \<Rightarrow> Inr hashes)"

definition getV1 :: "'w database \<Rightarrow> u64 \<Rightarrow> 'w \<Rightarrow> (go_error + Fingerprint option) \<times> 'w" where
  "getV1 D i w =
     (case retry_scan D (db_select_v1 D i) None scan_array w of
        (Some err, _, w) \<Rightarrow> if err = Sentinel ErrNoRows then (Inr None, w) else (Inl err, w)
      | (None, hashes, w) \<Rightarrow>
          (Inr (Some \<lparr> Version = 1, Hashes = (case hashes of None \<Rightarrow> [] | Some hs \<Rightarrow> hs) \<rparr>), w))"

definition getV2 :: "codec \<Rightarrow> 'w database \<Rightarrow> u64 \<Rightarrow> 'w \<Rightarrow> (go_error + Fingerprint option) \<times> 'w" where
  "getV2 C D i w =
     (case retry_scan D (db_select_v2 D i) [] Inr w of
        (Some err, _, w) \<Rightarrow> if err = Sentinel ErrNoRows then (Inr None, w) else (Inl err, w)
      | (None, data, w) \<Rightarrow>
          (case DecodeFingerprint_fp C data of Inl err \<Rightarrow> (Inl err, w) | Inr fp \<Rightarrow> (Inr (Some fp), w)))"

definition Store_Get :: "'w database \<Rightarrow> u64 \<Rightarrow> 'w \<Rightarrow> (go_error + Fingerprint option) \<times> 'w" where
  "Store_Get D i w = (case getV1 D i w of (Inl err, w) \<Rightarrow> (Inl err, w) | (Inr fp, w) \<Rightarrow> (Inr fp, w))"

fun get_each :: "'w database \<Rightarrow> u64 list \<Rightarrow> fp_map \<Rightarrow> 'w \<Rightarrow> (go_error + fp_map) \<times> 'w" where
  "get_each D [] fps w = (Inr fps, w)"
| "get_each D (i # ids) fps w =
     (case Store_Get D i w of
        (Inl err, w) \<Rightarrow> (Inl err, w)
      | (Inr None, w) \<Rightarrow> get_each D ids fps w
      | (Inr (Some fp), w) \<Rightarrow> get_each D ids (AList.update i fp fps) w)"

definition Store_GetMulti :: "'w database \<Rightarrow> u64 list \<Rightarrow> 'w \<Rightarrow> (go_error + fp_map option) \<times> 'w" where
  "Store_GetMulti D ids w =
     (if length ids = 0 then (Inr None, w)
      else case get_each D ids [] w of (Inl err, w) \<Rightarrow> (Inl err, w) | (Inr fps, w) \<Rightarrow> (Inr (Some fps), w))"

section \<open>The interfaces\<close>

record 'w FingerprintCache =
  cache_Get :: "u64 \<Rightarrow> 'w \<Rightarrow> (go_error + Fingerprint option) \<times> 'w"
  cache_GetMulti :: "u64 list \<Rightarrow> 'w \<Rightarrow> ((go_error + fp_map option) \<times> 'w) option"
  cache_Set :: "u64 \<Rightarrow> Fingerprint \<Rightarrow> 'w \<Rightarrow> go_error option \<times> 'w"

record 'w FingerprintStore =
  store_Insert :: "Fingerprint \<Rightarrow> 'w \<Rightarrow> (go_error + u64) \<times> 'w"
  store_Delete :: "u64 \<Rightarrow> 'w \<Rightarrow> go_error option \<times> 'w"
  store_Get :: "u64 \<Rightarrow> 'w \<Rightarrow> (go_error + Fingerprint option) \<times> 'w"
  store_GetMulti :: "u64 list \<Rightarrow> 'w \<Rightarrow> (go_error + fp_map option) \<times> 'w"

text \<open>\<open>index_timeout\<close> is \<open>os.IsTimeout\<close> on the errors of the index.\<close>

record ('e, 'w) FingerprintIndex =
  index_Search :: "Fingerprint \<Rightarrow> int \<Rightarrow> 'w \<Rightarrow> (('e + u64 list) \<times> 'w) option"
  index_timeout :: "'e \<Rightarrow> bool"

definition RedisFingerprintCache :: "codec \<Rightarrow> 'w redis_client \<Rightarrow> 'w FingerprintCache" where
  "RedisFingerprintCache C R =
     \<lparr> cache_Get = Cache_Get C R, cache_GetMulti = Cache_GetMulti C R, cache_Set = Cache_Set C R \<rparr>"

definition PostgresFingerprintStore :: "codec \<Rightarrow> 'w database \<Rightarrow> 'w FingerprintStore" where
  "PostgresFingerprintStore C D =
     \<lparr> store_Insert = Store_Insert C D, store_Delete = Store_Delete D, store_Get = Store_Get D,
       store_GetMulti = Store_GetMulti D \<rparr>"

section \<open>Cache keys\<close>

lemma hex_char_inj: "d < 16 \<Longrightarrow> e < 16 \<Longrightarrow> hex_char d = hex_char e \<Longrightarrow> d = e"
proof -
  assume d: "d < 16" "e < 16" and h: "hex_char d = hex_char e"
  have c: "(of_char (hex_char x) :: nat) = (if x < 10 then 48 + x else 87 + x)" if "x < 16" for x
    using that by (simp add: hex_char_def)
  show "d = e" using arg_cong [OF h, of "of_char :: char \<Rightarrow> nat"] d by (simp add: c split: if_splits)
qed

lemma format_hex_not_Nil [simp]: "format_hex n \<noteq> []"
  by (subst format_hex.simps) simp

lemma format_hex_snoc: "16 \<le> n \<Longrightarrow> format_hex n = format_hex (n div 16) @ [hex_char (n mod 16)]"
  by (subst format_hex.simps) simp

lemma format_hex_digit: "n < 16 \<Longrightarrow> format_hex n = [hex_char n]"
  by (subst format_hex.simps) simp

lemma format_hex_inj: "format_hex m = format_hex n \<Longrightarrow> m = n"
proof (induction m arbitrary: n rule: less_induct)
  case (less m)
  consider "m < 16" "n < 16" | "16 \<le> m" "16 \<le> n" | "m < 16" "16 \<le> n" | "16 \<le> m" "n < 16" by linarith
  then show ?case
  proof cases
    case 1
    with less.prems show ?thesis by (simp add: format_hex_digit hex_char_inj)
  next
    case 2
    with less.prems have "format_hex (m div 16) = format_hex (n div 16)" "hex_char (m mod 16) = hex_char (n mod 16)"
      by (simp_all add: format_hex_snoc)
    then have "m div 16 = n div 16" "m mod 16 = n mod 16"
      using less.IH [of "m div 16"] 2 by (auto intro: hex_char_inj)
    then show ?thesis by (metis div_mult_mod_eq)
  qed (use less.prems format_hex_not_Nil [of "n div 16"] format_hex_not_Nil [of "m div 16"]
      in \<open>auto simp: format_hex_digit format_hex_snoc simp del: format_hex_not_Nil\<close>)
qed

lemma cacheKey_inj: "cacheKey i = cacheKey j \<Longrightarrow> i = j"
  by (auto simp: cacheKey_def word_unat_eq_iff dest: format_hex_inj)

section \<open>What the cache and the store promise\<close>

text \<open>
  The contracts of the two interfaces, over the contents of the cache and of the two tables that a
  world stands for. A cache may lose entries at any time but never invents or changes one; the
  store reads the legacy table \<open>v1\<close> and inserts into \<open>v2\<close>.
\<close>

locale fingerprint_cache =
  fixes K :: "'w FingerprintCache" and cached :: "'w \<Rightarrow> u64 \<Rightarrow> Fingerprint option" and db :: "'w \<Rightarrow> 'd"
  assumes get_multi: "ids \<noteq> [] \<Longrightarrow>
      \<exists>r w'. cache_GetMulti K ids w = Some (r, w') \<and> db w' = db w \<and> cached w' \<subseteq>\<^sub>m cached w \<and>
        (\<forall>m. r = Inr m \<longrightarrow> (\<exists>l. m = Some l \<and> distinct (map fst l) \<and> map_of l \<subseteq>\<^sub>m cached w |` set ids))"
    and set_entry: "db (snd (cache_Set K i fp w)) = db w \<and>
      (cached (snd (cache_Set K i fp w)) j = Some x \<longrightarrow> cached w j = Some x \<or> (j = i \<and> x = fp))"

locale fingerprint_store =
  fixes St :: "'w FingerprintStore" and cached :: "'w \<Rightarrow> u64 \<Rightarrow> Fingerprint option" and db :: "'w \<Rightarrow> 'd"
    and v1 v2 :: "'d \<Rightarrow> u64 \<Rightarrow> Fingerprint option"
  assumes store_get_multi: "ids \<noteq> [] \<Longrightarrow> store_GetMulti St ids w = (r, w') \<Longrightarrow>
      db w' = db w \<and> cached w' \<subseteq>\<^sub>m cached w \<and>
      (\<forall>m. r = Inr m \<longrightarrow> (\<exists>l. m = Some l \<and> distinct (map fst l) \<and> map_of l = v1 (db w) |` set ids))"
    and store_insert: "store_Insert St fp w = (res, w') \<Longrightarrow>
      v1 (db w') = v1 (db w) \<and> v2 (db w) \<subseteq>\<^sub>m v2 (db w') \<and> cached w' \<subseteq>\<^sub>m cached w \<and>
      (\<forall>i. res = Inr i \<longrightarrow> v2 (db w') i = Some fp)"

text \<open>The codec and the Redis client the cache relies on.\<close>

locale redis_contract =
  fixes C :: codec and R :: "'w redis_client" and raw :: "'w \<Rightarrow> string \<Rightarrow> u8 list option" and db :: "'w \<Rightarrow> 'd"
  assumes reader: "new_reader C = None"
    and unmarshal_marshal: "marshal C fp = Inr data \<Longrightarrow> unmarshal C data = Inr fp"
    and decode_encode: "decode_all C (encode_all C data) = Inr data"
    and mget: "redis_MGet R keys w = (r, w') \<Longrightarrow>
      db w' = db w \<and> raw w' \<subseteq>\<^sub>m raw w \<and>
      (\<forall>vs. r = Inr vs \<longrightarrow> length vs = length keys \<and>
        (\<forall>i < length keys. \<forall>d. vs ! i = ReplyString d \<longrightarrow> raw w (keys ! i) = Some d))"
    and rset: "redis_Set R key data ttl w = (e, w') \<Longrightarrow>
      db w' = db w \<and> (raw w' k = Some d \<longrightarrow> raw w k = Some d \<or> (k = key \<and> d = data))"

definition decoded :: "codec \<Rightarrow> u8 list option \<Rightarrow> Fingerprint option" where
  "decoded C d = (case d of None \<Rightarrow> None
     | Some d \<Rightarrow> (case DecodeFingerprint_fp C d of Inl _ \<Rightarrow> None | Inr fp \<Rightarrow> Some fp))"

context redis_contract begin

lemma decode_inverts: "EncodeFingerprint_fp C fp = Inr d \<Longrightarrow> DecodeFingerprint_fp C d = Inr fp"
  using reader unmarshal_marshal decode_encode
  by (auto simp: EncodeFingerprint_fp_def CompressEncodedFingerprint_def DecodeFingerprint_fp_def
      UncompressEncodedFingerprint_def split: sum.splits option.splits)

lemma read_replies_sound:
  assumes "\<And>k. k < length vs \<Longrightarrow> i + k < length ids \<and>
      (\<forall>d. vs ! k = ReplyString d \<longrightarrow> raw w (cacheKey (ids ! (i + k))) = Some d)"
    and "distinct (map fst m)" and "map_of m \<subseteq>\<^sub>m (\<lambda>j. decoded C (raw w (cacheKey j))) |` set ids"
  shows "\<exists>r. read_replies C ids i vs m = Some r \<and>
    (\<forall>m'. r = Inr m' \<longrightarrow> distinct (map fst m') \<and> map_of m' \<subseteq>\<^sub>m (\<lambda>j. decoded C (raw w (cacheKey j))) |` set ids)"
  using assms
proof (induction vs arbitrary: i m)
  case (Cons v vs)
  have tail: "\<And>k. k < length vs \<Longrightarrow> i + 1 + k < length ids \<and>
      (\<forall>d. vs ! k = ReplyString d \<longrightarrow> raw w (cacheKey (ids ! (i + 1 + k))) = Some d)"
    using Cons.prems(1) [of "Suc k" for k] by simp
  note IH = Cons.IH [of "i + 1", OF tail]
  have i: "i < length ids" "\<And>d. v = ReplyString d \<Longrightarrow> raw w (cacheKey (ids ! i)) = Some d"
    using Cons.prems(1) [of 0] by simp_all
  show ?case
  proof (cases v)
    case (ReplyString d)
    show ?thesis
    proof (cases "DecodeFingerprint_fp C d")
      case (Inr fp)
      have "decoded C (raw w (cacheKey (ids ! i))) = Some fp"
        using i(2) [OF ReplyString] Inr by (simp add: decoded_def)
      then have "map_of (AList.update (ids ! i) fp m) \<subseteq>\<^sub>m (\<lambda>j. decoded C (raw w (cacheKey j))) |` set ids"
        using Cons.prems(3) i(1) by (auto simp: update_conv' map_le_def restrict_map_def dom_def)
      with IH [OF _ distinct_update [OF Cons.prems(2)]] i(1) ReplyString Inr show ?thesis by (simp add: idx_def)
    qed (use ReplyString in simp)
  qed (use IH Cons.prems(2,3) in simp_all)
qed simp

end

sublocale redis_contract \<subseteq> fingerprint_cache "RedisFingerprintCache C R" "\<lambda>w j. decoded C (raw w (cacheKey j))" db
proof
  fix ids :: "u64 list" and w
  assume ids: "ids \<noteq> []"
  obtain r w' where m: "redis_MGet R (map cacheKey ids) w = (r, w')" by (cases "redis_MGet R (map cacheKey ids) w")
  have w': "db w' = db w" "raw w' \<subseteq>\<^sub>m raw w" using mget [OF m] by auto
  have le: "(\<lambda>j. decoded C (raw w' (cacheKey j))) \<subseteq>\<^sub>m (\<lambda>j. decoded C (raw w (cacheKey j)))"
    using w'(2) by (fastforce simp: map_le_def decoded_def dom_def split: option.splits)
  show "\<exists>r w'. cache_GetMulti (RedisFingerprintCache C R) ids w = Some (r, w') \<and> db w' = db w \<and>
      (\<lambda>j. decoded C (raw w' (cacheKey j))) \<subseteq>\<^sub>m (\<lambda>j. decoded C (raw w (cacheKey j))) \<and>
      (\<forall>m. r = Inr m \<longrightarrow> (\<exists>l. m = Some l \<and> distinct (map fst l) \<and>
        map_of l \<subseteq>\<^sub>m (\<lambda>j. decoded C (raw w (cacheKey j))) |` set ids))"
  proof (cases r)
    case (Inl e)
    with ids m w'(1) le show ?thesis by (simp add: RedisFingerprintCache_def Cache_GetMulti_def)
  next
    case (Inr vs)
    have "\<exists>r. read_replies C ids 0 vs [] = Some r \<and>
        (\<forall>m'. r = Inr m' \<longrightarrow> distinct (map fst m') \<and> map_of m' \<subseteq>\<^sub>m (\<lambda>j. decoded C (raw w (cacheKey j))) |` set ids)"
      by (rule read_replies_sound) (use mget [OF m] Inr in auto)
    then obtain r' where "read_replies C ids 0 vs [] = Some r'"
      "\<forall>m'. r' = Inr m' \<longrightarrow> distinct (map fst m') \<and> map_of m' \<subseteq>\<^sub>m (\<lambda>j. decoded C (raw w (cacheKey j))) |` set ids" by blast
    with Inr ids m w'(1) le show ?thesis
      by (auto simp: RedisFingerprintCache_def Cache_GetMulti_def split: sum.splits)
  qed
next
  fix i fp w j x
  show "db (snd (cache_Set (RedisFingerprintCache C R) i fp w)) = db w \<and>
      (decoded C (raw (snd (cache_Set (RedisFingerprintCache C R) i fp w)) (cacheKey j)) = Some x \<longrightarrow>
        decoded C (raw w (cacheKey j)) = Some x \<or> (j = i \<and> x = fp))"
  proof (cases "EncodeFingerprint_fp C fp")
    case (Inl e)
    then show ?thesis by (simp add: RedisFingerprintCache_def Cache_Set_def)
  next
    case (Inr d)
    obtain e w' where s: "redis_Set R (cacheKey i) d cache_ttl w = (e, w')"
      by (cases "redis_Set R (cacheKey i) d cache_ttl w")
    have eq: "snd (cache_Set (RedisFingerprintCache C R) i fp w) = w'"
      using Inr s by (simp add: RedisFingerprintCache_def Cache_Set_def split: option.split)
    have "decoded C (raw w (cacheKey j)) = Some x \<or> (j = i \<and> x = fp)"
      if x: "decoded C (raw w' (cacheKey j)) = Some x"
    proof -
      from x obtain d' where "raw w' (cacheKey j) = Some d'" by (auto simp: decoded_def split: option.splits)
      then consider "raw w (cacheKey j) = Some d'" | "cacheKey j = cacheKey i" "d' = d"
        using rset [OF s] by blast
      then show ?thesis
      proof cases
        case 1
        with x \<open>raw w' (cacheKey j) = Some d'\<close> show ?thesis by simp
      next
        case 2
        with x \<open>raw w' (cacheKey j) = Some d'\<close> decode_inverts [OF Inr] cacheKey_inj show ?thesis
          by (simp add: decoded_def)
      qed
    qed
    with eq rset [OF s] show ?thesis by simp
  qed
qed

text \<open>
  The statements the store relies on: reading the legacy table, where a row's array is never empty,
  and inserting, which may have happened even when it reports an error.
\<close>

locale postgres_contract =
  fixes C :: codec and D :: "'w database" and cached :: "'w \<Rightarrow> u64 \<Rightarrow> Fingerprint option" and db :: "'w \<Rightarrow> 'd"
    and v1 :: "'d \<Rightarrow> u64 \<Rightarrow> u32 list option" and v2 :: "'d \<Rightarrow> u64 \<Rightarrow> u8 list option"
  assumes reader: "new_reader C = None"
    and unmarshal_marshal: "marshal C fp = Inr data \<Longrightarrow> unmarshal C data = Inr fp"
    and decode_encode: "decode_all C (encode_all C data) = Inr data"
    and select_v1: "db_select_v1 D i w = (row, w') \<Longrightarrow>
      db w' = db w \<and> cached w' \<subseteq>\<^sub>m cached w \<and>
      (row = Inl (Sentinel ErrNoRows) \<longrightarrow> v1 (db w) i = None) \<and>
      (\<forall>src. row = Inr src \<longrightarrow> (\<exists>hs. v1 (db w) i = Some hs \<and> hs \<noteq> [] \<and> src = SrcBytes (array_text hs)))"
    and insert_v2: "db_insert_v2 D data w = (res, w') \<Longrightarrow>
      v1 (db w') = v1 (db w) \<and> v2 (db w) \<subseteq>\<^sub>m v2 (db w') \<and> cached w' \<subseteq>\<^sub>m cached w \<and>
      (\<forall>i. res = Inr i \<longrightarrow> v2 (db w') i = Some data)"

text \<open>The fingerprints the two tables hold.\<close>

definition legacy_fp :: "u32 list option \<Rightarrow> Fingerprint option" where
  "legacy_fp hs = map_option (\<lambda>hs. \<lparr> Version = 1, Hashes = hs \<rparr>) hs"

lemma retry_scan_invariant:
  assumes "P w" and "\<And>w. P w \<Longrightarrow> P (snd (query w))" and "retry_scan D query zero scan w = (err, v, w')"
  shows "\<exists>w0 v0. P w0 \<and> P w' \<and> scan_op query zero scan (v0, w0) = (err, v, w')"
proof -
  obtain waits where r: "retryOnConnectionError (ctx_done D w) (scan_op query zero scan) (zero, w) = (err, (v, w'), waits)"
    using assms(3) by (auto simp: retry_scan_def Let_def split: prod.splits)
  have step: "P (snd (snd (scan_op query zero scan vw)))" if "P (snd vw)" for vw
    using assms(2) [OF that] by (auto simp: scan_op_def split: prod.splits sum.splits)
  obtain vw where vw: "P (snd vw)" "scan_op query zero scan vw = (err, (v, w'))"
    using retry_invariant [of "\<lambda>vw. P (snd vw)" "(zero, w)", OF _ step r] assms(1) by auto
  moreover have "P w'" using step [OF vw(1)] vw(2) by simp
  ultimately show ?thesis by (metis prod.collapse)
qed

context postgres_contract begin

lemma getV1_reads:
  assumes "getV1 D i w = (r, w')"
  shows "db w' = db w \<and> cached w' \<subseteq>\<^sub>m cached w \<and> (\<forall>fp. r = Inr fp \<longrightarrow> fp = legacy_fp (v1 (db w) i))"
proof -
  let ?P = "\<lambda>u. db u = db w \<and> cached u \<subseteq>\<^sub>m cached w"
  obtain err hashes u where rs: "retry_scan D (db_select_v1 D i) None scan_array w = (err, hashes, u)"
    by (metis prod_cases3)
  have step: "?P (snd (db_select_v1 D i u))" if "?P u" for u
    using select_v1 [of i u "fst (db_select_v1 D i u)" "snd (db_select_v1 D i u)"] that
    by (auto intro: map_le_trans)
  obtain w0 v0 where w0: "?P w0" "?P u" "scan_op (db_select_v1 D i) None scan_array (v0, w0) = (err, hashes, u)"
    using retry_scan_invariant [of ?P w, OF _ step rs] by auto
  obtain row u' where q: "db_select_v1 D i w0 = (row, u')" by (cases "db_select_v1 D i w0")
  have op: "(err, hashes, u) = (case row of Inl e \<Rightarrow> (Some e, None, u')
      | Inr src \<Rightarrow> (case scan_array src of Inl e \<Rightarrow> (Some e, None, u') | Inr v \<Rightarrow> (None, v, u')))"
    using w0(3) q by (simp add: scan_op_def split: sum.splits)
  have u: "u = u'" using op by (auto split: sum.splits)
  have row: "row = Inl (Sentinel ErrNoRows) \<Longrightarrow> v1 (db w) i = None"
    "\<And>src. row = Inr src \<Longrightarrow> \<exists>hs. v1 (db w) i = Some hs \<and> hs \<noteq> [] \<and> src = SrcBytes (array_text hs)"
    using select_v1 [OF q] w0(1) by auto
  have scan: "scan_array (SrcBytes (array_text hs)) = Inr (Some hs)" if "hs \<noteq> []" for hs
    using scanString_array_text [OF that] by (simp add: scan_array_def Uint32Array_Scan_def scan_result_def)
  show ?thesis
  proof (cases row)
    case (Inl e)
    with op u have "err = Some e" by simp
    with assms rs Inl row(1) w0(2) show ?thesis
      by (auto simp: getV1_def legacy_fp_def split: if_splits)
  next
    case (Inr src)
    then obtain hs where "v1 (db w) i = Some hs" "hs \<noteq> []" "src = SrcBytes (array_text hs)" using row(2) by blast
    with op Inr scan have "err = None" "hashes = Some hs" by simp_all
    with assms rs \<open>v1 (db w) i = Some hs\<close> w0(2) show ?thesis by (auto simp: getV1_def legacy_fp_def)
  qed
qed

lemma get_each_reads:
  assumes "get_each D ids m w = (r, w')" and "distinct (map fst m)"
    and "map_of m = (\<lambda>j. legacy_fp (v1 (db w) j)) |` A"
  shows "db w' = db w \<and> cached w' \<subseteq>\<^sub>m cached w \<and>
    (\<forall>m'. r = Inr m' \<longrightarrow> distinct (map fst m') \<and>
       map_of m' = (\<lambda>j. legacy_fp (v1 (db w) j)) |` (A \<union> set ids))"
  using assms
proof (induction ids arbitrary: m w A)
  case (Cons i ids)
  obtain res u where g: "getV1 D i w = (res, u)" by (cases "getV1 D i w")
  note u = getV1_reads [OF g]
  show ?case
  proof (cases res)
    case (Inl e)
    with Cons.prems(1) g u show ?thesis by (auto simp: Store_Get_def)
  next
    case (Inr fp)
    define m2 where "m2 = (case fp of None \<Rightarrow> m | Some fp \<Rightarrow> AList.update i fp m)"
    have "get_each D ids m2 u = (r, w')"
      using Cons.prems(1) g Inr by (simp add: Store_Get_def m2_def split: option.splits)
    moreover have "distinct (map fst m2)" using Cons.prems(2) by (simp add: m2_def distinct_update split: option.split)
    moreover have "map_of m2 = (\<lambda>j. legacy_fp (v1 (db u) j)) |` (insert i A)"
    proof -
      have fp: "fp = legacy_fp (v1 (db w) i)" using u Inr by simp
      show ?thesis
      proof (cases fp)
        case None
        with fp Cons.prems(3) u show ?thesis by (auto simp: m2_def fun_eq_iff restrict_map_def)
      next
        case (Some x)
        then have "m2 = AList.update i x m" "legacy_fp (v1 (db w) i) = Some x" using fp by (simp_all add: m2_def)
        with Cons.prems(3) u show ?thesis by (auto simp: fun_eq_iff restrict_map_def update_conv')
      qed
    qed
    ultimately have "db w' = db u \<and> cached w' \<subseteq>\<^sub>m cached u \<and>
        (\<forall>m'. r = Inr m' \<longrightarrow> distinct (map fst m') \<and>
           map_of m' = (\<lambda>j. legacy_fp (v1 (db u) j)) |` (insert i A \<union> set ids))"
      by (rule Cons.IH)
    with u show ?thesis by (auto intro: map_le_trans)
  qed
qed auto

end

sublocale postgres_contract \<subseteq> fingerprint_store "PostgresFingerprintStore C D" cached db
  "\<lambda>d j. legacy_fp (v1 d j)" "\<lambda>d j. decoded C (v2 d j)"
proof
  fix ids :: "u64 list" and w r w'
  assume ids: "ids \<noteq> []" and g: "store_GetMulti (PostgresFingerprintStore C D) ids w = (r, w')"
  obtain r2 u where e: "get_each D ids [] w = (r2, u)" by (cases "get_each D ids [] w")
  have "map_of [] = (\<lambda>j. legacy_fp (v1 (db w) j)) |` {}" by (simp add: fun_eq_iff)
  from get_each_reads [OF e _ this] g ids e
  show "db w' = db w \<and> cached w' \<subseteq>\<^sub>m cached w \<and>
      (\<forall>m. r = Inr m \<longrightarrow> (\<exists>l. m = Some l \<and> distinct (map fst l) \<and>
         map_of l = (\<lambda>j. legacy_fp (v1 (db w) j)) |` set ids))"
    by (auto simp: PostgresFingerprintStore_def Store_GetMulti_def split: sum.splits)
next
  fix fp w res w'
  assume g: "store_Insert (PostgresFingerprintStore C D) fp w = (res, w')"
  show "(\<lambda>j. legacy_fp (v1 (db w') j)) = (\<lambda>j. legacy_fp (v1 (db w) j)) \<and>
      (\<lambda>j. decoded C (v2 (db w) j)) \<subseteq>\<^sub>m (\<lambda>j. decoded C (v2 (db w') j)) \<and> cached w' \<subseteq>\<^sub>m cached w \<and>
      (\<forall>i. res = Inr i \<longrightarrow> decoded C (v2 (db w') i) = Some fp)"
  proof (cases "EncodeFingerprint_fp C fp")
    case (Inl e)
    with g show ?thesis by (auto simp: PostgresFingerprintStore_def Store_Insert_def)
  next
    case (Inr d)
    have "DecodeFingerprint_fp C d = Inr fp"
      using Inr reader unmarshal_marshal decode_encode
      by (auto simp: EncodeFingerprint_fp_def CompressEncodedFingerprint_def DecodeFingerprint_fp_def
          UncompressEncodedFingerprint_def split: sum.splits option.splits)
    moreover have "db_insert_v2 D d w = (res, w')"
      using g Inr by (simp add: PostgresFingerprintStore_def Store_Insert_def)
    note i = insert_v2 [OF this]
    moreover have "(\<lambda>j. decoded C (v2 (db w) j)) \<subseteq>\<^sub>m (\<lambda>j. decoded C (v2 (db w') j))"
      using i by (fastforce simp: map_le_def decoded_def dom_def split: option.splits)
    ultimately show ?thesis by (auto simp: decoded_def)
  qed
qed

context redis_contract begin

lemma provides_cache: "fingerprint_cache (RedisFingerprintCache C R) (\<lambda>w j. decoded C (raw w (cacheKey j))) db"
  by (rule fingerprint_cache_axioms)

end

context postgres_contract begin

lemma provides_store: "fingerprint_store (PostgresFingerprintStore C D) cached db
    (\<lambda>d j. legacy_fp (v1 d j)) (\<lambda>d j. decoded C (v2 d j))"
  by (rule fingerprint_store_axioms)

end

end
