(* ===== verification/FpService.thy ===== *)
theory FpService
  imports FpStore
begin

text \<open>
  \<open>pkg/fpstore/service.go\<close>: the gRPC service over a store, an index and a cache. The world is the
  one of the three interfaces; the state adds what was added to the two counters of the metrics. A
  \<open>status\<close> is a gRPC error. The order in which \<open>range\<close> visits a map, the floating point and the
  sorting algorithm are parameters of the service record.
\<close>

section \<open>The service\<close>

datatype code = InvalidArgument | NotFound | Internal | Code_Canceled | Code_DeadlineExceeded | Unimplemented

datatype status = Status code string

record ('w, 'e, 'f, 'g) FingerprintStoreService =
  svc_store :: "'w FingerprintStore"
  svc_index :: "('e, 'w) FingerprintIndex"
  svc_cache :: "'w FingerprintCache"
  map_order :: "fp_map \<Rightarrow> fp_map"
  float_ops :: "('f, 'g) floats"
  sort_with :: sort_alg

record 'w svc_state =
  world :: 'w
  CacheHits :: "int list"
  CacheMisses :: "int list"

record 'g MatchingFingerprint =
  mf_Id :: u64
  mf_Score :: 'g

section \<open>Trace ids\<close>

text \<open>
  The trace id in a context, and the interceptor that sets it: the first value of the metadata's
  \<open>trace_id\<close> unless that is missing or empty, otherwise a generated one.
\<close>

record 'v Ctx =
  ctx_value :: "'v option"

definition getTraceId :: "(string + 'v) Ctx \<Rightarrow> string" where
  "getTraceId ctx = (case ctx_value ctx of Some (Inl traceId) \<Rightarrow> traceId | _ \<Rightarrow> [])"

definition setTraceId :: "(string + 'v) Ctx \<Rightarrow> string \<Rightarrow> (string + 'v) Ctx" where
  "setTraceId ctx traceId = ctx\<lparr> ctx_value := Some (Inl traceId) \<rparr>"

definition setupUnaryRequest ::
  "string list option \<Rightarrow> string \<Rightarrow> (string + 'v) Ctx \<Rightarrow> ((string + 'v) Ctx \<Rightarrow> 'req \<Rightarrow> 'res) \<Rightarrow> 'req \<Rightarrow> 'res" where
  "setupUnaryRequest traceIds generated ctx handler req =
     (let traceId = (case traceIds of Some (t # ts) \<Rightarrow> if t \<noteq> [] then t else [] | _ \<Rightarrow> []);
          traceId = (if traceId = [] then generated else traceId);
          ctx = setTraceId ctx traceId
      in handler ctx req)"

section \<open>Insert\<close>

definition Svc_Insert ::
  "('w, 'e, 'f, 'g) FingerprintStoreService \<Rightarrow> Fingerprint option \<Rightarrow> 'w svc_state \<Rightarrow> (status + u64) \<times> 'w svc_state" where
  "Svc_Insert s req_Fingerprint st =
     (case req_Fingerprint of
        None \<Rightarrow> (Inl (Status InvalidArgument ''fingerprint is required''), st)
      | Some fp \<Rightarrow>
          if length (Hashes fp) = 0
          then (Inl (Status InvalidArgument ''fingerprint can't be empty''), st)
          else case store_Insert (svc_store s) fp (world st) of
            (Inl err, w) \<Rightarrow> (Inl (Status Internal ''failed to insert fingerprint''), st\<lparr> world := w \<rparr>)
          | (Inr i, w) \<Rightarrow>
              let (_, w) = cache_Set (svc_cache s) i fp w in (Inr i, st\<lparr> world := w \<rparr>))"

section \<open>Reading through the cache\<close>

text \<open>The loop that adds the fingerprints of the store to the map and to the cache.\<close>

fun store_back :: "'w FingerprintCache \<Rightarrow> fp_map \<Rightarrow> fp_map \<Rightarrow> 'w \<Rightarrow> fp_map \<times> 'w" where
  "store_back cache [] m w = (m, w)"
| "store_back cache ((i, fp) # fps) m w =
     (let m = AList.update i fp m; (_, w) = cache_Set cache i fp w in store_back cache fps m w)"

definition getFingerprints ::
  "('w, 'e, 'f, 'g) FingerprintStoreService \<Rightarrow> u64 list \<Rightarrow> 'w svc_state \<Rightarrow>
   ((status + fp_map option) \<times> 'w svc_state) option" where
  "getFingerprints s ids st =
     (if length ids = 0 then Some (Inr None, st)
      else Option.bind (cache_GetMulti (svc_cache s) ids (world st)) (\<lambda>(r, w).
        let st = st\<lparr> world := w \<rparr> in
        case r of
          Inl err \<Rightarrow> Some (Inl (Status Internal ''failed to get fingerprints from cache''), st)
        | Inr cachedFingerprints \<Rightarrow>
            let m = (case cachedFingerprints of None \<Rightarrow> [] | Some m \<Rightarrow> m);
                missingIds = filter (\<lambda>i. map_of m i = None) ids;
                st = st\<lparr> CacheHits := CacheHits st @ [int (length ids) - int (length missingIds)],
                         CacheMisses := CacheMisses st @ [int (length missingIds)] \<rparr>
            in if length missingIds > 0
               then case store_GetMulti (svc_store s) missingIds (world st) of
                 (Inl err, w) \<Rightarrow> Some (Inl (Status Internal ''failed to get fingerprints from database''), st\<lparr> world := w \<rparr>)
               | (Inr fps, w) \<Rightarrow>
                   let fps = map_order s (case fps of None \<Rightarrow> [] | Some fps \<Rightarrow> fps) in
                   if fps = [] then Some (Inr cachedFingerprints, st\<lparr> world := w \<rparr>)
                   else (case cachedFingerprints of
                       None \<Rightarrow> None
                     | Some m \<Rightarrow>
                         let (m, w) = store_back (svc_cache s) fps m w
                         in Some (Inr (Some m), st\<lparr> world := w \<rparr>))
               else Some (Inr cachedFingerprints, st)))"

definition getFingerprint ::
  "('w, 'e, 'f, 'g) FingerprintStoreService \<Rightarrow> u64 \<Rightarrow> 'w svc_state \<Rightarrow>
   ((status + Fingerprint option) \<times> 'w svc_state) option" where
  "getFingerprint s i st =
     map_option (\<lambda>(r, st). (case r of Inl err \<Rightarrow> Inl err
       | Inr fps \<Rightarrow> Inr (map_of (case fps of None \<Rightarrow> [] | Some m \<Rightarrow> m) i), st)) (getFingerprints s [i] st)"

definition Svc_Get ::
  "('w, 'e, 'f, 'g) FingerprintStoreService \<Rightarrow> u64 \<Rightarrow> 'w svc_state \<Rightarrow>
   ((status + Fingerprint) \<times> 'w svc_state) option" where
  "Svc_Get s i st =
     (if i = 0 then Some (Inl (Status InvalidArgument ''id is required''), st)
      else Option.bind (getFingerprint s i st) (\<lambda>(r, st).
        case r of
          Inl err \<Rightarrow> Some (Inl (Status Internal (''failed to get fingerprint '' @ format_uint (unat i))), st)
        | Inr None \<Rightarrow> Some (Inl (Status NotFound (''fingerprint '' @ format_uint (unat i) @ '' not found'')), st)
        | Inr (Some fp) \<Rightarrow> Some (Inr fp, st)))"

section \<open>Comparing and searching\<close>

text \<open>\<open>canceled n\<close> says whether the context is canceled when the loop looks at it the \<open>n\<close>-th time.\<close>

fun compare_loop ::
  "('f, 'g) floats \<Rightarrow> sort_alg \<Rightarrow> (nat \<Rightarrow> bool) \<Rightarrow> Fingerprint \<Rightarrow> 'g \<Rightarrow> nat \<Rightarrow> fp_map \<Rightarrow>
   'g MatchingFingerprint list \<Rightarrow> (status + 'g MatchingFingerprint list) option" where
  "compare_loop F S canceled query minScore n [] results = Some (Inr results)"
| "compare_loop F S canceled query minScore n ((i, fp) # fps) results =
     (if canceled n then Some (Inl (Status Code_Canceled ''request canceled''))
      else Option.bind (CompareFingerprints F S query fp) (\<lambda>r.
        case r of
          Inl err \<Rightarrow> compare_loop F S canceled query minScore (n + 1) fps results
        | Inr score \<Rightarrow>
            compare_loop F S canceled query minScore (n + 1) fps
              (if g_le F minScore score then results @ [\<lparr> mf_Id = i, mf_Score = score \<rparr>] else results)))"

definition compareFingerprints ::
  "('w, 'e, 'f, 'g) FingerprintStoreService \<Rightarrow> (nat \<Rightarrow> bool) \<Rightarrow> Fingerprint \<Rightarrow> u64 list \<Rightarrow> 'g \<Rightarrow> 'w svc_state \<Rightarrow>
   ((status + 'g MatchingFingerprint list) \<times> 'w svc_state) option" where
  "compareFingerprints s canceled query ids minScore st =
     Option.bind (getFingerprints s ids st) (\<lambda>(r, st).
       case r of
         Inl err \<Rightarrow> Some (Inl err, st)
       | Inr fingerprints \<Rightarrow>
           map_option (\<lambda>results. (results, st))
             (compare_loop (float_ops s) (sort_with s) canceled query minScore 0
               (map_order s (case fingerprints of None \<Rightarrow> [] | Some m \<Rightarrow> m)) []))"

record 'g CompareRequest =
  cmp_Fingerprint :: "Fingerprint option"
  cmp_Ids :: "u64 list"
  cmp_MinScore :: 'g

definition Svc_Compare ::
  "('w, 'e, 'f, 'g) FingerprintStoreService \<Rightarrow> (nat \<Rightarrow> bool) \<Rightarrow> 'g CompareRequest \<Rightarrow> 'w svc_state \<Rightarrow>
   ((status + 'g MatchingFingerprint list) \<times> 'w svc_state) option" where
  "Svc_Compare s canceled req st =
     Option.bind (cmp_Fingerprint req) (\<lambda>fp.
       if length (Hashes fp) = 0 then Some (Inl (Status InvalidArgument ''fingerprint can't be empty''), st)
       else if length (cmp_Ids req) = 0 then Some (Inl (Status InvalidArgument ''ids can't be empty''), st)
       else compareFingerprints s canceled fp (cmp_Ids req) (cmp_MinScore req) st)"

definition DefaultSearchLimit :: int where "DefaultSearchLimit = 10"
definition FastModeFactor :: int where "FastModeFactor = 1"
definition SlowModeFactor :: int where "SlowModeFactor = 4"

text \<open>\<open>Limit\<close> is an \<open>int32\<close>, held as its 32 bits.\<close>

record 'g SearchRequest =
  srch_Fingerprint :: "Fingerprint option"
  Limit :: u32
  FastMode :: bool
  srch_MinScore :: 'g

definition search_limit :: "'g SearchRequest \<Rightarrow> int" where
  "search_limit req = (if sint (Limit req) > 0 then sint (Limit req) else DefaultSearchLimit)"

definition Svc_Search ::
  "('w, 'e, 'f, 'g) FingerprintStoreService \<Rightarrow> (nat \<Rightarrow> bool) \<Rightarrow> 'g SearchRequest \<Rightarrow> 'w svc_state \<Rightarrow>
   ((status + 'g MatchingFingerprint list) \<times> 'w svc_state) option" where
  "Svc_Search s canceled req st =
     Option.bind (srch_Fingerprint req) (\<lambda>fp.
       if length (Hashes fp) = 0 then Some (Inl (Status InvalidArgument ''fingerprint can't be empty''), st)
       else
         let maxResults = search_limit req;
             req = req\<lparr> FastMode := True \<rparr>;
             maxCandidateIds = maxResults * (if FastMode req then FastModeFactor else SlowModeFactor)
         in Option.bind (index_Search (svc_index s) fp maxCandidateIds (world st)) (\<lambda>(r, w).
            let st = st\<lparr> world := w \<rparr> in
            case r of
              Inl err \<Rightarrow>
                if index_timeout (svc_index s) err
                then Some (Inl (Status Code_DeadlineExceeded ''timeout while searching index''), st)
                else Some (Inl (Status Internal ''failed to search index''), st)
            | Inr candidateIds \<Rightarrow>
                if length candidateIds = 0 then Some (Inr [], st)
                else Option.bind (compareFingerprints s canceled fp candidateIds (srch_MinScore req) st) (\<lambda>(r, st).
                  case r of
                    Inl err \<Rightarrow> Some (Inl err, st)
                  | Inr results \<Rightarrow>
                      Some (Inr (if int (length results) > maxResults then take (nat maxResults) results else results), st))))"

section \<open>The service over its contracts\<close>

text \<open>
  Every cached fingerprint is one that a table holds under its id. The service keeps this, given
  a cache and a store with their contracts and an index that leaves both alone.
\<close>

definition coherent ::
  "('w \<Rightarrow> u64 \<Rightarrow> Fingerprint option) \<Rightarrow> ('w \<Rightarrow> 'd) \<Rightarrow> ('d \<Rightarrow> u64 \<Rightarrow> Fingerprint option) \<Rightarrow>
   ('d \<Rightarrow> u64 \<Rightarrow> Fingerprint option) \<Rightarrow> 'w \<Rightarrow> bool" where
  "coherent cached db v1 v2 w \<longleftrightarrow>
     (\<forall>i fp. cached w i = Some fp \<longrightarrow> v1 (db w) i = Some fp \<or> v2 (db w) i = Some fp)"

definition entries :: "fp_map option \<Rightarrow> fp_map" where
  "entries m = (case m of None \<Rightarrow> [] | Some m \<Rightarrow> m)"

locale fingerprint_service =
  fingerprint_cache "svc_cache s" cached db + fingerprint_store "svc_store s" cached db v1 v2
  for s :: "('w, 'e, 'f, 'g) FingerprintStoreService" and cached :: "'w \<Rightarrow> u64 \<Rightarrow> Fingerprint option"
    and db :: "'w \<Rightarrow> 'd" and v1 v2 :: "'d \<Rightarrow> u64 \<Rightarrow> Fingerprint option" +
  assumes order: "mset (map_order s m) = mset m"
    and sorting: "sort_contract (sort_with s)"
    and index_search: "0 < n \<Longrightarrow> \<exists>r w'. index_Search (svc_index s) fp n w = Some (r, w') \<and>
        db w' = db w \<and> cached w' \<subseteq>\<^sub>m cached w \<and> (\<forall>ids. r = Inr ids \<longrightarrow> int (length ids) \<le> n)"
begin

abbreviation safe :: "'w svc_state \<Rightarrow> bool" where
  "safe st \<equiv> coherent cached db v1 v2 (world st)"

declare map_of_eq_Some_iff [simp del] Some_eq_map_of_iff [simp del]

lemma coherent_mono:
  assumes "coherent cached db v1 v2 w" and "db w' = db w" and "cached w' \<subseteq>\<^sub>m cached w"
  shows "coherent cached db v1 v2 w'"
  using assms by (fastforce simp: coherent_def map_le_def dom_def)

lemma set_order: "set (map_order s m) = set m"
  by (metis order set_mset_mset)

lemma distinct_order: "distinct (map fst m) \<Longrightarrow> distinct (map fst (map_order s m))"
  by (metis mset_eq_imp_distinct_iff mset_map order)

lemma store_back_ok:
  assumes "store_back (svc_cache s) fps m w = (m', w')" and "distinct (map fst m)"
  shows "db w' = db w \<and> distinct (map fst m') \<and>
    (\<forall>j x. map_of m' j = Some x \<longrightarrow> map_of m j = Some x \<or> (j, x) \<in> set fps) \<and>
    (\<forall>j. map_of m' j = None \<longrightarrow> map_of m j = None \<and> j \<notin> fst ` set fps) \<and>
    (\<forall>j x. cached w' j = Some x \<longrightarrow> cached w j = Some x \<or> (j, x) \<in> set fps)"
  using assms
proof (induction fps arbitrary: m w)
  case (Cons p fps)
  obtain i fp where p: "p = (i, fp)" by fastforce
  let ?w = "snd (cache_Set (svc_cache s) i fp w)"
  have "store_back (svc_cache s) fps (AList.update i fp m) ?w = (m', w')"
    using Cons.prems(1) by (simp add: p Let_def case_prod_unfold)
  note IH = Cons.IH [OF this distinct_update [OF Cons.prems(2)]]
  have up: "map_of (AList.update i fp m) j = (if j = i then Some fp else map_of m j)" for j
    by (simp add: update_conv')
  have set: "db ?w = db w" "\<And>j x. cached ?w j = Some x \<Longrightarrow> cached w j = Some x \<or> (j = i \<and> x = fp)"
    using set_entry [of i fp w] by blast+
  show ?case
  proof (intro conjI allI impI)
    show "db w' = db w" "distinct (map fst m')" using IH set(1) by simp_all
    fix j x
    show "map_of m j = Some x \<or> (j, x) \<in> set (p # fps)" if "map_of m' j = Some x"
      using IH that by (auto simp: up p split: if_splits)
    show "map_of m j = None" "j \<notin> fst ` set (p # fps)" if "map_of m' j = None"
    proof -
      have "map_of (AList.update i fp m) j = None" "j \<notin> fst ` set fps" using IH that by blast+
      then show "map_of m j = None" "j \<notin> fst ` set (p # fps)" by (auto simp: up p split: if_splits)
    qed
    show "cached w j = Some x \<or> (j, x) \<in> set (p # fps)" if "cached w' j = Some x"
    proof -
      have "cached ?w j = Some x \<or> (j, x) \<in> set fps" using IH that by blast
      then show ?thesis using set(2) by (auto simp: p)
    qed
  qed
qed auto

text \<open>
  What a read through the cache does: it returns, leaves the tables alone, caches only what was cached
  or is in the legacy table, and its map has exactly such entries, for the ids it was asked for; an id
  without an entry is not in the legacy table.
\<close>

definition read_ok :: "'w svc_state \<Rightarrow> u64 list \<Rightarrow> status + fp_map option \<Rightarrow> 'w svc_state \<Rightarrow> bool" where
  "read_ok st ids r st' \<longleftrightarrow>
     db (world st') = db (world st) \<and>
     (\<forall>j x. cached (world st') j = Some x \<longrightarrow> cached (world st) j = Some x \<or> v1 (db (world st)) j = Some x) \<and>
     (\<forall>m. r = Inr m \<longrightarrow> distinct (map fst (entries m)) \<and>
       (\<forall>j x. map_of (entries m) j = Some x \<longrightarrow>
          j \<in> set ids \<and> (cached (world st) j = Some x \<or> v1 (db (world st)) j = Some x)) \<and>
       (\<forall>j \<in> set ids. map_of (entries m) j = None \<longrightarrow> v1 (db (world st)) j = None))"

text \<open>
  The two sources of the map: what the cache returned, and what the store returned for the ids that
  the cache has not, which goes back to the cache.
\<close>

lemma cache_reply_ok:
  assumes "ids \<noteq> []"
  shows "\<exists>r w. cache_GetMulti (svc_cache s) ids w0 = Some (r, w) \<and> db w = db w0 \<and>
    (\<forall>j x. cached w j = Some x \<longrightarrow> cached w0 j = Some x) \<and>
    (\<forall>m. r = Inr m \<longrightarrow> (\<exists>l. m = Some l \<and> distinct (map fst l) \<and>
      (\<forall>j x. map_of l j = Some x \<longrightarrow> j \<in> set ids \<and> cached w0 j = Some x)))"
proof -
  obtain r w where g: "cache_GetMulti (svc_cache s) ids w0 = Some (r, w)" "db w = db w0" "cached w \<subseteq>\<^sub>m cached w0"
    and m: "\<And>m. r = Inr m \<Longrightarrow> \<exists>l. m = Some l \<and> distinct (map fst l) \<and> map_of l \<subseteq>\<^sub>m cached w0 |` set ids"
    using get_multi [OF assms, of w0] by blast
  have sub: "q j = Some x" if "p \<subseteq>\<^sub>m q" "p j = Some x" for p q :: "u64 \<Rightarrow> Fingerprint option" and j x
    using that by (metis domI map_le_def)
  have "j \<in> set ids \<and> cached w0 j = Some x" if "map_of l \<subseteq>\<^sub>m cached w0 |` set ids" "map_of l j = Some x" for l j x
    using sub [OF that] by (simp add: restrict_map_def split: if_splits)
  with g m sub [OF g(3)] show ?thesis by blast
qed

lemma store_reply_ok:
  assumes "db u = db (world st)" "\<forall>j x. cached u j = Some x \<longrightarrow> cached (world st) j = Some x"
    and l: "distinct (map fst l)" "\<forall>j x. map_of l j = Some x \<longrightarrow> j \<in> set ids \<and> cached (world st) j = Some x"
    and f: "distinct (map fst f)" "map_of f = v1 (db (world st)) |` {j \<in> set ids. map_of l j = None}"
    and "store_back (svc_cache s) (map_order s f) l u = (m', world st')"
  shows "read_ok st ids (Inr (Some m')) st'"
proof -
  note sb = store_back_ok [OF assms(7) l(1)]
  have f_v1: "v1 (db (world st)) j = Some x \<and> j \<in> set ids" if "(j, x) \<in> set (map_order s f)" for j x
  proof -
    have "map_of f j = Some x" using that f(1) by (simp add: set_order map_of_eq_Some_iff)
    then show ?thesis using f(2) by (simp add: restrict_map_def split: if_splits)
  qed
  have none: "v1 (db (world st)) j = None" if "j \<in> set ids" "map_of m' j = None" for j
  proof -
    have "map_of l j = None" "j \<notin> fst ` set (map_order s f)" using sb that(2) by auto
    then have "map_of l j = None" "map_of f j = None" by (simp_all add: set_order map_of_eq_None_iff)
    with f(2) that(1) show ?thesis by (simp add: restrict_map_def)
  qed
  have some: "j \<in> set ids \<and> (cached (world st) j = Some x \<or> v1 (db (world st)) j = Some x)"
    if "map_of m' j = Some x" for j x
    using sb that l(2) f_v1 [of j x] by blast
  have c: "cached (world st) j = Some x \<or> v1 (db (world st)) j = Some x" if "cached (world st') j = Some x" for j x
    using sb that assms(2) f_v1 [of j x] by blast
  show ?thesis using sb assms(1) none some c by (simp add: read_ok_def entries_def)
qed

lemma getFingerprints_ok:
  "\<exists>r st'. getFingerprints s ids st = Some (r, st') \<and> read_ok st ids r st'"
proof (cases "ids = []")
  case True
  then show ?thesis by (simp add: getFingerprints_def read_ok_def entries_def)
next
  case ids: False
  obtain r w where g: "cache_GetMulti (svc_cache s) ids (world st) = Some (r, w)" and w: "db w = db (world st)"
      "\<forall>j x. cached w j = Some x \<longrightarrow> cached (world st) j = Some x"
    and rm: "\<forall>m. r = Inr m \<longrightarrow> (\<exists>l. m = Some l \<and> distinct (map fst l) \<and>
      (\<forall>j x. map_of l j = Some x \<longrightarrow> j \<in> set ids \<and> cached (world st) j = Some x))"
    using cache_reply_ok [OF ids, of "world st"] by blast
  show ?thesis
  proof (cases r)
    case (Inl e)
    with ids g w show ?thesis by (simp add: getFingerprints_def read_ok_def Let_def)
  next
    case (Inr m)
    then obtain l where l: "m = Some l" "distinct (map fst l)"
      "\<forall>j x. map_of l j = Some x \<longrightarrow> j \<in> set ids \<and> cached (world st) j = Some x" using rm by blast
    define missing where "missing = filter (\<lambda>i. map_of l i = None) ids"
    define st1 where "st1 = st\<lparr> world := w, CacheHits := CacheHits st @ [int (length ids) - int (length missing)],
        CacheMisses := CacheMisses st @ [int (length missing)] \<rparr>"
    note unfold = getFingerprints_def Let_def missing_def [symmetric] st1_def
    show ?thesis
    proof (cases "missing = []")
      case True
      then have "getFingerprints s ids st = Some (Inr (Some l), st1)" using ids g Inr l(1) by (simp add: unfold)
      moreover have "\<forall>j \<in> set ids. map_of l j \<noteq> None" using True by (simp add: missing_def filter_empty_conv)
      ultimately show ?thesis using l(2,3) w by (auto simp: read_ok_def st1_def entries_def)
    next
      case False
      obtain r2 u where q: "store_GetMulti (svc_store s) missing w = (r2, u)"
        by (cases "store_GetMulti (svc_store s) missing w")
      note u = store_get_multi [OF False q]
      have cu: "\<forall>j x. cached u j = Some x \<longrightarrow> cached (world st) j = Some x"
        using u w(2) by (metis domI map_le_def)
      show ?thesis
      proof (cases r2)
        case (Inl e)
        then have "getFingerprints s ids st =
            Some (Inl (Status Internal ''failed to get fingerprints from database''), st1\<lparr> world := u \<rparr>)"
          using ids g Inr l(1) False q by (simp add: unfold)
        then show ?thesis using u w(1) cu by (simp add: read_ok_def)
      next
        case r2: (Inr fps)
        then obtain f where f: "fps = Some f" "distinct (map fst f)" "map_of f = v1 (db w) |` set missing"
          using u by blast
        obtain m' w' where sb: "store_back (svc_cache s) (map_order s f) l u = (m', w')"
          by (cases "store_back (svc_cache s) (map_order s f) l u")
        have "getFingerprints s ids st = Some (Inr (Some m'), st1\<lparr> world := w' \<rparr>)"
          using ids g Inr l(1) False q r2 f(1) sb by (auto simp: unfold)
        moreover have "read_ok st ids (Inr (Some m')) (st1\<lparr> world := w' \<rparr>)"
          using u w(1) cu l(2,3) f(2,3) sb by (intro store_reply_ok) (simp_all add: missing_def)
        ultimately show ?thesis by blast
      qed
    qed
  qed
qed

lemma read_ok_safe: "safe st \<Longrightarrow> read_ok st ids r st' \<Longrightarrow> safe st'"
  by (simp add: read_ok_def coherent_def) blast

lemma Svc_Insert_ok:
  assumes "Svc_Insert s req st = (r, st')" and "safe st"
  shows "safe st' \<and> v1 (db (world st')) = v1 (db (world st)) \<and> v2 (db (world st)) \<subseteq>\<^sub>m v2 (db (world st')) \<and>
    (\<forall>i. r = Inr i \<longrightarrow> (\<exists>fp. req = Some fp \<and> Hashes fp \<noteq> [] \<and> v2 (db (world st')) i = Some fp))"
proof (cases "\<exists>fp. req = Some fp \<and> Hashes fp \<noteq> []")
  case False
  then show ?thesis using assms by (auto simp: Svc_Insert_def split: option.splits)
next
  case True
  then obtain fp where fp: "req = Some fp" "Hashes fp \<noteq> []" by blast
  obtain res w where i: "store_Insert (svc_store s) fp (world st) = (res, w)"
    by (cases "store_Insert (svc_store s) fp (world st)")
  note w = store_insert [OF i]
  have le: "v2 (db w) j = Some x" if "v2 (db (world st)) j = Some x" for j x
    using w that by (metis domI map_le_def)
  have cw: "cached (world st) j = Some x" if "cached w j = Some x" for j x
    using w that by (metis domI map_le_def)
  have safe_w: "coherent cached db v1 v2 w"
    using assms(2) w le cw by (simp add: coherent_def) blast
  show ?thesis
  proof (cases res)
    case (Inl e)
    with assms(1) fp i have "r = Inl (Status Internal ''failed to insert fingerprint'')" "st' = st\<lparr> world := w \<rparr>"
      by (simp_all add: Svc_Insert_def)
    with safe_w w show ?thesis by simp
  next
    case (Inr k)
    let ?w = "snd (cache_Set (svc_cache s) k fp w)"
    have eq: "r = Inr k" "st' = st\<lparr> world := ?w \<rparr>"
      using assms(1) fp i Inr by (simp_all add: Svc_Insert_def Let_def case_prod_unfold)
    have k: "v2 (db w) k = Some fp" using w Inr by blast
    have set: "db ?w = db w" "\<And>j x. cached ?w j = Some x \<Longrightarrow> cached w j = Some x \<or> (j = k \<and> x = fp)"
      using set_entry [of k fp w] by blast+
    have "coherent cached db v1 v2 ?w"
      using safe_w k unfolding coherent_def set(1) by (blast dest: set(2))
    with eq set(1) w k fp show ?thesis by simp
  qed
qed

lemma Svc_Get_ok:
  "\<exists>r st'. Svc_Get s i st = Some (r, st') \<and> db (world st') = db (world st) \<and> (safe st \<longrightarrow> safe st') \<and>
    (\<forall>fp. r = Inr fp \<longrightarrow> cached (world st) i = Some fp \<or> v1 (db (world st)) i = Some fp) \<and>
    (\<forall>msg. r = Inl (Status NotFound msg) \<longrightarrow> v1 (db (world st)) i = None)"
proof (cases "i = 0")
  case True
  then show ?thesis by (simp add: Svc_Get_def)
next
  case False
  obtain r st' where g: "getFingerprints s [i] st = Some (r, st')" and ok: "read_ok st [i] r st'"
    using getFingerprints_ok by blast
  have facts: "db (world st') = db (world st)" "safe st \<longrightarrow> safe st'"
    using ok read_ok_safe by (auto simp: read_ok_def)
  show ?thesis
  proof (cases r)
    case (Inl e)
    with False g facts show ?thesis by (simp add: Svc_Get_def getFingerprint_def)
  next
    case (Inr m)
    then have some: "map_of (entries m) i = Some x \<Longrightarrow> cached (world st) i = Some x \<or> v1 (db (world st)) i = Some x"
      and none: "map_of (entries m) i = None \<Longrightarrow> v1 (db (world st)) i = None" for x
      using ok unfolding read_ok_def by (blast, simp)
    have get: "getFingerprint s i st = Some (Inr (map_of (entries m) i), st')"
      using g Inr by (simp add: getFingerprint_def entries_def)
    show ?thesis
    proof (cases "map_of (entries m) i")
      case None
      with False get facts none show ?thesis by (simp add: Svc_Get_def)
    next
      case (Some x)
      with False get facts some show ?thesis by (simp add: Svc_Get_def)
    qed
  qed
qed

text \<open>The matches among fingerprints, in their order.\<close>

definition matching :: "Fingerprint \<Rightarrow> 'g \<Rightarrow> fp_map \<Rightarrow> 'g MatchingFingerprint list" where
  "matching query minScore fps = concat (map (\<lambda>(i, fp).
     case CompareFingerprints (float_ops s) (sort_with s) query fp of
       Some (Inr score) \<Rightarrow> if g_le (float_ops s) minScore score then [\<lparr> mf_Id = i, mf_Score = score \<rparr>] else []
     | _ \<Rightarrow> []) fps)"

lemma matching_simps:
  "matching query minScore [] = []"
  "matching query minScore ((i, fp) # fps) =
     (case CompareFingerprints (float_ops s) (sort_with s) query fp of
       Some (Inr score) \<Rightarrow> if g_le (float_ops s) minScore score then [\<lparr> mf_Id = i, mf_Score = score \<rparr>] else []
     | _ \<Rightarrow> []) @ matching query minScore fps"
  by (simp_all add: matching_def)

lemma compare_loop_ok:
  "compare_loop (float_ops s) (sort_with s) canceled query minScore n fps results =
   Some (if \<exists>k < length fps. canceled (n + k) then Inl (Status Code_Canceled ''request canceled'')
         else Inr (results @ matching query minScore fps))"
proof (induction fps arbitrary: n results)
  case (Cons p fps)
  obtain i fp where p: "p = (i, fp)" by fastforce
  obtain r where r: "CompareFingerprints (float_ops s) (sort_with s) query fp = Some r"
    using CompareFingerprints_Some [OF sorting] by blast
  have ex: "(\<exists>k < length (p # fps). canceled (n + k)) \<longleftrightarrow> canceled n \<or> (\<exists>k < length fps. canceled (n + 1 + k))"
    by (auto simp: less_Suc_eq_0_disj)
  show ?case
    unfolding ex using Cons.IH [of "n + 1"] r
    by (cases "canceled n"; cases r; cases "\<exists>k < length fps. canceled (n + 1 + k)") (auto simp: p matching_simps)
qed (simp add: matching_simps)

lemma matching_sound:
  "m \<in> set (matching query minScore fps) \<Longrightarrow>
   \<exists>fp. (mf_Id m, fp) \<in> set fps \<and>
     CompareFingerprints (float_ops s) (sort_with s) query fp = Some (Inr (mf_Score m)) \<and>
     g_le (float_ops s) minScore (mf_Score m)"
proof (induction fps)
  case (Cons p fps)
  obtain i fp where p: "p = (i, fp)" by fastforce
  show ?case
  proof (cases "m \<in> set (matching query minScore fps)")
    case True
    with Cons.IH show ?thesis by auto
  next
    case False
    with Cons.prems have "CompareFingerprints (float_ops s) (sort_with s) query fp = Some (Inr (mf_Score m)) \<and>
        mf_Id m = i \<and> g_le (float_ops s) minScore (mf_Score m)"
      by (auto simp: p matching_simps split: option.splits sum.splits if_splits)
    with p show ?thesis by auto
  qed
qed (simp add: matching_simps)

lemma length_matching: "length (matching query minScore fps) \<le> length fps"
  by (induction fps) (auto simp: matching_simps split: option.splits sum.splits if_splits)

text \<open>What a comparison with stored fingerprints gives.\<close>

definition matches_ok :: "Fingerprint \<Rightarrow> 'g \<Rightarrow> u64 list \<Rightarrow> 'w svc_state \<Rightarrow> 'g MatchingFingerprint list \<Rightarrow> bool" where
  "matches_ok query minScore ids st results \<longleftrightarrow>
     length results \<le> length ids \<and>
     (\<forall>m \<in> set results. mf_Id m \<in> set ids \<and> (\<exists>fp.
        (cached (world st) (mf_Id m) = Some fp \<or> v1 (db (world st)) (mf_Id m) = Some fp) \<and>
        CompareFingerprints (float_ops s) (sort_with s) query fp = Some (Inr (mf_Score m)) \<and>
        g_le (float_ops s) minScore (mf_Score m)))"

lemma compareFingerprints_ok:
  "\<exists>r st'. compareFingerprints s canceled query ids minScore st = Some (r, st') \<and>
     db (world st') = db (world st) \<and> (safe st \<longrightarrow> safe st') \<and>
     (\<forall>results. r = Inr results \<longrightarrow> matches_ok query minScore ids st results)"
proof -
  obtain r st' where g: "getFingerprints s ids st = Some (r, st')" and ok: "read_ok st ids r st'"
    using getFingerprints_ok by blast
  have facts: "db (world st') = db (world st)" "safe st \<longrightarrow> safe st'"
    using ok read_ok_safe by (auto simp: read_ok_def)
  show ?thesis
  proof (cases r)
    case (Inl e)
    with g facts show ?thesis by (simp add: compareFingerprints_def)
  next
    case (Inr m)
    let ?fps = "map_order s (entries m)"
    have d: "distinct (map fst (entries m))" using ok Inr by (simp add: read_ok_def)
    have in_map: "j \<in> set ids \<and> (cached (world st) j = Some x \<or> v1 (db (world st)) j = Some x)"
      if "(j, x) \<in> set ?fps" for j x
      using that d ok Inr by (auto simp: read_ok_def set_order map_of_eq_Some_iff)
    have "length ?fps = card (fst ` set ?fps)"
      using distinct_card [OF distinct_order [OF d]] by simp
    also have "\<dots> \<le> card (set ids)" by (rule card_mono) (auto dest: in_map)
    also have "\<dots> \<le> length ids" by (rule card_length)
    finally have len: "length (matching query minScore ?fps) \<le> length ids"
      using length_matching [of query minScore ?fps] by simp
    have "matches_ok query minScore ids st (matching query minScore ?fps)"
      unfolding matches_ok_def using len in_map by (fastforce dest: matching_sound)
    moreover have "compareFingerprints s canceled query ids minScore st = Some
        (if \<exists>k < length ?fps. canceled k then Inl (Status Code_Canceled ''request canceled'')
         else Inr (matching query minScore ?fps), st')"
      using g Inr by (simp add: compareFingerprints_def compare_loop_ok entries_def)
    ultimately show ?thesis using facts by auto
  qed
qed

lemma Svc_Compare_ok:
  assumes "cmp_Fingerprint req = Some fp"
  shows "\<exists>r st'. Svc_Compare s canceled req st = Some (r, st') \<and>
     db (world st') = db (world st) \<and> (safe st \<longrightarrow> safe st') \<and>
     (\<forall>results. r = Inr results \<longrightarrow> matches_ok fp (cmp_MinScore req) (cmp_Ids req) st results)"
  using assms compareFingerprints_ok [of canceled fp "cmp_Ids req" "cmp_MinScore req" st]
  by (simp add: Svc_Compare_def)

lemma search_limit_pos: "0 < search_limit req"
  by (simp add: search_limit_def DefaultSearchLimit_def)

lemma Svc_Search_eq:
  assumes "srch_Fingerprint req = Some fp" "Hashes fp \<noteq> []"
    and "index_Search (svc_index s) fp (search_limit req) (world st) = Some (r, w)"
  shows "Svc_Search s canceled req st = (let st = st\<lparr> world := w \<rparr> in
    case r of
      Inl err \<Rightarrow> if index_timeout (svc_index s) err
        then Some (Inl (Status Code_DeadlineExceeded ''timeout while searching index''), st)
        else Some (Inl (Status Internal ''failed to search index''), st)
    | Inr ids \<Rightarrow> if length ids = 0 then Some (Inr [], st)
        else Option.bind (compareFingerprints s canceled fp ids (srch_MinScore req) st) (\<lambda>(r, st).
          case r of Inl err \<Rightarrow> Some (Inl err, st)
          | Inr results \<Rightarrow> Some (Inr (if int (length results) > search_limit req
              then take (nat (search_limit req)) results else results), st)))"
  using assms by (simp add: Svc_Search_def Let_def FastModeFactor_def split: sum.split)

lemma matches_ok_mono:
  assumes "matches_ok query minScore ids (st\<lparr> world := w \<rparr>) results" "db w = db (world st)" "cached w \<subseteq>\<^sub>m cached (world st)"
  shows "matches_ok query minScore ids st results"
proof -
  have "cached (world st) j = Some x" if "cached w j = Some x" for j x
    using assms(3) that by (metis domI map_le_def)
  with assms(1,2) show ?thesis by (fastforce simp: matches_ok_def)
qed

lemma Svc_Search_ok:
  assumes "srch_Fingerprint req = Some fp"
  shows "\<exists>r st'. Svc_Search s canceled req st = Some (r, st') \<and>
     db (world st') = db (world st) \<and> (safe st \<longrightarrow> safe st') \<and>
     (\<forall>results. r = Inr results \<longrightarrow> int (length results) \<le> search_limit req \<and>
        (\<exists>ids. matches_ok fp (srch_MinScore req) ids st results))"
proof (cases "Hashes fp = []")
  case True
  with assms show ?thesis by (simp add: Svc_Search_def)
next
  case False
  let ?n = "search_limit req"
  obtain r w where i: "index_Search (svc_index s) fp ?n (world st) = Some (r, w)"
    and w: "db w = db (world st)" "cached w \<subseteq>\<^sub>m cached (world st)"
    and ids: "\<And>ids. r = Inr ids \<Longrightarrow> int (length ids) \<le> ?n"
    using index_search [OF search_limit_pos [of req], of fp "world st"] by blast
  let ?st = "st\<lparr> world := w \<rparr>"
  note eq = Svc_Search_eq [OF assms False i, of canceled, unfolded Let_def]
  have safe: "safe st \<longrightarrow> safe ?st" using coherent_mono [OF _ w] by simp
  consider (err) e where "r = Inl e" | (none) "r = Inr []" | (some) cs where "r = Inr cs" "cs \<noteq> []" by (cases r) auto
  then show ?thesis
  proof cases
    case err
    with eq w(1) safe show ?thesis by simp
  next
    case none
    with eq w(1) safe search_limit_pos [of req] show ?thesis by (auto simp: matches_ok_def)
  next
    case some
    obtain r2 st2 where c: "compareFingerprints s canceled fp cs (srch_MinScore req) ?st = Some (r2, st2)"
      and st2: "db (world st2) = db (world ?st)" "safe ?st \<longrightarrow> safe st2"
      and m: "\<And>results. r2 = Inr results \<Longrightarrow> matches_ok fp (srch_MinScore req) cs ?st results"
      using compareFingerprints_ok by blast
    show ?thesis
    proof (cases r2)
      case (Inl e)
      with eq some c st2 w(1) safe show ?thesis by simp
    next
      case (Inr results)
      have "int (length results) \<le> ?n" using m [OF Inr] ids [OF some(1)] by (simp add: matches_ok_def)
      moreover have "Svc_Search s canceled req st = Some (Inr results, st2)" using eq some c Inr calculation by simp
      ultimately show ?thesis using st2 w(1) safe matches_ok_mono [OF m [OF Inr] w] by auto
    qed
  qed
qed

end

section \<open>Histories of requests\<close>

inductive service_step ::
  "('w, 'e, 'f, 'g) FingerprintStoreService \<Rightarrow> 'w svc_state \<Rightarrow> 'w svc_state \<Rightarrow> bool" for s where
  insert_req: "Svc_Insert s fp st = (r, st') \<Longrightarrow> service_step s st st'"
| get_req: "Svc_Get s i st = Some (g, st') \<Longrightarrow> service_step s st st'"
| compare_req: "Svc_Compare s canceled creq st = Some (c, st') \<Longrightarrow> service_step s st st'"
| search_req: "Svc_Search s canceled sreq st = Some (m, st') \<Longrightarrow> service_step s st st'"

inductive service_reachable ::
  "('w, 'e, 'f, 'g) FingerprintStoreService \<Rightarrow> 'w svc_state \<Rightarrow> 'w svc_state \<Rightarrow> bool" for s st0 where
  service_start: "service_reachable s st0 st0"
| service_next: "service_reachable s st0 st \<Longrightarrow> service_step s st st' \<Longrightarrow> service_reachable s st0 st'"

context fingerprint_service begin

lemma step_safe:
  assumes "service_step s st st'" and "safe st"
  shows "safe st' \<and> v1 (db (world st')) = v1 (db (world st)) \<and> v2 (db (world st)) \<subseteq>\<^sub>m v2 (db (world st'))"
  using assms
proof (induction rule: service_step.induct)
  case (insert_req fp st r st')
  with Svc_Insert_ok show ?case by blast
next
  case (get_req i st g st')
  with Svc_Get_ok [of i st] show ?case by auto
next
  case (compare_req canceled creq st c st')
  then obtain fp where "cmp_Fingerprint creq = Some fp" by (auto simp: Svc_Compare_def bind_eq_Some_conv)
  with compare_req Svc_Compare_ok [of creq fp canceled st] show ?case by auto
next
  case (search_req canceled sreq st m st')
  then obtain fp where "srch_Fingerprint sreq = Some fp" by (auto simp: Svc_Search_def bind_eq_Some_conv)
  with search_req Svc_Search_ok [of sreq fp canceled st] show ?case by auto
qed

lemma reachable_safe:
  "service_reachable s st0 st \<Longrightarrow> safe st0 \<Longrightarrow>
   safe st \<and> v1 (db (world st)) = v1 (db (world st0)) \<and> v2 (db (world st0)) \<subseteq>\<^sub>m v2 (db (world st))"
proof (induction rule: service_reachable.induct)
  case (service_next st st')
  with step_safe [of st st'] show ?case by (auto intro: map_le_trans)
qed simp

end

end
