(* ===== verification/FpWorld.thy ===== *)
theory FpWorld
  imports FpService GoIO
begin

text \<open>
  The fingerprint store put together: the service over the Redis cache, the PostgreSQL store and the
  index client of the repository. The properties hold for every Redis client, database and codec
  with the contracts of the theory FpStore; a concrete world, whose calls fail as a script says,
  has them.
\<close>

section \<open>The service put together\<close>

text \<open>
  \<open>FingerprintIndexClient\<close> in a world: \<open>borrow\<close> and \<open>give_back\<close> are what the pool does to it.
\<close>

definition FingerprintIndexClient ::
  "sort_alg \<Rightarrow> server \<Rightarrow> Context \<Rightarrow> ('w \<Rightarrow> (client_error + IndexClient) \<times> 'w) \<Rightarrow> (IndexClient option \<Rightarrow> 'w \<Rightarrow> 'w) \<Rightarrow>
   (client_error \<Rightarrow> bool) \<Rightarrow> (client_error, 'w) FingerprintIndex" where
  "FingerprintIndexClient S srv ctx borrow give_back timeout =
     \<lparr> index_Search = (\<lambda>fp limit w.
         let hashes = ExtractLegacyQuery fp in
         if length hashes = 0 then Some (Inr [], w)
         else let (c, w) = borrow w in
           map_option (\<lambda>(r, c). (r, give_back c w)) (Index_Search S srv ctx c fp limit)),
       index_timeout = timeout \<rparr>"

lemma Index_Search_Some:
  assumes S: "sort_contract S" and "0 < limit"
  shows "\<exists>r c. Index_Search S srv ctx borrow fp limit = Some (r, c) \<and>
    (\<forall>ids. r = Inr ids \<longrightarrow> int (length ids) \<le> limit)"
proof (cases "length (ExtractLegacyQuery fp) = 0")
  case True
  then show ?thesis using assms(2) by (simp add: Index_Search_def)
next
  case False
  obtain res c where p: "Pool_Search srv ctx borrow (ExtractLegacyQuery fp) = (res, c)"
    by (cases "Pool_Search srv ctx borrow (ExtractLegacyQuery fp)")
  show ?thesis
  proof (cases res)
    case (Inl e)
    with False p show ?thesis by (simp add: Index_Search_def)
  next
    case (Inr results)
    obtain out where out: "filterIndexSearchResults S results limit = Some out"
      using filter_panics_iff [OF S, of results limit] assms(2) by (cases "filterIndexSearchResults S results limit") auto
    with False p Inr filter_length [OF S assms(2) out] show ?thesis by (simp add: Index_Search_def)
  qed
qed

text \<open>The parts the service is made of, and what they rely on.\<close>

definition cache_view :: "codec \<Rightarrow> ('w \<Rightarrow> string \<Rightarrow> u8 list option) \<Rightarrow> 'w \<Rightarrow> u64 \<Rightarrow> Fingerprint option" where
  "cache_view C raw = (\<lambda>w j. decoded C (raw w (cacheKey j)))"

definition v1_view :: "('d \<Rightarrow> u64 \<Rightarrow> u32 list option) \<Rightarrow> 'd \<Rightarrow> u64 \<Rightarrow> Fingerprint option" where
  "v1_view v1 = (\<lambda>d j. legacy_fp (v1 d j))"

definition v2_view :: "codec \<Rightarrow> ('d \<Rightarrow> u64 \<Rightarrow> u8 list option) \<Rightarrow> 'd \<Rightarrow> u64 \<Rightarrow> Fingerprint option" where
  "v2_view C v2 = (\<lambda>d j. decoded C (v2 d j))"

definition fpstore_setup ::
  "codec \<Rightarrow> 'w redis_client \<Rightarrow> 'w database \<Rightarrow> ('w \<Rightarrow> string \<Rightarrow> u8 list option) \<Rightarrow> ('w \<Rightarrow> 'd) \<Rightarrow>
   ('d \<Rightarrow> u64 \<Rightarrow> u32 list option) \<Rightarrow> ('d \<Rightarrow> u64 \<Rightarrow> u8 list option) \<Rightarrow>
   ('w, client_error, 'f, 'g) FingerprintStoreService \<Rightarrow> bool" where
  "fpstore_setup C R D raw db v1 v2 s \<longleftrightarrow>
     redis_contract C R raw db \<and> postgres_contract C D (cache_view C raw) db v1 v2 \<and>
     svc_cache s = RedisFingerprintCache C R \<and> svc_store s = PostgresFingerprintStore C D \<and>
     (\<forall>m. mset (map_order s m) = mset m) \<and> sort_contract (sort_with s) \<and>
     (\<exists>S srv ctx borrow give_back timeout.
        svc_index s = FingerprintIndexClient S srv ctx borrow give_back timeout \<and> sort_contract S \<and>
        (\<forall>c w. db (give_back c (snd (borrow w))) = db w \<and>
           cache_view C raw (give_back c (snd (borrow w))) \<subseteq>\<^sub>m cache_view C raw w))"

lemma fpstore_service:
  assumes parts_ok: "fpstore_setup C R D raw db v1 v2 s"
  shows "fingerprint_service s (cache_view C raw) db (v1_view v1) (v2_view C v2)"
proof (rule fingerprint_service.intro)
  have parts: "redis_contract C R raw db" "postgres_contract C D (cache_view C raw) db v1 v2"
    "svc_cache s = RedisFingerprintCache C R" "svc_store s = PostgresFingerprintStore C D"
    using parts_ok by (simp_all add: fpstore_setup_def)
  show "fingerprint_cache (svc_cache s) (cache_view C raw) db"
    unfolding parts(3) cache_view_def by (rule redis_contract.provides_cache) (rule parts(1))
  show "fingerprint_store (svc_store s) (cache_view C raw) db (v1_view v1) (v2_view C v2)"
    unfolding parts(4) v1_view_def v2_view_def by (rule postgres_contract.provides_store) (rule parts(2))
  show "fingerprint_service_axioms s (cache_view C raw) db"
  proof
    show "mset (map_order s m) = mset m" for m using parts_ok by (simp add: fpstore_setup_def)
    show "sort_contract (sort_with s)" using parts_ok by (simp add: fpstore_setup_def)
    fix n fp w
    assume n: "(0 :: int) < n"
    obtain S srv ctx borrow give_back timeout where
      i: "svc_index s = FingerprintIndexClient S srv ctx borrow give_back timeout" "sort_contract S" and
      keep: "\<And>c w. db (give_back c (snd (borrow w))) = db w \<and>
         cache_view C raw (give_back c (snd (borrow w))) \<subseteq>\<^sub>m cache_view C raw w"
      using parts_ok unfolding fpstore_setup_def by blast
    obtain r c where "Index_Search S srv ctx (fst (borrow w)) fp n = Some (r, c)"
      "\<forall>ids. r = Inr ids \<longrightarrow> int (length ids) \<le> n"
      using Index_Search_Some [OF i(2) n] by blast
    with i(1) keep [of c w] n
    show "\<exists>r w'. index_Search (svc_index s) fp n w = Some (r, w') \<and> db w' = db w \<and>
        cache_view C raw w' \<subseteq>\<^sub>m cache_view C raw w \<and> (\<forall>ids. r = Inr ids \<longrightarrow> int (length ids) \<le> n)"
      by (simp add: FingerprintIndexClient_def Let_def case_prod_unfold)
  qed
qed

section \<open>A concrete world\<close>

text \<open>
  Redis as a map from keys to bytes, the two tables as lists of rows, the pooled index client, and a
  script that says which calls fail; a failing insert may have happened.
\<close>

record fp_world =
  redis_data :: "(string \<times> u8 list) list"
  v1_rows :: "(u64 \<times> u32 list) list"
  v2_rows :: "(u64 \<times> u8 list) list"
  next_id :: u64
  pooled :: IndexClient
  script :: "bool list"

definition fails :: "fp_world \<Rightarrow> bool \<times> fp_world" where
  "fails w = (case script w of [] \<Rightarrow> (False, w) | b # bs \<Rightarrow> (b, w\<lparr> script := bs \<rparr>))"

definition lost :: go_error where "lost = Sentinel ErrBadConn"

definition world_redis :: "fp_world redis_client" where
  "world_redis = \<lparr>
     redis_MGet = (\<lambda>keys w. let (f, w) = fails w in
       (if f then Inl lost
        else Inr (map (\<lambda>k. case map_of (redis_data w) k of None \<Rightarrow> ReplyNil | Some d \<Rightarrow> ReplyString d) keys), w)),
     redis_Get = (\<lambda>key w. let (f, w) = fails w in (if f then Inl lost else Inr (map_of (redis_data w) key), w)),
     redis_Set = (\<lambda>key d ttl w. let (f, w) = fails w in
       if f then (Some lost, w) else (None, w\<lparr> redis_data := AList.update key d (redis_data w) \<rparr>)),
     redis_Del = (\<lambda>key w. let (f, w) = fails w in
       if f then (Some lost, w) else (None, w\<lparr> redis_data := AList.delete key (redis_data w) \<rparr>)) \<rparr>"

definition legacy_row :: "(u64 \<times> u32 list) list \<Rightarrow> u64 \<Rightarrow> u32 list option" where
  "legacy_row rows i = (case map_of rows i of None \<Rightarrow> None | Some hs \<Rightarrow> if hs = [] then None else Some hs)"

definition insert_row :: "u8 list \<Rightarrow> fp_world \<Rightarrow> fp_world" where
  "insert_row d w = w\<lparr> v2_rows := (next_id w, d) # v2_rows w, next_id := next_id w + 1 \<rparr>"

definition world_db :: "fp_world database" where
  "world_db = \<lparr>
     db_insert_v2 = (\<lambda>d w. let (f, w) = fails w in
       if map_of (v2_rows w) (next_id w) \<noteq> None then (Inl (PqError ''23505''), w)
       else if f then (let (committed, w) = fails w in (Inl lost, if committed then insert_row d w else w))
       else (Inr (next_id w), insert_row d w)),
     db_delete_v2 = (\<lambda>i w. let (f, w) = fails w in
       if f then (Some lost, w) else (None, w\<lparr> v2_rows := filter (\<lambda>(j, _). j \<noteq> i) (v2_rows w) \<rparr>)),
     db_count_v1 = (\<lambda>i w. let (f, w) = fails w in
       (if f then Inl lost else Inr (if map_of (v1_rows w) i = None then 0 else 1), w)),
     db_select_v1 = (\<lambda>i w. let (f, w) = fails w in
       (if f then Inl lost
        else (case legacy_row (v1_rows w) i of
            None \<Rightarrow> Inl (Sentinel ErrNoRows) | Some hs \<Rightarrow> Inr (SrcBytes (array_text hs))), w)),
     db_select_v2 = (\<lambda>i w. let (f, w) = fails w in
       (if f then Inl lost
        else (case map_of (v2_rows w) i of None \<Rightarrow> Inl (Sentinel ErrNoRows) | Some d \<Rightarrow> Inr d), w)),
     ctx_done = (\<lambda>w n. False) \<rparr>"

definition world_codec :: codec where
  "world_codec = \<lparr>
     marshal = (\<lambda>fp. Inr (le_bytes 4 (Version fp) @ le_slice_bytes 4 (Hashes fp))),
     unmarshal = (\<lambda>d. Inr \<lparr> Version = le_word (take 4 d), Hashes = le_slice 4 ((length d - 4) div 4) (drop 4 d) \<rparr>),
     new_writer = None, encode_all = (\<lambda>d. 40 # d), new_reader = None,
     decode_all = (\<lambda>d. case d of [] \<Rightarrow> Inl (OtherError ''zstd'' []) | _ # d \<Rightarrow> Inr d) \<rparr>"

definition world_raw :: "fp_world \<Rightarrow> string \<Rightarrow> u8 list option" where
  "world_raw w = map_of (redis_data w)"

definition world_tables :: "fp_world \<Rightarrow> (u64 \<times> u32 list) list \<times> (u64 \<times> u8 list) list" where
  "world_tables w = (v1_rows w, v2_rows w)"

definition world_index :: "server \<Rightarrow> (client_error, fp_world) FingerprintIndex" where
  "world_index srv = FingerprintIndexClient insertion_sort srv \<lparr> Deadline = None \<rparr>
     (\<lambda>w. (Inr (pooled w), w)) (\<lambda>c w. case c of None \<Rightarrow> w | Some c \<Rightarrow> w\<lparr> pooled := c \<rparr>) (\<lambda>e. e = CtxError)"

definition world_service :: "('f, 'g) floats \<Rightarrow> server \<Rightarrow> (fp_world, client_error, 'f, 'g) FingerprintStoreService" where
  "world_service F srv = \<lparr>
     svc_store = PostgresFingerprintStore world_codec world_db, svc_index = world_index srv,
     svc_cache = RedisFingerprintCache world_codec world_redis, map_order = rev,
     float_ops = F, sort_with = insertion_sort \<rparr>"

lemma fails_fields:
  "fails w = (f, w') \<Longrightarrow> redis_data w' = redis_data w \<and> v1_rows w' = v1_rows w \<and> v2_rows w' = v2_rows w \<and>
     next_id w' = next_id w"
  by (auto simp: fails_def split: list.splits)

lemma world_codec_inverts:
  "new_reader world_codec = None"
  "marshal world_codec fp = Inr d \<Longrightarrow> unmarshal world_codec d = Inr fp"
  "decode_all world_codec (encode_all world_codec d) = Inr d"
  using le_slice_bytes_inverse [where r = "[]" and n = 4 and ws = "Hashes fp"]
  by (auto simp: world_codec_def)

interpretation world_cache: redis_contract world_codec world_redis world_raw world_tables
proof (unfold_locales, goal_cases)
  case (4 keys w r w')
  obtain f u where f: "fails w = (f, u)" by (cases "fails w")
  from 4 f fails_fields [OF f] show ?case
    by (auto simp: world_redis_def world_raw_def world_tables_def split: option.splits if_splits)
next
  case (5 key data ttl w e w' k d)
  obtain f u where f: "fails w = (f, u)" by (cases "fails w")
  from 5 f fails_fields [OF f] show ?case
    by (auto simp: world_redis_def world_raw_def world_tables_def update_conv' split: if_splits)
qed (rule world_codec_inverts; assumption?)+

interpretation world_store: postgres_contract world_codec world_db "cache_view world_codec world_raw" world_tables
  "\<lambda>d. legacy_row (fst d)" "\<lambda>d. map_of (snd d)"
proof (unfold_locales, goal_cases)
  case (4 i w row w')
  obtain f u where f: "fails w = (f, u)" by (cases "fails w")
  have same: "cache_view world_codec world_raw u = cache_view world_codec world_raw w"
    using fails_fields [OF f] by (simp add: cache_view_def world_raw_def)
  from 4 f fails_fields [OF f] same show ?case
    by (auto simp: world_db_def world_tables_def lost_def legacy_row_def split: option.splits if_splits)
next
  case (5 data w res w')
  obtain f u where f: "fails w = (f, u)" by (cases "fails w")
  obtain g v where g: "fails u = (g, v)" by (cases "fails u")
  have same: "cache_view world_codec world_raw (insert_row data u) = cache_view world_codec world_raw w"
    "cache_view world_codec world_raw (insert_row data v) = cache_view world_codec world_raw w"
    "cache_view world_codec world_raw u = cache_view world_codec world_raw w"
    "cache_view world_codec world_raw v = cache_view world_codec world_raw w"
    using fails_fields [OF f] fails_fields [OF g] by (simp_all add: cache_view_def world_raw_def insert_row_def)
  from 5 f g fails_fields [OF f] fails_fields [OF g] same show ?case
    by (auto simp: world_db_def world_tables_def insert_row_def map_le_def dom_def split: if_splits)
qed (rule world_codec_inverts; assumption?)+

lemma world_ok:
  "fpstore_setup world_codec world_redis world_db world_raw world_tables
     (\<lambda>d. legacy_row (fst d)) (\<lambda>d. map_of (snd d)) (world_service F srv)"
proof -
  have "\<exists>S srv' ctx borrow give_back timeout.
      world_index srv = FingerprintIndexClient S srv' ctx borrow give_back timeout \<and> sort_contract S \<and>
      (\<forall>c w. world_tables (give_back c (snd (borrow w))) = world_tables w \<and>
        cache_view world_codec world_raw (give_back c (snd (borrow w))) \<subseteq>\<^sub>m cache_view world_codec world_raw w)"
    unfolding world_index_def
    by (intro exI conjI, rule refl, rule insertion_sort_contract)
      (auto simp: world_tables_def cache_view_def world_raw_def split: option.split)
  then show ?thesis
    by (simp add: fpstore_setup_def world_cache.redis_contract_axioms world_store.postgres_contract_axioms
        world_service_def insertion_sort_contract)
qed

interpretation world_fpstore: fingerprint_service "world_service F srv" "cache_view world_codec world_raw"
  world_tables "v1_view (\<lambda>d. legacy_row (fst d))" "v2_view world_codec (\<lambda>d. map_of (snd d))" for F srv
  by (rule fpstore_service [OF world_ok])

section \<open>Properties\<close>

text \<open>A state to start from: one legacy fingerprint, an empty cache and an index that knows nothing.\<close>

definition start_world :: "bool list \<Rightarrow> fp_world svc_state" where
  "start_world bs = \<lparr> world = \<lparr> redis_data = [], v1_rows = [(7, [1, 2])], v2_rows = [], next_id = 100,
       pooled = NewIndexClient (fresh_conn []), script = bs \<rparr>, CacheHits = [], CacheMisses = [] \<rparr>"

definition silent_server :: server where "silent_server history line = ''OK \<newline>''"

lemma start_coherent: "coherent (cache_view C world_raw) db v1 v2 (world (start_world bs))"
  by (simp add: coherent_def cache_view_def world_raw_def start_world_def decoded_def)

text \<open>An insertion into the start state, whose write to the cache fails or not.\<close>

definition after_insert :: "('f, 'g) floats \<Rightarrow> bool list \<Rightarrow> (status + u64) \<times> fp_world svc_state" where
  "after_insert F bs = Svc_Insert (world_service F silent_server) (Some \<lparr> Version = 1, Hashes = [5] \<rparr>) (start_world bs)"

lemma start_facts_code:
  "fst (after_insert F []) = Inr 100" "fst (after_insert F [False, True]) = Inr 100"
  "legacy_row (fst (world_tables (world (snd (after_insert F [False, True]))))) 7 \<noteq> None"
  "cache_view world_codec world_raw (world (snd (after_insert F [False, True]))) 100 = None"
  "legacy_row (fst (world_tables (world (snd (after_insert F [False, True]))))) 100 = None"
  "v2_view world_codec (\<lambda>d. map_of (snd d)) (world_tables (world (snd (after_insert F [False, True])))) 100 =
     Some \<lparr> Version = 1, Hashes = [5] \<rparr>"
  by code_simp+

lemmas start_facts = start_facts_code [unfolded after_insert_def]

text \<open>
  C3. In every state that requests lead to, whatever calls to Redis, the database and the index have
  failed, every cached fingerprint is the one a table holds under its id; reading an id never
  panics, returns only such a fingerprint, and answers "not found" only for an id that the legacy
  table does not have.
\<close>

theorem fpstore_coherent:
  assumes "fpstore_setup C R D raw db v1 v2 s" and "service_reachable s st0 st"
    and "coherent (cache_view C raw) db (v1_view v1) (v2_view C v2) (world st0)"
  shows "coherent (cache_view C raw) db (v1_view v1) (v2_view C v2) (world st) \<and>
    (\<exists>r st'. Svc_Get s i st = Some (r, st') \<and>
      (\<forall>fp. r = Inr fp \<longrightarrow> v1_view v1 (db (world st)) i = Some fp \<or> v2_view C v2 (db (world st)) i = Some fp) \<and>
      (\<forall>msg. r = Inl (Status NotFound msg) \<longrightarrow> v1 (db (world st)) i = None))"
proof -
  note svc = fpstore_service [OF assms(1)]
  have safe: "coherent (cache_view C raw) db (v1_view v1) (v2_view C v2) (world st)"
    using fingerprint_service.reachable_safe [OF svc assms(2,3)] by blast
  obtain r st' where "Svc_Get s i st = Some (r, st')"
    "\<forall>fp. r = Inr fp \<longrightarrow> cache_view C raw (world st) i = Some fp \<or> v1_view v1 (db (world st)) i = Some fp"
    "\<forall>msg. r = Inl (Status NotFound msg) \<longrightarrow> v1_view v1 (db (world st)) i = None"
    using fingerprint_service.Svc_Get_ok [OF svc, of i st] by blast
  with safe show ?thesis
    by (auto simp: coherent_def v1_view_def legacy_fp_def intro!: exI [of _ r] exI [of _ st'])
qed

theorem fpstore_coherent_witness:
  "\<exists>st. service_reachable (world_service real_floats silent_server) (start_world [False, True]) st \<and>
    (\<exists>r st'. Svc_Get (world_service real_floats silent_server) 7 st = Some (r, st') \<and>
      (\<forall>msg. r \<noteq> Inl (Status NotFound msg)))"
proof -
  let ?s = "world_service real_floats silent_server" and ?st0 = "start_world [False, True]"
  let ?r = "Svc_Insert ?s (Some \<lparr> Version = 1, Hashes = [5] \<rparr>) ?st0"
  have "service_step ?s ?st0 (snd ?r)" by (rule insert_req [of _ _ _ "fst ?r"]) simp
  then have reach: "service_reachable ?s ?st0 (snd ?r)" by (rule service_next [OF service_start])
  have v1: "legacy_row (fst (world_tables (world (snd ?r)))) 7 \<noteq> None" by (rule start_facts)
  obtain r st' where "Svc_Get ?s 7 (snd ?r) = Some (r, st')"
    "\<forall>msg. r = Inl (Status NotFound msg) \<longrightarrow> legacy_row (fst (world_tables (world (snd ?r)))) 7 = None"
    using fpstore_coherent [OF world_ok reach start_coherent, of 7] by metis
  with reach v1 show ?thesis by (intro exI [of _ "snd ?r"]) auto
qed

text \<open>
  C27. An insertion that succeeds stores the fingerprint: in every later state the table holds it
  under the returned id, and reading the id returns nothing else unless the legacy table has the id.
\<close>

theorem fpstore_insert_durable:
  assumes "fpstore_setup C R D raw db v1 v2 s" and "service_reachable s st0 st1"
    and "coherent (cache_view C raw) db (v1_view v1) (v2_view C v2) (world st0)"
    and "Svc_Insert s (Some fp) st1 = (Inr i, st2)" and "service_reachable s st2 st3"
  shows "v2_view C v2 (db (world st3)) i = Some fp \<and>
    (\<forall>fp' st4. Svc_Get s i st3 = Some (Inr fp', st4) \<longrightarrow> fp' = fp \<or> v1_view v1 (db (world st3)) i = Some fp')"
proof -
  note svc = fpstore_service [OF assms(1)]
  have safe1: "coherent (cache_view C raw) db (v1_view v1) (v2_view C v2) (world st1)"
    using fingerprint_service.reachable_safe [OF svc assms(2,3)] by blast
  have st2: "coherent (cache_view C raw) db (v1_view v1) (v2_view C v2) (world st2)"
    "v2_view C v2 (db (world st2)) i = Some fp"
    using fingerprint_service.Svc_Insert_ok [OF svc assms(4) safe1] by auto
  from fingerprint_service.reachable_safe [OF svc assms(5) st2(1)] st2(2)
  have st3: "coherent (cache_view C raw) db (v1_view v1) (v2_view C v2) (world st3)"
    "v2_view C v2 (db (world st3)) i = Some fp"
    by (auto simp: map_le_def dom_def)
  with fingerprint_service.Svc_Get_ok [OF svc, of i st3] show ?thesis
    by (fastforce simp: coherent_def)
qed

theorem fpstore_insert_durable_witness:
  "\<exists>i st. Svc_Insert (world_service real_floats silent_server) (Some \<lparr> Version = 1, Hashes = [5] \<rparr>) (start_world []) = (Inr i, st) \<and>
     v2_view world_codec (\<lambda>d. map_of (snd d)) (world_tables (world st)) i = Some \<lparr> Version = 1, Hashes = [5] \<rparr>"
proof -
  let ?s = "world_service real_floats silent_server" and ?st0 = "start_world []"
  let ?r = "Svc_Insert ?s (Some \<lparr> Version = 1, Hashes = [5] \<rparr>) ?st0"
  have "fst ?r = Inr 100" by (rule start_facts)
  then have r: "?r = (Inr 100, snd ?r)" by (metis prod.collapse)
  from fpstore_insert_durable [OF world_ok service_start start_coherent r service_start] r
  show ?thesis by blast
qed

text \<open>
  C8. A search never panics for a request with a fingerprint and returns at most as many matches as
  the request asks for, or ten; every match is a stored fingerprint that reaches the minimum score
  against the query. (The code's own cut to the limit after comparing is never needed.)
\<close>

theorem fpstore_search:
  assumes "fpstore_setup C R D raw db v1 v2 s" and "service_reachable s st0 st"
    and "coherent (cache_view C raw) db (v1_view v1) (v2_view C v2) (world st0)"
    and "srch_Fingerprint req = Some fp"
  shows "\<exists>r st'. Svc_Search s canceled req st = Some (r, st') \<and>
    (\<forall>results. r = Inr results \<longrightarrow>
      int (length results) \<le> (if sint (Limit req) > 0 then sint (Limit req) else 10) \<and>
      (\<forall>m \<in> set results. \<exists>fp'.
        (v1_view v1 (db (world st)) (mf_Id m) = Some fp' \<or> v2_view C v2 (db (world st)) (mf_Id m) = Some fp') \<and>
        CompareFingerprints (float_ops s) (sort_with s) fp fp' = Some (Inr (mf_Score m)) \<and>
        g_le (float_ops s) (srch_MinScore req) (mf_Score m)))"
proof -
  note svc = fpstore_service [OF assms(1)]
  have safe: "coherent (cache_view C raw) db (v1_view v1) (v2_view C v2) (world st)"
    using fingerprint_service.reachable_safe [OF svc assms(2,3)] by blast
  obtain r st' where r: "Svc_Search s canceled req st = Some (r, st')"
    "\<And>results. r = Inr results \<Longrightarrow> int (length results) \<le> search_limit req \<and>
       (\<exists>ids. fingerprint_service.matches_ok s (cache_view C raw) db (v1_view v1) fp (srch_MinScore req) ids st results)"
    using fingerprint_service.Svc_Search_ok [OF svc assms(4), of canceled st] by blast
  have limit: "search_limit req = (if sint (Limit req) > 0 then sint (Limit req) else 10)"
    by (simp add: search_limit_def DefaultSearchLimit_def)
  show ?thesis
  proof (intro exI conjI allI impI)
    fix results assume res: "r = Inr results"
    show "int (length results) \<le> (if sint (Limit req) > 0 then sint (Limit req) else 10)"
      using r(2) [OF res] limit by simp
    from r(2) [OF res] safe show "\<forall>m \<in> set results. \<exists>fp'.
        (v1_view v1 (db (world st)) (mf_Id m) = Some fp' \<or> v2_view C v2 (db (world st)) (mf_Id m) = Some fp') \<and>
        CompareFingerprints (float_ops s) (sort_with s) fp fp' = Some (Inr (mf_Score m)) \<and>
        g_le (float_ops s) (srch_MinScore req) (mf_Score m)"
      unfolding fingerprint_service.matches_ok_def [OF svc] coherent_def by blast
  qed (rule r(1))
qed

theorem fpstore_search_witness:
  "\<exists>r st'. Svc_Search (world_service real_floats silent_server) (\<lambda>_. False)
       \<lparr> srch_Fingerprint = Some \<lparr> Version = 1, Hashes = [1, 2] \<rparr>, Limit = 3, FastMode = False, srch_MinScore = 0 \<rparr>
       (start_world []) = Some (r, st') \<and>
     (\<forall>results. r = Inr results \<longrightarrow> length results \<le> 3)"
proof -
  have "sint (3 :: u32) = 3" by simp
  with fpstore_search [OF world_ok [of real_floats silent_server] service_start start_coherent,
      of "\<lparr> srch_Fingerprint = Some \<lparr> Version = 1, Hashes = [1, 2] \<rparr>, Limit = 3, FastMode = False, srch_MinScore = 0 \<rparr>"
        "\<lparr> Version = 1, Hashes = [1, 2] \<rparr>" "\<lambda>_. False" "[]"]
  show ?thesis by fastforce
qed

text \<open>
  A fingerprint that was inserted can be read only as long as the cache holds it: the service
  reads the legacy table alone, so for an id that is neither cached nor there it answers with an
  error, although the table it inserts into has the fingerprint.
\<close>

theorem inserted_only_in_cache:
  assumes "fpstore_setup C R D raw db v1 v2 s"
    and "cache_view C raw (world st) i = None" and "v1 (db (world st)) i = None"
    and "v2_view C v2 (db (world st)) i = Some fp"
  shows "\<exists>e st'. Svc_Get s i st = Some (Inl e, st') \<and> v2_view C v2 (db (world st')) i = Some fp"
proof -
  note svc = fpstore_service [OF assms(1)]
  obtain r st' where r: "Svc_Get s i st = Some (r, st')" "db (world st') = db (world st)"
    "\<forall>fp. r = Inr fp \<longrightarrow> cache_view C raw (world st) i = Some fp \<or> v1_view v1 (db (world st)) i = Some fp"
    using fingerprint_service.Svc_Get_ok [OF svc, of i st] by blast
  then have "\<exists>e. r = Inl e" using assms(2,3) by (cases r) (simp_all add: v1_view_def legacy_fp_def)
  with r(1,2) assms(4) show ?thesis by auto
qed

theorem inserted_only_in_cache_witness:
  "\<exists>i st e st'. Svc_Insert (world_service real_floats silent_server) (Some \<lparr> Version = 1, Hashes = [5] \<rparr>) (start_world [False, True]) = (Inr i, st) \<and>
     Svc_Get (world_service real_floats silent_server) i st = Some (Inl e, st') \<and>
     v2_view world_codec (\<lambda>d. map_of (snd d)) (world_tables (world st')) i = Some \<lparr> Version = 1, Hashes = [5] \<rparr>"
proof -
  let ?s = "world_service real_floats silent_server"
  let ?r = "Svc_Insert ?s (Some \<lparr> Version = 1, Hashes = [5] \<rparr>) (start_world [False, True])"
  have "fst ?r = Inr 100" by (rule start_facts)
  then have r: "?r = (Inr 100, snd ?r)" by (metis prod.collapse)
  have c: "cache_view world_codec world_raw (world (snd ?r)) 100 = None" by (rule start_facts)
  have v: "legacy_row (fst (world_tables (world (snd ?r)))) 100 = None" by (rule start_facts)
  have w: "v2_view world_codec (\<lambda>d. map_of (snd d)) (world_tables (world (snd ?r))) 100 = Some \<lparr> Version = 1, Hashes = [5] \<rparr>"
    by (rule start_facts)
  from inserted_only_in_cache [OF world_ok [of real_floats silent_server], of "snd ?r" 100, OF c v w] r show ?thesis by blast
qed

end
