(* ===== verification/Tracing.thy ===== *)
theory Tracing
  imports FpService Base64
begin

text \<open>
  The server around the fingerprint store service (\<open>service.go\<close>): trace ids, which are a random UUID
  in base 32, the adapter that hands the log events of the gRPC library to the logger, and the chain
  of interceptors a request goes through. The generator of UUIDs, metrics and the logger are
  parameters; what the adapter passes to the logger is its result.
\<close>

section \<open>Base 32\<close>

text \<open>
  \<open>base32.StdEncoding\<close> of the Go standard library without padding: blocks of five bytes as eight
  digits, the first byte and the first digit highest; a shorter last block has the digits that
  its bits reach into.
\<close>

definition b32_char :: "nat \<Rightarrow> char" where
  "b32_char d = ''ABCDEFGHIJKLMNOPQRSTUVWXYZ234567'' ! d"

definition b32_digits :: "u8 list \<Rightarrow> nat list" where
  "b32_digits bs = take ((length bs * 8 + 4) div 5)
     (rev (digits 32 8 (radix 256 (rev (map unat bs @ replicate (5 - length bs) 0)))))"

function b32_encode :: "u8 list \<Rightarrow> string" where
  "b32_encode bs = (if bs = [] then [] else map b32_char (b32_digits (take 5 bs)) @ b32_encode (drop 5 bs))"
  by auto
termination by (relation "measure length") auto

declare b32_encode.simps [simp del]

lemma length_b32_digits: "length bs \<le> 5 \<Longrightarrow> length (b32_digits bs) = (length bs * 8 + 4) div 5"
  by (simp add: b32_digits_def)

lemma length_b32_encode: "length (b32_encode bs) = (length bs * 8 + 4) div 5"
proof (induction bs rule: b32_encode.induct)
  case (1 bs)
  show ?case
  proof (cases "length bs \<le> 5")
    case True
    then show ?thesis
      by (subst b32_encode.simps) (auto simp: length_b32_digits b32_encode.simps [of "[]"])
  next
    case False
    then have "(length bs * 8 + 4) div 5 = 8 + (length (drop 5 bs) * 8 + 4) div 5"
      by (simp add: diff_mult_distrib le_div_geq)
    moreover have "length (b32_encode bs) = 8 + length (b32_encode (drop 5 bs))"
      using False by (subst b32_encode.simps) (auto simp: length_b32_digits)
    ultimately show ?thesis using 1 False by (cases bs) auto
  qed
qed

lemma b32_char_inj: "a < 32 \<Longrightarrow> b < 32 \<Longrightarrow> b32_char a = b32_char b \<Longrightarrow> a = b"
proof -
  have "list_all (\<lambda>a. list_all (\<lambda>b. b32_char a = b32_char b \<longrightarrow> a = b) [0..<32]) [0..<32]" by code_simp
  then show "a < 32 \<Longrightarrow> b < 32 \<Longrightarrow> b32_char a = b32_char b \<Longrightarrow> a = b" by (simp add: list_all_iff)
qed

lemma b32_chars_inj:
  "\<forall>d \<in> set xs. d < 32 \<Longrightarrow> \<forall>d \<in> set ys. d < 32 \<Longrightarrow> map b32_char xs = map b32_char ys \<Longrightarrow> xs = ys"
  by (auto intro!: map_inj_on [of b32_char] inj_onI b32_char_inj)

lemma b32_digits_less: "d \<in> set (b32_digits bs) \<Longrightarrow> d < 32"
  unfolding b32_digits_def by (auto dest!: in_set_takeD intro: digits_less [of 32 _ 8, rotated])

lemma top_digits:
  assumes "k \<le> n"
  shows "take k (rev (digits b n v)) = rev (digits b k (v div b ^ (n - k)))"
  using digits_add [of b "n - k" k v] assms by simp

lemma bytes_of_radix:
  assumes "length as = length bs" "radix 256 (map unat as) = radix 256 (map unat (bs :: u8 list))"
  shows "as = bs"
  using bytes_inverse [OF refl, of as] bytes_inverse [OF refl, of bs] assms by metis

lemma radix_unat_less: "radix 256 (map unat (bs :: u8 list)) < 256 ^ length bs"
  using radix_less [of "map unat bs" 256] unat_less_256 by auto

text \<open>Blocks of five bytes, and of one, are determined by their digits.\<close>

lemma b32_digits_5:
  assumes "length as = 5" "length bs = 5" "b32_digits as = b32_digits bs"
  shows "as = bs"
proof -
  let ?v = "\<lambda>bs. radix 256 (map unat (rev bs :: u8 list))"
  have less: "?v xs < 32 ^ 8" if "length xs = 5" for xs
    using radix_unat_less [of "rev xs"] that by simp
  have block: "b32_digits xs = rev (digits 32 8 (?v xs))" if "length xs = 5" for xs
    unfolding b32_digits_def that by (simp add: rev_map del: digits.simps)
  have "digits 32 8 (?v as) = digits 32 8 (?v bs)"
    using assms(3) unfolding block [OF assms(1)] block [OF assms(2)] rev_is_rev_conv .
  then have "?v as mod 32 ^ 8 = ?v bs mod 32 ^ 8"
    using radix_digits [of 32 8 "?v as"] radix_digits [of 32 8 "?v bs"] by metis
  then have "?v as = ?v bs" using less [OF assms(1)] less [OF assms(2)] by (simp only: mod_less)
  then have "rev as = rev bs" by (intro bytes_of_radix) (simp_all only: length_rev assms(1,2))
  then show ?thesis by simp
qed

lemma b32_digits_1:
  assumes "b32_digits [a] = b32_digits [b]"
  shows "a = b"
proof -
  have four: "replicate 4 (0 :: nat) = [0, 0, 0, 0]" by code_simp
  have d: "b32_digits [x] = rev (digits 32 2 (4 * unat x))" for x :: u8
  proof -
    have "radix 256 (rev (map unat [x] @ replicate 4 0)) = 4294967296 * unat x" by (simp add: four)
    then have "b32_digits [x] = take 2 (rev (digits 32 8 (4294967296 * unat x)))"
      by (simp add: b32_digits_def del: digits.simps)
    also have "\<dots> = rev (digits 32 2 (4294967296 * unat x div 32 ^ (8 - 2)))" by (rule top_digits) simp
    also have "4294967296 * unat x div 32 ^ (8 - 2) = 4 * unat x" by simp
    finally show ?thesis .
  qed
  have "4 * unat a mod 32 ^ 2 = 4 * unat b mod 32 ^ 2"
    using assms radix_digits [of 32 2 "4 * unat a"] radix_digits [of 32 2 "4 * unat b"] by (simp add: d)
  then show ?thesis using unat_less_256 [of a] unat_less_256 [of b] by (intro unsigned_word_eqI [where 'a = nat]) simp
qed

section \<open>Trace ids\<close>

text \<open>\<open>uuid\<close> is what \<open>uuid.New\<close> returns: sixteen bytes.\<close>

definition generateTraceId :: "u8 list \<Rightarrow> string" where
  "generateTraceId uuid = b32_encode uuid"

lemma generateTraceId_blocks:
  assumes "length uuid = 16"
  shows "generateTraceId uuid = map b32_char (b32_digits (take 5 uuid) @ b32_digits (take 5 (drop 5 uuid)) @
    b32_digits (take 5 (drop 10 uuid)) @ b32_digits [uuid ! 15])"
proof -
  have ne: "drop n uuid \<noteq> []" if "n < 16" for n using assms that by simp
  have last: "drop 15 uuid = [uuid ! 15]" using assms Cons_nth_drop_Suc [of 15 uuid] by simp
  have "b32_encode (drop 10 uuid) = map b32_char (b32_digits (take 5 (drop 10 uuid)) @ b32_digits [uuid ! 15])"
    using ne [of 10] by (simp add: b32_encode.simps [of "drop 10 uuid"] last b32_encode.simps [of "[uuid ! 15]"] b32_encode.simps [of "[]"])
  moreover have "b32_encode (drop 5 uuid) = map b32_char (b32_digits (take 5 (drop 5 uuid))) @ b32_encode (drop 10 uuid)"
    using ne [of 5] by (simp add: b32_encode.simps [of "drop 5 uuid"])
  ultimately show ?thesis
    using ne [of 0] by (simp add: generateTraceId_def b32_encode.simps [of uuid])
qed

text \<open>Different UUIDs have different trace ids, of 26 characters.\<close>

theorem generateTraceId_unique:
  assumes "length uuid = 16" "length uuid' = 16" "generateTraceId uuid = generateTraceId uuid'"
  shows "uuid = uuid'"
proof -
  have eq: "b32_digits (take 5 uuid) @ b32_digits (take 5 (drop 5 uuid)) @ b32_digits (take 5 (drop 10 uuid)) @ b32_digits [uuid ! 15] =
      b32_digits (take 5 uuid') @ b32_digits (take 5 (drop 5 uuid')) @ b32_digits (take 5 (drop 10 uuid')) @ b32_digits [uuid' ! 15]"
    using assms(3) unfolding generateTraceId_blocks [OF assms(1)] generateTraceId_blocks [OF assms(2)]
    by (rule b32_chars_inj [rotated 2]) (use b32_digits_less in auto)
  have len': "length (b32_digits (take 5 uuid)) = length (b32_digits (take 5 uuid'))"
    "length (b32_digits (take 5 (drop 5 uuid))) = length (b32_digits (take 5 (drop 5 uuid')))"
    "length (b32_digits (take 5 (drop 10 uuid))) = length (b32_digits (take 5 (drop 10 uuid')))"
    using assms(1,2) by (simp_all add: length_b32_digits)
  have "b32_digits (take 5 uuid) = b32_digits (take 5 uuid') \<and> b32_digits (take 5 (drop 5 uuid)) = b32_digits (take 5 (drop 5 uuid')) \<and>
    b32_digits (take 5 (drop 10 uuid)) = b32_digits (take 5 (drop 10 uuid')) \<and> b32_digits [uuid ! 15] = b32_digits [uuid' ! 15]"
    using eq len' by (simp only: append_eq_append_conv simp_thms)
  then have parts: "take 5 uuid = take 5 uuid'" "take 5 (drop 5 uuid) = take 5 (drop 5 uuid')"
    "take 5 (drop 10 uuid) = take 5 (drop 10 uuid')" "uuid ! 15 = uuid' ! 15"
    using assms(1,2) b32_digits_5 [of "take 5 uuid" "take 5 uuid'"] b32_digits_5 [of "take 5 (drop 5 uuid)" "take 5 (drop 5 uuid')"]
      b32_digits_5 [of "take 5 (drop 10 uuid)" "take 5 (drop 10 uuid')"] b32_digits_1 [of "uuid ! 15" "uuid' ! 15"]
    by (simp_all add: min_def)
  have "x = take 5 x @ take 5 (drop 5 x) @ take 5 (drop 10 x) @ [x ! 15]" if "length x = 16" for x :: "u8 list"
  proof -
    have "drop 15 x = [x ! 15]" using that Cons_nth_drop_Suc [of 15 x] by simp
    moreover have "drop n x = take 5 (drop n x) @ drop (5 + n) x" for n
      using append_take_drop_id [of 5 "drop n x"] by (simp only: drop_drop)
    from this [of 0] this [of 5] this [of 10]
    have "x = take 5 x @ take 5 (drop 5 x) @ take 5 (drop 10 x) @ drop 15 x" by simp
    ultimately show ?thesis by simp
  qed
  from this [OF assms(1)] this [OF assms(2)] parts show ?thesis by metis
qed

theorem generateTraceId_unique_witness:
  "generateTraceId (replicate 16 1) \<noteq> generateTraceId (replicate 15 1 @ [2])"
  using generateTraceId_unique [of "replicate 16 1" "replicate 15 1 @ [2]"] by (auto simp: eval_nat_numeral)

text \<open>
  A handler always runs with a trace id: the one of the request, if it has one that is not empty, or
  a new one.
\<close>

theorem request_traced:
  assumes "length uuid = 16"
  shows "\<exists>t. t \<noteq> [] \<and> (t = generateTraceId uuid \<or> (\<exists>ts. traceIds = Some (t # ts))) \<and>
    setupUnaryRequest traceIds (generateTraceId uuid) ctx (\<lambda>ctx req. handler (getTraceId ctx) req) req = handler t req"
proof -
  have "generateTraceId uuid \<noteq> []"
    using assms length_b32_encode [of uuid] by (auto simp: generateTraceId_def)
  then show ?thesis
    by (auto simp: setupUnaryRequest_def getTraceId_def setTraceId_def split: option.splits list.splits)
qed

theorem request_traced_witness:
  "\<exists>t. t \<noteq> [] \<and> setupUnaryRequest (Some [[]]) (generateTraceId (replicate 16 7)) \<lparr> ctx_value = None :: (string + unit) option \<rparr>
    (\<lambda>ctx req. (getTraceId ctx, req)) () = (t, ())"
  using request_traced [of "replicate 16 7" "Some [[]]" _ Pair] by (auto simp: setupUnaryRequest_def getTraceId_def setTraceId_def)

section \<open>The log adapter\<close>

text \<open>
  The levels of the logging library, and its fields: names and contents in turn, of any type. The
  adapter writes underscores for the dots of the names; a name that is no string stays as it is. The
  result is the level, the fields and the message that the logger gets, \<open>None\<close> for the panic on any
  other level.
\<close>

datatype log_level = LevelDebug | LevelInfo | LevelWarn | LevelError | LevelOther int

datatype 'v log_any = AnyString string | AnyOther 'v

definition underscored :: "'v log_any \<Rightarrow> 'v log_any" where
  "underscored f = (case f of AnyString key \<Rightarrow> AnyString (map (\<lambda>c. if c = CHR ''.'' then CHR ''_'' else c) key) | AnyOther v \<Rightarrow> AnyOther v)"

fun log_fields :: "'v log_any list \<Rightarrow> 'v log_any list" where
  "log_fields [] = []"
| "log_fields [key] = [underscored key]"
| "log_fields (key # v # kvs) = underscored key # v # log_fields kvs"

definition grpcInterceptorLogger :: "log_level \<Rightarrow> string \<Rightarrow> 'v log_any list \<Rightarrow> (log_level \<times> 'v log_any list \<times> string) option" where
  "grpcInterceptorLogger lvl msg kvs =
     (let kvs = log_fields kvs in
      case lvl of
        LevelDebug \<Rightarrow> Some (LevelDebug, kvs, msg)
      | LevelInfo \<Rightarrow> Some (LevelInfo, kvs, msg)
      | LevelWarn \<Rightarrow> Some (LevelWarn, kvs, msg)
      | LevelError \<Rightarrow> Some (LevelError, kvs, msg)
      | LevelOther _ \<Rightarrow> None)"

lemma length_log_fields [simp]: "length (log_fields kvs) = length kvs"
  by (induction kvs rule: log_fields.induct) simp_all

lemma log_fields_nth:
  "i < length kvs \<Longrightarrow> log_fields kvs ! i = (if even i then underscored (kvs ! i) else kvs ! i)"
proof (induction kvs arbitrary: i rule: log_fields.induct)
  case (3 key v kvs)
  then show ?case by (cases i rule: parity_cases; cases i; cases "i - 1") auto
qed auto

section \<open>The interceptors of the server\<close>

text \<open>
  A call of \<open>RunFingerprintStoreServer\<close>'s server: the interceptors in the order of the chain, the
  first one outermost. \<open>metrics\<close> and \<open>logging\<close> are the ones of the libraries.
\<close>

definition store_server_call ::
  "(((string + 'v) Ctx \<Rightarrow> 'req \<Rightarrow> 'res) \<Rightarrow> (string + 'v) Ctx \<Rightarrow> 'req \<Rightarrow> 'res) \<Rightarrow>
   (((string + 'v) Ctx \<Rightarrow> 'req \<Rightarrow> 'res) \<Rightarrow> (string + 'v) Ctx \<Rightarrow> 'req \<Rightarrow> 'res) \<Rightarrow>
   string list option \<Rightarrow> u8 list \<Rightarrow> ((string + 'v) Ctx \<Rightarrow> 'req \<Rightarrow> 'res) \<Rightarrow> (string + 'v) Ctx \<Rightarrow> 'req \<Rightarrow> 'res" where
  "store_server_call metrics logging traceIds uuid handler ctx req =
     setupUnaryRequest traceIds (generateTraceId uuid) ctx (metrics (logging handler)) req"

end
