(* ===== verification/GoUrl.thy ===== *)
theory GoUrl
  imports GoStrings
begin

text \<open>
  The parts of the Go package \<open>net/url\<close> the modelled code uses: the escaping of the parts of an
  URL, the reading of an escaped part and of a query. A Go string is the list of its bytes.
\<close>

section \<open>Escaping\<close>

datatype url_part = encodePath | encodeHost | encodeUserPassword | encodeQueryComponent

definition alnum :: "char \<Rightarrow> bool" where
  "alnum c = (let n = of_char c :: nat in (97 \<le> n \<and> n \<le> 122) \<or> (65 \<le> n \<and> n \<le> 90) \<or> (48 \<le> n \<and> n \<le> 57))"

definition shouldEscape :: "char \<Rightarrow> url_part \<Rightarrow> bool" where
  "shouldEscape c mode =
     (if alnum c then False
      else if mode = encodeHost \<and> c \<in> set (''!$&'' @ [CHR 0x27] @ ''()*+,;=:[]<>'' @ [CHR 0x22]) then False
      else if c \<in> set ''-_.~'' then False
      else if c \<in> set ''$&+,/:;=?@'' then
        (case mode of
           encodePath \<Rightarrow> c = CHR ''?''
         | encodeUserPassword \<Rightarrow> c \<in> set ''@/?:''
         | encodeQueryComponent \<Rightarrow> True
         | encodeHost \<Rightarrow> True)
      else True)"

definition upperhex :: "nat \<Rightarrow> char" where
  "upperhex d = char_of (if d < 10 then 48 + d else 55 + d)"

definition unhex :: "char \<Rightarrow> nat option" where
  "unhex c =
     (let n = of_char c :: nat in
      if 48 \<le> n \<and> n \<le> 57 then Some (n - 48)
      else if 97 \<le> n \<and> n \<le> 102 then Some (n - 87)
      else if 65 \<le> n \<and> n \<le> 70 then Some (n - 55)
      else None)"

definition escape_byte :: "url_part \<Rightarrow> char \<Rightarrow> string" where
  "escape_byte mode c =
     (if shouldEscape c mode then
        if c = CHR '' '' \<and> mode = encodeQueryComponent then ''+''
        else [CHR ''%'', upperhex (of_char c div 16), upperhex (of_char c mod 16)]
      else [c])"

definition escape :: "url_part \<Rightarrow> string \<Rightarrow> string" where
  "escape mode s = concat (map (escape_byte mode) s)"

text \<open>\<open>None\<close> is an error.\<close>

fun unescape :: "url_part \<Rightarrow> string \<Rightarrow> string option" where
  "unescape mode [] = Some []"
| "unescape mode (c # s) =
     (if c = CHR ''%'' then
        (case s of
           a # b # t \<Rightarrow>
             (case (unhex a, unhex b) of
                (Some x, Some y) \<Rightarrow>
                  if mode = encodeHost \<and> x < 8 \<and> \<not> (x = 2 \<and> y = 5) then None
                  else map_option (Cons (char_of (16 * x + y))) (unescape mode t)
              | _ \<Rightarrow> None)
         | _ \<Rightarrow> None)
      else if mode = encodeHost \<and> (of_char c :: nat) < 128 \<and> shouldEscape c mode then None
      else map_option (Cons (if c = CHR ''+'' \<and> mode = encodeQueryComponent then CHR '' '' else c)) (unescape mode s))"

section \<open>Cutting\<close>

text \<open>\<open>strings.Cut\<close> at the first occurrence of a byte, and the cut at the last one\<close>

definition Cut :: "char \<Rightarrow> string \<Rightarrow> string \<times> string \<times> bool" where
  "Cut c s = (takeWhile (\<lambda>x. x \<noteq> c) s, drop 1 (dropWhile (\<lambda>x. x \<noteq> c) s), c \<in> set s)"

definition cut_last :: "char \<Rightarrow> string \<Rightarrow> string \<times> string \<times> bool" where
  "cut_last c s =
     (let (b, a, found) = Cut c (rev s) in if found then (rev a, rev b, True) else ([], s, False))"

section \<open>Hosts and ports\<close>

text \<open>\<open>net.JoinHostPort\<close> and \<open>net.SplitHostPort\<close>; \<open>None\<close> is an error.\<close>

definition JoinHostPort :: "string \<Rightarrow> string \<Rightarrow> string" where
  "JoinHostPort host port =
     (if CHR '':'' \<in> set host then ''['' @ host @ '']:'' @ port else host @ '':'' @ port)"

definition SplitHostPort :: "string \<Rightarrow> (string \<times> string) option" where
  "SplitHostPort s =
     (let (before, port, colon) = cut_last (CHR '':'') s in
      if \<not> colon then None
      else if hd s = CHR ''['' then
        let (host, rest, close) = Cut (CHR '']'') s in
        if \<not> close \<or> rest \<noteq> CHR '':'' # port then None
        else if CHR ''['' \<in> set (tl s) \<or> CHR '']'' \<in> set rest then None
        else Some (tl host, port)
      else if CHR '':'' \<in> set before \<or> CHR ''['' \<in> set s \<or> CHR '']'' \<in> set s then None
      else Some (before, port))"

section \<open>Queries\<close>

text \<open>
  \<open>url.ParseQuery\<close>, the pairs in their order. Its error is not used: a pair that cannot be read is
  left out.
\<close>

definition parse_pair :: "string \<Rightarrow> (string \<times> string) option" where
  "parse_pair s =
     (if CHR '';'' \<in> set s \<or> s = [] then None
      else let (key, val, _) = Cut (CHR ''='') s in
        case unescape encodeQueryComponent key of
          None \<Rightarrow> None
        | Some key \<Rightarrow> map_option (Pair key) (unescape encodeQueryComponent val))"

definition ParseQuery :: "string \<Rightarrow> (string \<times> string) list" where
  "ParseQuery query = List.map_filter parse_pair (split_on (CHR ''&'') query)"

text \<open>\<open>Values.Encode\<close> on pairs in the order of their keys.\<close>

definition encode_pair :: "string \<times> string \<Rightarrow> string" where
  "encode_pair kv = escape encodeQueryComponent (fst kv) @ ''='' @ escape encodeQueryComponent (snd kv)"

definition EncodeValues :: "(string \<times> string) list \<Rightarrow> string" where
  "EncodeValues kvs = join_with (CHR ''&'') (map encode_pair kvs)"

section \<open>Reading what was escaped\<close>

lemma unhex_upperhex [simp]: "d < 16 \<Longrightarrow> unhex (upperhex d) = Some d"
  by (simp add: unhex_def upperhex_def Let_def)

lemma escape_Nil [simp]: "escape mode [] = []"
  and escape_Cons [simp]: "escape mode (c # s) = escape_byte mode c @ escape mode s"
  and escape_append [simp]: "escape mode (s @ t) = escape mode s @ escape mode t"
  by (simp_all add: escape_def)

lemma hex_byte [simp]: "char_of (16 * (of_char c div 16) + of_char c mod 16 :: nat) = (c :: char)"
  by simp

lemma special_escaped [simp]:
  "shouldEscape (CHR ''%'') mode" "shouldEscape (CHR '' '') mode" "shouldEscape (CHR ''+'') encodeQueryComponent"
  by (simp_all add: shouldEscape_def alnum_def)

text \<open>A host is read back only if nothing in it had to be escaped, apart from bytes beyond ASCII.\<close>

definition host_byte :: "char \<Rightarrow> bool" where
  "host_byte c = (\<not> shouldEscape c encodeHost \<or> 128 \<le> (of_char c :: nat))"

lemma unescape_escape_byte:
  "mode = encodeHost \<longrightarrow> host_byte c \<Longrightarrow>
   unescape mode (escape_byte mode c @ s) = map_option (Cons c) (unescape mode s)"
proof (cases "shouldEscape c mode")
  case True
  assume h: "mode = encodeHost \<longrightarrow> host_byte c"
  have "8 \<le> of_char c div (16 :: nat)" if "mode = encodeHost"
  proof -
    have "128 \<le> (of_char c :: nat)" using that h True by (simp add: host_byte_def)
    then show ?thesis by (simp add: less_eq_div_iff_mult_less_eq)
  qed
  moreover have "of_char c div (16 :: nat) < 16" "of_char c mod (16 :: nat) < 16"
    by (simp_all add: less_mult_imp_div_less)
  ultimately show ?thesis using True by (auto simp: escape_byte_def not_less [symmetric])
next
  case False
  then have "c \<noteq> CHR ''%''" "\<not> (c = CHR ''+'' \<and> mode = encodeQueryComponent)" by auto
  with False show ?thesis by (cases mode) (auto simp: escape_byte_def)
qed

lemma unescape_escape_append:
  "mode = encodeHost \<longrightarrow> (\<forall>c \<in> set s. host_byte c) \<Longrightarrow>
   unescape mode (escape mode s @ t) = map_option ((@) s) (unescape mode t)"
  by (induction s)
    (auto simp: unescape_escape_byte option.map_comp append_Nil [abs_def] option.map_ident o_def intro!: option.map_cong)

lemma unescape_escape:
  assumes "mode = encodeHost \<longrightarrow> (\<forall>c \<in> set s. host_byte c)"
  shows "unescape mode (escape mode s) = Some s"
  using unescape_escape_append [OF assms, of "[]"] by simp

text \<open>What no escaped part contains.\<close>

definition hexdigit :: "char \<Rightarrow> bool" where
  "hexdigit c = (let n = of_char c :: nat in (48 \<le> n \<and> n \<le> 57) \<or> (65 \<le> n \<and> n \<le> 70))"

lemma upperhex_hexdigit: "d < 16 \<Longrightarrow> hexdigit (upperhex d)"
  by (simp add: hexdigit_def upperhex_def Let_def)

lemma escape_chars:
  "x \<in> set (escape mode s) \<Longrightarrow> \<not> shouldEscape x mode \<or> x = CHR ''%'' \<or> hexdigit x \<or> (x = CHR ''+'' \<and> mode = encodeQueryComponent)"
proof -
  assume "x \<in> set (escape mode s)"
  then obtain c where c: "c \<in> set s" "x \<in> set (escape_byte mode c)" by (auto simp: escape_def)
  have "of_char c div (16 :: nat) < 16" "of_char c mod (16 :: nat) < 16"
    by (simp_all add: less_mult_imp_div_less)
  then have "hexdigit (upperhex (of_char c div 16))" "hexdigit (upperhex (of_char c mod 16))"
    by (simp_all only: upperhex_hexdigit)
  with c(2) show ?thesis by (auto simp: escape_byte_def split: if_splits)
qed

lemma not_in_escape:
  "shouldEscape x mode \<Longrightarrow> x \<noteq> CHR ''%'' \<Longrightarrow> \<not> hexdigit x \<Longrightarrow> x \<noteq> CHR ''+'' \<Longrightarrow> x \<notin> set (escape mode s)"
  using escape_chars by blast

lemma escape_avoids [simp]:
  "CHR ''&'' \<notin> set (escape encodeQueryComponent s)" "CHR ''='' \<notin> set (escape encodeQueryComponent s)"
  "CHR '';'' \<notin> set (escape encodeQueryComponent s)" "CHR ''#'' \<notin> set (escape mode s)"
  "CHR ''@'' \<notin> set (escape encodeUserPassword s)" "CHR ''/'' \<notin> set (escape encodeUserPassword s)"
  "CHR '':'' \<notin> set (escape encodeUserPassword s)" "CHR ''?'' \<notin> set (escape encodeUserPassword s)"
  "CHR ''?'' \<notin> set (escape encodePath s)"
  by (simp_all add: not_in_escape shouldEscape_def alnum_def hexdigit_def)

lemma Cut_append [simp]: "c \<notin> set s \<Longrightarrow> Cut c (s @ c # t) = (s, t, True)"
  by (subst Cut_def, subst dropWhile_append2) (auto simp: takeWhile_tail)

lemma Cut_none [simp]: "c \<notin> set s \<Longrightarrow> Cut c s = (s, [], False)"
  by (metis (mono_tags, lifting) Cut_def drop_Nil dropWhile_eq_Nil_conv takeWhile_eq_all_conv)

lemma cut_last_append [simp]: "c \<notin> set t \<Longrightarrow> cut_last c (s @ c # t) = (s, t, True)"
  using Cut_append [of c "rev t" "rev s"] by (simp add: cut_last_def)

lemma SplitHostPort_Join:
  assumes "set host \<inter> set ''[]'' = {}" "set port \<inter> set '':[]'' = {}"
  shows "SplitHostPort (JoinHostPort host port) = Some (host, port)"
proof (cases "CHR '':'' \<in> set host")
  case True
  have "JoinHostPort host port = (CHR ''['' # host @ '']'') @ CHR '':'' # port"
    using True by (simp add: JoinHostPort_def)
  moreover have "Cut (CHR '']'') ((CHR ''['' # host) @ CHR '']'' # CHR '':'' # port) = (CHR ''['' # host, CHR '':'' # port, True)"
    using assms by (intro Cut_append) auto
  moreover have "cut_last (CHR '':'') ((CHR ''['' # host @ '']'') @ CHR '':'' # port) = (CHR ''['' # host @ '']'', port, True)"
    using assms by (intro cut_last_append) auto
  ultimately show ?thesis using assms by (auto simp: SplitHostPort_def)
next
  case False
  then have "JoinHostPort host port = host @ CHR '':'' # port" by (simp add: JoinHostPort_def)
  moreover have "hd (host @ CHR '':'' # port) \<noteq> CHR ''[''" using assms by (cases host) auto
  ultimately show ?thesis using assms False by (auto simp: SplitHostPort_def)
qed

text \<open>Any pairs come back, empty keys and values and all bytes included.\<close>

lemma parse_encode_pair: "parse_pair (encode_pair kv) = Some kv"
  by (cases kv) (simp add: parse_pair_def encode_pair_def unescape_escape)

lemma encode_pair_avoids: "CHR ''&'' \<notin> set (encode_pair kv)"
  by (simp add: encode_pair_def)

lemma ParseQuery_Encode: "ParseQuery (EncodeValues kvs) = kvs"
proof (cases "kvs = []")
  case True
  then show ?thesis by (simp add: ParseQuery_def EncodeValues_def parse_pair_def map_filter_simps)
next
  case False
  then have "split_on (CHR ''&'') (EncodeValues kvs) = map encode_pair kvs"
    unfolding EncodeValues_def by (intro split_on_join) (auto simp: encode_pair_avoids)
  moreover have "List.map_filter parse_pair (map encode_pair kvs) = kvs"
    by (induction kvs) (simp_all add: parse_encode_pair map_filter_simps)
  ultimately show ?thesis by (simp add: ParseQuery_def)
qed

end
