(* ===== verification/Config.thy ===== *)
theory Config
  imports GoUrl
begin

text \<open>
  \<open>common/config.go\<close>: the configuration of the database, its reading from the environment and the
  URL it is connected with. The environment is a partial map; \<open>sql.Open\<close> is a parameter. The flags
  of this file are in the theory \<open>Cli\<close>.
\<close>

section \<open>The configuration\<close>

record DatabaseConfig =
  db_Database :: string
  db_Host :: string
  db_Port :: int
  db_User :: string
  db_Password :: string

definition NewDatabaseConfig :: DatabaseConfig where
  "NewDatabaseConfig = \<lparr> db_Database = ''acoustid'', db_Host = ''localhost'', db_Port = 5432,
     db_User = ''acoustid'', db_Password = ''acoustid'' \<rparr>"

definition Getenv :: "(string \<rightharpoonup> string) \<Rightarrow> string \<Rightarrow> string" where
  "Getenv env name = (case env name of None \<Rightarrow> '''' | Some v \<Rightarrow> v)"

definition readEnv :: "(string \<rightharpoonup> string) \<Rightarrow> string \<Rightarrow> DatabaseConfig \<Rightarrow> DatabaseConfig" where
  "readEnv env prefix cfg =
     (let name = Getenv env (prefix @ ''NAME'');
          cfg = (if name \<noteq> '''' then cfg\<lparr> db_Database := name \<rparr> else cfg);
          host = Getenv env (prefix @ ''HOST'');
          cfg = (if host \<noteq> '''' then cfg\<lparr> db_Host := host \<rparr> else cfg);
          portStr = Getenv env (prefix @ ''PORT'');
          cfg = (if portStr \<noteq> '''' then
                   (case parse_int 32 portStr of Inl err \<Rightarrow> cfg | Inr port \<Rightarrow> cfg\<lparr> db_Port := port \<rparr>)
                 else cfg);
          username = Getenv env (prefix @ ''USERNAME'');
          cfg = (if username \<noteq> '''' then cfg\<lparr> db_User := username \<rparr> else cfg);
          password = Getenv env (prefix @ ''PASSWORD'')
      in if password \<noteq> '''' then cfg\<lparr> db_Password := password \<rparr> else cfg)"

definition NewTestDatabaseConfig :: "(string \<rightharpoonup> string) \<Rightarrow> string \<Rightarrow> DatabaseConfig" where
  "NewTestDatabaseConfig env name =
     (let cfg = NewDatabaseConfig; cfg = cfg\<lparr> db_Port := db_Port cfg + 10000, db_Database := name \<rparr>
      in readEnv env ''ACOUSTID_TEST_POSTGRESQL_'' cfg)"

section \<open>The URL\<close>

datatype Userinfo = Username string | UserPassword string string

record URL =
  url_Scheme :: string
  url_User :: "Userinfo option"
  url_Host :: string
  url_Path :: string
  url_RawQuery :: string

definition DatabaseConfig_URL :: "DatabaseConfig \<Rightarrow> URL" where
  "DatabaseConfig_URL cfg = \<lparr>
     url_Scheme = ''postgresql'',
     url_User = Some (if db_Password cfg = '''' then Username (db_User cfg) else UserPassword (db_User cfg) (db_Password cfg)),
     url_Host = JoinHostPort (db_Host cfg) (format_int (db_Port cfg)),
     url_Path = ''/'' @ db_Database cfg,
     url_RawQuery = EncodeValues [(''sslmode'', ''disable'')] \<rparr>"

text \<open>\<open>Userinfo.String\<close> and \<open>URL.String\<close>, without the fields the code does not set\<close>

fun Userinfo_String :: "Userinfo \<Rightarrow> string" where
  "Userinfo_String (Username u) = escape encodeUserPassword u"
| "Userinfo_String (UserPassword u p) = escape encodeUserPassword u @ '':'' @ escape encodeUserPassword p"

definition URL_String :: "URL \<Rightarrow> string" where
  "URL_String u =
     (let scheme = (if url_Scheme u \<noteq> '''' then url_Scheme u @ '':'' else '''');
          authority = (if url_Scheme u \<noteq> '''' \<or> url_Host u \<noteq> '''' \<or> url_User u \<noteq> None then
            (if url_Host u \<noteq> '''' \<or> url_Path u \<noteq> '''' \<or> url_User u \<noteq> None then ''//'' else '''') @
            (case url_User u of None \<Rightarrow> '''' | Some ui \<Rightarrow> Userinfo_String ui @ ''@'') @
            escape encodeHost (url_Host u) else '''');
          path = (if url_Path u = ''*'' then ''*'' else escape encodePath (url_Path u))
      in scheme @ authority @ (if path \<noteq> '''' \<and> hd path \<noteq> CHR ''/'' \<and> url_Host u \<noteq> '''' then ''/'' else '''') @ path @
         (if url_RawQuery u \<noteq> '''' then ''?'' @ url_RawQuery u else ''''))"

definition Connect :: "(string \<Rightarrow> string \<Rightarrow> 'e + 'db) \<Rightarrow> DatabaseConfig \<Rightarrow> 'e + 'db" where
  "Connect sql_Open cfg = sql_Open ''postgres'' (URL_String (DatabaseConfig_URL cfg))"

section \<open>Reading the URL\<close>

text \<open>
  How the driver reads it: the steps of \<open>url.Parse\<close> for an URL of the scheme \<open>postgresql\<close> with an
  authority. Hosts with a zone are left out. \<open>None\<close> is an error.
\<close>

definition ctl_byte :: "char \<Rightarrow> bool" where
  "ctl_byte c = ((of_char c :: nat) < 32 \<or> (of_char c :: nat) = 127)"

definition validUserinfo :: "string \<Rightarrow> bool" where
  "validUserinfo s = (\<forall>c \<in> set s. alnum c \<or> c \<in> set (''-._:~!$&'' @ [CHR 0x27] @ ''()*+,;=%@''))"

definition validOptionalPort :: "string \<Rightarrow> bool" where
  "validOptionalPort port =
     (case port of [] \<Rightarrow> True | c # ds \<Rightarrow> c = CHR '':'' \<and> (\<forall>d \<in> set ds. digit_value d \<noteq> None))"

definition parseHost :: "string \<Rightarrow> string option" where
  "parseHost host =
     (if has_prefix host ''['' then
        let (_, port, close) = cut_last (CHR '']'') host in
        if \<not> close \<or> \<not> validOptionalPort port \<or> CHR ''%'' \<in> set host then None
        else unescape encodeHost host
      else let (_, port, colon) = cut_last (CHR '':'') host in
        if colon \<and> \<not> validOptionalPort (CHR '':'' # port) then None
        else unescape encodeHost host)"

definition parseAuthority :: "string \<Rightarrow> (Userinfo option \<times> string) option" where
  "parseAuthority authority =
     (let (userinfo, host, user) = cut_last (CHR ''@'') authority in
      Option.bind (parseHost host) (\<lambda>host.
        if \<not> user then Some (None, host)
        else if \<not> validUserinfo userinfo then None
        else let (username, password, colon) = Cut (CHR '':'') userinfo in
          Option.bind (unescape encodeUserPassword username) (\<lambda>username.
            if colon then
              map_option (\<lambda>password. (Some (UserPassword username password), host)) (unescape encodeUserPassword password)
            else Some (Some (Username username), host))))"

definition parse_URL :: "string \<Rightarrow> URL option" where
  "parse_URL s =
     (if (\<exists>c \<in> set s. ctl_byte c) \<or> \<not> has_prefix s ''postgresql://'' then None
      else let (rest, _, _) = Cut (CHR ''#'') (drop 13 s);
               (rest, query, _) = Cut (CHR ''?'') rest;
               authority = takeWhile (\<lambda>c. c \<noteq> CHR ''/'') rest;
               path = dropWhile (\<lambda>c. c \<noteq> CHR ''/'') rest
        in Option.bind (parseAuthority authority) (\<lambda>(user, host).
             map_option (\<lambda>path. \<lparr> url_Scheme = ''postgresql'', url_User = user, url_Host = host, url_Path = path,
                url_RawQuery = query \<rparr>) (unescape encodePath path)))"

section \<open>The driver reads what was configured\<close>

text \<open>Hosts that need no escaping but for bytes beyond ASCII; IPv6 addresses without a zone are among them.\<close>

definition plain_host :: "string \<Rightarrow> bool" where
  "plain_host host = ((\<forall>c \<in> set host. host_byte c \<and> c \<notin> set ''[]'') \<and>
     (CHR '':'' \<in> set host \<longrightarrow> (\<forall>c \<in> set host. \<not> shouldEscape c encodeHost)))"

lemma hexdigit_alnum: "hexdigit c \<Longrightarrow> alnum c"
  by (auto simp: hexdigit_def alnum_def Let_def)

lemma ctl_escaped: "ctl_byte c \<Longrightarrow> shouldEscape c mode"
proof -
  assume c: "ctl_byte c"
  then have "\<not> alnum c" by (auto simp: ctl_byte_def alnum_def Let_def)
  moreover have "c \<notin> set (''!$&'' @ [CHR 0x27] @ ''()*+,;=:[]<>'' @ [CHR 0x22])" "c \<notin> set ''-_.~''" "c \<notin> set ''$&+,/:;=?@''"
    using c by (auto simp: ctl_byte_def)
  ultimately show ?thesis unfolding shouldEscape_def by simp
qed

lemma escape_no_ctl: "c \<in> set (escape mode s) \<Longrightarrow> \<not> ctl_byte c"
proof
  assume c: "c \<in> set (escape mode s)" "ctl_byte c"
  then have "\<not> alnum c" "c \<noteq> CHR ''%''" "c \<noteq> CHR ''+''" by (auto simp: ctl_byte_def alnum_def Let_def)
  with escape_chars [OF c(1)] ctl_escaped [OF c(2)] hexdigit_alnum show False by blast
qed

lemma escape_userinfo: "validUserinfo (escape encodeUserPassword s)"
  unfolding validUserinfo_def
proof
  fix c assume c: "c \<in> set (escape encodeUserPassword s)"
  show "alnum c \<or> c \<in> set (''-._:~!$&'' @ [CHR 0x27] @ ''()*+,;=%@'')"
  proof (rule ccontr)
    assume no: "\<not> ?thesis"
    then have "shouldEscape c encodeUserPassword" by (simp add: shouldEscape_def)
    with no escape_chars [OF c] hexdigit_alnum show False by auto
  qed
qed

lemma validUserinfo_append [simp]: "validUserinfo (s @ t) \<longleftrightarrow> validUserinfo s \<and> validUserinfo t"
  unfolding validUserinfo_def by (simp only: set_append ball_Un)

lemma validUserinfo_colon [simp]: "validUserinfo (CHR '':'' # t) = validUserinfo t"
  by (simp add: validUserinfo_def)

lemma escape_unescaped: "\<forall>c \<in> set s. \<not> shouldEscape c mode \<Longrightarrow> escape mode s = s"
  by (induction s) (simp_all add: escape_byte_def)

text \<open>
  A plain host and a port come back from the host part of the URL, with the brackets of an IPv6
  address.
\<close>

lemma port_chars:
  assumes "0 \<le> p" and "c \<in> set (format_int p)"
  shows "digit_value c \<noteq> None" and "c \<noteq> CHR ''%''" and "\<not> shouldEscape c mode" and "c \<notin> set '':[]@/?#''" and "\<not> ctl_byte c"
proof -
  obtain d where "d < 10" "c = digit_char d"
    using assms format_uint_digits by (auto simp: format_int_def)
  then have v: "digit_value c = Some d" and n: "(of_char c :: nat) = 48 + d"
    by simp (use \<open>d < 10\<close> in \<open>simp add: \<open>c = digit_char d\<close> digit_char_def\<close>)
  then have "alnum c" using \<open>d < 10\<close> by (simp add: alnum_def Let_def)
  with v show "digit_value c \<noteq> None" "\<not> shouldEscape c mode" by (simp_all add: shouldEscape_def)
  show "c \<noteq> CHR ''%''" "c \<notin> set '':[]@/?#''" "\<not> ctl_byte c"
    using n \<open>d < 10\<close> by (auto simp: ctl_byte_def)
qed

lemma host_separators [simp]:
  "shouldEscape (CHR ''#'') encodeHost" "shouldEscape (CHR ''?'') encodeHost" "shouldEscape (CHR ''/'') encodeHost"
  "shouldEscape (CHR ''@'') encodeHost" "\<not> shouldEscape (CHR '':'') encodeHost" "\<not> shouldEscape (CHR ''['') encodeHost"
  "\<not> shouldEscape (CHR '']'') encodeHost" "\<not> shouldEscape (CHR ''/'') encodePath"
  by (simp_all add: shouldEscape_def alnum_def)

lemma escape_host_avoids [simp]:
  "CHR ''?'' \<notin> set (escape encodeHost s)" "CHR ''/'' \<notin> set (escape encodeHost s)" "CHR ''@'' \<notin> set (escape encodeHost s)"
  by (simp_all add: not_in_escape hexdigit_def)

lemma plain_host_bytes: "plain_host host \<Longrightarrow> c \<in> set host \<Longrightarrow> host_byte c \<and> c \<noteq> CHR ''['' \<and> c \<noteq> CHR '']''"
  by (simp add: plain_host_def)

lemma escape_host_first:
  assumes "plain_host host"
  shows "hd (escape encodeHost host @ CHR '':'' # t) \<noteq> CHR ''[''"
proof (cases host)
  case (Cons c cs)
  with assms show ?thesis by (auto simp: plain_host_def escape_byte_def)
qed simp

lemma has_prefix_one: "has_prefix s [c] \<longleftrightarrow> s \<noteq> [] \<and> hd s = c"
  by (cases s) auto

lemma parseHost_Join:
  assumes "plain_host host" and "0 \<le> p"
  shows "parseHost (escape encodeHost (JoinHostPort host (format_int p))) = Some (JoinHostPort host (format_int p))"
proof -
  let ?p = "format_int p" and ?hp = "JoinHostPort host (format_int p)"
  have p: "escape encodeHost ?p = ?p" "\<forall>c \<in> set ?p. digit_value c \<noteq> None" "CHR '':'' \<notin> set ?p" "CHR '']'' \<notin> set ?p" "CHR ''%'' \<notin> set ?p"
    using port_chars [OF assms(2)] port_chars(4) [OF assms(2), of "CHR '':''" ] port_chars(4) [OF assms(2), of "CHR '']''"]
    by (auto intro: escape_unescaped)
  then have port: "validOptionalPort (CHR '':'' # ?p)" by (simp add: validOptionalPort_def)
  have "\<forall>c \<in> set ?hp. host_byte c"
    using assms port_chars(3) [OF assms(2)]
    by (auto simp: JoinHostPort_def plain_host_def host_byte_def)
  then have all: "unescape encodeHost (escape encodeHost ?hp) = Some ?hp" by (intro unescape_escape) simp
  show ?thesis
  proof (cases "CHR '':'' \<in> set host")
    case True
    with assms(1) have h0: "\<forall>c \<in> set host. \<not> shouldEscape c encodeHost" by (unfold plain_host_def) blast
    then have h: "escape encodeHost host = host" "CHR '']'' \<notin> set host" "CHR ''%'' \<notin> set host"
      using plain_host_bytes [OF assms(1), of "CHR '']''"] by (auto intro: escape_unescaped)
    have e: "escape encodeHost ?hp = (CHR ''['' # host) @ CHR '']'' # CHR '':'' # ?p"
      using True p h by (simp add: JoinHostPort_def escape_byte_def)
    have "cut_last (CHR '']'') ((CHR ''['' # host) @ CHR '']'' # CHR '':'' # ?p) = (CHR ''['' # host, CHR '':'' # ?p, True)"
      using p by (intro cut_last_append) simp
    then show ?thesis using port h p all unfolding parseHost_def e by (simp add: has_prefix_one)
  next
    case False
    have e: "escape encodeHost ?hp = escape encodeHost host @ CHR '':'' # ?p"
      using False p by (simp add: JoinHostPort_def escape_byte_def)
    have "cut_last (CHR '':'') (escape encodeHost host @ CHR '':'' # ?p) = (escape encodeHost host, ?p, True)"
      using p by (intro cut_last_append) simp
    then show ?thesis using port p all escape_host_first [OF assms(1), of ?p] unfolding parseHost_def e
      by (simp add: has_prefix_one)
  qed
qed

lemma parseAuthority_String:
  assumes "parseHost host = Some h" and "CHR ''@'' \<notin> set host"
  shows "parseAuthority (Userinfo_String ui @ CHR ''@'' # host) = Some (Some ui, h)"
proof -
  have valid: "validUserinfo (Userinfo_String ui)" by (cases ui) (simp_all add: escape_userinfo)
  show ?thesis
    using assms valid unfolding parseAuthority_def cut_last_append [OF assms(2)]
    by (cases ui) (simp_all add: unescape_escape)
qed

lemma Userinfo_avoids [simp]:
  "CHR ''?'' \<notin> set (Userinfo_String ui)" "CHR ''/'' \<notin> set (Userinfo_String ui)" "CHR ''#'' \<notin> set (Userinfo_String ui)"
  by (cases ui; simp)+

lemma Userinfo_no_ctl: "c \<in> set (Userinfo_String ui) \<Longrightarrow> \<not> ctl_byte c"
  by (cases ui) (auto dest: escape_no_ctl simp: ctl_byte_def)

lemma URL_String_parts:
  "URL_String (DatabaseConfig_URL cfg) = ''postgresql://'' @ Userinfo_String (the (url_User (DatabaseConfig_URL cfg))) @ ''@'' @
     escape encodeHost (url_Host (DatabaseConfig_URL cfg)) @ ''/'' @ escape encodePath (db_Database cfg) @
     ''?'' @ url_RawQuery (DatabaseConfig_URL cfg)"
proof -
  have "url_Host (DatabaseConfig_URL cfg) \<noteq> []" "url_RawQuery (DatabaseConfig_URL cfg) \<noteq> []"
    by (simp_all add: DatabaseConfig_URL_def JoinHostPort_def EncodeValues_def encode_pair_def)
  then show ?thesis
    by (simp add: URL_String_def DatabaseConfig_URL_def Let_def escape_byte_def)
qed

lemma drop_scheme: "drop 13 (''postgresql://'' @ s) = s"
  by simp

lemma query_text: "url_RawQuery (DatabaseConfig_URL cfg) = ''sslmode=disable''"
proof -
  have "url_RawQuery (DatabaseConfig_URL cfg) = EncodeValues [(''sslmode'', ''disable'')]" by (simp add: DatabaseConfig_URL_def)
  also have "\<dots> = ''sslmode=disable''" by code_simp
  finally show ?thesis .
qed

lemma parse_URL_parts:
  assumes "\<not> (\<exists>c \<in> set (''postgresql://'' @ auth @ path @ CHR ''?'' # query). ctl_byte c)"
    and "parseAuthority auth = Some (user, host)" and "unescape encodePath path = Some p"
    and "hd path = CHR ''/''" "path \<noteq> []" and "CHR ''/'' \<notin> set auth" and "CHR ''?'' \<notin> set (auth @ path)"
    and "CHR ''#'' \<notin> set (auth @ path @ query)"
  shows "parse_URL (''postgresql://'' @ auth @ path @ CHR ''?'' # query) =
    Some \<lparr> url_Scheme = ''postgresql'', url_User = user, url_Host = host, url_Path = p, url_RawQuery = query \<rparr>"
proof -
  have 1: "Cut (CHR ''#'') (auth @ path @ CHR ''?'' # query) = (auth @ path @ CHR ''?'' # query, [], False)"
    using assms(8) by (intro Cut_none) simp
  have 2: "Cut (CHR ''?'') (auth @ path @ CHR ''?'' # query) = (auth @ path, query, True)"
    using Cut_append [OF assms(7), of query] by simp
  obtain rest where path: "path = CHR ''/'' # rest" using assms(4,5) by (cases path) auto
  have 3: "takeWhile (\<lambda>c. c \<noteq> CHR ''/'') (auth @ path) = auth" "dropWhile (\<lambda>c. c \<noteq> CHR ''/'') (auth @ path) = path"
    using assms(6) unfolding path by (subst takeWhile_append2 dropWhile_append2; auto)+
  have scheme: "has_prefix (''postgresql://'' @ s) ''postgresql://''" for s by simp
  show ?thesis
    using assms(1-3) scheme unfolding parse_URL_def drop_scheme 1 prod.case Let_def 2 3 by (simp only: if_False) simp
qed

lemma parse_URL_String:
  assumes "plain_host (db_Host cfg)" and "0 \<le> db_Port cfg"
  shows "parse_URL (URL_String (DatabaseConfig_URL cfg)) = Some (DatabaseConfig_URL cfg)"
proof -
  let ?u = "DatabaseConfig_URL cfg"
  let ?ui = "the (url_User ?u)" and ?h = "escape encodeHost (url_Host ?u)" and ?d = "escape encodePath (db_Database cfg)"
  let ?q = "''sslmode=disable''"
  have host: "parseHost ?h = Some (url_Host ?u)"
    using parseHost_Join [OF assms] by (simp add: DatabaseConfig_URL_def)
  have s: "URL_String ?u = ''postgresql://'' @ (Userinfo_String ?ui @ CHR ''@'' # ?h) @ CHR ''/'' # ?d @ CHR ''?'' # ?q"
    unfolding URL_String_parts query_text by simp
  have ctl: "\<not> (\<exists>c \<in> set (URL_String ?u). ctl_byte c)"
    unfolding s using Userinfo_no_ctl escape_no_ctl by (simp add: ball_Un) (auto simp: ctl_byte_def)
  let ?auth = "Userinfo_String ?ui @ CHR ''@'' # ?h"
  have "parseAuthority ?auth = Some (Some ?ui, url_Host ?u)"
    by (rule parseAuthority_String [OF host]) simp
  moreover have "unescape encodePath (CHR ''/'' # ?d) = Some (CHR ''/'' # db_Database cfg)"
    using unescape_escape [of encodePath "CHR ''/'' # db_Database cfg"] by (simp add: escape_byte_def)
  ultimately have "parse_URL (''postgresql://'' @ ?auth @ (CHR ''/'' # ?d) @ CHR ''?'' # ?q) = Some \<lparr> url_Scheme = ''postgresql'',
      url_User = Some ?ui, url_Host = url_Host ?u, url_Path = CHR ''/'' # db_Database cfg, url_RawQuery = ?q \<rparr>"
    using ctl [unfolded s] by (intro parse_URL_parts) simp_all
  moreover have "?u = \<lparr> url_Scheme = ''postgresql'', url_User = Some ?ui, url_Host = url_Host ?u,
      url_Path = CHR ''/'' # db_Database cfg, url_RawQuery = ?q \<rparr>"
    unfolding query_text [of cfg, symmetric] by (simp add: DatabaseConfig_URL_def)
  ultimately show ?thesis unfolding s by simp
qed

lemma SplitHostPort_URL:
  assumes "plain_host (db_Host cfg)" and "0 \<le> db_Port cfg"
  shows "SplitHostPort (url_Host (DatabaseConfig_URL cfg)) = Some (db_Host cfg, format_int (db_Port cfg))"
proof -
  have "set (db_Host cfg) \<inter> set ''[]'' = {}"
    using plain_host_bytes [OF assms(1), of "CHR ''[''"] plain_host_bytes [OF assms(1), of "CHR '']''"] by auto
  moreover have "set (format_int (db_Port cfg)) \<inter> set '':[]'' = {}"
    using port_chars(4) [OF assms(2), of "CHR '':''"] port_chars(4) [OF assms(2), of "CHR ''[''"]
      port_chars(4) [OF assms(2), of "CHR '']''"] by auto
  ultimately have "SplitHostPort (JoinHostPort (db_Host cfg) (format_int (db_Port cfg))) = Some (db_Host cfg, format_int (db_Port cfg))"
    by (rule SplitHostPort_Join)
  then show ?thesis by (simp add: DatabaseConfig_URL_def)
qed

text \<open>Configurations that differ have different URLs.\<close>

lemma format_uint_inj: "format_uint n = format_uint m \<Longrightarrow> n = m"
  by (metis Inr_inject max.cobounded1 max.cobounded2 parse_digits_format)

lemma format_int_inj: "0 \<le> i \<Longrightarrow> 0 \<le> j \<Longrightarrow> format_int i = format_int j \<Longrightarrow> i = j"
  by (auto simp: format_int_def dest!: format_uint_inj)

lemma URL_String_inj:
  assumes "plain_host (db_Host cfg)" and "0 \<le> db_Port cfg" and "plain_host (db_Host cfg')" and "0 \<le> db_Port cfg'"
    and "URL_String (DatabaseConfig_URL cfg) = URL_String (DatabaseConfig_URL cfg')"
  shows "cfg = cfg'"
proof -
  have same: "DatabaseConfig_URL cfg = DatabaseConfig_URL cfg'"
    using parse_URL_String [OF assms(1,2)] parse_URL_String [OF assms(3,4)] assms(5) by (metis option.inject)
  then have "(db_Host cfg, format_int (db_Port cfg)) = (db_Host cfg', format_int (db_Port cfg'))"
    using SplitHostPort_URL [OF assms(1,2)] SplitHostPort_URL [OF assms(3,4)] by (metis option.inject)
  then have host: "db_Host cfg = db_Host cfg'" and "format_int (db_Port cfg) = format_int (db_Port cfg')"
    by (simp_all only: prod.inject)
  then have port: "db_Port cfg = db_Port cfg'" using format_int_inj [OF assms(2,4)] by blast
  have "url_Path (DatabaseConfig_URL cfg) = url_Path (DatabaseConfig_URL cfg')" by (rule arg_cong [OF same])
  then have path: "db_Database cfg = db_Database cfg'" by (simp add: DatabaseConfig_URL_def)
  have "url_User (DatabaseConfig_URL cfg) = url_User (DatabaseConfig_URL cfg')" by (rule arg_cong [OF same])
  then have user: "db_User cfg = db_User cfg' \<and> db_Password cfg = db_Password cfg'"
    by (simp add: DatabaseConfig_URL_def split: if_split_asm)
  show ?thesis
    using host path user port by (intro DatabaseConfig.equality) simp_all
qed

text \<open>
  C23. What the driver reads from the URL is what was configured, whatever bytes the user, the password
  and the database are made of: for a host that needs no escaping, IPv6 addresses included, and a
  port that is not negative, parsing the string gives an URL with the user of the configuration and,
  unless it is empty, its password, the path \<open>/\<close> and its database, a host that splits into its host and
  its port in decimal, and the query that turns TLS off; it is the URL that was written.
\<close>

theorem URL_read_back:
  assumes "plain_host (db_Host cfg)" and "0 \<le> db_Port cfg"
  shows "\<exists>u. parse_URL (URL_String (DatabaseConfig_URL cfg)) = Some u \<and> u = DatabaseConfig_URL cfg \<and>
    url_Scheme u = ''postgresql'' \<and>
    url_User u = Some (if db_Password cfg = [] then Username (db_User cfg) else UserPassword (db_User cfg) (db_Password cfg)) \<and>
    SplitHostPort (url_Host u) = Some (db_Host cfg, format_int (db_Port cfg)) \<and>
    url_Path u = ''/'' @ db_Database cfg \<and> url_RawQuery u = ''sslmode=disable''"
proof -
  let ?u = "DatabaseConfig_URL cfg"
  have "url_Scheme ?u = ''postgresql'' \<and> url_Path ?u = ''/'' @ db_Database cfg \<and>
      url_User ?u = Some (if db_Password cfg = [] then Username (db_User cfg) else UserPassword (db_User cfg) (db_Password cfg))"
    by (simp add: DatabaseConfig_URL_def)
  then show ?thesis using parse_URL_String [OF assms] SplitHostPort_URL [OF assms] query_text by blast
qed

theorem URL_read_back_witness:
  "map_option url_User (parse_URL (URL_String (DatabaseConfig_URL (NewDatabaseConfig\<lparr> db_Host := ''::1'', db_Password := ''p@ss/w:rd?'' \<rparr>)))) =
     Some (Some (UserPassword ''acoustid'' ''p@ss/w:rd?''))"
proof -
  let ?cfg = "NewDatabaseConfig\<lparr> db_Host := ''::1'', db_Password := ''p@ss/w:rd?'' \<rparr>"
  have "plain_host (db_Host ?cfg)" by code_simp
  moreover have "0 \<le> db_Port ?cfg" by (simp add: NewDatabaseConfig_def)
  ultimately obtain u where "parse_URL (URL_String (DatabaseConfig_URL ?cfg)) = Some u"
    "url_User u = Some (if db_Password ?cfg = [] then Username (db_User ?cfg) else UserPassword (db_User ?cfg) (db_Password ?cfg))"
    using URL_read_back by blast
  then show ?thesis by (simp add: NewDatabaseConfig_def)
qed

section \<open>The environment\<close>

text \<open>
  Each variable of the environment sets its own field and no other, an empty one is as good as
  none, and a port that is no 32-bit number is ignored.
\<close>

theorem readEnv_fields:
  "readEnv env prefix cfg = \<lparr>
     db_Database = (case Getenv env (prefix @ ''NAME'') of [] \<Rightarrow> db_Database cfg | c # s \<Rightarrow> c # s),
     db_Host = (case Getenv env (prefix @ ''HOST'') of [] \<Rightarrow> db_Host cfg | c # s \<Rightarrow> c # s),
     db_Port = (case parse_int 32 (Getenv env (prefix @ ''PORT'')) of Inl _ \<Rightarrow> db_Port cfg | Inr port \<Rightarrow> port),
     db_User = (case Getenv env (prefix @ ''USERNAME'') of [] \<Rightarrow> db_User cfg | c # s \<Rightarrow> c # s),
     db_Password = (case Getenv env (prefix @ ''PASSWORD'') of [] \<Rightarrow> db_Password cfg | c # s \<Rightarrow> c # s) \<rparr>"
  by (cases cfg) (auto simp: readEnv_def Let_def parse_int_def split: list.split sum.split)

end
