(* ===== verification/Cli.thy ===== *)
theory Cli
  imports Config Updater
begin

text \<open>
  The command line: the flags of \<open>common/config.go\<close>, \<open>pkg/fpstore/cli.go\<close>, \<open>pkg/fpstore/gateway.go\<close>,
  \<open>pkg/fpindex/cli.go\<close>, \<open>pkg/fpindex/proxy.go\<close>, \<open>pkg/publicdata/cli.go\<close>, \<open>pkg/cli/main.go\<close> and
  \<open>server/cli.go\<close>, the commands with their flags, and what each action makes of a context. The
  package \<open>cli\<close> is a parameter: a context is a record of what it returns for a name, and its contract
  is the locale \<open>cli_values\<close>. Opening a database and a storage client are parameters too. The last
  lemmas show which flags the actions read and which flags have an effect.
\<close>

section \<open>Flags, commands and contexts\<close>

datatype flag_value = FString string | FInt int | FBool bool | FDuration int

record cli_flag =
  flag_Name :: string
  flag_Aliases :: "string list"
  flag_Usage :: string
  flag_Value :: flag_value
  flag_EnvVars :: "string list"

datatype command = Command (cmd_Name: string) (cmd_Usage: string) (cmd_Flags: "cli_flag list") (cmd_Subcommands: "command list")

record cli_context =
  ctx_String :: "string \<Rightarrow> string"
  ctx_Int :: "string \<Rightarrow> int"
  ctx_Bool :: "string \<Rightarrow> bool"
  ctx_Duration :: "string \<Rightarrow> int"
  ctx_IsSet :: "string \<Rightarrow> bool"
  ctx_Count :: "string \<Rightarrow> int"

text \<open>The names of a flag; the package cuts a name at its first comma or space.\<close>

definition flag_names :: "cli_flag \<Rightarrow> string list" where
  "flag_names f = map (takeWhile (\<lambda>c. c \<noteq> CHR '','' \<and> c \<noteq> CHR '' '')) (flag_Name f # flag_Aliases f)"

definition lookup_flag :: "cli_flag list \<Rightarrow> string \<Rightarrow> cli_flag option" where
  "lookup_flag flags n = List.find (\<lambda>f. n \<in> set (flag_names f)) flags"

definition reads :: "cli_context \<Rightarrow> string \<Rightarrow> flag_value \<Rightarrow> bool" where
  "reads c n v =
     (case v of
        FString s \<Rightarrow> ctx_String c n = s
      | FInt i \<Rightarrow> ctx_Int c n = i
      | FBool b \<Rightarrow> ctx_Bool c n = b
      | FDuration d \<Rightarrow> ctx_Duration c n = d)"

text \<open>
  The documented behaviour: a name that no flag has reads as the zero of its type and is not set,
  and a flag that is not set reads as its default. The flags are those of the command and of the
  commands it is under.
\<close>

locale cli_values =
  fixes flags :: "cli_flag list" and c :: cli_context
  assumes undeclared: "lookup_flag flags n = None \<Longrightarrow>
      ctx_String c n = [] \<and> ctx_Int c n = 0 \<and> \<not> ctx_Bool c n \<and> ctx_Duration c n = 0 \<and> \<not> ctx_IsSet c n \<and> ctx_Count c n = 0"
    and unset: "lookup_flag flags n = Some f \<Longrightarrow> \<not> ctx_IsSet c n \<Longrightarrow> reads c n (flag_Value f)"

text \<open>A context that has the values it was given, and defaults otherwise.\<close>

definition context_of :: "cli_flag list \<Rightarrow> (string \<rightharpoonup> flag_value) \<Rightarrow> cli_context" where
  "context_of flags given =
     (let val = (\<lambda>n. case lookup_flag flags n of None \<Rightarrow> None | Some f \<Rightarrow> (case given n of None \<Rightarrow> Some (flag_Value f) | Some v \<Rightarrow> Some v))
      in \<lparr> ctx_String = (\<lambda>n. case val n of Some (FString s) \<Rightarrow> s | _ \<Rightarrow> []),
           ctx_Int = (\<lambda>n. case val n of Some (FInt i) \<Rightarrow> i | _ \<Rightarrow> 0),
           ctx_Bool = (\<lambda>n. case val n of Some (FBool b) \<Rightarrow> b | _ \<Rightarrow> False),
           ctx_Duration = (\<lambda>n. case val n of Some (FDuration d) \<Rightarrow> d | _ \<Rightarrow> 0),
           ctx_IsSet = (\<lambda>n. lookup_flag flags n \<noteq> None \<and> given n \<noteq> None),
           ctx_Count = (\<lambda>n. case val n of Some (FBool True) \<Rightarrow> 1 | _ \<Rightarrow> 0) \<rparr>)"

interpretation given_values: cli_values flags "context_of flags given" for flags given
  by unfold_locales (auto simp: context_of_def reads_def Let_def split: flag_value.split option.splits)


section \<open>\<open>common/config.go\<close>\<close>

record DatabaseCliFlags =
  dbf_Database :: cli_flag
  dbf_Host :: cli_flag
  dbf_Port :: cli_flag
  dbf_User :: cli_flag
  dbf_Password :: cli_flag

definition NewDatabaseCliFlags :: "string \<Rightarrow> string \<Rightarrow> DatabaseCliFlags" where
  "NewDatabaseCliFlags pre envPrefix = \<lparr>
   dbf_Database = \<lparr> flag_Name = pre @ ''database'', flag_Aliases = [], flag_Usage = ''Database name'',
     flag_Value = FString '''', flag_EnvVars = [envPrefix @ ''DATABASE''] \<rparr>,
   dbf_Host = \<lparr> flag_Name = pre @ ''host'', flag_Aliases = [], flag_Usage = ''Database host'',
     flag_Value = FString '''', flag_EnvVars = [envPrefix @ ''HOST''] \<rparr>,
   dbf_Port = \<lparr> flag_Name = pre @ ''port'', flag_Aliases = [], flag_Usage = ''Database port'',
     flag_Value = FInt 0, flag_EnvVars = [envPrefix @ ''PORT''] \<rparr>,
   dbf_User = \<lparr> flag_Name = pre @ ''user'', flag_Aliases = [], flag_Usage = ''Database user'',
     flag_Value = FString '''', flag_EnvVars = [envPrefix @ ''USER''] \<rparr>,
   dbf_Password = \<lparr> flag_Name = pre @ ''password'', flag_Aliases = [], flag_Usage = ''Database password'',
     flag_Value = FString '''', flag_EnvVars = [envPrefix @ ''PASSWORD''] \<rparr> \<rparr>"

definition DatabaseCliFlags_Flags :: "DatabaseCliFlags \<Rightarrow> cli_flag list" where
  "DatabaseCliFlags_Flags f = [dbf_Database f, dbf_Host f, dbf_Port f, dbf_User f, dbf_Password f]"

definition DatabaseCliFlags_Config :: "DatabaseCliFlags \<Rightarrow> cli_context \<Rightarrow> DatabaseConfig" where
  "DatabaseCliFlags_Config f c = NewDatabaseConfig\<lparr>
     db_Database := ctx_String c (flag_Name (dbf_Database f)),
     db_Host := ctx_String c (flag_Name (dbf_Host f)),
     db_Port := ctx_Int c (flag_Name (dbf_Port f)),
     db_User := ctx_String c (flag_Name (dbf_User f)),
     db_Password := ctx_String c (flag_Name (dbf_Password f)) \<rparr>"

definition ConcatFlags :: "cli_flag list list \<Rightarrow> cli_flag list" where
  "ConcatFlags slices = foldl (\<lambda>result slice. result @ slice) [] slices"

text \<open>\<open>errors.WithMessage\<close>\<close>

definition WithMessage :: "string \<Rightarrow> string \<Rightarrow> string" where
  "WithMessage err msg = msg @ '': '' @ err"

section \<open>\<open>pkg/fpstore\<close>\<close>

definition PostgresHost :: cli_flag where
  "PostgresHost = \<lparr> flag_Name = ''postgres-host'', flag_Aliases = [], flag_Usage = ''Postgres server address'',
     flag_Value = FString ''localhost'', flag_EnvVars = [''FPSTORE_POSTGRES_HOST''] \<rparr>"

definition PostgresPort :: cli_flag where
  "PostgresPort = \<lparr> flag_Name = ''postgres-port'', flag_Aliases = [], flag_Usage = ''Postgres server port'',
     flag_Value = FInt 5432, flag_EnvVars = [''FPSTORE_POSTGRES_PORT''] \<rparr>"

definition PostgresUser :: cli_flag where
  "PostgresUser = \<lparr> flag_Name = ''postgres-user'', flag_Aliases = [], flag_Usage = ''Postgres server user'',
     flag_Value = FString ''acoustid'', flag_EnvVars = [''FPSTORE_POSTGRES_USER''] \<rparr>"

definition PostgresPassword :: cli_flag where
  "PostgresPassword = \<lparr> flag_Name = ''postgres-password'', flag_Aliases = [], flag_Usage = ''Postgres server password'',
     flag_Value = FString '''', flag_EnvVars = [''FPSTORE_POSTGRES_PASSWORD''] \<rparr>"

definition PostgresDatabase :: cli_flag where
  "PostgresDatabase = \<lparr> flag_Name = ''postgres-database'', flag_Aliases = [], flag_Usage = ''Postgres server database'',
     flag_Value = FString ''acoustid'', flag_EnvVars = [''FPSTORE_POSTGRES_DATABASE''] \<rparr>"

definition RedisHostFlag :: cli_flag where
  "RedisHostFlag = \<lparr> flag_Name = ''redis-host'', flag_Aliases = [], flag_Usage = ''Redis server address'',
     flag_Value = FString ''localhost'', flag_EnvVars = [''FPSTORE_REDIS_HOST''] \<rparr>"

definition RedisPortFlag :: cli_flag where
  "RedisPortFlag = \<lparr> flag_Name = ''redis-port'', flag_Aliases = [], flag_Usage = ''Redis server port'',
     flag_Value = FInt 6379, flag_EnvVars = [''FPSTORE_REDIS_PORT''] \<rparr>"

definition RedisDatabaseFlag :: cli_flag where
  "RedisDatabaseFlag = \<lparr> flag_Name = ''redis-database'', flag_Aliases = [], flag_Usage = ''Redis server database'',
     flag_Value = FInt 0, flag_EnvVars = [''FPSTORE_REDIS_DATABASE''] \<rparr>"

definition RedisPasswordFlag :: cli_flag where
  "RedisPasswordFlag = \<lparr> flag_Name = ''redis-password'', flag_Aliases = [], flag_Usage = ''Redis server password'',
     flag_Value = FString '''', flag_EnvVars = [''FPSTORE_REDIS_PASSWORD''] \<rparr>"

definition ListenHostFlag :: cli_flag where
  "ListenHostFlag = \<lparr> flag_Name = ''listen-host'', flag_Aliases = [], flag_Usage = ''Listen address'',
     flag_Value = FString ''localhost'', flag_EnvVars = [''FPSTORE_LISTEN_HOST''] \<rparr>"

definition ListenPortFlag :: cli_flag where
  "ListenPortFlag = \<lparr> flag_Name = ''listen-port'', flag_Aliases = [], flag_Usage = ''Listen port'',
     flag_Value = FInt 4659, flag_EnvVars = [''FPSTORE_LISTEN_PORT''] \<rparr>"

definition IndexHostFlag :: cli_flag where
  "IndexHostFlag = \<lparr> flag_Name = ''index-host'', flag_Aliases = [], flag_Usage = ''Index server address'',
     flag_Value = FString ''localhost'', flag_EnvVars = [''FPSTORE_INDEX_HOST''] \<rparr>"

definition IndexPortFlag :: cli_flag where
  "IndexPortFlag = \<lparr> flag_Name = ''index-port'', flag_Aliases = [], flag_Usage = ''Index server port'',
     flag_Value = FInt 6080, flag_EnvVars = [''FPSTORE_INDEX_PORT''] \<rparr>"

definition MetricsListenHost :: cli_flag where
  "MetricsListenHost = \<lparr> flag_Name = ''metrics-listen-host'', flag_Aliases = [], flag_Usage = ''Metrics listen address'',
     flag_Value = FString ''localhost'', flag_EnvVars = [''FPSTORE_METRICS_LISTEN_HOST''] \<rparr>"

definition MetricsListenPort :: cli_flag where
  "MetricsListenPort = \<lparr> flag_Name = ''metrics-listen-port'', flag_Aliases = [], flag_Usage = ''Metrics listen port'',
     flag_Value = FInt 14659, flag_EnvVars = [''FPSTORE_METRICS_LISTEN_PORT''] \<rparr>"

definition GatewayListenHostFlag :: cli_flag where
  "GatewayListenHostFlag = \<lparr> flag_Name = ''listen-host'', flag_Aliases = [], flag_Usage = ''Listen address'',
     flag_Value = FString ''localhost'', flag_EnvVars = [''FPSTORE_GATEWAY_LISTEN_HOST''] \<rparr>"

definition GatewayListenPortFlag :: cli_flag where
  "GatewayListenPortFlag = \<lparr> flag_Name = ''listen-port'', flag_Aliases = [], flag_Usage = ''Listen port'',
     flag_Value = FInt 8080, flag_EnvVars = [''FPSTORE_GATEWAY_LISTEN_PORT''] \<rparr>"

definition GatewayServerHostFlag :: cli_flag where
  "GatewayServerHostFlag = \<lparr> flag_Name = ''server-host'', flag_Aliases = [], flag_Usage = ''gRPC server address'',
     flag_Value = FString ''localhost'', flag_EnvVars = [''FPSTORE_GATEWAY_SERVER_HOST''] \<rparr>"

definition GatewayServerPortFlag :: cli_flag where
  "GatewayServerPortFlag = \<lparr> flag_Name = ''server-port'', flag_Aliases = [], flag_Usage = ''gRPC server port'',
     flag_Value = FInt 4659, flag_EnvVars = [''FPSTORE_GATEWAY_SERVER_PORT''] \<rparr>"

text \<open>The options of the two kinds of Redis client; the addresses of a ring are a map by host.\<close>

datatype redis_options = RedisRing "string \<rightharpoonup> string" int string | RedisClient string int string

definition ConnectToRedis :: "cli_context \<Rightarrow> redis_options" where
  "ConnectToRedis c =
     (let host = ctx_String c (flag_Name RedisHostFlag);
          port = ctx_Int c (flag_Name RedisPortFlag);
          database = ctx_Int c (flag_Name RedisDatabaseFlag);
          password = ctx_String c (flag_Name RedisPasswordFlag)
      in if CHR '','' \<in> set host then
           let hosts = split_on (CHR '','') host;
               addrs = foldl (\<lambda>addrs h. addrs(h \<mapsto> JoinHostPort h (format_int port))) Map.empty hosts
           in RedisRing addrs database password
         else RedisClient (JoinHostPort host (format_int port)) database password)"

definition PrepareFingerprintStore :: "(string \<Rightarrow> string \<Rightarrow> string + 'db) \<Rightarrow> cli_context \<Rightarrow> string + 'db" where
  "PrepareFingerprintStore sql_Open c =
     (let config = \<lparr> db_Database = ctx_String c (flag_Name PostgresDatabase), db_Host = ctx_String c (flag_Name PostgresHost),
                     db_Port = ctx_Int c (flag_Name PostgresPort), db_User = ctx_String c (flag_Name PostgresUser),
                     db_Password = ctx_String c (flag_Name PostgresPassword) \<rparr>
      in case Connect sql_Open config of
           Inl err \<Rightarrow> Inl (WithMessage err ''failed to connect to database'')
         | Inr db \<Rightarrow> Inr db)"

text \<open>The options of the third-party pool of index connections that the code sets.\<close>

record index_pool =
  pool_Config :: IndexConfig
  pool_MaxTotal :: int
  pool_MaxIdle :: int
  pool_TestWhileIdle :: bool
  pool_TestOnBorrow :: bool
  pool_TimeBetweenEvictionRuns :: int

definition NewIndexClientPool :: "IndexConfig \<Rightarrow> int \<Rightarrow> index_pool" where
  "NewIndexClientPool config limit = \<lparr> pool_Config = config, pool_MaxTotal = limit, pool_MaxIdle = limit,
     pool_TestWhileIdle = True, pool_TestOnBorrow = True, pool_TimeBetweenEvictionRuns = 10 * Second \<rparr>"

definition MaxConnections :: int where "MaxConnections = 1000"

definition PrepareFingerprintIndex :: "cli_context \<Rightarrow> index_pool" where
  "PrepareFingerprintIndex c =
     NewIndexClientPool
       (NewIndexConfig\<lparr> Host := ctx_String c (flag_Name IndexHostFlag), Port := ctx_Int c (flag_Name IndexPortFlag) \<rparr>)
       MaxConnections"

text \<open>What the server is run with: the database, the index, the cache, and two addresses to listen on.\<close>

record 'db server_setup =
  setup_Store :: 'db
  setup_Index :: index_pool
  setup_Cache :: redis_options
  setup_Metrics :: string
  setup_Listen :: string

definition PrepareAndRunServer :: "(string \<Rightarrow> string \<Rightarrow> string + 'db) \<Rightarrow> cli_context \<Rightarrow> string + 'db server_setup" where
  "PrepareAndRunServer sql_Open c =
     (case PrepareFingerprintStore sql_Open c of
        Inl err \<Rightarrow> Inl (WithMessage err ''failed to initialize fingerprint store'')
      | Inr fingerprintStore \<Rightarrow> Inr \<lparr>
          setup_Store = fingerprintStore,
          setup_Index = PrepareFingerprintIndex c,
          setup_Cache = ConnectToRedis c,
          setup_Metrics = JoinHostPort (ctx_String c (flag_Name MetricsListenHost)) (format_int (ctx_Int c (flag_Name MetricsListenPort))),
          setup_Listen = JoinHostPort (ctx_String c (flag_Name ListenHostFlag)) (format_int (ctx_Int c (flag_Name ListenPortFlag))) \<rparr>)"

text \<open>The endpoint the gateway dials, and the address it listens on.\<close>

definition RunGateway :: "cli_context \<Rightarrow> string \<times> string" where
  "RunGateway c =
     (''dns:///'' @ JoinHostPort (ctx_String c (flag_Name GatewayServerHostFlag)) (format_int (ctx_Int c (flag_Name GatewayServerPortFlag))),
      JoinHostPort (ctx_String c (flag_Name GatewayListenHostFlag)) (format_int (ctx_Int c (flag_Name GatewayListenPortFlag))))"

definition GatewayCommand :: command where
  "GatewayCommand = Command ''gateway'' ''Runs fpstore gRPC gateway''
     [GatewayListenHostFlag, GatewayListenPortFlag, GatewayServerHostFlag, GatewayServerPortFlag] []"

definition serverCommand :: command where
  "serverCommand = Command ''server'' ''Runs fpstore gRPC service''
     [ListenHostFlag, ListenPortFlag, PostgresHost, PostgresPort, PostgresUser, PostgresPassword, PostgresDatabase,
      RedisHostFlag, RedisPortFlag, RedisPasswordFlag, RedisDatabaseFlag, IndexHostFlag, IndexPortFlag,
      MetricsListenHost, MetricsListenPort] []"

definition fpstore_BuildCli :: command where
  "fpstore_BuildCli = Command ''fpstore'' ''AcoustID fingerprint store'' [] [serverCommand, GatewayCommand]"

section \<open>\<open>pkg/fpindex\<close>\<close>

definition fpindex_IndexHostFlag :: cli_flag where
  "fpindex_IndexHostFlag = \<lparr> flag_Name = ''index-host'', flag_Aliases = [], flag_Usage = ''index server hostname'',
     flag_Value = FString ''localhost'', flag_EnvVars = [''ACOUSTID_INDEX_HOST''] \<rparr>"

definition fpindex_IndexPortFlag :: cli_flag where
  "fpindex_IndexPortFlag = \<lparr> flag_Name = ''index-port'', flag_Aliases = [], flag_Usage = ''index server port number'',
     flag_Value = FInt 6080, flag_EnvVars = [''ACOUSTID_INDEX_PORT''] \<rparr>"

definition DatabaseNameFlag :: cli_flag where
  "DatabaseNameFlag = \<lparr> flag_Name = ''database-name'', flag_Aliases = [], flag_Usage = ''database name'',
     flag_Value = FString ''acoustid'', flag_EnvVars = [''ACOUSTID_DATABASE_NAME''] \<rparr>"

definition DatabaseHostFlag :: cli_flag where
  "DatabaseHostFlag = \<lparr> flag_Name = ''database-host'', flag_Aliases = [], flag_Usage = ''database server hostname'',
     flag_Value = FString ''localhost'', flag_EnvVars = [''ACOUSTID_DATABASE_HOST''] \<rparr>"

definition DatabasePortFlag :: cli_flag where
  "DatabasePortFlag = \<lparr> flag_Name = ''database-port'', flag_Aliases = [], flag_Usage = ''database server port'',
     flag_Value = FInt 5432, flag_EnvVars = [''ACOUSTID_DATABASE_PORT''] \<rparr>"

definition DatabaseUsernameFlag :: cli_flag where
  "DatabaseUsernameFlag = \<lparr> flag_Name = ''database-username'', flag_Aliases = [], flag_Usage = ''database user name'',
     flag_Value = FString ''acoustid'', flag_EnvVars = [''ACOUSTID_DATABASE_USERNAME''] \<rparr>"

definition DatabasePasswordFlag :: cli_flag where
  "DatabasePasswordFlag = \<lparr> flag_Name = ''database-password'', flag_Aliases = [], flag_Usage = ''database user password'',
     flag_Value = FString '''', flag_EnvVars = [''ACOUSTID_DATABASE_PASSWORD''] \<rparr>"

record UpdaterConfig =
  upd_Database :: DatabaseConfig
  upd_Index :: IndexConfig
  upd_Debug :: bool

definition NewUpdaterConfig :: UpdaterConfig where
  "NewUpdaterConfig = \<lparr> upd_Database = NewDatabaseConfig, upd_Index = NewIndexConfig, upd_Debug = False \<rparr>"

definition PrepareAndRunUpdater :: "cli_context \<Rightarrow> UpdaterConfig" where
  "PrepareAndRunUpdater c = NewUpdaterConfig\<lparr>
     upd_Debug := ctx_Bool c ''debug'',
     upd_Index := (upd_Index NewUpdaterConfig)\<lparr> Host := ctx_String c ''index-host'', Port := ctx_Int c ''index-port'' \<rparr>,
     upd_Database := (upd_Database NewUpdaterConfig)\<lparr>
       db_Database := ctx_String c ''database-name'', db_Host := ctx_String c ''database-host'',
       db_Port := ctx_Int c ''database-port'', db_User := ctx_String c ''database-username'',
       db_Password := ctx_String c ''database-password'' \<rparr> \<rparr>"

text \<open>How the updater starts: it opens the database and pings it, and ends the process if one of them fails.\<close>

definition updater_start_db :: "(string \<Rightarrow> string \<Rightarrow> 'e + 'db) \<Rightarrow> ('db \<Rightarrow> 'e option) \<Rightarrow> UpdaterConfig \<Rightarrow> 'db option" where
  "updater_start_db sql_Open ping cfg =
     (case sql_Open ''postgres'' (URL_String (DatabaseConfig_URL (upd_Database cfg))) of
        Inl err \<Rightarrow> None
      | Inr db \<Rightarrow> (case ping db of Some err \<Rightarrow> None | None \<Rightarrow> Some db))"

definition UpdaterCommand :: command where
  "UpdaterCommand = Command ''updater'' ''Runs fpstore gRPC service''
     [fpindex_IndexHostFlag, fpindex_IndexPortFlag, DatabaseNameFlag, DatabaseHostFlag, DatabasePortFlag,
      DatabaseUsernameFlag, DatabasePasswordFlag] []"

record ProxyConfig =
  pxy_RequestTimeout :: int
  pxy_ListenHost :: string
  pxy_ListenPort :: int
  pxy_Index :: IndexConfig
  pxy_Debug :: bool

definition NewProxyConfig :: ProxyConfig where
  "NewProxyConfig = \<lparr> pxy_RequestTimeout = 0, pxy_ListenHost = [], pxy_ListenPort = 0, pxy_Index = NewIndexConfig, pxy_Debug = False \<rparr>"

definition RunProxyCommand :: "cli_context \<Rightarrow> ProxyConfig" where
  "RunProxyCommand c = NewProxyConfig\<lparr>
     pxy_Debug := ctx_Bool c ''debug'',
     pxy_RequestTimeout := ctx_Duration c ''request-timeout'',
     pxy_ListenHost := ctx_String c ''listen-host'',
     pxy_ListenPort := ctx_Int c ''listen-port'',
     pxy_Index := (pxy_Index NewProxyConfig)\<lparr> Host := ctx_String c ''index-host'', Port := ctx_Int c ''index-port'' \<rparr> \<rparr>"

text \<open>The pool and the address of \<open>RunProxy\<close>.\<close>

definition RunProxy :: "ProxyConfig \<Rightarrow> index_pool \<times> string" where
  "RunProxy cfg = (NewIndexClientPool (pxy_Index cfg) 32, JoinHostPort (pxy_ListenHost cfg) (format_int (pxy_ListenPort cfg)))"

definition ProxyCommand :: command where
  "ProxyCommand = Command ''proxy'' ''Runs gRPC proxy''
    [\<lparr> flag_Name = ''request-timeout'', flag_Aliases = [], flag_Usage = ''request timeout'',
     flag_Value = FDuration 0, flag_EnvVars = [''AINDEX_PROXY_REQUEST_TIMEOUT''] \<rparr>,
     \<lparr> flag_Name = ''listen-addr'', flag_Aliases = [], flag_Usage = ''listen address'',
     flag_Value = FString ''localhost'', flag_EnvVars = [''AINDEX_PROXY_LISTEN_ADDR''] \<rparr>,
     \<lparr> flag_Name = ''listen-port'', flag_Aliases = [], flag_Usage = ''listen port number'',
     flag_Value = FInt 6081, flag_EnvVars = [''AINDEX_PROXY_LISTEN_PORT''] \<rparr>,
     \<lparr> flag_Name = ''index-host'', flag_Aliases = [], flag_Usage = ''index host'',
     flag_Value = FString ''localhost'', flag_EnvVars = [''AINDEX_PROXY_INDEX_ADDR''] \<rparr>,
     \<lparr> flag_Name = ''index-port'', flag_Aliases = [], flag_Usage = ''index port number'',
     flag_Value = FInt 6080, flag_EnvVars = [''AINDEX_PROXY_INDEX_PORT''] \<rparr>] []"

definition fpindex_BuildCli :: command where
  "fpindex_BuildCli = Command ''fpindex'' ''AcoustID fingerprint index'' [] [UpdaterCommand, ProxyCommand]"

section \<open>\<open>pkg/publicdata\<close>\<close>

record storageFlags =
  stf_Bucket :: cli_flag
  stf_Endpoint :: cli_flag
  stf_AccessKeyId :: cli_flag
  stf_SecretAccessKey :: cli_flag
  stf_UseSSL :: cli_flag

definition NewStorageFlags :: "string \<Rightarrow> string \<Rightarrow> storageFlags" where
  "NewStorageFlags pre envPrefix = \<lparr>
   stf_Bucket = \<lparr> flag_Name = pre @ ''bucket'', flag_Aliases = [], flag_Usage = ''S3-compatible bucket'',
     flag_Value = FString '''', flag_EnvVars = [envPrefix @ ''BUCKET''] \<rparr>,
   stf_Endpoint = \<lparr> flag_Name = pre @ ''endpoint'', flag_Aliases = [], flag_Usage = ''S3-compatible endpoint'',
     flag_Value = FString '''', flag_EnvVars = [envPrefix @ ''ENDPOINT''] \<rparr>,
   stf_AccessKeyId = \<lparr> flag_Name = pre @ ''access-key-id'', flag_Aliases = [], flag_Usage = ''S3-compatible access key ID'',
     flag_Value = FString '''', flag_EnvVars = [envPrefix @ ''ACCESS_KEY_ID''] \<rparr>,
   stf_SecretAccessKey = \<lparr> flag_Name = pre @ ''secret-access-key'', flag_Aliases = [], flag_Usage = ''S3-compatible secret access key'',
     flag_Value = FString '''', flag_EnvVars = [envPrefix @ ''SECRET_ACCESS_KEY''] \<rparr>,
   stf_UseSSL = \<lparr> flag_Name = pre @ ''use-ssl'', flag_Aliases = [], flag_Usage = ''S3-compatible https'',
     flag_Value = FBool False, flag_EnvVars = [envPrefix @ ''USE_SSL''] \<rparr> \<rparr>"

definition storageFlags_Flags :: "storageFlags \<Rightarrow> cli_flag list" where
  "storageFlags_Flags f = [stf_Bucket f, stf_Endpoint f, stf_AccessKeyId f, stf_SecretAccessKey f, stf_UseSSL f]"

text \<open>\<open>minio_New\<close> gets the endpoint, the two keys and whether to use TLS.\<close>

type_synonym 'm minio_New = "string \<Rightarrow> string \<Rightarrow> string \<Rightarrow> bool \<Rightarrow> string + 'm"

definition storageFlags_Connect :: "'m minio_New \<Rightarrow> storageFlags \<Rightarrow> cli_context \<Rightarrow> string + 'm \<times> string" where
  "storageFlags_Connect minio_New f c =
     (case minio_New (ctx_String c (flag_Name (stf_Endpoint f))) (ctx_String c (flag_Name (stf_AccessKeyId f)))
             (ctx_String c (flag_Name (stf_SecretAccessKey f))) (ctx_Bool c (flag_Name (stf_UseSSL f))) of
        Inl err \<Rightarrow> Inl (WithMessage err ''failed to connect to storage'')
      | Inr client \<Rightarrow> Inr (client, ctx_String c (flag_Name (stf_Bucket f))))"

definition export_storage :: storageFlags where "export_storage = NewStorageFlags ''storage-'' ''ASERVER_EXPORT_STORAGE_''"
definition export_db :: DatabaseCliFlags where "export_db = NewDatabaseCliFlags ''postgres-'' ''ASERVER_EXPORT_POSTGRES_''"

definition NewExportCommand :: command where
  "NewExportCommand = Command ''export'' ''Export public data''
     (ConcatFlags [DatabaseCliFlags_Flags export_db, storageFlags_Flags export_storage]) []"

text \<open>The action of the command: what \<open>ExportDataFiles\<close> is called with, or the error.\<close>

definition export_action :: "'m minio_New \<Rightarrow> (string \<Rightarrow> string \<Rightarrow> string + 'db) \<Rightarrow> cli_context \<Rightarrow> string + 'm \<times> string \<times> 'db" where
  "export_action minio_New sql_Open c =
     (case storageFlags_Connect minio_New export_storage c of
        Inl err \<Rightarrow> Inl err
      | Inr (storage, bucketName) \<Rightarrow>
          (case Connect sql_Open (DatabaseCliFlags_Config export_db c) of
             Inl err \<Rightarrow> Inl (WithMessage err ''failed to connect to database'')
           | Inr db \<Rightarrow> Inr (storage, bucketName, db)))"

definition NewUpdateIndexFilesCommand :: command where
  "NewUpdateIndexFilesCommand = Command ''updateindexfiles'' ''Update index files'' (storageFlags_Flags export_storage) []"

definition updateindexfiles_action :: "'m minio_New \<Rightarrow> cli_context \<Rightarrow> string + 'm \<times> string" where
  "updateindexfiles_action minio_New c =
     (case storageFlags_Connect minio_New export_storage c of
        Inl err \<Rightarrow> Inl err
      | Inr (storage, bucketName) \<Rightarrow> Inr (storage, bucketName))"

definition publicdata_BuildCli :: command where
  "publicdata_BuildCli = Command ''publicdata'' ''AcoustID public data managemenr'' [] [NewExportCommand, NewUpdateIndexFilesCommand]"

section \<open>\<open>pkg/cli\<close>\<close>

definition verboseFlag :: cli_flag where
  "verboseFlag = \<lparr> flag_Name = ''verbose'', flag_Aliases = [''v''], flag_Usage = ''enable verbose mode'',
     flag_Value = FBool False, flag_EnvVars = [''ASERVER_VERBOSE''] \<rparr>"

definition logLevelFlag :: cli_flag where
  "logLevelFlag = \<lparr> flag_Name = ''log-level'', flag_Aliases = [], flag_Usage = ''logging level'',
     flag_Value = FString '''', flag_EnvVars = [''ASERVER_LOG_LEVEL''] \<rparr>"

datatype log_level = WarnLevel | InfoLevel | DebugLevel | TraceLevel | OtherLevel string

text \<open>\<open>Setup\<close>: the global level, \<open>parse_level\<close> being \<open>zerolog.ParseLevel\<close>.\<close>

definition Setup :: "(string \<Rightarrow> string + log_level) \<Rightarrow> cli_context \<Rightarrow> string + log_level" where
  "Setup parse_level c =
     (if ctx_IsSet c (flag_Name logLevelFlag) then parse_level (ctx_String c (flag_Name logLevelFlag))
      else Inr (let verbosity = ctx_Count c (flag_Name verboseFlag) in
        if verbosity = 0 then WarnLevel else if verbosity = 1 then InfoLevel else if verbosity = 2 then DebugLevel
        else TraceLevel))"

definition BuildApp :: command where
  "BuildApp = Command ''aserver'' ''AcoustID server'' [verboseFlag, logLevelFlag]
     [fpstore_BuildCli, fpindex_BuildCli, publicdata_BuildCli]"

section \<open>\<open>server/cli.go\<close>\<close>

definition DebugFlag :: cli_flag where
  "DebugFlag = \<lparr> flag_Name = ''debug, d'', flag_Aliases = [], flag_Usage = ''enable debug mode'',
     flag_Value = FBool False, flag_EnvVars = [''ACOUSTID_DEBUG''] \<rparr>"

text \<open>The pool, the database and the address of the API; \<open>Atoi\<close> reads 64 bits.
  The text of the error inside an error is left out.\<close>

record 'db api_setup =
  api_Index :: index_pool
  api_DB :: 'db
  api_Listen :: string

definition RunApiCommand :: "(string \<Rightarrow> string \<Rightarrow> string + 'db) \<Rightarrow> cli_context \<Rightarrow> string + 'db api_setup" where
  "RunApiCommand sql_Open c =
     (case SplitHostPort (ctx_String c ''index-address'') of
        None \<Rightarrow> Inl ''failed to parse index-address: ''
      | Some (host, portStr) \<Rightarrow>
          (case parse_int 64 portStr of
             Inl err \<Rightarrow> Inl ''failed to parse index-address: ''
           | Inr port \<Rightarrow>
               (case sql_Open ''postgres'' (ctx_String c ''fingerprint-db-url'') of
                  Inl err \<Rightarrow> Inl (''failed to connect to fingerprint database: '' @ err)
                | Inr db \<Rightarrow> Inr \<lparr> api_Index = NewIndexClientPool (NewIndexConfig\<lparr> Host := host, Port := port \<rparr>) 100,
                    api_DB = db, api_Listen = ctx_String c ''listen'' \<rparr>)))"

definition ApiCommand :: command where
  "ApiCommand = Command ''api'' ''Runs API server''
    [\<lparr> flag_Name = ''listen, l'', flag_Aliases = [], flag_Usage = ''listen address'',
     flag_Value = FString ''127.0.0.1:8080'', flag_EnvVars = [''ACOUSTID_API_LISTEN_ADDRESS''] \<rparr>,
     \<lparr> flag_Name = ''index-address'', flag_Aliases = [], flag_Usage = ''index address'',
     flag_Value = FString ''127.0.0.1:6080'', flag_EnvVars = [''ACOUSTID_API_INDEX_ADDRESS''] \<rparr>,
     \<lparr> flag_Name = ''fingerprint-db-url'', flag_Aliases = [], flag_Usage = ''fingerprint database URL'',
     flag_Value = FString ''postgresql://127.0.0.1:5432/acoustid'', flag_EnvVars = [''ACOUSTID_API_FINGERPRINT_DB_URL''] \<rparr>] []"

definition CreateApp :: command where
  "CreateApp = Command ''aserver'' ''AcoustID server'' [DebugFlag] [ApiCommand]"

section \<open>Reading flags\<close>

context cli_values
begin

lemma default_String: "map_option flag_Value (lookup_flag flags n) = Some (FString s) \<Longrightarrow> \<not> ctx_IsSet c n \<Longrightarrow> ctx_String c n = s"
  using unset by (fastforce simp: reads_def)

lemma default_Int: "map_option flag_Value (lookup_flag flags n) = Some (FInt i) \<Longrightarrow> \<not> ctx_IsSet c n \<Longrightarrow> ctx_Int c n = i"
  using unset by (fastforce simp: reads_def)

lemma default_Bool: "map_option flag_Value (lookup_flag flags n) = Some (FBool b) \<Longrightarrow> \<not> ctx_IsSet c n \<Longrightarrow> ctx_Bool c n = b"
  using unset by (fastforce simp: reads_def)

lemma nowhere: "lookup_flag flags n = None \<Longrightarrow> ctx_String c n = [] \<and> \<not> ctx_Bool c n"
  using undeclared by simp

end

text \<open>The flags an action of a command sees: its own, then those of the commands above it.\<close>

definition lineage :: "command list \<Rightarrow> cli_flag list" where
  "lineage cmds = concat (map cmd_Flags cmds)"

definition unset_value :: "cli_flag list \<Rightarrow> string \<Rightarrow> flag_value option" where
  "unset_value flags n = map_option flag_Value (lookup_flag flags n)"

definition server_flags :: "cli_flag list" where "server_flags = lineage [serverCommand, fpstore_BuildCli, BuildApp]"
definition gateway_flags :: "cli_flag list" where "gateway_flags = lineage [GatewayCommand, fpstore_BuildCli, BuildApp]"
definition updater_flags :: "cli_flag list" where "updater_flags = lineage [UpdaterCommand, fpindex_BuildCli, BuildApp]"
definition proxy_flags :: "cli_flag list" where "proxy_flags = lineage [ProxyCommand, fpindex_BuildCli, BuildApp]"
definition export_flags :: "cli_flag list" where "export_flags = lineage [NewExportCommand, publicdata_BuildCli, BuildApp]"
definition updateindexfiles_flags :: "cli_flag list" where
  "updateindexfiles_flags = lineage [NewUpdateIndexFilesCommand, publicdata_BuildCli, BuildApp]"
definition api_flags :: "cli_flag list" where "api_flags = lineage [ApiCommand, CreateApp]"

lemma server_defaults:
  "unset_value server_flags ''listen-host'' = Some (FString ''localhost'')"
  "unset_value server_flags ''listen-port'' = Some (FInt 4659)"
  "unset_value server_flags ''postgres-host'' = Some (FString ''localhost'')"
  "unset_value server_flags ''postgres-port'' = Some (FInt 5432)"
  "unset_value server_flags ''postgres-user'' = Some (FString ''acoustid'')"
  "unset_value server_flags ''postgres-password'' = Some (FString [])"
  "unset_value server_flags ''postgres-database'' = Some (FString ''acoustid'')"
  "unset_value server_flags ''redis-host'' = Some (FString ''localhost'')"
  "unset_value server_flags ''redis-port'' = Some (FInt 6379)"
  "unset_value server_flags ''redis-database'' = Some (FInt 0)"
  "unset_value server_flags ''redis-password'' = Some (FString [])"
  "unset_value server_flags ''index-host'' = Some (FString ''localhost'')"
  "unset_value server_flags ''index-port'' = Some (FInt 6080)"
  "unset_value server_flags ''metrics-listen-host'' = Some (FString ''localhost'')"
  "unset_value server_flags ''metrics-listen-port'' = Some (FInt 14659)"
  by code_simp+

lemma gateway_defaults:
  "unset_value gateway_flags ''listen-host'' = Some (FString ''localhost'')"
  "unset_value gateway_flags ''listen-port'' = Some (FInt 8080)"
  "unset_value gateway_flags ''server-host'' = Some (FString ''localhost'')"
  "unset_value gateway_flags ''server-port'' = Some (FInt 4659)"
  by code_simp+

text \<open>
  No command has two flags of one name, the flag for help that the package adds included, no flag
  hides one of a command above, and no command has two subcommands of one name.
\<close>

fun command_ok :: "string list \<Rightarrow> command \<Rightarrow> bool" where
  "command_ok outer (Command name usage flags subs) =
     (let names = concat (map flag_names flags) in
      distinct ([''help'', ''h''] @ names @ outer) \<and> distinct (map cmd_Name subs) \<and>
      list_all (command_ok (names @ outer)) subs)"

lemma commands_ok: "command_ok [] BuildApp \<and> command_ok [] CreateApp"
  by code_simp

lemma digit_chars:
  "digit_char 0 = CHR ''0''" "digit_char (Suc 0) = CHR ''1''" "digit_char 2 = CHR ''2''" "digit_char 3 = CHR ''3''" "digit_char 4 = CHR ''4''" "digit_char 5 = CHR ''5''" "digit_char 6 = CHR ''6''" "digit_char 7 = CHR ''7''" "digit_char 8 = CHR ''8''" "digit_char 9 = CHR ''9''"
  by code_simp+

lemma default_url:
  "URL_String (DatabaseConfig_URL \<lparr> db_Database = ''acoustid'', db_Host = ''localhost'', db_Port = 5432, db_User = ''acoustid'', db_Password = [] \<rparr>) =
     ''postgresql://acoustid@localhost:5432/acoustid?sslmode=disable''"
proof -
  have "format_int 5432 = ''5432''" by (simp add: format_int_def format_uint.simps digit_chars)
  then show ?thesis
    by (simp add: URL_String_parts query_text) (simp add: DatabaseConfig_URL_def JoinHostPort_def escape_byte_def shouldEscape_def alnum_def)
qed

lemma default_addresses:
  "JoinHostPort ''localhost'' (format_int 4659) = ''localhost:4659''"
  "JoinHostPort ''localhost'' (format_int 14659) = ''localhost:14659''"
  "JoinHostPort ''localhost'' (format_int 8080) = ''localhost:8080''"
  "JoinHostPort ''localhost'' (format_int 6379) = ''localhost:6379''"
  by (simp_all add: JoinHostPort_def format_int_def format_uint.simps digit_chars)

text \<open>
  Run without flags, the parts of the store fit together: the server listens on
  \<open>localhost:4659\<close>, which is where the gateway dials; it uses the index at the port that the index
  configuration has as its default, the database \<open>acoustid\<close> and a single Redis client, and the
  gateway and the metrics listen on ports of their own.
\<close>

theorem fpstore_defaults:
  assumes "cli_values server_flags c" and "\<forall>n. \<not> ctx_IsSet c n"
    and "cli_values gateway_flags g" and "\<forall>n. \<not> ctx_IsSet g n"
    and "sql_Open ''postgres'' ''postgresql://acoustid@localhost:5432/acoustid?sslmode=disable'' = Inr db"
  shows "PrepareAndRunServer sql_Open c = Inr \<lparr> setup_Store = db, setup_Index = NewIndexClientPool NewIndexConfig 1000,
      setup_Cache = RedisClient ''localhost:6379'' 0 [], setup_Metrics = ''localhost:14659'', setup_Listen = ''localhost:4659'' \<rparr> \<and>
    RunGateway g = (''dns:///localhost:4659'', ''localhost:8080'')"
proof -
  note str = cli_values.default_String [OF assms(1) _ assms(2) [rule_format], folded unset_value_def]
  note num = cli_values.default_Int [OF assms(1) _ assms(2) [rule_format], folded unset_value_def]
  note gstr = cli_values.default_String [OF assms(3) _ assms(4) [rule_format], folded unset_value_def]
  note gnum = cli_values.default_Int [OF assms(3) _ assms(4) [rule_format], folded unset_value_def]
  note server_vals =
    str [OF server_defaults(1)] num [OF server_defaults(2)] str [OF server_defaults(3)] num [OF
    server_defaults(4)] str [OF server_defaults(5)] str [OF server_defaults(6)] str [OF server_defaults(7)] str
    [OF server_defaults(8)] num [OF server_defaults(9)] num [OF server_defaults(10)] str [OF server_defaults(11)]
    str [OF server_defaults(12)] num [OF server_defaults(13)] str [OF server_defaults(14)] num [OF
    server_defaults(15)]
  note gateway_vals =
    gstr [OF gateway_defaults(1)] gnum [OF gateway_defaults(2)] gstr [OF gateway_defaults(3)] gnum [OF
    gateway_defaults(4)]
  have names: "flag_Name RedisHostFlag = ''redis-host''" "flag_Name RedisPortFlag = ''redis-port''"
    "flag_Name RedisDatabaseFlag = ''redis-database''" "flag_Name RedisPasswordFlag = ''redis-password''"
    "flag_Name PostgresDatabase = ''postgres-database''" "flag_Name PostgresHost = ''postgres-host''"
    "flag_Name PostgresPort = ''postgres-port''" "flag_Name PostgresUser = ''postgres-user''"
    "flag_Name PostgresPassword = ''postgres-password''" "flag_Name IndexHostFlag = ''index-host''"
    "flag_Name IndexPortFlag = ''index-port''" "flag_Name MetricsListenHost = ''metrics-listen-host''"
    "flag_Name MetricsListenPort = ''metrics-listen-port''" "flag_Name ListenHostFlag = ''listen-host''"
    "flag_Name ListenPortFlag = ''listen-port''"
    "flag_Name GatewayServerHostFlag = ''server-host''" "flag_Name GatewayServerPortFlag = ''server-port''"
    "flag_Name GatewayListenHostFlag = ''listen-host''" "flag_Name GatewayListenPortFlag = ''listen-port''"
    by code_simp+
  have "PrepareFingerprintStore sql_Open c = Inr db"
    using assms(5) by (simp add: PrepareFingerprintStore_def Connect_def names server_vals default_url)
  moreover have "PrepareFingerprintIndex c = NewIndexClientPool NewIndexConfig 1000"
    by (simp add: PrepareFingerprintIndex_def NewIndexConfig_def MaxConnections_def names server_vals)
  moreover have "ConnectToRedis c = RedisClient ''localhost:6379'' 0 []"
    by (simp add: ConnectToRedis_def names server_vals default_addresses)
  ultimately show ?thesis
    by (simp add: PrepareAndRunServer_def RunGateway_def names server_vals gateway_vals default_addresses)
qed

theorem fpstore_defaults_witness:
  "PrepareAndRunServer (\<lambda>driver url. Inr url) (context_of server_flags Map.empty) =
     Inr \<lparr> setup_Store = ''postgresql://acoustid@localhost:5432/acoustid?sslmode=disable'', setup_Index = NewIndexClientPool NewIndexConfig 1000,
       setup_Cache = RedisClient ''localhost:6379'' 0 [], setup_Metrics = ''localhost:14659'', setup_Listen = ''localhost:4659'' \<rparr> \<and>
   RunGateway (context_of gateway_flags Map.empty) = (''dns:///localhost:4659'', ''localhost:8080'')"
proof -
  have "\<forall>n. \<not> ctx_IsSet (context_of flags Map.empty) n" for flags by (simp add: context_of_def Let_def)
  then show ?thesis
    by (intro fpstore_defaults given_values.cli_values_axioms) simp_all
qed

text \<open>
  C36. Some flags do nothing. The proxy reads the name \<open>listen-host\<close>, which no flag has, so it
  listens on every interface whatever its flag \<open>listen-addr\<close> says; neither the proxy nor the
  updater can be put in debug mode; and the export connects with an empty host, user and database
  and the port 0 when its flags are not set, instead of the defaults of the configuration.
\<close>

theorem flags_without_effect:
  assumes "cli_values proxy_flags p" and "cli_values updater_flags u"
    and "cli_values export_flags e" and "\<forall>n. \<not> ctx_IsSet e n"
  shows "pxy_ListenHost (RunProxyCommand p) = [] \<and> snd (RunProxy (RunProxyCommand p)) = '':'' @ format_int (ctx_Int p ''listen-port'') \<and>
    \<not> pxy_Debug (RunProxyCommand p) \<and> \<not> upd_Debug (PrepareAndRunUpdater u) \<and>
    DatabaseCliFlags_Config export_db e = \<lparr> db_Database = [], db_Host = [], db_Port = 0, db_User = [], db_Password = [] \<rparr>"
proof -
  have no: "lookup_flag proxy_flags ''listen-host'' = None" "lookup_flag proxy_flags ''debug'' = None"
    "lookup_flag updater_flags ''debug'' = None"
    by code_simp+
  have names: "flag_Name (dbf_Database export_db) = ''postgres-database''" "flag_Name (dbf_Host export_db) = ''postgres-host''"
    "flag_Name (dbf_Port export_db) = ''postgres-port''" "flag_Name (dbf_User export_db) = ''postgres-user''"
    "flag_Name (dbf_Password export_db) = ''postgres-password''"
    by code_simp+
  have zero: "unset_value export_flags ''postgres-database'' = Some (FString [])" "unset_value export_flags ''postgres-host'' = Some (FString [])"
    "unset_value export_flags ''postgres-port'' = Some (FInt 0)" "unset_value export_flags ''postgres-user'' = Some (FString [])"
    "unset_value export_flags ''postgres-password'' = Some (FString [])"
    by code_simp+
  note str = cli_values.default_String [OF assms(3) _ assms(4) [rule_format], folded unset_value_def]
  note num = cli_values.default_Int [OF assms(3) _ assms(4) [rule_format], folded unset_value_def]
  have "DatabaseCliFlags_Config export_db e = \<lparr> db_Database = [], db_Host = [], db_Port = 0, db_User = [], db_Password = [] \<rparr>"
    by (simp add: DatabaseCliFlags_Config_def NewDatabaseConfig_def names str [OF zero(1)] str [OF zero(2)]
        num [OF zero(3)] str [OF zero(4)] str [OF zero(5)])
  then show ?thesis
    using cli_values.nowhere [OF assms(1) no(1)] cli_values.nowhere [OF assms(1) no(2)] cli_values.nowhere [OF assms(2) no(3)]
    by (simp add: RunProxyCommand_def PrepareAndRunUpdater_def NewProxyConfig_def NewUpdaterConfig_def RunProxy_def JoinHostPort_def)
qed

theorem flags_without_effect_witness:
  "pxy_ListenHost (RunProxyCommand (context_of proxy_flags [''listen-addr'' \<mapsto> FString ''127.0.0.1''])) = [] \<and>
   db_Host (DatabaseCliFlags_Config export_db (context_of export_flags Map.empty)) = []"
proof -
  have "\<forall>n. \<not> ctx_IsSet (context_of export_flags Map.empty) n" by (simp add: context_of_def Let_def)
  from flags_without_effect [OF given_values.cli_values_axioms [of proxy_flags "[''listen-addr'' \<mapsto> FString ''127.0.0.1'']"]
      given_values.cli_values_axioms [of updater_flags Map.empty] given_values.cli_values_axioms [of export_flags Map.empty] this]
  show ?thesis by simp
qed

section \<open>The ring of caches\<close>

text \<open>
  A host with commas makes a ring, which maps exactly the names between the commas to their
  addresses.
\<close>

lemma ring_addresses:
  "foldl (\<lambda>addrs h. addrs(h \<mapsto> addr h)) m hosts = (\<lambda>h. if h \<in> set hosts then Some (addr h) else m h)"
  by (induction hosts arbitrary: m) (auto simp: fun_eq_iff)

lemma ConnectToRedis_ring:
  assumes "CHR '','' \<in> set (ctx_String c (flag_Name RedisHostFlag))"
  shows "\<exists>addrs db password. ConnectToRedis c = RedisRing addrs db password \<and>
    (\<forall>h. addrs h = (if h \<in> set (split_on (CHR '','') (ctx_String c (flag_Name RedisHostFlag)))
                     then Some (JoinHostPort h (format_int (ctx_Int c (flag_Name RedisPortFlag)))) else None))"
  using assms by (simp add: ConnectToRedis_def ring_addresses)

section \<open>What the actions read\<close>

text \<open>
  Two contexts agree on a flag when they say the same of each of its names, at the type of its
  value. An action reads only the flags of a list when it cannot tell contexts apart that agree on
  them, whatever they say of other names and at other types.
\<close>

definition same_value :: "cli_context \<Rightarrow> cli_context \<Rightarrow> string \<Rightarrow> flag_value \<Rightarrow> bool" where
  "same_value c d n v \<longleftrightarrow> ctx_IsSet c n = ctx_IsSet d n \<and>
     (case v of
        FString _ \<Rightarrow> ctx_String c n = ctx_String d n
      | FInt _ \<Rightarrow> ctx_Int c n = ctx_Int d n
      | FBool _ \<Rightarrow> ctx_Bool c n = ctx_Bool d n \<and> ctx_Count c n = ctx_Count d n
      | FDuration _ \<Rightarrow> ctx_Duration c n = ctx_Duration d n)"

definition agree :: "cli_flag list \<Rightarrow> cli_context \<Rightarrow> cli_context \<Rightarrow> bool" where
  "agree flags c d \<longleftrightarrow> (\<forall>f \<in> set flags. \<forall>n \<in> set (flag_names f). same_value c d n (flag_Value f))"

definition reads_only :: "cli_flag list \<Rightarrow> (cli_context \<Rightarrow> 'r) \<Rightarrow> bool" where
  "reads_only flags action \<longleftrightarrow> (\<forall>c d. agree flags c d \<longrightarrow> action c = action d)"

text \<open>
  A flag has an effect when two contexts that say the same of all other names, and that the package
  can hand out, give an action different results.
\<close>

definition same_elsewhere :: "string list \<Rightarrow> cli_context \<Rightarrow> cli_context \<Rightarrow> bool" where
  "same_elsewhere names c d \<longleftrightarrow> (\<forall>n. n \<notin> set names \<longrightarrow>
     ctx_String c n = ctx_String d n \<and> ctx_Int c n = ctx_Int d n \<and> ctx_Bool c n = ctx_Bool d n \<and>
     ctx_Duration c n = ctx_Duration d n \<and> ctx_IsSet c n = ctx_IsSet d n \<and> ctx_Count c n = ctx_Count d n)"

definition has_effect :: "cli_flag list \<Rightarrow> (cli_context \<Rightarrow> 'r) \<Rightarrow> cli_flag \<Rightarrow> bool" where
  "has_effect flags action f \<longleftrightarrow>
     (\<exists>c d. cli_values flags c \<and> cli_values flags d \<and> same_elsewhere (flag_names f) c d \<and> action c \<noteq> action d)"

text \<open>The names that a list of flags declares, with the values of their flags.\<close>

definition declared :: "cli_flag list \<Rightarrow> (string \<times> flag_value) list" where
  "declared flags = concat (map (\<lambda>f. map (\<lambda>n. (n, flag_Value f)) (flag_names f)) flags)"

lemma agree_declared: "agree flags c d \<longleftrightarrow> list_all (\<lambda>(n, v). same_value c d n v) (declared flags)"
  by (auto simp: agree_def declared_def list_all_iff)

lemma declared_tables:
  "declared (cmd_Flags serverCommand) = [
     (''listen-host'', FString ''localhost''), (''listen-port'', FInt 4659), (''postgres-host'', FString ''localhost''),
     (''postgres-port'', FInt 5432), (''postgres-user'', FString ''acoustid''), (''postgres-password'', FString []),
     (''postgres-database'', FString ''acoustid''), (''redis-host'', FString ''localhost''), (''redis-port'', FInt 6379),
     (''redis-password'', FString []), (''redis-database'', FInt 0), (''index-host'', FString ''localhost''),
     (''index-port'', FInt 6080), (''metrics-listen-host'', FString ''localhost''), (''metrics-listen-port'', FInt 14659)]"
  "declared (cmd_Flags GatewayCommand) = [
     (''listen-host'', FString ''localhost''), (''listen-port'', FInt 8080), (''server-host'', FString ''localhost''),
     (''server-port'', FInt 4659)]"
  "declared (cmd_Flags UpdaterCommand) = [
     (''index-host'', FString ''localhost''), (''index-port'', FInt 6080), (''database-name'', FString ''acoustid''),
     (''database-host'', FString ''localhost''), (''database-port'', FInt 5432), (''database-username'', FString ''acoustid''),
     (''database-password'', FString [])]"
  "declared (cmd_Flags ProxyCommand) = [
     (''request-timeout'', FDuration 0), (''listen-addr'', FString ''localhost''), (''listen-port'', FInt 6081),
     (''index-host'', FString ''localhost''), (''index-port'', FInt 6080)]"
  "declared (cmd_Flags NewExportCommand) = [
     (''postgres-database'', FString []), (''postgres-host'', FString []), (''postgres-port'', FInt 0), (''postgres-user'', FString []),
     (''postgres-password'', FString []), (''storage-bucket'', FString []), (''storage-endpoint'', FString []),
     (''storage-access-key-id'', FString []), (''storage-secret-access-key'', FString []), (''storage-use-ssl'', FBool False)]"
  "declared (cmd_Flags NewUpdateIndexFilesCommand) = [
     (''storage-bucket'', FString []), (''storage-endpoint'', FString []),
     (''storage-access-key-id'', FString []), (''storage-secret-access-key'', FString []), (''storage-use-ssl'', FBool False)]"
  "declared (cmd_Flags ApiCommand) = [
     (''listen'', FString ''127.0.0.1:8080''), (''index-address'', FString ''127.0.0.1:6080''),
     (''fingerprint-db-url'', FString ''postgresql://127.0.0.1:5432/acoustid'')]"
  "declared (cmd_Flags BuildApp) = [(''verbose'', FBool False), (''v'', FBool False), (''log-level'', FString [])]"
  by code_simp+

lemma declared_single:
  "declared [DebugFlag] = [(''debug'', FBool False)]"
  "declared [ListenHostFlag] = [(''listen-host'', FString ''localhost'')]"
  by code_simp+

lemma declared_more:
  "declared (DebugFlag # flags) = (''debug'', FBool False) # declared flags"
  "declared (ListenHostFlag # flags) = (''listen-host'', FString ''localhost'') # declared flags"
proof -
  have "declared (f # flags) = declared [f] @ declared flags" for f by (simp add: declared_def)
  then show "declared (DebugFlag # flags) = (''debug'', FBool False) # declared flags"
    "declared (ListenHostFlag # flags) = (''listen-host'', FString ''localhost'') # declared flags"
    by (simp_all only: declared_single append.simps)
qed

lemma reads_onlyI: "(\<And>c d. agree flags c d \<Longrightarrow> action c = action d) \<Longrightarrow> reads_only flags action"
  by (simp add: reads_only_def)

lemmas agree_simps = agree_declared declared_tables declared_more same_value_def

lemma export_flag_names:
  "flag_Name (dbf_Database export_db) = ''postgres-database''" "flag_Name (dbf_Host export_db) = ''postgres-host''"
  "flag_Name (dbf_Port export_db) = ''postgres-port''" "flag_Name (dbf_User export_db) = ''postgres-user''"
  "flag_Name (dbf_Password export_db) = ''postgres-password''"
  "flag_Name (stf_Bucket export_storage) = ''storage-bucket''" "flag_Name (stf_Endpoint export_storage) = ''storage-endpoint''"
  "flag_Name (stf_AccessKeyId export_storage) = ''storage-access-key-id''"
  "flag_Name (stf_SecretAccessKey export_storage) = ''storage-secret-access-key''"
  "flag_Name (stf_UseSSL export_storage) = ''storage-use-ssl''"
  by code_simp+

lemma server_flag_names:
  "flag_Name RedisHostFlag = ''redis-host''" "flag_Name RedisPortFlag = ''redis-port''"
  "flag_Name RedisDatabaseFlag = ''redis-database''" "flag_Name RedisPasswordFlag = ''redis-password''"
  "flag_Name PostgresDatabase = ''postgres-database''" "flag_Name PostgresHost = ''postgres-host''"
  "flag_Name PostgresPort = ''postgres-port''" "flag_Name PostgresUser = ''postgres-user''"
  "flag_Name PostgresPassword = ''postgres-password''" "flag_Name IndexHostFlag = ''index-host''"
  "flag_Name IndexPortFlag = ''index-port''" "flag_Name MetricsListenHost = ''metrics-listen-host''"
  "flag_Name MetricsListenPort = ''metrics-listen-port''" "flag_Name ListenHostFlag = ''listen-host''"
  "flag_Name ListenPortFlag = ''listen-port''"
  "flag_Name GatewayServerHostFlag = ''server-host''" "flag_Name GatewayServerPortFlag = ''server-port''"
  "flag_Name GatewayListenHostFlag = ''listen-host''" "flag_Name GatewayListenPortFlag = ''listen-port''"
  "flag_Name logLevelFlag = ''log-level''" "flag_Name verboseFlag = ''verbose''"
  by code_simp+

lemma server_reads: "reads_only (cmd_Flags serverCommand) (PrepareAndRunServer sql_Open)"
  by (rule reads_onlyI) (simp add: agree_simps PrepareAndRunServer_def PrepareFingerprintStore_def PrepareFingerprintIndex_def
      ConnectToRedis_def server_flag_names cong: sum.case_cong option.case_cong)

lemma gateway_reads: "reads_only (cmd_Flags GatewayCommand) RunGateway"
  by (rule reads_onlyI) (simp add: agree_simps RunGateway_def server_flag_names cong: sum.case_cong option.case_cong)

lemma storage_reads: "reads_only (cmd_Flags NewUpdateIndexFilesCommand) (updateindexfiles_action minio_New)"
  by (rule reads_onlyI) (simp add: agree_simps updateindexfiles_action_def storageFlags_Connect_def export_flag_names cong: sum.case_cong option.case_cong)

lemma export_reads: "reads_only (cmd_Flags NewExportCommand) (export_action minio_New sql_Open)"
  by (rule reads_onlyI) (simp add: agree_simps export_action_def storageFlags_Connect_def DatabaseCliFlags_Config_def export_flag_names cong: sum.case_cong option.case_cong)

lemma api_reads: "reads_only (cmd_Flags ApiCommand) (RunApiCommand sql_Open)"
  by (rule reads_onlyI) (simp add: agree_simps RunApiCommand_def cong: sum.case_cong option.case_cong)

lemma Setup_reads: "reads_only (cmd_Flags BuildApp) (Setup parse_level)"
  by (rule reads_onlyI) (simp add: agree_simps Setup_def server_flag_names cong: sum.case_cong option.case_cong)

lemma updater_reads: "reads_only (DebugFlag # cmd_Flags UpdaterCommand) PrepareAndRunUpdater"
  by (rule reads_onlyI) (simp add: agree_simps PrepareAndRunUpdater_def cong: sum.case_cong option.case_cong)

lemma proxy_reads: "reads_only (DebugFlag # ListenHostFlag # cmd_Flags ProxyCommand) RunProxyCommand"
  by (rule reads_onlyI) (simp add: agree_simps RunProxyCommand_def cong: sum.case_cong option.case_cong)

text \<open>A context in which one flag is given another value.\<close>

definition set_flag :: "string \<Rightarrow> flag_value \<Rightarrow> cli_context \<Rightarrow> cli_context" where
  "set_flag n v c =
     (case v of
        FString s \<Rightarrow> c\<lparr> ctx_String := (ctx_String c)(n := s) \<rparr>
      | FInt i \<Rightarrow> c\<lparr> ctx_Int := (ctx_Int c)(n := i) \<rparr>
      | FBool b \<Rightarrow> c\<lparr> ctx_Bool := (ctx_Bool c)(n := b), ctx_Count := (ctx_Count c)(n := if b then 1 else 0) \<rparr>
      | FDuration d \<Rightarrow> c\<lparr> ctx_Duration := (ctx_Duration c)(n := d) \<rparr>)\<lparr> ctx_IsSet := (ctx_IsSet c)(n := True) \<rparr>"

definition other_value :: "flag_value \<Rightarrow> flag_value" where
  "other_value v = (case v of FString s \<Rightarrow> FString (CHR ''x'' # s) | FInt i \<Rightarrow> FInt (i + 1) | FBool b \<Rightarrow> FBool (\<not> b) | FDuration d \<Rightarrow> FDuration (d + 1))"

lemma set_flag_elsewhere: "same_elsewhere [n] c (set_flag n v c)"
  by (simp add: same_elsewhere_def set_flag_def split: flag_value.split)

lemma set_flag_values:
  assumes "cli_values flags c" and "lookup_flag flags n \<noteq> None"
  shows "cli_values flags (set_flag n v c)"
proof
  have same: "same_elsewhere [n] c (set_flag n v c)" by (rule set_flag_elsewhere)
  fix n'
  show "ctx_String (set_flag n v c) n' = [] \<and> ctx_Int (set_flag n v c) n' = 0 \<and> \<not> ctx_Bool (set_flag n v c) n' \<and>
      ctx_Duration (set_flag n v c) n' = 0 \<and> \<not> ctx_IsSet (set_flag n v c) n' \<and> ctx_Count (set_flag n v c) n' = 0"
    if "lookup_flag flags n' = None"
  proof -
    have "n' \<noteq> n" using that assms(2) by auto
    then show ?thesis using cli_values.undeclared [OF assms(1) that] same by (simp add: same_elsewhere_def)
  qed
  show "reads (set_flag n v c) n' (flag_Value f)" if f: "lookup_flag flags n' = Some f" "\<not> ctx_IsSet (set_flag n v c) n'" for f
  proof -
    have "n' \<noteq> n" using f(2) by (auto simp: set_flag_def)
    then have "reads (set_flag n v c) n' (flag_Value f) = reads c n' (flag_Value f)" "ctx_IsSet (set_flag n v c) n' = ctx_IsSet c n'"
      using same by (auto simp: same_elsewhere_def reads_def split: flag_value.split)
    then show ?thesis using cli_values.unset [OF assms(1) f(1)] f(2) by simp
  qed
qed

text \<open>The context of a command that is run without flags, and flags that have an effect from there.\<close>

definition default_context :: "cli_flag list \<Rightarrow> cli_context" where
  "default_context flags = context_of flags Map.empty"

lemma default_context_values: "cli_values flags (default_context flags)"
  unfolding default_context_def by (rule given_values.cli_values_axioms)

lemma default_context_reads:
  "unset_value flags n = Some v \<Longrightarrow> reads (default_context flags) n v \<and> \<not> ctx_IsSet (default_context flags) n"
  by (auto simp: default_context_def context_of_def unset_value_def reads_def split: flag_value.split)

lemma has_effect_table:
  assumes "list_all (\<lambda>(n, v). unset_value flags n = Some v) table" and "map flag_names fs = map (\<lambda>(n, v). [n]) table"
    and "list_all (\<lambda>(n, v). reads (default_context flags) n v \<and> \<not> ctx_IsSet (default_context flags) n) table \<Longrightarrow>
      list_all (\<lambda>(n, v). action (default_context flags) \<noteq> action (set_flag n (other_value v) (default_context flags))) table"
  shows "\<forall>f \<in> set fs. has_effect flags action f"
proof
  have all: "action (default_context flags) \<noteq> action (set_flag n (other_value v) (default_context flags))" if "(n, v) \<in> set table" for n v
    using assms(1,3) default_context_reads that by (fastforce simp: list_all_iff)
  fix f
  assume "f \<in> set fs"
  then have "flag_names f \<in> set (map flag_names fs)" by simp
  then have "flag_names f \<in> set (map (\<lambda>(n, v). [n]) table)" by (simp only: assms(2))
  then obtain n v where nv: "(n, v) \<in> set table" "flag_names f = [n]" by auto
  then have "lookup_flag flags n \<noteq> None" using assms(1) by (auto simp: list_all_iff unset_value_def)
  note ok = set_flag_values [OF default_context_values this, of "other_value v"]
  show "has_effect flags action f"
    unfolding has_effect_def nv(2) using ok default_context_values set_flag_elsewhere all [OF nv(1)] by blast
qed

lemma JoinHostPort_inj:
  "JoinHostPort h p = JoinHostPort h p' \<longleftrightarrow> p = p'" "JoinHostPort h p = JoinHostPort h' p \<longleftrightarrow> h = h'"
  by (auto simp: JoinHostPort_def)

lemma short_ports: "format_int 4659 = ''4659''" "format_int 4660 = ''4660''" "format_int 8080 = ''8080''" "format_int 8081 = ''8081''"
  "format_int 14659 = ''14659''" "format_int 14660 = ''14660''" "format_int 6379 = ''6379''" "format_int 6380 = ''6380''"
  by (simp_all add: format_int_def format_uint.simps digit_chars)

lemmas effect_simps = reads_def set_flag_def other_value_def

lemma gateway_effects: "\<forall>f \<in> set (cmd_Flags GatewayCommand). has_effect gateway_flags RunGateway f"
  by (rule has_effect_table [where table = "declared (cmd_Flags GatewayCommand)"])
    (code_simp, code_simp, simp add: declared_tables effect_simps RunGateway_def server_flag_names,
      simp add: short_ports JoinHostPort_inj)

lemma updater_effects: "\<forall>f \<in> set (cmd_Flags UpdaterCommand). has_effect updater_flags PrepareAndRunUpdater f"
  by (rule has_effect_table [where table = "declared (cmd_Flags UpdaterCommand)"])
    (code_simp, code_simp, simp add: declared_tables effect_simps PrepareAndRunUpdater_def NewUpdaterConfig_def
      NewDatabaseConfig_def NewIndexConfig_def)

lemma plain_hosts: "plain_host ''localhost''" "plain_host ''xlocalhost''" "plain_host []" "plain_host ''x''"
  by code_simp+

lemma URL_differs:
  assumes "plain_host (db_Host cfg)" and "0 \<le> db_Port cfg" and "plain_host (db_Host cfg')" and "0 \<le> db_Port cfg'" and "cfg \<noteq> cfg'"
  shows "URL_String (DatabaseConfig_URL cfg) \<noteq> URL_String (DatabaseConfig_URL cfg')"
  using URL_String_inj [OF assms(1-4)] assms(5) by blast

lemma server_effects:
  "\<forall>f \<in> set (cmd_Flags serverCommand). has_effect server_flags (PrepareAndRunServer (\<lambda>_ url. Inr url)) f"
  by (rule has_effect_table [where table = "declared (cmd_Flags serverCommand)"])
    (code_simp, code_simp, simp add: declared_tables effect_simps PrepareAndRunServer_def PrepareFingerprintStore_def PrepareFingerprintIndex_def
      Connect_def ConnectToRedis_def NewIndexClientPool_def server_flag_names,
      simp add: short_ports JoinHostPort_inj URL_differs plain_hosts NewIndexConfig_def)

lemma proxy_effects:
  "\<forall>f \<in> set (cmd_Flags ProxyCommand). has_effect proxy_flags RunProxyCommand f \<longleftrightarrow> flag_Name f \<noteq> ''listen-addr''"
proof -
  let ?effect = "\<lambda>f. has_effect proxy_flags RunProxyCommand f"
  let ?fs = "filter (\<lambda>f. flag_Name f \<noteq> ''listen-addr'') (cmd_Flags ProxyCommand)"
  have yes: "\<forall>f \<in> set ?fs. ?effect f"
    by (rule has_effect_table [where table = "filter (\<lambda>(n, v). n \<noteq> ''listen-addr'') (declared (cmd_Flags ProxyCommand))"])
      (code_simp, code_simp, simp add: declared_tables effect_simps RunProxyCommand_def NewProxyConfig_def NewIndexConfig_def)
  have addr: "list_all (\<lambda>f. flag_Name f = ''listen-addr'' \<longrightarrow> flag_names f = [''listen-addr'']) (cmd_Flags ProxyCommand)" by code_simp
  have no: "\<not> ?effect f" if "f \<in> set (cmd_Flags ProxyCommand)" "flag_Name f = ''listen-addr''" for f
  proof -
    have "flag_names f = [''listen-addr'']" using addr that by (auto simp: list_all_iff)
    moreover have "RunProxyCommand c = RunProxyCommand d" if "same_elsewhere [''listen-addr''] c d" for c d
      using that by (simp add: same_elsewhere_def RunProxyCommand_def)
    ultimately show ?thesis by (auto simp: has_effect_def)
  qed
  show ?thesis using yes no by auto
qed

lemma storage_effects:
  "\<forall>f \<in> set (cmd_Flags NewUpdateIndexFilesCommand).
     has_effect updateindexfiles_flags (updateindexfiles_action (\<lambda>e a s u. Inr (e, a, s, u))) f"
  by (rule has_effect_table [where table = "declared (cmd_Flags NewUpdateIndexFilesCommand)"])
    (code_simp, code_simp, simp add: declared_tables effect_simps updateindexfiles_action_def storageFlags_Connect_def export_flag_names)

lemma export_effects:
  "\<forall>f \<in> set (cmd_Flags NewExportCommand).
     has_effect export_flags (export_action (\<lambda>e a s u. Inr (e, a, s, u)) (\<lambda>_ url. Inr url)) f"
  by (rule has_effect_table [where table = "declared (cmd_Flags NewExportCommand)"])
    (code_simp, code_simp, simp add: declared_tables effect_simps export_action_def storageFlags_Connect_def DatabaseCliFlags_Config_def
      Connect_def export_flag_names,
      simp add: URL_differs plain_hosts NewDatabaseConfig_def)

lemma api_addresses:
  "SplitHostPort ''127.0.0.1:6080'' = Some (''127.0.0.1'', ''6080'')" "SplitHostPort ''x127.0.0.1:6080'' = Some (''x127.0.0.1'', ''6080'')"
  by code_simp+

lemma api_port: "parse_int 64 ''6080'' = Inr 6080"
proof -
  have "format_int 6080 = ''6080''" by (simp add: format_int_def format_uint.simps digit_chars)
  then show ?thesis using parse_int_format [of 64 6080] by simp
qed

lemma api_effects: "\<forall>f \<in> set (cmd_Flags ApiCommand). has_effect api_flags (RunApiCommand (\<lambda>_ url. Inr url)) f"
  by (rule has_effect_table [where table = "declared (cmd_Flags ApiCommand)"])
    (code_simp, code_simp, simp add: declared_tables effect_simps RunApiCommand_def api_addresses api_port NewIndexClientPool_def NewIndexConfig_def)

text \<open>The names that the updater and the proxy read beyond their flags make a difference.\<close>

lemma undeclared_reads:
  "\<not> reads_only (cmd_Flags UpdaterCommand) PrepareAndRunUpdater"
  "\<not> reads_only (ListenHostFlag # cmd_Flags ProxyCommand) RunProxyCommand"
  "\<not> reads_only (DebugFlag # cmd_Flags ProxyCommand) RunProxyCommand"
proof -
  let ?c = "\<lparr> ctx_String = (\<lambda>_. []), ctx_Int = (\<lambda>_. 0), ctx_Bool = (\<lambda>_. False), ctx_Duration = (\<lambda>_. 0),
    ctx_IsSet = (\<lambda>_. False), ctx_Count = (\<lambda>_. 0) \<rparr>"
  let ?d = "?c\<lparr> ctx_Bool := (\<lambda>n. n = ''debug'') \<rparr>" and ?h = "?c\<lparr> ctx_String := (\<lambda>n. if n = ''listen-host'' then ''x'' else []) \<rparr>"
  have "agree (cmd_Flags UpdaterCommand) ?c ?d" "agree (ListenHostFlag # cmd_Flags ProxyCommand) ?c ?d"
    "agree (DebugFlag # cmd_Flags ProxyCommand) ?c ?h"
    by (simp_all add: agree_simps)
  moreover have "PrepareAndRunUpdater ?c \<noteq> PrepareAndRunUpdater ?d" "RunProxyCommand ?c \<noteq> RunProxyCommand ?d"
    "RunProxyCommand ?c \<noteq> RunProxyCommand ?h"
    by (simp_all add: PrepareAndRunUpdater_def RunProxyCommand_def NewUpdaterConfig_def NewProxyConfig_def)
  ultimately show "\<not> reads_only (cmd_Flags UpdaterCommand) PrepareAndRunUpdater"
    "\<not> reads_only (ListenHostFlag # cmd_Flags ProxyCommand) RunProxyCommand"
    "\<not> reads_only (DebugFlag # cmd_Flags ProxyCommand) RunProxyCommand"
    unfolding reads_only_def by blast+
qed

text \<open>
  C38. Which flags the actions read, in all contexts, and which flags matter. The actions of the
  server, the gateway, the export, the index files and the API and the setup of the program cannot tell
  contexts apart that agree on the flags they declare, each at the type of its value: they read no name
  that is not declared and none as another type. The updater reads one more name, \<open>debug\<close>, as a
  bool, and the proxy two more, \<open>debug\<close> and the string \<open>listen-host\<close>, and this many they need. Conversely each flag of the
  seven commands changes what some context makes the command do, all other names being read
  alike, except one that never does: \<open>listen-addr\<close> of the proxy.
\<close>

theorem actions_read_flags:
  "reads_only (cmd_Flags serverCommand) (PrepareAndRunServer sql_Open) \<and>
   reads_only (cmd_Flags GatewayCommand) RunGateway \<and>
   reads_only (cmd_Flags NewExportCommand) (export_action minio_New sql_Open) \<and>
   reads_only (cmd_Flags NewUpdateIndexFilesCommand) (updateindexfiles_action minio_New) \<and>
   reads_only (cmd_Flags ApiCommand) (RunApiCommand sql_Open) \<and>
   reads_only (cmd_Flags BuildApp) (Setup parse_level) \<and>
   reads_only (DebugFlag # cmd_Flags UpdaterCommand) PrepareAndRunUpdater \<and>
   \<not> reads_only (cmd_Flags UpdaterCommand) PrepareAndRunUpdater \<and>
   reads_only (DebugFlag # ListenHostFlag # cmd_Flags ProxyCommand) RunProxyCommand \<and>
   \<not> reads_only (ListenHostFlag # cmd_Flags ProxyCommand) RunProxyCommand \<and>
   \<not> reads_only (DebugFlag # cmd_Flags ProxyCommand) RunProxyCommand \<and>
   (\<forall>f \<in> set (cmd_Flags serverCommand). has_effect server_flags (PrepareAndRunServer (\<lambda>_ url. Inr url)) f) \<and>
   (\<forall>f \<in> set (cmd_Flags GatewayCommand). has_effect gateway_flags RunGateway f) \<and>
   (\<forall>f \<in> set (cmd_Flags NewExportCommand).
      has_effect export_flags (export_action (\<lambda>e a s u. Inr (e, a, s, u)) (\<lambda>_ url. Inr url)) f) \<and>
   (\<forall>f \<in> set (cmd_Flags NewUpdateIndexFilesCommand).
      has_effect updateindexfiles_flags (updateindexfiles_action (\<lambda>e a s u. Inr (e, a, s, u))) f) \<and>
   (\<forall>f \<in> set (cmd_Flags ApiCommand). has_effect api_flags (RunApiCommand (\<lambda>_ url. Inr url)) f) \<and>
   (\<forall>f \<in> set (cmd_Flags UpdaterCommand). has_effect updater_flags PrepareAndRunUpdater f) \<and>
   (\<forall>f \<in> set (cmd_Flags ProxyCommand). has_effect proxy_flags RunProxyCommand f \<longleftrightarrow> flag_Name f \<noteq> ''listen-addr'')"
  by (intro conjI server_reads gateway_reads export_reads storage_reads api_reads Setup_reads updater_reads proxy_reads undeclared_reads
      server_effects gateway_effects export_effects storage_effects api_effects updater_effects proxy_effects)

theorem actions_read_flags_witness:
  "RunGateway (default_context gateway_flags) =
     RunGateway ((default_context gateway_flags)\<lparr> ctx_String := (\<lambda>n. if n = ''listen-addr'' then ''x'' else ctx_String (default_context gateway_flags) n) \<rparr>) \<and>
   has_effect server_flags (PrepareAndRunServer (\<lambda>_ url. Inr url)) PostgresHost"
proof
  have reads: "reads_only (cmd_Flags GatewayCommand) RunGateway" by (rule actions_read_flags [THEN conjunct2, THEN conjunct1])
  let ?c = "default_context gateway_flags"
  have "agree (cmd_Flags GatewayCommand) ?c (?c\<lparr> ctx_String := (\<lambda>n. if n = ''listen-addr'' then ''x'' else ctx_String ?c n) \<rparr>)"
    by (simp add: agree_simps)
  then show "RunGateway ?c = RunGateway (?c\<lparr> ctx_String := (\<lambda>n. if n = ''listen-addr'' then ''x'' else ctx_String ?c n) \<rparr>)"
    using reads unfolding reads_only_def by blast
  have "PostgresHost \<in> set (cmd_Flags serverCommand)" by (simp add: serverCommand_def)
  then show "has_effect server_flags (PrepareAndRunServer (\<lambda>_ url. Inr url)) PostgresHost"
    using actions_read_flags by blast
qed


end
