(* ===== verification/Gateway.thy ===== *)
theory Gateway
  imports FpWorld GoIO Cli
begin

text \<open>
  The HTTP gateway of the fingerprint store, \<open>proto/fpstore/fpstore.pb.gw.go\<close> and
  \<open>proto/index/index.pb.gw.go\<close> with \<open>RunGateway\<close>: routes with their patterns, how a request becomes
  a call of the gRPC service, and what comes back. The runtime of the gateway is a parameter: reading a JSON
  body, parsing an id, building the context, and finding the route of a request; so are the gRPC
  connection and the text that an answer becomes. The server part of \<open>fpstore_grpc.pb.go\<close> that the
  service embeds is here too.
\<close>

section \<open>Patterns\<close>

text \<open>
  A pattern is a program of operations over a pool of strings: 2 is a literal of the pool, 1 takes any
  segment, 4 makes one text of the last segments, 5 binds it to a name of the pool.
\<close>

record gw_pattern =
  pat_ops :: "nat list"
  pat_pool :: "string list"
  pat_verb :: string

definition NewPattern :: "nat list \<Rightarrow> string list \<Rightarrow> string \<Rightarrow> gw_pattern" where
  "NewPattern ops pool verb = \<lparr> pat_ops = ops, pat_pool = pool, pat_verb = verb \<rparr>"

definition pattern_FingerprintStore_Insert_0 :: gw_pattern where
  "pattern_FingerprintStore_Insert_0 = NewPattern [2, 0, 2, 1] [''v1'', ''fingerprint''] []"

definition pattern_FingerprintStore_Update_0 :: gw_pattern where
  "pattern_FingerprintStore_Update_0 = NewPattern [2, 0, 2, 1, 1, 0, 4, 1, 5, 2] [''v1'', ''fingerprint'', ''id''] []"

definition pattern_FingerprintStore_Delete_0 :: gw_pattern where
  "pattern_FingerprintStore_Delete_0 = NewPattern [2, 0, 2, 1, 1, 0, 4, 1, 5, 2] [''v1'', ''fingerprint'', ''id''] []"

definition pattern_FingerprintStore_Get_0 :: gw_pattern where
  "pattern_FingerprintStore_Get_0 = NewPattern [2, 0, 2, 1, 1, 0, 4, 1, 5, 2] [''v1'', ''fingerprint'', ''id''] []"

definition pattern_FingerprintStore_Search_0 :: gw_pattern where
  "pattern_FingerprintStore_Search_0 = NewPattern [2, 0, 2, 1, 2, 2] [''v1'', ''fingerprint'', ''_search''] []"

definition pattern_FingerprintStore_Compare_0 :: gw_pattern where
  "pattern_FingerprintStore_Compare_0 = NewPattern [2, 0, 2, 1, 2, 2] [''v1'', ''fingerprint'', ''_compare''] []"

definition pattern_Index_Search_0 :: gw_pattern where
  "pattern_Index_Search_0 = NewPattern [2, 0, 2, 1] [''index.Index'', ''Search''] []"

definition pattern_Index_Insert_0 :: gw_pattern where
  "pattern_Index_Insert_0 = NewPattern [2, 0, 2, 1] [''index.Index'', ''Insert''] []"

text \<open>
  The path templates of the annotations in \<open>fpstore.proto\<close>, what they match according to
  \<open>google/api/http.proto\<close> (a variable is one segment of the path), and their compilation into a pattern.
\<close>

datatype segment = Literal string | Variable string

fun match_template :: "segment list \<Rightarrow> string list \<Rightarrow> (string \<times> string) list option" where
  "match_template [] [] = Some []"
| "match_template (Literal s # t) (c # cs) = (if c = s then match_template t cs else None)"
| "match_template (Variable v # t) (c # cs) = map_option ((#) (v, c)) (match_template t cs)"
| "match_template _ _ = None"

text \<open>The index of a string in the pool, and the pool with the string.\<close>

definition pool_index :: "string \<Rightarrow> string list \<Rightarrow> nat \<times> string list" where
  "pool_index s pool =
     (let i = length (takeWhile (\<lambda>x. x \<noteq> s) pool) in (i, if i < length pool then pool else pool @ [s]))"

fun compile_segments :: "segment list \<Rightarrow> string list \<Rightarrow> nat list \<times> string list" where
  "compile_segments [] pool = ([], pool)"
| "compile_segments (Literal s # t) pool =
     (let (i, pool) = pool_index s pool; (ops, pool) = compile_segments t pool in ([2, i] @ ops, pool))"
| "compile_segments (Variable v # t) pool =
     (let (i, pool) = pool_index v pool; (ops, pool) = compile_segments t pool in ([1, 0, 4, 1, 5, i] @ ops, pool))"

definition compile_template :: "segment list \<Rightarrow> gw_pattern" where
  "compile_template t = (let (ops, pool) = compile_segments t [] in NewPattern ops pool [])"

definition fingerprint_path :: "segment list" where
  "fingerprint_path = [Literal ''v1'', Literal ''fingerprint'']"

text \<open>The patterns of the code are the compiled templates of the annotations.\<close>

lemma patterns_compiled:
  "pattern_FingerprintStore_Insert_0 = compile_template fingerprint_path"
  "pattern_FingerprintStore_Update_0 = compile_template (fingerprint_path @ [Variable ''id''])"
  "pattern_FingerprintStore_Delete_0 = compile_template (fingerprint_path @ [Variable ''id''])"
  "pattern_FingerprintStore_Get_0 = compile_template (fingerprint_path @ [Variable ''id''])"
  "pattern_FingerprintStore_Search_0 = compile_template (fingerprint_path @ [Literal ''_search''])"
  "pattern_FingerprintStore_Compare_0 = compile_template (fingerprint_path @ [Literal ''_compare''])"
  "pattern_Index_Search_0 = compile_template [Literal ''index.Index'', Literal ''Search'']"
  "pattern_Index_Insert_0 = compile_template [Literal ''index.Index'', Literal ''Insert'']"
  by code_simp+

section \<open>The runtime and the services\<close>

text \<open>
  A request is its method, the segments of its path and its body; \<open>gw_Override\<close> says that it asks for
  another method than its own, with a header or as a form. Reading a body gives a message, finds it empty,
  or fails with a text. The names of the fields say which message is read; an id is parsed by \<open>rt_Uint64\<close>;
  \<open>rt_Annotate\<close> makes the context of a call to a method of the service from a request for a pattern,
  \<open>rt_AnnotateIncoming\<close> the one for a call that stays in the process.
\<close>

record 'b gw_request =
  gw_Method :: string
  gw_Path :: "string list"
  gw_Override :: bool
  gw_Body :: 'b

datatype 'a decoded = Decoded 'a | DecodeEOF | DecodeError string

type_synonym gw_routes = "(string \<times> gw_pattern) list"

record ('b, 'g, 'c) gw_runtime =
  rt_Insert :: "'b \<Rightarrow> Fingerprint option decoded"
  rt_Update :: "'b \<Rightarrow> (u64 \<times> Fingerprint option) decoded"
  rt_Search :: "'b \<Rightarrow> 'g SearchRequest decoded"
  rt_Compare :: "'b \<Rightarrow> 'g CompareRequest decoded"
  rt_IndexSearch :: "'b \<Rightarrow> u32 list decoded"
  rt_IndexInsert :: "'b \<Rightarrow> (u32 \<times> u32 list) list decoded"
  rt_zero :: 'g
  rt_Uint64 :: "string \<Rightarrow> string + u64"
  rt_Annotate :: "'b gw_request \<Rightarrow> string \<Rightarrow> string \<Rightarrow> status + 'c"
  rt_AnnotateIncoming :: "'b gw_request \<Rightarrow> string \<Rightarrow> string \<Rightarrow> status + 'c"
  rt_choose :: "gw_routes \<Rightarrow> 'b gw_request \<Rightarrow> (nat \<times> (string \<times> string) list) option"

text \<open>The methods of a gRPC service or of a client of it; \<open>None\<close> is a panic.\<close>

type_synonym ('c, 'req, 'res, 'w) rpc = "'c \<Rightarrow> 'req \<Rightarrow> 'w \<Rightarrow> ((status + 'res) \<times> 'w) option"

record ('c, 'g, 'w) FingerprintStoreServer =
  api_Insert :: "('c, Fingerprint option, u64, 'w) rpc"
  api_Update :: "('c, u64 \<times> Fingerprint option, unit, 'w) rpc"
  api_Delete :: "('c, u64, unit, 'w) rpc"
  api_Get :: "('c, u64, Fingerprint, 'w) rpc"
  api_Search :: "('c, 'g SearchRequest, 'g MatchingFingerprint list, 'w) rpc"
  api_Compare :: "('c, 'g CompareRequest, 'g MatchingFingerprint list, 'w) rpc"

record ('c, 'w) IndexServer =
  ix_Search :: "('c, u32 list, pb_Result list, 'w) rpc"
  ix_Insert :: "('c, (u32 \<times> u32 list) list, unit, 'w) rpc"

text \<open>\<open>UnimplementedFingerprintStoreServer\<close>, and the service that embeds it and has four methods of its own.\<close>

definition not_implemented :: "string \<Rightarrow> ('c, 'req, 'res, 'w) rpc" where
  "not_implemented name ctx req w = Some (Inl (Status Unimplemented (''method '' @ name @ '' not implemented'')), w)"

definition UnimplementedFingerprintStoreServer :: "('c, 'g, 'w) FingerprintStoreServer" where
  "UnimplementedFingerprintStoreServer = \<lparr>
     api_Insert = not_implemented ''Insert'', api_Update = not_implemented ''Update'',
     api_Delete = not_implemented ''Delete'', api_Get = not_implemented ''Get'',
     api_Search = not_implemented ''Search'', api_Compare = not_implemented ''Compare'' \<rparr>"

text \<open>\<open>canceled\<close> says of a context whether it is canceled when a loop looks at it the n-th time.\<close>

definition service_api ::
  "('c \<Rightarrow> nat \<Rightarrow> bool) \<Rightarrow> ('w, 'e, 'f, 'g) FingerprintStoreService \<Rightarrow> ('c, 'g, 'w svc_state) FingerprintStoreServer" where
  "service_api canceled s = UnimplementedFingerprintStoreServer\<lparr>
     api_Insert := (\<lambda>ctx fp st. Some (Svc_Insert s fp st)),
     api_Get := (\<lambda>ctx i st. Svc_Get s i st),
     api_Search := (\<lambda>ctx req st. Svc_Search s (canceled ctx) req st),
     api_Compare := (\<lambda>ctx req st. Svc_Compare s (canceled ctx) req st) \<rparr>"

section \<open>From a request to a call\<close>

text \<open>The message of a body, which is the zero message for an empty one, and the id of a path.\<close>

definition body_message :: "'a \<Rightarrow> 'a decoded \<Rightarrow> status + 'a" where
  "body_message zero d = (case d of Decoded m \<Rightarrow> Inr m | DecodeEOF \<Rightarrow> Inr zero | DecodeError e \<Rightarrow> Inl (Status InvalidArgument e))"

definition path_id :: "('b, 'g, 'c) gw_runtime \<Rightarrow> (string \<times> string) list \<Rightarrow> status + u64" where
  "path_id L pathParams =
     (case map_of pathParams ''id'' of
        None \<Rightarrow> Inl (Status InvalidArgument ''missing parameter id'')
      | Some val \<Rightarrow>
          (case rt_Uint64 L val of
             Inl e \<Rightarrow> Inl (Status InvalidArgument (''type mismatch, parameter: id, error: '' @ e))
           | Inr i \<Rightarrow> Inr i))"

text \<open>The answers of the methods as messages.\<close>

datatype 'g gw_message =
    InsertResponse u64 | UpdateResponse | DeleteResponse | GetResponse Fingerprint
  | MatchesResponse "'g MatchingFingerprint list" | IndexResults "pb_Result list" | IndexInserted

type_synonym ('g, 'w) gw_call = "'w \<Rightarrow> ((status + 'g gw_message) \<times> 'w) option"

definition rpc_answer :: "('res \<Rightarrow> 'g gw_message) \<Rightarrow> ((status + 'res) \<times> 'w) option \<Rightarrow> ((status + 'g gw_message) \<times> 'w) option" where
  "rpc_answer msg = map_option (map_prod (map_sum id msg) id)"

definition zero_search :: "'g \<Rightarrow> 'g SearchRequest" where
  "zero_search z = \<lparr> srch_Fingerprint = None, Limit = 0, FastMode = False, srch_MinScore = z \<rparr>"

definition zero_compare :: "'g \<Rightarrow> 'g CompareRequest" where
  "zero_compare z = \<lparr> cmp_Fingerprint = None, cmp_Ids = [], cmp_MinScore = z \<rparr>"

definition request_FingerprintStore_Insert_0 ::
  "('b, 'g, 'c) gw_runtime \<Rightarrow> 'c \<Rightarrow> ('c, 'g, 'w) FingerprintStoreServer \<Rightarrow> 'b \<Rightarrow> (string \<times> string) list \<Rightarrow> ('g, 'w) gw_call" where
  "request_FingerprintStore_Insert_0 L ctx client body pathParams w =
     (case body_message None (rt_Insert L body) of
        Inl e \<Rightarrow> Some (Inl e, w)
      | Inr protoReq \<Rightarrow> rpc_answer InsertResponse (api_Insert client ctx protoReq w))"

definition request_FingerprintStore_Update_0 ::
  "('b, 'g, 'c) gw_runtime \<Rightarrow> 'c \<Rightarrow> ('c, 'g, 'w) FingerprintStoreServer \<Rightarrow> 'b \<Rightarrow> (string \<times> string) list \<Rightarrow> ('g, 'w) gw_call" where
  "request_FingerprintStore_Update_0 L ctx client body pathParams w =
     (case body_message (0, None) (rt_Update L body) of
        Inl e \<Rightarrow> Some (Inl e, w)
      | Inr protoReq \<Rightarrow>
          (case path_id L pathParams of
             Inl e \<Rightarrow> Some (Inl e, w)
           | Inr i \<Rightarrow> rpc_answer (\<lambda>_. UpdateResponse) (api_Update client ctx (i, snd protoReq) w)))"

definition request_FingerprintStore_Delete_0 ::
  "('b, 'g, 'c) gw_runtime \<Rightarrow> 'c \<Rightarrow> ('c, 'g, 'w) FingerprintStoreServer \<Rightarrow> 'b \<Rightarrow> (string \<times> string) list \<Rightarrow> ('g, 'w) gw_call" where
  "request_FingerprintStore_Delete_0 L ctx client body pathParams w =
     (case path_id L pathParams of
        Inl e \<Rightarrow> Some (Inl e, w)
      | Inr i \<Rightarrow> rpc_answer (\<lambda>_. DeleteResponse) (api_Delete client ctx i w))"

definition request_FingerprintStore_Get_0 ::
  "('b, 'g, 'c) gw_runtime \<Rightarrow> 'c \<Rightarrow> ('c, 'g, 'w) FingerprintStoreServer \<Rightarrow> 'b \<Rightarrow> (string \<times> string) list \<Rightarrow> ('g, 'w) gw_call" where
  "request_FingerprintStore_Get_0 L ctx client body pathParams w =
     (case path_id L pathParams of
        Inl e \<Rightarrow> Some (Inl e, w)
      | Inr i \<Rightarrow> rpc_answer GetResponse (api_Get client ctx i w))"

definition request_FingerprintStore_Search_0 ::
  "('b, 'g, 'c) gw_runtime \<Rightarrow> 'c \<Rightarrow> ('c, 'g, 'w) FingerprintStoreServer \<Rightarrow> 'b \<Rightarrow> (string \<times> string) list \<Rightarrow> ('g, 'w) gw_call" where
  "request_FingerprintStore_Search_0 L ctx client body pathParams w =
     (case body_message (zero_search (rt_zero L)) (rt_Search L body) of
        Inl e \<Rightarrow> Some (Inl e, w)
      | Inr protoReq \<Rightarrow> rpc_answer MatchesResponse (api_Search client ctx protoReq w))"

definition request_FingerprintStore_Compare_0 ::
  "('b, 'g, 'c) gw_runtime \<Rightarrow> 'c \<Rightarrow> ('c, 'g, 'w) FingerprintStoreServer \<Rightarrow> 'b \<Rightarrow> (string \<times> string) list \<Rightarrow> ('g, 'w) gw_call" where
  "request_FingerprintStore_Compare_0 L ctx client body pathParams w =
     (case body_message (zero_compare (rt_zero L)) (rt_Compare L body) of
        Inl e \<Rightarrow> Some (Inl e, w)
      | Inr protoReq \<Rightarrow> rpc_answer MatchesResponse (api_Compare client ctx protoReq w))"

definition request_Index_Search_0 ::
  "('b, 'g, 'c) gw_runtime \<Rightarrow> 'c \<Rightarrow> ('c, 'w) IndexServer \<Rightarrow> 'b \<Rightarrow> (string \<times> string) list \<Rightarrow> ('g, 'w) gw_call" where
  "request_Index_Search_0 L ctx client body pathParams w =
     (case body_message [] (rt_IndexSearch L body) of
        Inl e \<Rightarrow> Some (Inl e, w)
      | Inr protoReq \<Rightarrow> rpc_answer IndexResults (ix_Search client ctx protoReq w))"

definition request_Index_Insert_0 ::
  "('b, 'g, 'c) gw_runtime \<Rightarrow> 'c \<Rightarrow> ('c, 'w) IndexServer \<Rightarrow> 'b \<Rightarrow> (string \<times> string) list \<Rightarrow> ('g, 'w) gw_call" where
  "request_Index_Insert_0 L ctx client body pathParams w =
     (case body_message [] (rt_IndexInsert L body) of
        Inl e \<Rightarrow> Some (Inl e, w)
      | Inr protoReq \<Rightarrow> rpc_answer (\<lambda>_. IndexInserted) (ix_Insert client ctx protoReq w))"

definition local_request_FingerprintStore_Insert_0 ::
  "('b, 'g, 'c) gw_runtime \<Rightarrow> 'c \<Rightarrow> ('c, 'g, 'w) FingerprintStoreServer \<Rightarrow> 'b \<Rightarrow> (string \<times> string) list \<Rightarrow> ('g, 'w) gw_call" where
  "local_request_FingerprintStore_Insert_0 L ctx server body pathParams w =
     (case body_message None (rt_Insert L body) of
        Inl e \<Rightarrow> Some (Inl e, w)
      | Inr protoReq \<Rightarrow> rpc_answer InsertResponse (api_Insert server ctx protoReq w))"

definition local_request_FingerprintStore_Update_0 ::
  "('b, 'g, 'c) gw_runtime \<Rightarrow> 'c \<Rightarrow> ('c, 'g, 'w) FingerprintStoreServer \<Rightarrow> 'b \<Rightarrow> (string \<times> string) list \<Rightarrow> ('g, 'w) gw_call" where
  "local_request_FingerprintStore_Update_0 L ctx server body pathParams w =
     (case body_message (0, None) (rt_Update L body) of
        Inl e \<Rightarrow> Some (Inl e, w)
      | Inr protoReq \<Rightarrow>
          (case path_id L pathParams of
             Inl e \<Rightarrow> Some (Inl e, w)
           | Inr i \<Rightarrow> rpc_answer (\<lambda>_. UpdateResponse) (api_Update server ctx (i, snd protoReq) w)))"

definition local_request_FingerprintStore_Delete_0 ::
  "('b, 'g, 'c) gw_runtime \<Rightarrow> 'c \<Rightarrow> ('c, 'g, 'w) FingerprintStoreServer \<Rightarrow> 'b \<Rightarrow> (string \<times> string) list \<Rightarrow> ('g, 'w) gw_call" where
  "local_request_FingerprintStore_Delete_0 L ctx server body pathParams w =
     (case path_id L pathParams of
        Inl e \<Rightarrow> Some (Inl e, w)
      | Inr i \<Rightarrow> rpc_answer (\<lambda>_. DeleteResponse) (api_Delete server ctx i w))"

definition local_request_FingerprintStore_Get_0 ::
  "('b, 'g, 'c) gw_runtime \<Rightarrow> 'c \<Rightarrow> ('c, 'g, 'w) FingerprintStoreServer \<Rightarrow> 'b \<Rightarrow> (string \<times> string) list \<Rightarrow> ('g, 'w) gw_call" where
  "local_request_FingerprintStore_Get_0 L ctx server body pathParams w =
     (case path_id L pathParams of
        Inl e \<Rightarrow> Some (Inl e, w)
      | Inr i \<Rightarrow> rpc_answer GetResponse (api_Get server ctx i w))"

definition local_request_FingerprintStore_Search_0 ::
  "('b, 'g, 'c) gw_runtime \<Rightarrow> 'c \<Rightarrow> ('c, 'g, 'w) FingerprintStoreServer \<Rightarrow> 'b \<Rightarrow> (string \<times> string) list \<Rightarrow> ('g, 'w) gw_call" where
  "local_request_FingerprintStore_Search_0 L ctx server body pathParams w =
     (case body_message (zero_search (rt_zero L)) (rt_Search L body) of
        Inl e \<Rightarrow> Some (Inl e, w)
      | Inr protoReq \<Rightarrow> rpc_answer MatchesResponse (api_Search server ctx protoReq w))"

definition local_request_FingerprintStore_Compare_0 ::
  "('b, 'g, 'c) gw_runtime \<Rightarrow> 'c \<Rightarrow> ('c, 'g, 'w) FingerprintStoreServer \<Rightarrow> 'b \<Rightarrow> (string \<times> string) list \<Rightarrow> ('g, 'w) gw_call" where
  "local_request_FingerprintStore_Compare_0 L ctx server body pathParams w =
     (case body_message (zero_compare (rt_zero L)) (rt_Compare L body) of
        Inl e \<Rightarrow> Some (Inl e, w)
      | Inr protoReq \<Rightarrow> rpc_answer MatchesResponse (api_Compare server ctx protoReq w))"

definition local_request_Index_Search_0 ::
  "('b, 'g, 'c) gw_runtime \<Rightarrow> 'c \<Rightarrow> ('c, 'w) IndexServer \<Rightarrow> 'b \<Rightarrow> (string \<times> string) list \<Rightarrow> ('g, 'w) gw_call" where
  "local_request_Index_Search_0 L ctx server body pathParams w =
     (case body_message [] (rt_IndexSearch L body) of
        Inl e \<Rightarrow> Some (Inl e, w)
      | Inr protoReq \<Rightarrow> rpc_answer IndexResults (ix_Search server ctx protoReq w))"

definition local_request_Index_Insert_0 ::
  "('b, 'g, 'c) gw_runtime \<Rightarrow> 'c \<Rightarrow> ('c, 'w) IndexServer \<Rightarrow> 'b \<Rightarrow> (string \<times> string) list \<Rightarrow> ('g, 'w) gw_call" where
  "local_request_Index_Insert_0 L ctx server body pathParams w =
     (case body_message [] (rt_IndexInsert L body) of
        Inl e \<Rightarrow> Some (Inl e, w)
      | Inr protoReq \<Rightarrow> rpc_answer (\<lambda>_. IndexInserted) (ix_Insert server ctx protoReq w))"

lemmas request_defs = request_FingerprintStore_Insert_0_def request_FingerprintStore_Update_0_def
  request_FingerprintStore_Delete_0_def request_FingerprintStore_Get_0_def
  request_FingerprintStore_Search_0_def request_FingerprintStore_Compare_0_def
  request_Index_Search_0_def request_Index_Insert_0_def

lemmas local_request_defs = local_request_FingerprintStore_Insert_0_def local_request_FingerprintStore_Update_0_def
  local_request_FingerprintStore_Delete_0_def local_request_FingerprintStore_Get_0_def
  local_request_FingerprintStore_Search_0_def local_request_FingerprintStore_Compare_0_def
  local_request_Index_Search_0_def local_request_Index_Insert_0_def

section \<open>Routes\<close>

text \<open>
  What a handler hands to the runtime: an error for \<open>HTTPError\<close>, or a message for
  \<open>ForwardResponseMessage\<close>. A multiplexer is the list of its routes in the order of \<open>Handle\<close>.
\<close>

datatype 'g gw_result = HTTPError status | Forward "'g gw_message" | NoRoute

type_synonym ('b, 'g, 'w) gw_handler = "'b gw_request \<Rightarrow> (string \<times> string) list \<Rightarrow> 'w \<Rightarrow> ('g gw_result \<times> 'w) option"

type_synonym ('b, 'g, 'w) gw_mux = "(string \<times> gw_pattern \<times> ('b, 'g, 'w) gw_handler) list"

definition gw_result_of :: "status + 'g gw_message \<Rightarrow> 'g gw_result" where
  "gw_result_of r = (case r of Inl e \<Rightarrow> HTTPError e | Inr m \<Rightarrow> Forward m)"

definition gw_handle ::
  "('b gw_request \<Rightarrow> string \<Rightarrow> string \<Rightarrow> status + 'c) \<Rightarrow> string \<Rightarrow> string \<Rightarrow> ('c \<Rightarrow> 'b \<Rightarrow> (string \<times> string) list \<Rightarrow> ('g, 'w) gw_call) \<Rightarrow> ('b, 'g, 'w) gw_handler" where
  "gw_handle annotate rpcMethod httpPattern request req pathParams w =
     (case annotate req rpcMethod httpPattern of
        Inl e \<Rightarrow> Some (HTTPError e, w)
      | Inr ctx \<Rightarrow> map_option (map_prod gw_result_of id) (request ctx (gw_Body req) pathParams w))"

definition RegisterFingerprintStoreHandlerServer ::
  "('b, 'g, 'c) gw_runtime \<Rightarrow> ('c, 'g, 'w) FingerprintStoreServer \<Rightarrow> ('b, 'g, 'w) gw_mux \<Rightarrow> ('b, 'g, 'w) gw_mux" where
  "RegisterFingerprintStoreHandlerServer L server mux = mux @ [
     (''POST'', pattern_FingerprintStore_Insert_0, gw_handle (rt_AnnotateIncoming L) ''/fpstore.FingerprintStore/Insert'' ''/v1/fingerprint''
        (\<lambda>ctx. local_request_FingerprintStore_Insert_0 L ctx server)),
     (''PUT'', pattern_FingerprintStore_Update_0, gw_handle (rt_AnnotateIncoming L) ''/fpstore.FingerprintStore/Update'' ''/v1/fingerprint/{id}''
        (\<lambda>ctx. local_request_FingerprintStore_Update_0 L ctx server)),
     (''DELETE'', pattern_FingerprintStore_Delete_0, gw_handle (rt_AnnotateIncoming L) ''/fpstore.FingerprintStore/Delete'' ''/v1/fingerprint/{id}''
        (\<lambda>ctx. local_request_FingerprintStore_Delete_0 L ctx server)),
     (''GET'', pattern_FingerprintStore_Get_0, gw_handle (rt_AnnotateIncoming L) ''/fpstore.FingerprintStore/Get'' ''/v1/fingerprint/{id}''
        (\<lambda>ctx. local_request_FingerprintStore_Get_0 L ctx server)),
     (''POST'', pattern_FingerprintStore_Search_0, gw_handle (rt_AnnotateIncoming L) ''/fpstore.FingerprintStore/Search'' ''/v1/fingerprint/_search''
        (\<lambda>ctx. local_request_FingerprintStore_Search_0 L ctx server)),
     (''POST'', pattern_FingerprintStore_Compare_0, gw_handle (rt_AnnotateIncoming L) ''/fpstore.FingerprintStore/Compare'' ''/v1/fingerprint/_compare''
        (\<lambda>ctx. local_request_FingerprintStore_Compare_0 L ctx server))]"

definition RegisterFingerprintStoreHandlerClient ::
  "('b, 'g, 'c) gw_runtime \<Rightarrow> ('c, 'g, 'w) FingerprintStoreServer \<Rightarrow> ('b, 'g, 'w) gw_mux \<Rightarrow> ('b, 'g, 'w) gw_mux" where
  "RegisterFingerprintStoreHandlerClient L client mux = mux @ [
     (''POST'', pattern_FingerprintStore_Insert_0, gw_handle (rt_Annotate L) ''/fpstore.FingerprintStore/Insert'' ''/v1/fingerprint''
        (\<lambda>ctx. request_FingerprintStore_Insert_0 L ctx client)),
     (''PUT'', pattern_FingerprintStore_Update_0, gw_handle (rt_Annotate L) ''/fpstore.FingerprintStore/Update'' ''/v1/fingerprint/{id}''
        (\<lambda>ctx. request_FingerprintStore_Update_0 L ctx client)),
     (''DELETE'', pattern_FingerprintStore_Delete_0, gw_handle (rt_Annotate L) ''/fpstore.FingerprintStore/Delete'' ''/v1/fingerprint/{id}''
        (\<lambda>ctx. request_FingerprintStore_Delete_0 L ctx client)),
     (''GET'', pattern_FingerprintStore_Get_0, gw_handle (rt_Annotate L) ''/fpstore.FingerprintStore/Get'' ''/v1/fingerprint/{id}''
        (\<lambda>ctx. request_FingerprintStore_Get_0 L ctx client)),
     (''POST'', pattern_FingerprintStore_Search_0, gw_handle (rt_Annotate L) ''/fpstore.FingerprintStore/Search'' ''/v1/fingerprint/_search''
        (\<lambda>ctx. request_FingerprintStore_Search_0 L ctx client)),
     (''POST'', pattern_FingerprintStore_Compare_0, gw_handle (rt_Annotate L) ''/fpstore.FingerprintStore/Compare'' ''/v1/fingerprint/_compare''
        (\<lambda>ctx. request_FingerprintStore_Compare_0 L ctx client))]"

definition RegisterIndexHandlerServer ::
  "('b, 'g, 'c) gw_runtime \<Rightarrow> ('c, 'w) IndexServer \<Rightarrow> ('b, 'g, 'w) gw_mux \<Rightarrow> ('b, 'g, 'w) gw_mux" where
  "RegisterIndexHandlerServer L server mux = mux @ [
     (''POST'', pattern_Index_Search_0, gw_handle (rt_AnnotateIncoming L) ''/index.Index/Search'' ''/index.Index/Search''
        (\<lambda>ctx. local_request_Index_Search_0 L ctx server)),
     (''POST'', pattern_Index_Insert_0, gw_handle (rt_AnnotateIncoming L) ''/index.Index/Insert'' ''/index.Index/Insert''
        (\<lambda>ctx. local_request_Index_Insert_0 L ctx server))]"

definition RegisterIndexHandlerClient ::
  "('b, 'g, 'c) gw_runtime \<Rightarrow> ('c, 'w) IndexServer \<Rightarrow> ('b, 'g, 'w) gw_mux \<Rightarrow> ('b, 'g, 'w) gw_mux" where
  "RegisterIndexHandlerClient L client mux = mux @ [
     (''POST'', pattern_Index_Search_0, gw_handle (rt_Annotate L) ''/index.Index/Search'' ''/index.Index/Search''
        (\<lambda>ctx. request_Index_Search_0 L ctx client)),
     (''POST'', pattern_Index_Insert_0, gw_handle (rt_Annotate L) ''/index.Index/Insert'' ''/index.Index/Insert''
        (\<lambda>ctx. request_Index_Insert_0 L ctx client))]"

text \<open>
  A client is known by its methods, which are those of the service at the other end of the connection,
  as far as the connection lets them be. \<open>dialer\<close> gives the outcome of \<open>grpc.DialContext\<close> for an endpoint.
\<close>

definition RegisterFingerprintStoreHandler ::
  "('b, 'g, 'c) gw_runtime \<Rightarrow> ('c, 'g, 'w) FingerprintStoreServer \<Rightarrow> ('b, 'g, 'w) gw_mux \<Rightarrow> ('b, 'g, 'w) gw_mux" where
  "RegisterFingerprintStoreHandler L cc mux = RegisterFingerprintStoreHandlerClient L cc mux"

definition RegisterFingerprintStoreHandlerFromEndpoint ::
  "('b, 'g, 'c) gw_runtime \<Rightarrow> (string \<Rightarrow> go_error + ('c, 'g, 'w) FingerprintStoreServer) \<Rightarrow> string \<Rightarrow> ('b, 'g, 'w) gw_mux \<Rightarrow>
   go_error + ('b, 'g, 'w) gw_mux" where
  "RegisterFingerprintStoreHandlerFromEndpoint L dialer endpoint mux =
     (case dialer endpoint of Inl err \<Rightarrow> Inl err | Inr cc \<Rightarrow> Inr (RegisterFingerprintStoreHandler L cc mux))"

definition RegisterIndexHandler ::
  "('b, 'g, 'c) gw_runtime \<Rightarrow> ('c, 'w) IndexServer \<Rightarrow> ('b, 'g, 'w) gw_mux \<Rightarrow> ('b, 'g, 'w) gw_mux" where
  "RegisterIndexHandler L cc mux = RegisterIndexHandlerClient L cc mux"

definition RegisterIndexHandlerFromEndpoint ::
  "('b, 'g, 'c) gw_runtime \<Rightarrow> (string \<Rightarrow> go_error + ('c, 'w) IndexServer) \<Rightarrow> string \<Rightarrow> ('b, 'g, 'w) gw_mux \<Rightarrow>
   go_error + ('b, 'g, 'w) gw_mux" where
  "RegisterIndexHandlerFromEndpoint L dialer endpoint mux =
     (case dialer endpoint of Inl err \<Rightarrow> Inl err | Inr cc \<Rightarrow> Inr (RegisterIndexHandler L cc mux))"

definition gw_ServeHTTP :: "('b, 'g, 'c) gw_runtime \<Rightarrow> ('b, 'g, 'w) gw_mux \<Rightarrow> 'b gw_request \<Rightarrow> 'w \<Rightarrow> ('g gw_result \<times> 'w) option" where
  "gw_ServeHTTP L mux req w =
     (case rt_choose L (map (\<lambda>(m, p, _). (m, p)) mux) req of
        None \<Rightarrow> Some (NoRoute, w)
      | Some (k, pathParams) \<Rightarrow> snd (snd (mux ! k)) req pathParams w)"

section \<open>The contract of the runtime\<close>

text \<open>
  The documented behaviour, for requests that do not ask for another method and have no empty segment:
  the route of a request is one whose method and template match, if there is only one; there is none
  if no route matches; and an id in decimal is read.
\<close>

definition misses :: "string \<Rightarrow> string list \<Rightarrow> string \<times> gw_pattern \<Rightarrow> bool" where
  "misses m path route \<longleftrightarrow>
     (fst route = m \<longrightarrow> (\<exists>t. snd route = compile_template t \<and> match_template t path = None))"

definition gw_plain :: "'b gw_request \<Rightarrow> bool" where
  "gw_plain req \<longleftrightarrow> \<not> gw_Override req \<and> [] \<notin> set (gw_Path req)"

locale gateway_runtime =
  fixes L :: "('b, 'g, 'c) gw_runtime"
  assumes chosen: "rt_choose L routes req = Some (k, params) \<Longrightarrow> k < length routes"
    and routed: "gw_plain req \<Longrightarrow> match_template t (gw_Path req) = Some params \<Longrightarrow>
      \<forall>route \<in> set (as @ bs). misses (gw_Method req) (gw_Path req) route \<Longrightarrow>
      rt_choose L (as @ (gw_Method req, compile_template t) # bs) req = Some (length as, params)"
    and unrouted: "gw_plain req \<Longrightarrow> \<forall>route \<in> set routes. misses (gw_Method req) (gw_Path req) route \<Longrightarrow>
      rt_choose L routes req = None"
    and ids: "rt_Uint64 L (format_uint (unat i)) = Inr i"

text \<open>
  A runtime with this behaviour: it runs the operations of a pattern on the segments, with a stack, and
  takes the route that was registered last of those that match.
\<close>

fun run_ops :: "nat list \<Rightarrow> string list \<Rightarrow> string list \<Rightarrow> string list \<Rightarrow> (string \<times> string) list option" where
  "run_ops (opn # i # ops) pool cs stk =
     (if opn = 2 then (case cs of c # cs \<Rightarrow> if i < length pool \<and> c = pool ! i then run_ops ops pool cs (c # stk) else None | [] \<Rightarrow> None)
      else if opn = 1 then (case cs of c # cs \<Rightarrow> run_ops ops pool cs (c # stk) | [] \<Rightarrow> None)
      else if opn = 4 then run_ops ops pool cs (concat (rev (take i stk)) # drop i stk)
      else if opn = 5 then (case stk of v # stk \<Rightarrow> map_option ((#) (pool ! i, v)) (run_ops ops pool cs stk) | [] \<Rightarrow> None)
      else None)"
| "run_ops [] pool cs stk = (if cs = [] then Some [] else None)"
| "run_ops [_] pool cs stk = None"

lemma pool_index_at:
  "pool_index s pool = (i, pool') \<Longrightarrow> i < length pool' \<and> pool' ! i = s \<and> (\<exists>extra. pool' = pool @ extra)"
proof -
  assume a: "pool_index s pool = (i, pool')"
  let ?i = "length (takeWhile (\<lambda>x. x \<noteq> s) pool)"
  have "?i < length pool \<Longrightarrow> pool ! ?i = s" using nth_length_takeWhile [of "\<lambda>x. x \<noteq> s" pool] by simp
  moreover have "?i \<le> length pool" by (rule length_takeWhile_le)
  ultimately show ?thesis using a by (auto simp: pool_index_def Let_def nth_append split: if_splits)
qed

lemma compile_segments_pool: "compile_segments t pool = (ops, pool') \<Longrightarrow> \<exists>extra. pool' = pool @ extra"
proof (induction t arbitrary: pool ops)
  case (Cons s t)
  then show ?case by (cases s) (fastforce split: prod.splits dest!: pool_index_at)+
qed simp

lemma run_ops_compile:
  "compile_segments t pool = (ops, pool') \<Longrightarrow> run_ops ops (pool' @ extra) cs stk = match_template t cs"
proof (induction t arbitrary: pool ops cs stk)
  case Nil
  then show ?case by (cases cs) auto
next
  case (Cons s t)
  define v where "v = (case s of Literal v \<Rightarrow> v | Variable v \<Rightarrow> v)"
  obtain i p1 where i: "pool_index v pool = (i, p1)" by (cases "pool_index v pool")
  obtain ops1 where ops1: "compile_segments t p1 = (ops1, pool')" "ops = (case s of Literal _ \<Rightarrow> [2, i] | Variable _ \<Rightarrow> [1, 0, 4, 1, 5, i]) @ ops1"
    using Cons.prems i by (cases s) (auto simp: v_def split: prod.splits)
  have at: "i < length (pool' @ extra)" "(pool' @ extra) ! i = v"
    using pool_index_at [OF i] compile_segments_pool [OF ops1(1)] by (auto simp: nth_append)
  note IH = Cons.IH [OF ops1(1)]
  show ?case
    using at by (cases s; cases cs) (simp_all add: ops1(2) IH v_def)
qed

definition run_pattern :: "gw_pattern \<Rightarrow> string list \<Rightarrow> (string \<times> string) list option" where
  "run_pattern p path = run_ops (pat_ops p) (pat_pool p) path []"

lemma run_compiled: "run_pattern (compile_template t) path = match_template t path"
  using run_ops_compile [of t "[]" _ _ "[]"]
  by (simp add: run_pattern_def compile_template_def NewPattern_def split: prod.split)

definition route_of :: "'b gw_request \<Rightarrow> string \<times> gw_pattern \<Rightarrow> (string \<times> string) list option" where
  "route_of req route = (if fst route = gw_Method req then run_pattern (snd route) (gw_Path req) else None)"

fun choose_last :: "('r \<Rightarrow> 'p option) \<Rightarrow> 'r list \<Rightarrow> nat \<Rightarrow> (nat \<times> 'p) option" where
  "choose_last f [] k = None"
| "choose_last f (r # rs) k =
     (case choose_last f rs (k + 1) of Some x \<Rightarrow> Some x | None \<Rightarrow> map_option (Pair k) (f r))"

datatype plain_body = EmptyBody | BadBody | FingerprintBody Fingerprint

definition plain_decode :: "(Fingerprint \<Rightarrow> 'a) \<Rightarrow> plain_body \<Rightarrow> 'a decoded" where
  "plain_decode f b = (case b of EmptyBody \<Rightarrow> DecodeEOF | BadBody \<Rightarrow> DecodeError ''syntax error'' | FingerprintBody fp \<Rightarrow> Decoded (f fp))"

definition plain_runtime :: "'g \<Rightarrow> (plain_body, 'g, string) gw_runtime" where
  "plain_runtime z = \<lparr>
     rt_Insert = plain_decode Some, rt_Update = plain_decode (\<lambda>fp. (0, Some fp)),
     rt_Search = plain_decode (\<lambda>fp. (zero_search z)\<lparr> srch_Fingerprint := Some fp \<rparr>),
     rt_Compare = plain_decode (\<lambda>fp. (zero_compare z)\<lparr> cmp_Fingerprint := Some fp \<rparr>),
     rt_IndexSearch = plain_decode Hashes, rt_IndexInsert = plain_decode (\<lambda>fp. [(Version fp, Hashes fp)]),
     rt_zero = z,
     rt_Uint64 = (\<lambda>s. case parse_uint 64 s of Inl _ \<Rightarrow> Inl ''invalid syntax'' | Inr n \<Rightarrow> Inr (of_nat n)),
     rt_Annotate = (\<lambda>_ rpc _. Inr rpc), rt_AnnotateIncoming = (\<lambda>_ rpc _. Inr rpc),
     rt_choose = (\<lambda>routes req. choose_last (route_of req) routes 0) \<rparr>"

lemma choose_last_bound: "choose_last f rs k = Some (i, p) \<Longrightarrow> k \<le> i \<and> i < k + length rs"
  by (induction f rs k arbitrary: i p rule: choose_last.induct) (fastforce split: option.splits)+

lemma choose_last_None: "choose_last f rs k = None \<longleftrightarrow> (\<forall>r \<in> set rs. f r = None)"
  by (induction f rs k rule: choose_last.induct) (auto split: option.split)

lemma choose_last_only:
  "\<forall>r \<in> set (as @ bs). f r = None \<Longrightarrow> f r = Some p \<Longrightarrow> choose_last f (as @ r # bs) k = Some (k + length as, p)"
proof (induction as arbitrary: k)
  case Nil
  then have "choose_last f bs (k + 1) = None" by (simp add: choose_last_None)
  with Nil show ?case by simp
qed simp

lemma misses_route_of: "misses (gw_Method req) (gw_Path req) route \<Longrightarrow> route_of req route = None"
  by (auto simp: misses_def route_of_def run_compiled)

interpretation plain: gateway_runtime "plain_runtime z" for z
proof
  fix routes and req :: "plain_body gw_request" and k params
  assume "rt_choose (plain_runtime z) routes req = Some (k, params)"
  then show "k < length routes" using choose_last_bound [of _ routes 0 k] by (simp add: plain_runtime_def)
next
  fix req :: "plain_body gw_request" and t params and as bs :: gw_routes
  assume "match_template t (gw_Path req) = Some params"
    "\<forall>route \<in> set (as @ bs). misses (gw_Method req) (gw_Path req) route"
  then show "rt_choose (plain_runtime z) (as @ (gw_Method req, compile_template t) # bs) req = Some (length as, params)"
    using choose_last_only [of as bs "route_of req" "(gw_Method req, compile_template t)" params 0] misses_route_of [of req]
    by (simp add: plain_runtime_def route_of_def run_compiled)
next
  fix routes and req :: "plain_body gw_request"
  assume "\<forall>route \<in> set routes. misses (gw_Method req) (gw_Path req) route"
  then show "rt_choose (plain_runtime z) routes req = None"
    using misses_route_of [of req] by (simp add: plain_runtime_def choose_last_None)
next
  fix i :: u64
  have "unat i < 2 ^ 64" using unsigned_less [of i, where 'a = nat] by simp
  then show "rt_Uint64 (plain_runtime z) (format_uint (unat i)) = Inr i"
    by (simp add: plain_runtime_def parse_uint_format)
qed

section \<open>The route of a request\<close>

text \<open>The operations of the HTTP interface as the annotations describe them, with the id as it stands in the path.\<close>

datatype rest_op = RestInsert | RestUpdate string | RestDelete string | RestGet string | RestSearch | RestCompare

definition rest_route :: "string \<Rightarrow> string list \<Rightarrow> rest_op option" where
  "rest_route m path =
     (if path = [''v1'', ''fingerprint''] then if m = ''POST'' then Some RestInsert else None
      else case path of
        [a, b, c] \<Rightarrow>
          if a \<noteq> ''v1'' \<or> b \<noteq> ''fingerprint'' then None
          else if m = ''PUT'' then Some (RestUpdate c)
          else if m = ''DELETE'' then Some (RestDelete c)
          else if m = ''GET'' then Some (RestGet c)
          else if m = ''POST'' \<and> c = ''_search'' then Some RestSearch
          else if m = ''POST'' \<and> c = ''_compare'' then Some RestCompare
          else None
      | _ \<Rightarrow> None)"

definition fingerprint_routes :: gw_routes where
  "fingerprint_routes = [
     (''POST'', compile_template fingerprint_path),
     (''PUT'', compile_template (fingerprint_path @ [Variable ''id''])),
     (''DELETE'', compile_template (fingerprint_path @ [Variable ''id''])),
     (''GET'', compile_template (fingerprint_path @ [Variable ''id''])),
     (''POST'', compile_template (fingerprint_path @ [Literal ''_search''])),
     (''POST'', compile_template (fingerprint_path @ [Literal ''_compare'']))]"

lemma registered_routes:
  "map (\<lambda>(m, p, _). (m, p)) (RegisterFingerprintStoreHandlerServer L server []) = fingerprint_routes"
  "map (\<lambda>(m, p, _). (m, p)) (RegisterFingerprintStoreHandlerClient L client []) = fingerprint_routes"
  by (simp_all add: RegisterFingerprintStoreHandlerServer_def RegisterFingerprintStoreHandlerClient_def
      fingerprint_routes_def patterns_compiled)

lemma match_literals:
  "match_template (map Literal ss @ t) path =
     (if take (length ss) path = ss then match_template t (drop (length ss) path) else None)"
proof (induction ss arbitrary: path)
  case (Cons s ss)
  then show ?case by (cases path) auto
qed simp

lemma match_fingerprint_path:
  "match_template fingerprint_path path = (if path = [''v1'', ''fingerprint''] then Some [] else None)"
  "match_template (fingerprint_path @ [Literal s]) path = (if path = [''v1'', ''fingerprint'', s] then Some [] else None)"
  "match_template (fingerprint_path @ [Variable v]) path =
     (case path of [a, b, c] \<Rightarrow> if a = ''v1'' \<and> b = ''fingerprint'' then Some [(v, c)] else None | _ \<Rightarrow> None)"
proof -
  have end_of: "match_template [] cs = (if cs = [] then Some [] else None)" for cs by (cases cs) simp_all
  have all: "match_template (map Literal ss) path = (if path = ss then Some [] else None)" for ss
    using match_literals [of ss "[]" path] by (auto simp: end_of)
  from all [of "[''v1'', ''fingerprint'']"] all [of "[''v1'', ''fingerprint'', s]"]
  show "match_template fingerprint_path path = (if path = [''v1'', ''fingerprint''] then Some [] else None)"
    "match_template (fingerprint_path @ [Literal s]) path = (if path = [''v1'', ''fingerprint'', s] then Some [] else None)"
    by (simp_all add: fingerprint_path_def del: match_template.simps)
  have var: "match_template [Variable v] cs = (case cs of [c] \<Rightarrow> Some [(v, c)] | _ \<Rightarrow> None)" for cs
    by (cases cs) (simp_all add: end_of split: list.split)
  show "match_template (fingerprint_path @ [Variable v]) path =
     (case path of [a, b, c] \<Rightarrow> if a = ''v1'' \<and> b = ''fingerprint'' then Some [(v, c)] else None | _ \<Rightarrow> None)"
    using match_literals [of "[''v1'', ''fingerprint'']" "[Variable v]" path]
    by (auto simp: fingerprint_path_def var simp del: match_template.simps split: list.split)
qed

lemma rest_routes:
  "rest_route ''POST'' [''v1'', ''fingerprint''] = Some RestInsert"
  "rest_route ''PUT'' [''v1'', ''fingerprint'', c] = Some (RestUpdate c)"
  "rest_route ''DELETE'' [''v1'', ''fingerprint'', c] = Some (RestDelete c)"
  "rest_route ''GET'' [''v1'', ''fingerprint'', c] = Some (RestGet c)"
  "rest_route ''POST'' [''v1'', ''fingerprint'', ''_search''] = Some RestSearch"
  "rest_route ''POST'' [''v1'', ''fingerprint'', ''_compare''] = Some RestCompare"
  by (simp_all add: rest_route_def)

lemma missesI: "(m' = m \<Longrightarrow> match_template t path = None) \<Longrightarrow> misses m path (m', compile_template t)"
  by (auto simp: misses_def)

definition route_number :: "rest_op \<Rightarrow> nat \<times> (string \<times> string) list" where
  "route_number r =
     (case r of RestInsert \<Rightarrow> (0, []) | RestUpdate i \<Rightarrow> (1, [(''id'', i)]) | RestDelete i \<Rightarrow> (2, [(''id'', i)])
      | RestGet i \<Rightarrow> (3, [(''id'', i)]) | RestSearch \<Rightarrow> (4, []) | RestCompare \<Rightarrow> (5, []))"

lemma all_but_nth:
  assumes "\<forall>j < length xs. j \<noteq> k \<longrightarrow> P (xs ! j)"
  shows "\<forall>x \<in> set (take k xs @ drop (Suc k) xs). P x"
proof
  fix x
  assume "x \<in> set (take k xs @ drop (Suc k) xs)"
  then consider "x \<in> set (take k xs)" | "x \<in> set (drop (Suc k) xs)" by auto
  then show "P x"
  proof cases
    case 1
    then show ?thesis using assms by (auto simp: in_set_conv_nth)
  next
    case 2
    then obtain j where j: "j < length (drop (Suc k) xs)" "x = drop (Suc k) xs ! j" by (metis in_set_conv_nth)
    then have "x = xs ! (Suc k + j)" "Suc k + j < length xs" by simp_all
    then show ?thesis using assms by simp
  qed
qed

lemma misses_routes:
  assumes "rest_route m path = r" "k < 6" "map_option (fst \<circ> route_number) r \<noteq> Some k"
  shows "misses m path (fingerprint_routes ! k)"
proof -
  have num: "map_option (fst \<circ> route_number) (rest_route m path) = Some j \<Longrightarrow> k \<noteq> j" for j using assms(1,3) by auto
  have ne: "path \<noteq> p" if "map_option (fst \<circ> route_number) (rest_route m p) = Some k" for p using num that by auto
  have "k = 0 \<or> k = 1 \<or> k = 2 \<or> k = 3 \<or> k = 4 \<or> k = 5" using assms(2) by linarith
  then show ?thesis
    using ne [of "[''v1'', ''fingerprint'']"] ne [of "[''v1'', ''fingerprint'', ''_search'']"]
      ne [of "[''v1'', ''fingerprint'', ''_compare'']"] ne [of "[''v1'', ''fingerprint'', c]" for c]
    by (elim disjE)
      (auto simp: fingerprint_routes_def match_fingerprint_path rest_routes route_number_def
        intro!: missesI split: list.split)
qed

context gateway_runtime begin

lemma choose_route:
  assumes "gw_plain req"
  shows "rt_choose L fingerprint_routes req = map_option route_number (rest_route (gw_Method req) (gw_Path req))"
proof (cases "rest_route (gw_Method req) (gw_Path req)")
  case None
  have len6: "length fingerprint_routes = 6" by (simp add: fingerprint_routes_def)
  have "\<forall>route \<in> set fingerprint_routes. misses (gw_Method req) (gw_Path req) route"
    using misses_routes [OF None] len6 by (metis in_set_conv_nth map_option_eq_Some option.distinct(1))
  with unrouted [OF assms] None show ?thesis by simp
next
  case (Some r)
  obtain k params where k: "route_number r = (k, params)" by fastforce
  have k6: "k < 6" using k by (auto simp: route_number_def split: rest_op.splits)
  then have len: "k < length fingerprint_routes" by (simp add: fingerprint_routes_def)
  let ?as = "take k fingerprint_routes" and ?bs = "drop (Suc k) fingerprint_routes"
  obtain t where t: "fingerprint_routes ! k = (gw_Method req, compile_template t)" "match_template t (gw_Path req) = Some params"
    using Some k by (auto simp: rest_route_def route_number_def fingerprint_routes_def match_fingerprint_path
        split: if_splits list.splits)
  have "misses (gw_Method req) (gw_Path req) (fingerprint_routes ! j)" if "j < 6" "j \<noteq> k" for j
    using misses_routes [OF Some that(1)] that(2) k by simp
  then have "\<forall>route \<in> set (?as @ ?bs). misses (gw_Method req) (gw_Path req) route"
    by (intro all_but_nth) (simp add: fingerprint_routes_def)
  from routed [OF assms t(2) this] have "rt_choose L (?as @ fingerprint_routes ! k # ?bs) req = Some (k, params)"
    using len by (simp add: t(1))
  then show ?thesis using Some k len by (simp add: id_take_nth_drop [symmetric])
qed

end

section \<open>The gateway and the service\<close>

text \<open>
  What a connection does to a call: it gives the result of the method, or an error, with the method
  called or not.
\<close>

definition over_connection :: "('c, 'req, 'res, 'w) rpc \<Rightarrow> ('c, 'req, 'res, 'w) rpc \<Rightarrow> bool" where
  "over_connection server client \<longleftrightarrow> (\<forall>ctx req w.
     client ctx req w = server ctx req w \<or> (\<exists>e. client ctx req w = Some (Inl e, w)) \<or>
     (\<exists>e r w'. server ctx req w = Some (r, w') \<and> client ctx req w = Some (Inl e, w')))"

definition grpc_client :: "('c, 'g, 'w) FingerprintStoreServer \<Rightarrow> ('c, 'g, 'w) FingerprintStoreServer \<Rightarrow> bool" where
  "grpc_client server client \<longleftrightarrow>
     over_connection (api_Insert server) (api_Insert client) \<and> over_connection (api_Update server) (api_Update client) \<and>
     over_connection (api_Delete server) (api_Delete client) \<and> over_connection (api_Get server) (api_Get client) \<and>
     over_connection (api_Search server) (api_Search client) \<and> over_connection (api_Compare server) (api_Compare client)"

lemma grpc_client_self: "grpc_client server server"
  by (simp add: grpc_client_def over_connection_def)

lemma over_connection_Inr:
  "over_connection server client \<Longrightarrow> client ctx req w = Some (Inr m, w') \<Longrightarrow> server ctx req w = Some (Inr m, w')"
  unfolding over_connection_def by (metis Inl_Inr_False old.prod.inject option.inject)

lemma over_connection_state:
  "over_connection server client \<Longrightarrow> client ctx req w = Some (r, w') \<Longrightarrow> w' = w \<or> (\<exists>r'. server ctx req w = Some (r', w'))"
  unfolding over_connection_def by (metis old.prod.inject option.inject)

lemma service_api_methods [simp]:
  "api_Insert (service_api canceled s) = (\<lambda>ctx fp st. Some (Svc_Insert s fp st))"
  "api_Update (service_api canceled s) = not_implemented ''Update''"
  "api_Delete (service_api canceled s) = not_implemented ''Delete''"
  "api_Get (service_api canceled s) = (\<lambda>ctx i st. Svc_Get s i st)"
  "api_Search (service_api canceled s) = (\<lambda>ctx req st. Svc_Search s (canceled ctx) req st)"
  "api_Compare (service_api canceled s) = (\<lambda>ctx req st. Svc_Compare s (canceled ctx) req st)"
  by (simp_all add: service_api_def UnimplementedFingerprintStoreServer_def)

text \<open>The two registrations differ in the context of a call only.\<close>

lemma local_request_eq:
  "local_request_FingerprintStore_Insert_0 = request_FingerprintStore_Insert_0"
  "local_request_FingerprintStore_Update_0 = request_FingerprintStore_Update_0"
  "local_request_FingerprintStore_Delete_0 = request_FingerprintStore_Delete_0"
  "local_request_FingerprintStore_Get_0 = request_FingerprintStore_Get_0"
  "local_request_FingerprintStore_Search_0 = request_FingerprintStore_Search_0"
  "local_request_FingerprintStore_Compare_0 = request_FingerprintStore_Compare_0"
  by (simp_all add: fun_eq_iff request_defs local_request_defs)

text \<open>The call of a route.\<close>

definition rest_request ::
  "('b, 'g, 'c) gw_runtime \<Rightarrow> 'c \<Rightarrow> ('c, 'g, 'w) FingerprintStoreServer \<Rightarrow> 'b \<Rightarrow> rest_op \<Rightarrow> ('g, 'w) gw_call" where
  "rest_request L ctx api body r =
     (case r of
        RestInsert \<Rightarrow> request_FingerprintStore_Insert_0 L ctx api body []
      | RestUpdate i \<Rightarrow> request_FingerprintStore_Update_0 L ctx api body [(''id'', i)]
      | RestDelete i \<Rightarrow> request_FingerprintStore_Delete_0 L ctx api body [(''id'', i)]
      | RestGet i \<Rightarrow> request_FingerprintStore_Get_0 L ctx api body [(''id'', i)]
      | RestSearch \<Rightarrow> request_FingerprintStore_Search_0 L ctx api body []
      | RestCompare \<Rightarrow> request_FingerprintStore_Compare_0 L ctx api body [])"

definition rest_method :: "rest_op \<Rightarrow> string" where
  "rest_method r = ''/fpstore.FingerprintStore/'' @
     (case r of RestInsert \<Rightarrow> ''Insert'' | RestUpdate _ \<Rightarrow> ''Update'' | RestDelete _ \<Rightarrow> ''Delete'' | RestGet _ \<Rightarrow> ''Get''
      | RestSearch \<Rightarrow> ''Search'' | RestCompare \<Rightarrow> ''Compare'')"

definition rest_template :: "rest_op \<Rightarrow> string" where
  "rest_template r = ''/v1/fingerprint'' @
     (case r of RestInsert \<Rightarrow> [] | RestSearch \<Rightarrow> ''/_search'' | RestCompare \<Rightarrow> ''/_compare'' | _ \<Rightarrow> ''/{id}'')"

definition rest_answer ::
  "('b gw_request \<Rightarrow> string \<Rightarrow> string \<Rightarrow> status + 'c) \<Rightarrow> ('b, 'g, 'c) gw_runtime \<Rightarrow> ('c, 'g, 'w) FingerprintStoreServer \<Rightarrow>
   'b gw_request \<Rightarrow> rest_op \<Rightarrow> 'w \<Rightarrow> ('g gw_result \<times> 'w) option" where
  "rest_answer annotate L api req r w =
     gw_handle annotate (rest_method r) (rest_template r) (\<lambda>ctx body _. rest_request L ctx api body r) req [] w"

context gateway_runtime begin

lemma serve_route:
  assumes "gw_plain req"
  shows "gw_ServeHTTP L (RegisterFingerprintStoreHandlerServer L server []) req w =
      (case rest_route (gw_Method req) (gw_Path req) of
         None \<Rightarrow> Some (NoRoute, w) | Some r \<Rightarrow> rest_answer (rt_AnnotateIncoming L) L server req r w)"
    and "gw_ServeHTTP L (RegisterFingerprintStoreHandlerClient L client []) req w =
      (case rest_route (gw_Method req) (gw_Path req) of
         None \<Rightarrow> Some (NoRoute, w) | Some r \<Rightarrow> rest_answer (rt_Annotate L) L client req r w)"
proof -
  note answer = rest_answer_def gw_handle_def rest_method_def rest_template_def rest_request_def
  show "gw_ServeHTTP L (RegisterFingerprintStoreHandlerServer L server []) req w =
      (case rest_route (gw_Method req) (gw_Path req) of
         None \<Rightarrow> Some (NoRoute, w) | Some r \<Rightarrow> rest_answer (rt_AnnotateIncoming L) L server req r w)"
    unfolding gw_ServeHTTP_def registered_routes choose_route [OF assms]
    by (cases "rest_route (gw_Method req) (gw_Path req)"; cases "the (rest_route (gw_Method req) (gw_Path req))")
      (simp_all add: route_number_def RegisterFingerprintStoreHandlerServer_def local_request_eq answer)
  show "gw_ServeHTTP L (RegisterFingerprintStoreHandlerClient L client []) req w =
      (case rest_route (gw_Method req) (gw_Path req) of
         None \<Rightarrow> Some (NoRoute, w) | Some r \<Rightarrow> rest_answer (rt_Annotate L) L client req r w)"
    unfolding gw_ServeHTTP_def registered_routes choose_route [OF assms]
    by (cases "rest_route (gw_Method req) (gw_Path req)"; cases "the (rest_route (gw_Method req) (gw_Path req))")
      (simp_all add: route_number_def RegisterFingerprintStoreHandlerClient_def answer)
qed

end

section \<open>Starting the gateway\<close>

text \<open>
  \<open>RunGateway\<close>: the routes of the service at the endpoint the flags give, and the address to listen
  on, or the error of the connection.
\<close>

definition RunGateway_serves ::
  "('b, 'g, 'c) gw_runtime \<Rightarrow> (string \<Rightarrow> go_error + ('c, 'g, 'w) FingerprintStoreServer) \<Rightarrow> cli_context \<Rightarrow>
   go_error + (string \<times> ('b, 'g, 'w) gw_mux)" where
  "RunGateway_serves L dialer c =
     (case RegisterFingerprintStoreHandlerFromEndpoint L dialer (fst (RunGateway c)) [] of
        Inl err \<Rightarrow> Inl err
      | Inr mux \<Rightarrow> Inr (snd (RunGateway c), mux))"

lemma RunGateway_serves_client:
  "RunGateway_serves L dialer c = Inr (addr, mux) \<Longrightarrow>
     \<exists>client. dialer (fst (RunGateway c)) = Inr client \<and> addr = snd (RunGateway c) \<and>
       mux = RegisterFingerprintStoreHandlerClient L client []"
  by (auto simp: RunGateway_serves_def RegisterFingerprintStoreHandlerFromEndpoint_def
      RegisterFingerprintStoreHandler_def split: sum.splits)

section \<open>Properties\<close>

text \<open>What becomes of the result of a method.\<close>

definition gw_reply :: "('res \<Rightarrow> 'g gw_message) \<Rightarrow> (status + 'res) \<times> 'w \<Rightarrow> 'g gw_result \<times> 'w" where
  "gw_reply msg = map_prod (\<lambda>r. case r of Inl e \<Rightarrow> HTTPError e | Inr m \<Rightarrow> Forward (msg m)) id"

lemma reply_answer: "map_option (map_prod gw_result_of id) (rpc_answer msg x) = map_option (gw_reply msg) x"
  by (cases x) (auto simp: rpc_answer_def gw_reply_def gw_result_of_def split: sum.split)

lemmas rest_simps = gw_result_of_def rest_answer_def gw_handle_def rest_request_def request_defs reply_answer body_message_def path_id_def

lemma refused_call:
  assumes "r = RestUpdate c \<or> r = RestDelete c"
  shows "\<exists>e. rest_request L ctx (service_api canceled s) body r st = Some (Inl e, st)"
  using assms by (auto simp: rest_request_def request_defs rpc_answer_def not_implemented_def split: sum.split)

text \<open>A request of none of the four kinds that are served has no route, or the route of a method the service lacks.\<close>

lemma unserved_route:
  assumes "\<not> (m = ''GET'' \<and> (\<exists>x. path = [''v1'', ''fingerprint'', x]))"
    and "\<not> (m = ''POST'' \<and> path \<in> {[''v1'', ''fingerprint''], [''v1'', ''fingerprint'', ''_search''], [''v1'', ''fingerprint'', ''_compare'']})"
  shows "rest_route m path \<in> {None, Some (RestUpdate (path ! 2)), Some (RestDelete (path ! 2))}"
  using assms by (auto simp: rest_route_def split: list.splits)

text \<open>
  C15. What the gateway does in the process of the service with every request that asks for no other
  method by a header or as a form, has no empty segment in its path and gets a context
  (\<open>gw_plain\<close> and the third hypothesis). A POST to \<open>/v1/fingerprint\<close> inserts the fingerprint of its body, a GET
  of \<open>/v1/fingerprint/\<close> and an id gets this id, and a POST to \<open>_search\<close> or \<open>_compare\<close> searches or compares,
  each exactly as the method of the service does, with its result or its error for an answer and with the
  zero message for an empty body. An id that cannot be parsed and a body that cannot be decoded are
  refused as invalid arguments. Every other request, PUT and DELETE of a fingerprint and all other
  methods and paths, is answered without a message of the service. No refused request changes the store.
\<close>

theorem gateway_serves:
  assumes "gateway_runtime L" and "gw_plain req" and "\<forall>rpc. \<forall>p. rt_AnnotateIncoming L req rpc p = Inr (ctx rpc)"
    and "serve = gw_ServeHTTP L (RegisterFingerprintStoreHandlerServer L (service_api canceled s) []) req"
  shows "(gw_Method req = ''GET'' \<and> gw_Path req = [''v1'', ''fingerprint'', format_uint (unat i)] \<longrightarrow>
      serve st = map_option (gw_reply GetResponse) (Svc_Get s i st)) \<and>
    (gw_Method req = ''GET'' \<and> gw_Path req = [''v1'', ''fingerprint'', c] \<longrightarrow>
      serve st = (case rt_Uint64 L c of
          Inl e \<Rightarrow> Some (HTTPError (Status InvalidArgument (''type mismatch, parameter: id, error: '' @ e)), st)
        | Inr j \<Rightarrow> map_option (gw_reply GetResponse) (Svc_Get s j st))) \<and>
    (gw_Method req = ''POST'' \<and> gw_Path req = [''v1'', ''fingerprint''] \<longrightarrow>
      serve st = (case rt_Insert L (gw_Body req) of
          DecodeError e \<Rightarrow> Some (HTTPError (Status InvalidArgument e), st)
        | DecodeEOF \<Rightarrow> Some (gw_reply InsertResponse (Svc_Insert s None st))
        | Decoded fp \<Rightarrow> Some (gw_reply InsertResponse (Svc_Insert s fp st)))) \<and>
    (gw_Method req = ''POST'' \<and> gw_Path req = [''v1'', ''fingerprint'', ''_search''] \<longrightarrow>
      serve st = (case rt_Search L (gw_Body req) of
          DecodeError e \<Rightarrow> Some (HTTPError (Status InvalidArgument e), st)
        | DecodeEOF \<Rightarrow> map_option (gw_reply MatchesResponse)
            (Svc_Search s (canceled (ctx ''/fpstore.FingerprintStore/Search'')) (zero_search (rt_zero L)) st)
        | Decoded sreq \<Rightarrow> map_option (gw_reply MatchesResponse)
            (Svc_Search s (canceled (ctx ''/fpstore.FingerprintStore/Search'')) sreq st))) \<and>
    (gw_Method req = ''POST'' \<and> gw_Path req = [''v1'', ''fingerprint'', ''_compare''] \<longrightarrow>
      serve st = (case rt_Compare L (gw_Body req) of
          DecodeError e \<Rightarrow> Some (HTTPError (Status InvalidArgument e), st)
        | DecodeEOF \<Rightarrow> map_option (gw_reply MatchesResponse)
            (Svc_Compare s (canceled (ctx ''/fpstore.FingerprintStore/Compare'')) (zero_compare (rt_zero L)) st)
        | Decoded creq \<Rightarrow> map_option (gw_reply MatchesResponse)
            (Svc_Compare s (canceled (ctx ''/fpstore.FingerprintStore/Compare'')) creq st))) \<and>
    (\<not> (gw_Method req = ''GET'' \<and> (\<exists>x. gw_Path req = [''v1'', ''fingerprint'', x])) \<and>
     \<not> (gw_Method req = ''POST'' \<and>
        gw_Path req \<in> {[''v1'', ''fingerprint''], [''v1'', ''fingerprint'', ''_search''], [''v1'', ''fingerprint'', ''_compare'']}) \<longrightarrow>
      (\<exists>r. serve st = Some (r, st) \<and> (\<forall>m. r \<noteq> Forward m)))"
proof -
  note route = gateway_runtime.serve_route(1) [OF assms(1,2), of "service_api canceled s"]
  have ann: "rt_AnnotateIncoming L req rpc p = Inr (ctx rpc)" for rpc p using assms(3) by blast
  have refused: "\<exists>e. rest_answer (rt_AnnotateIncoming L) L (service_api canceled s) req r st = Some (HTTPError e, st)"
    if "r = RestUpdate x \<or> r = RestDelete x" for r x
    using refused_call [OF that, of L "ctx (rest_method r)" canceled s "gw_Body req" st]
    by (auto simp: rest_answer_def gw_handle_def ann gw_result_of_def)
  note run = assms(4) route rest_routes rest_simps rest_method_def ann
  show ?thesis
  proof (intro conjI, goal_cases)
    case 1
    have "rt_Uint64 L (format_uint (unat i)) = Inr i" by (rule gateway_runtime.ids [OF assms(1)])
    then show ?case by (auto simp: run)
  next
    case 2
    show ?case by (cases "rt_Uint64 L c") (auto simp: run)
  next
    case 3
    show ?case by (cases "rt_Insert L (gw_Body req)") (auto simp: run)
  next
    case 4
    show ?case by (cases "rt_Search L (gw_Body req)") (auto simp: run)
  next
    case 5
    show ?case by (cases "rt_Compare L (gw_Body req)") (auto simp: run)
  next
    case 6
    show ?case
      using unserved_route [of "gw_Method req" "gw_Path req"] refused [of "RestUpdate (gw_Path req ! 2)"]
        refused [of "RestDelete (gw_Path req ! 2)"]
      by (auto simp: assms(4) route)
  qed
qed

theorem gateway_serves_witness:
  "gw_ServeHTTP (plain_runtime (0 :: real))
       (RegisterFingerprintStoreHandlerServer (plain_runtime 0) (service_api (\<lambda>_ _. False) (world_service real_floats silent_server)) [])
       \<lparr> gw_Method = ''GET'', gw_Path = [''v1'', ''fingerprint'', ''7''], gw_Override = False, gw_Body = EmptyBody \<rparr> (start_world []) =
     map_option (gw_reply GetResponse) (Svc_Get (world_service real_floats silent_server) 7 (start_world [])) \<and>
   (\<exists>r. gw_ServeHTTP (plain_runtime (0 :: real))
       (RegisterFingerprintStoreHandlerServer (plain_runtime 0) (service_api (\<lambda>_ _. False) (world_service real_floats silent_server)) [])
       \<lparr> gw_Method = ''POST'', gw_Path = [''v1'', ''fingerprint'', ''7''], gw_Override = False, gw_Body = EmptyBody \<rparr> (start_world []) =
     Some (r, start_world []) \<and> (\<forall>m. r \<noteq> Forward m))"
proof
  let ?L = "plain_runtime (0 :: real)" and ?s = "world_service real_floats silent_server"
  let ?req = "\<lambda>m. \<lparr> gw_Method = m, gw_Path = [''v1'', ''fingerprint'', ''7''], gw_Override = False, gw_Body = EmptyBody \<rparr>"
  let ?serve = "\<lambda>m. gw_ServeHTTP ?L (RegisterFingerprintStoreHandlerServer ?L (service_api (\<lambda>_ _. False) ?s) []) (?req m)"
  have plain: "gw_plain (?req m)" for m by (simp add: gw_plain_def)
  have ctx: "\<forall>rpc. \<forall>p. rt_AnnotateIncoming ?L (?req m) rpc p = Inr rpc" for m by (simp add: plain_runtime_def)
  note serves = gateway_serves [OF plain.gateway_runtime_axioms plain ctx refl,
      where canceled = "\<lambda>_ _. False" and s = ?s and st = "start_world []" and i = 7 and c = "''7''"]
  have "format_uint (unat (7 :: u64)) = ''7''" by code_simp
  then show "?serve ''GET'' (start_world []) = map_option (gw_reply GetResponse) (Svc_Get ?s 7 (start_world []))"
    using serves [of "''GET''", THEN conjunct1] by simp
  show "\<exists>r. ?serve ''POST'' (start_world []) = Some (r, start_world []) \<and> (\<forall>m. r \<noteq> Forward m)"
    using serves [of "''POST''"] by simp
qed

text \<open>
  C10. One request without a body stops the server. The gateway reads an empty body as the message
  without a fingerprint and passes it on, and the service looks at the hashes of a fingerprint that
  is not there: a POST of nothing to \<open>_search\<close> or to \<open>_compare\<close> panics, in every state.
\<close>

theorem empty_post_panics:
  assumes "gateway_runtime L" and "gw_plain req" and "\<forall>rpc. \<forall>p. rt_AnnotateIncoming L req rpc p = Inr (ctx rpc)"
    and "\<forall>rpc. \<forall>p. rt_Annotate L req rpc p = Inr (ctx rpc)"
    and "gw_Method req = ''POST''" and "gw_Path req \<in> {[''v1'', ''fingerprint'', ''_search''], [''v1'', ''fingerprint'', ''_compare'']}"
    and "rt_Search L (gw_Body req) = DecodeEOF" and "rt_Compare L (gw_Body req) = DecodeEOF"
  shows "gw_ServeHTTP L (RegisterFingerprintStoreHandlerServer L (service_api canceled s) []) req st = None \<and>
    gw_ServeHTTP L (RegisterFingerprintStoreHandlerClient L (service_api canceled s) []) req st = None"
proof -
  note routes = gateway_runtime.serve_route [OF assms(1,2), of "service_api canceled s"]
  have "rt_AnnotateIncoming L req rpc p = Inr (ctx rpc)" "rt_Annotate L req rpc p = Inr (ctx rpc)" for rpc p
    using assms(3,4) by blast+
  then show ?thesis
    using assms(5-8)
    by (auto simp: routes rest_routes rest_simps zero_search_def zero_compare_def Svc_Search_def Svc_Compare_def)
qed

theorem empty_post_panics_witness:
  "gw_ServeHTTP (plain_runtime (0 :: real))
       (RegisterFingerprintStoreHandlerServer (plain_runtime 0) (service_api (\<lambda>_ _. False) (world_service real_floats silent_server)) [])
       \<lparr> gw_Method = ''POST'', gw_Path = [''v1'', ''fingerprint'', ''_search''], gw_Override = False, gw_Body = EmptyBody \<rparr> (start_world []) = None"
  using empty_post_panics [OF plain.gateway_runtime_axioms [of 0],
      of "\<lparr> gw_Method = ''POST'', gw_Path = [''v1'', ''fingerprint'', ''_search''], gw_Override = False, gw_Body = EmptyBody \<rparr>" "\<lambda>rpc. rpc"
        "\<lambda>_ _. False" "world_service real_floats silent_server" "start_world []"]
  by (simp add: gw_plain_def plain_runtime_def plain_decode_def)

text \<open>The gateway of the index, which no command starts, passes a search on.\<close>

context gateway_runtime begin

lemma index_search:
  assumes "gw_plain req" and "gw_Method req = ''POST''" and "gw_Path req = [''index.Index'', ''Search'']"
    and "rt_IndexSearch L (gw_Body req) = Decoded hashes"
    and "rt_Annotate L req ''/index.Index/Search'' ''/index.Index/Search'' = Inr ctx"
  shows "gw_ServeHTTP L (RegisterIndexHandlerClient L client []) req w =
    map_option (gw_reply IndexResults) (ix_Search client ctx hashes w)"
proof -
  let ?t = "\<lambda>m. [Literal ''index.Index'', Literal m]"
  have "misses ''POST'' (gw_Path req) (''POST'', compile_template (?t ''Insert''))"
    by (rule missesI) (simp add: assms(3))
  with routed [OF assms(1), of "?t ''Search''" "[]" "[]" "[(''POST'', compile_template (?t ''Insert''))]"] assms(2,3)
  have "rt_choose L [(''POST'', pattern_Index_Search_0), (''POST'', pattern_Index_Insert_0)] req = Some (0, [])"
    by (simp add: patterns_compiled)
  then show ?thesis
    using assms(4,5) by (simp add: gw_ServeHTTP_def RegisterIndexHandlerClient_def rest_simps)
qed

end

section \<open>Histories\<close>

inductive gateway_reachable ::
  "('b, 'g, 'c) gw_runtime \<Rightarrow> ('b, 'g, 'w) gw_mux \<Rightarrow> 'w \<Rightarrow> 'w \<Rightarrow> bool" for L mux st0 where
  gateway_start: "gateway_reachable L mux st0 st0"
| gateway_next: "gateway_reachable L mux st0 st \<Longrightarrow> gw_ServeHTTP L mux req st = Some (r, st') \<Longrightarrow> gateway_reachable L mux st0 st'"

lemma answer_state: "rpc_answer msg x = Some (r, w') \<Longrightarrow> \<exists>r'. x = Some (r', w')"
  by (auto simp: rpc_answer_def)

lemma handler_step:
  assumes "grpc_client (service_api canceled s) client" and "(m, p, h) \<in> set (RegisterFingerprintStoreHandlerClient L client [])"
    and "h req params st = Some (r, st')"
  shows "st' = st \<or> service_step s st st'"
proof -
  have ok: "over_connection (\<lambda>ctx fp st. Some (Svc_Insert s fp st)) (api_Insert client)"
    "over_connection (not_implemented ''Update'') (api_Update client)" "over_connection (not_implemented ''Delete'') (api_Delete client)"
    "over_connection (\<lambda>ctx i st. Svc_Get s i st) (api_Get client)"
    "over_connection (\<lambda>ctx req st. Svc_Search s (canceled ctx) req st) (api_Search client)"
    "over_connection (\<lambda>ctx req st. Svc_Compare s (canceled ctx) req st) (api_Compare client)"
    using assms(1) by (simp_all add: grpc_client_def)
  note state = ok [THEN over_connection_state]
  show ?thesis
    using assms(2,3)
    by (auto simp: RegisterFingerprintStoreHandlerClient_def gw_handle_def request_defs not_implemented_def split: sum.splits
        dest!: answer_state state intro: service_step.intros)
qed

lemma gw_result_of_Forward: "gw_result_of r = Forward m \<longleftrightarrow> r = Inr m"
  by (cases r) (auto simp: gw_result_of_def)

lemma reply_Forward: "gw_reply msg x = (Forward m, w) \<longleftrightarrow> (\<exists>y. x = (Inr y, w) \<and> m = msg y)"
proof -
  have "(case r of Inl e \<Rightarrow> HTTPError e | Inr y \<Rightarrow> Forward (msg y)) = Forward m \<longleftrightarrow> (\<exists>y. r = Inr y \<and> m = msg y)" for r
    by (cases r) auto
  then show ?thesis by (cases x) (auto simp: gw_reply_def)
qed

lemma answer_Inr: "rpc_answer msg x = Some (Inr m, w) \<longleftrightarrow> (\<exists>y. x = Some (Inr y, w) \<and> m = msg y)"
proof -
  have "map_sum id msg r = Inr m \<longleftrightarrow> (\<exists>y. r = Inr y \<and> m = msg y)" for r by (cases r) auto
  then show ?thesis by (auto simp: rpc_answer_def)
qed

lemma handler_inserts:
  assumes "grpc_client (service_api canceled s) client" and "(m, p, h) \<in> set (RegisterFingerprintStoreHandlerClient L client [])"
    and "h req params st = Some (Forward (InsertResponse i), st')"
  shows "\<exists>fp. body_message None (rt_Insert L (gw_Body req)) = Inr fp \<and> Svc_Insert s fp st = (Inr i, st')"
proof -
  have "over_connection (\<lambda>ctx fp st. Some (Svc_Insert s fp st)) (api_Insert client)"
    using assms(1) by (simp add: grpc_client_def)
  note server = over_connection_Inr [OF this]
  show ?thesis
    using assms(2,3)
    by (auto simp: RegisterFingerprintStoreHandlerClient_def gw_handle_def request_defs gw_result_of_Forward answer_Inr
        split: sum.splits dest!: server)
qed

context gateway_runtime begin

lemma serve_handler:
  assumes "gw_ServeHTTP L mux req st = Some (r, st')"
  shows "r = NoRoute \<and> st' = st \<or> (\<exists>m p h params. (m, p, h) \<in> set mux \<and> h req params st = Some (r, st'))"
proof (cases "rt_choose L (map (\<lambda>(m, p, _). (m, p)) mux) req")
  case (Some x)
  obtain k params where x: "x = (k, params)" by fastforce
  have "k < length mux" using chosen Some x by fastforce
  then have "mux ! k \<in> set mux" by simp
  with assms Some x show ?thesis by (cases "mux ! k") (force simp: gw_ServeHTTP_def)
qed (use assms in \<open>simp add: gw_ServeHTTP_def\<close>)

lemma gateway_service_reachable:
  assumes "grpc_client (service_api canceled s) client"
  shows "gateway_reachable L (RegisterFingerprintStoreHandlerClient L client []) st0 st \<Longrightarrow> service_reachable s st0 st"
proof (induction rule: gateway_reachable.induct)
  case (gateway_next st req r st')
  then have "st' = st \<or> service_step s st st'"
    using serve_handler [OF gateway_next.hyps(2)] handler_step [OF assms] by blast
  with gateway_next.IH show ?case by (auto intro: service_next)
qed (rule service_start)

end

text \<open>
  C9. An insertion over HTTP lasts. Whatever requests the gateway has served, and however its
  connection to the service has failed in between: when a request is answered with a new id, the body of
  the request was a fingerprint, and after any further requests, deletions included, the database has
  this fingerprint under the id, and a GET of the id gives nothing else, unless the legacy table has
  the id.
\<close>

theorem gateway_insert_durable:
  assumes "fpstore_setup C R D raw db v1 v2 s" and "gateway_runtime L" and "grpc_client (service_api canceled s) client"
    and "coherent (cache_view C raw) db (v1_view v1) (v2_view C v2) (world st0)"
    and "mux = RegisterFingerprintStoreHandlerClient L client []"
    and "gateway_reachable L mux st0 st1" and "gw_ServeHTTP L mux req st1 = Some (Forward (InsertResponse i), st2)"
    and "gateway_reachable L mux st2 st3"
  shows "\<exists>fp. rt_Insert L (gw_Body req) = Decoded (Some fp) \<and> v2_view C v2 (db (world st3)) i = Some fp \<and>
    (\<forall>get fp' st4. gw_plain get \<and> gw_Method get = ''GET'' \<and> gw_Path get = [''v1'', ''fingerprint'', format_uint (unat i)] \<and>
      gw_ServeHTTP L mux get st3 = Some (Forward (GetResponse fp'), st4) \<longrightarrow>
      fp' = fp \<or> v1_view v1 (db (world st3)) i = Some fp')"
proof -
  note svc = fpstore_service [OF assms(1)]
  note reach = gateway_runtime.gateway_service_reachable [OF assms(2,3)]
  have reach1: "service_reachable s st0 st1" and reach3: "service_reachable s st2 st3"
    using reach assms(6,8) by (simp_all add: assms(5))
  have safe1: "coherent (cache_view C raw) db (v1_view v1) (v2_view C v2) (world st1)"
    using fingerprint_service.reachable_safe [OF svc reach1 assms(4)] by blast
  obtain m p h params where h: "(m, p, h) \<in> set (RegisterFingerprintStoreHandlerClient L client [])"
      "h req params st1 = Some (Forward (InsertResponse i), st2)"
    using gateway_runtime.serve_handler [OF assms(2,7)] by (auto simp: assms(5))
  obtain body where body: "body_message None (rt_Insert L (gw_Body req)) = Inr body" "Svc_Insert s body st1 = (Inr i, st2)"
    using handler_inserts [OF assms(3) h] by blast
  from fingerprint_service.Svc_Insert_ok [OF svc body(2) safe1] obtain fp where fp: "body = Some fp"
    "v2_view C v2 (db (world st2)) i = Some fp" and safe2: "coherent (cache_view C raw) db (v1_view v1) (v2_view C v2) (world st2)"
    by auto
  have decoded: "rt_Insert L (gw_Body req) = Decoded (Some fp)"
    using body(1) fp(1) by (cases "rt_Insert L (gw_Body req)") (simp_all add: body_message_def)
  have st3: "coherent (cache_view C raw) db (v1_view v1) (v2_view C v2) (world st3)" "v2_view C v2 (db (world st3)) i = Some fp"
    using fingerprint_service.reachable_safe [OF svc reach3 safe2] fp(2) by (auto simp: map_le_def dom_def)
  have "fp' = fp \<or> v1_view v1 (db (world st3)) i = Some fp'"
    if get: "gw_plain get" "gw_Method get = ''GET''" "gw_Path get = [''v1'', ''fingerprint'', format_uint (unat i)]"
      "gw_ServeHTTP L mux get st3 = Some (Forward (GetResponse fp'), st4)" for get fp' st4
  proof -
    have "over_connection (\<lambda>ctx i st. Svc_Get s i st) (api_Get client)" using assms(3) by (simp add: grpc_client_def)
    note over_connection_Inr [OF this]
    then have "Svc_Get s i st3 = Some (Inr fp', st4)"
      using get(4) gateway_runtime.ids [OF assms(2), of i]
      by (auto simp: assms(5) gateway_runtime.serve_route(2) [OF assms(2) get(1)] get(2,3) rest_routes rest_simps reply_Forward
          split: sum.splits)
    with fingerprint_service.Svc_Get_ok [OF svc, of i st3] st3 show ?thesis by (fastforce simp: coherent_def)
  qed
  with decoded st3(2) show ?thesis by blast
qed

theorem gateway_insert_durable_witness:
  "\<exists>st. gw_ServeHTTP (plain_runtime (0 :: real))
       (RegisterFingerprintStoreHandlerClient (plain_runtime 0) (service_api (\<lambda>_ _. False) (world_service real_floats silent_server)) [])
       \<lparr> gw_Method = ''POST'', gw_Path = [''v1'', ''fingerprint''], gw_Override = False,
         gw_Body = FingerprintBody \<lparr> Version = 1, Hashes = [5] \<rparr> \<rparr> (start_world []) = Some (Forward (InsertResponse 100), st) \<and>
     v2_view world_codec (\<lambda>d. map_of (snd d)) (world_tables (world st)) 100 = Some \<lparr> Version = 1, Hashes = [5] \<rparr>"
proof -
  let ?s = "world_service real_floats silent_server"
  let ?req = "\<lparr> gw_Method = ''POST'', gw_Path = [''v1'', ''fingerprint''], gw_Override = False,
         gw_Body = FingerprintBody \<lparr> Version = 1, Hashes = [5] \<rparr> \<rparr>"
  let ?r = "Svc_Insert ?s (Some \<lparr> Version = 1, Hashes = [5] \<rparr>) (start_world [])"
  have "fst ?r = Inr 100" by (rule start_facts)
  then obtain st where r: "?r = (Inr 100, st)" by (metis prod.collapse)
  have "gw_plain ?req" by (simp add: gw_plain_def)
  then have served: "gw_ServeHTTP (plain_runtime (0 :: real))
      (RegisterFingerprintStoreHandlerClient (plain_runtime 0) (service_api (\<lambda>_ _. False) ?s) []) ?req (start_world []) =
      Some (Forward (InsertResponse 100), st)"
    using r by (subst plain.serve_route(2))
      (simp_all add: rest_routes rest_simps plain_runtime_def plain_decode_def gw_reply_def)
  from gateway_insert_durable [OF world_ok plain.gateway_runtime_axioms grpc_client_self start_coherent refl gateway_start served gateway_start]
  show ?thesis using served by (auto simp: plain_runtime_def plain_decode_def)
qed

end
