(* ===== verification/Http.thy ===== *)
theory Http
  imports GoUrl OsFS
begin

text \<open>
  The parts of the Go package \<open>net/http\<close> the modelled code uses, as of Go 1.21, the version of the
  module: requests with their forms, the response writer and the multiplexer. A handler works on
  the response and on a world of its own; \<open>None\<close> is a panic. Reading a form fails silently, as
  \<open>FormValue\<close> ignores the errors. Content sniffing, the body of a redirect and the length limit of
  a form are left out.
\<close>

section \<open>Requests\<close>

text \<open>
  \<open>req_Header\<close> is the first value of a header, \<open>''''\<close> if there is none; \<open>req_Media\<close> the media type of
  the body; \<open>req_Body\<close> is \<open>None\<close> if reading it fails.
\<close>

record http_request =
  req_Method :: string
  req_URI :: string
  req_Host :: string
  req_Path :: string
  req_RawQuery :: string
  req_Header :: "string \<Rightarrow> string"
  req_Media :: string
  req_Body :: "string option"

definition PostForm :: "http_request \<Rightarrow> (string \<times> string) list" where
  "PostForm r =
     (if req_Method r \<in> {''POST'', ''PUT'', ''PATCH''} \<and> req_Media r = ''application/x-www-form-urlencoded''
      then case req_Body r of None \<Rightarrow> [] | Some b \<Rightarrow> ParseQuery b
      else [])"

text \<open>\<open>multipart\<close> is what the package \<open>mime/multipart\<close> reads from a body.\<close>

definition Form :: "(http_request \<Rightarrow> (string \<times> string) list) \<Rightarrow> http_request \<Rightarrow> (string \<times> string) list" where
  "Form multipart r =
     PostForm r @ ParseQuery (req_RawQuery r) @ (if req_Media r = ''multipart/form-data'' then multipart r else [])"

definition FormValue :: "(http_request \<Rightarrow> (string \<times> string) list) \<Rightarrow> http_request \<Rightarrow> string \<Rightarrow> string" where
  "FormValue multipart r key = (case map_of (Form multipart r) key of None \<Rightarrow> '''' | Some v \<Rightarrow> v)"

section \<open>Responses\<close>

text \<open>\<open>rw_sent\<close> is the status and the header that went out with it; only the first status counts.\<close>

record response_writer =
  rw_Header :: "string \<rightharpoonup> string"
  rw_sent :: "(int \<times> (string \<rightharpoonup> string)) option"
  rw_body :: string

definition fresh_response :: response_writer where
  "fresh_response = \<lparr> rw_Header = Map.empty, rw_sent = None, rw_body = [] \<rparr>"

definition Header_Set :: "string \<Rightarrow> string \<Rightarrow> response_writer \<Rightarrow> response_writer" where
  "Header_Set k v rw = rw\<lparr> rw_Header := (rw_Header rw)(k \<mapsto> v) \<rparr>"

definition WriteHeader :: "int \<Rightarrow> response_writer \<Rightarrow> response_writer" where
  "WriteHeader status rw =
     (case rw_sent rw of None \<Rightarrow> rw\<lparr> rw_sent := Some (status, rw_Header rw) \<rparr> | Some _ \<Rightarrow> rw)"

definition Write :: "string \<Rightarrow> response_writer \<Rightarrow> response_writer" where
  "Write content rw = (let rw = WriteHeader 200 rw in rw\<lparr> rw_body := rw_body rw @ content \<rparr>)"

definition http_Error :: "string \<Rightarrow> int \<Rightarrow> response_writer \<Rightarrow> response_writer" where
  "http_Error msg code rw =
     Write (msg @ [CHR 0x0A]) (WriteHeader code
       (Header_Set ''X-Content-Type-Options'' ''nosniff'' (Header_Set ''Content-Type'' ''text/plain; charset=utf-8'' rw)))"

type_synonym 'w handler = "http_request \<Rightarrow> response_writer \<times> 'w \<Rightarrow> (response_writer \<times> 'w) option"

definition NotFound :: "'w handler" where
  "NotFound r = (\<lambda>(rw, w). Some (http_Error ''404 page not found'' 404 rw, w))"

text \<open>\<open>http.Redirect\<close> to a path, with the query of the request\<close>

definition Redirect :: "string \<Rightarrow> 'w handler" where
  "Redirect path r = (\<lambda>(rw, w).
     Some (WriteHeader 301 (Header_Set ''Location''
       (escape encodePath path @ (if req_RawQuery r = '''' then '''' else ''?'' @ req_RawQuery r)) rw), w))"

section \<open>The multiplexer\<close>

text \<open>
  The patterns with their handlers, those that end in a slash, the longest first, and whether one
  has a host. \<open>Handle\<close> panics on the empty pattern and on one that is there.
\<close>

record 'h ServeMux =
  mux_m :: "(string \<times> 'h) list"
  mux_es :: "(string \<times> 'h) list"
  mux_hosts :: bool

definition NewServeMux :: "'h ServeMux" where
  "NewServeMux = \<lparr> mux_m = [], mux_es = [], mux_hosts = False \<rparr>"

fun append_sorted :: "(string \<times> 'h) list \<Rightarrow> string \<times> 'h \<Rightarrow> (string \<times> 'h) list" where
  "append_sorted [] e = [e]"
| "append_sorted (x # es) e = (if length (fst x) < length (fst e) then e # x # es else x # append_sorted es e)"

definition Handle :: "string \<Rightarrow> 'h \<Rightarrow> 'h ServeMux \<Rightarrow> 'h ServeMux option" where
  "Handle pattern h mux =
     (if pattern = '''' \<or> map_of (mux_m mux) pattern \<noteq> None then None
      else Some (mux\<lparr> mux_m := mux_m mux @ [(pattern, h)],
                      mux_es := (if last pattern = CHR ''/'' then append_sorted (mux_es mux) (pattern, h) else mux_es mux),
                      mux_hosts := mux_hosts mux \<or> hd pattern \<noteq> CHR ''/'' \<rparr>))"

definition mux_match :: "'h ServeMux \<Rightarrow> string \<Rightarrow> 'h option" where
  "mux_match mux path =
     (case map_of (mux_m mux) path of
        Some h \<Rightarrow> Some h
      | None \<Rightarrow> map_option snd (List.find (\<lambda>e. has_prefix path (fst e)) (mux_es mux)))"

definition mux_handler :: "'w handler ServeMux \<Rightarrow> string \<Rightarrow> string \<Rightarrow> 'w handler" where
  "mux_handler mux host path =
     (let h = (if mux_hosts mux then mux_match mux (host @ path) else None);
          h = (case h of None \<Rightarrow> mux_match mux path | Some h \<Rightarrow> Some h)
      in case h of None \<Rightarrow> NotFound | Some h \<Rightarrow> h)"

text \<open>\<open>shouldRedirectRLocked\<close>: the path is not there, but the path with a slash is.\<close>

definition should_redirect :: "'h ServeMux \<Rightarrow> string \<Rightarrow> string \<Rightarrow> bool" where
  "should_redirect mux host path =
     (map_of (mux_m mux) path = None \<and> map_of (mux_m mux) (host @ path) = None \<and> path \<noteq> '''' \<and>
      (map_of (mux_m mux) (path @ ''/'') \<noteq> None \<or> map_of (mux_m mux) (host @ path @ ''/'') \<noteq> None) \<and>
      last path \<noteq> CHR ''/'')"

definition cleanPath :: "string \<Rightarrow> string" where
  "cleanPath p =
     (if p = '''' then ''/''
      else let p = (if hd p \<noteq> CHR ''/'' then CHR ''/'' # p else p); np = Clean p in
        if last p = CHR ''/'' \<and> np \<noteq> ''/'' then np @ ''/'' else np)"

definition stripHostPort :: "string \<Rightarrow> string" where
  "stripHostPort h = (case SplitHostPort h of None \<Rightarrow> h | Some (host, _) \<Rightarrow> host)"

definition mux_Handler :: "'w handler ServeMux \<Rightarrow> http_request \<Rightarrow> 'w handler" where
  "mux_Handler mux r =
     (if req_Method r = ''CONNECT'' then
        if should_redirect mux (req_Host r) (req_Path r) then Redirect (req_Path r @ ''/'')
        else mux_handler mux (req_Host r) (req_Path r)
      else
        let host = stripHostPort (req_Host r); path = cleanPath (req_Path r) in
        if should_redirect mux host path then Redirect (path @ ''/'')
        else if path \<noteq> req_Path r then Redirect path
        else mux_handler mux host (req_Path r))"

definition mux_ServeHTTP :: "'w handler ServeMux \<Rightarrow> 'w handler" where
  "mux_ServeHTTP mux r s =
     (if req_URI r = ''*'' then
        (case s of (rw, w) \<Rightarrow> Some (WriteHeader 400 (Header_Set ''Connection'' ''close'' rw), w))
      else mux_Handler mux r r s)"

section \<open>Facts\<close>

named_theorems http_simps \<open>how the operations on a response change its fields\<close>

lemma WriteHeader_fields [http_simps]:
  "rw_Header (WriteHeader status rw) = rw_Header rw"
  "rw_body (WriteHeader status rw) = rw_body rw"
  "rw_sent (WriteHeader status rw) = (case rw_sent rw of None \<Rightarrow> Some (status, rw_Header rw) | Some x \<Rightarrow> Some x)"
  by (simp_all add: WriteHeader_def split: option.split)

lemma Header_Set_fields [http_simps]:
  "rw_Header (Header_Set k v rw) = (rw_Header rw)(k \<mapsto> v)"
  "rw_body (Header_Set k v rw) = rw_body rw"
  "rw_sent (Header_Set k v rw) = rw_sent rw"
  by (simp_all add: Header_Set_def)

lemma Write_fields [http_simps]:
  "rw_Header (Write content rw) = rw_Header rw"
  "rw_body (Write content rw) = rw_body rw @ content"
  "rw_sent (Write content rw) = (case rw_sent rw of None \<Rightarrow> Some (200, rw_Header rw) | Some x \<Rightarrow> Some x)"
  by (simp_all add: Write_def Let_def http_simps)

lemma fresh_response_fields [http_simps]:
  "rw_Header fresh_response = Map.empty" "rw_sent fresh_response = None" "rw_body fresh_response = []"
  by (simp_all add: fresh_response_def)

lemma http_Error_fields [http_simps]:
  "rw_sent rw = None \<Longrightarrow> fst (the (rw_sent (http_Error msg code rw))) = code"
  "rw_sent (http_Error msg code rw) \<noteq> None"
  "rw_body (http_Error msg code rw) = rw_body rw @ msg @ [CHR 0x0A]"
  by (simp_all add: http_Error_def http_simps split: option.split)

text \<open>
  The \<open>mux_es\<close> of a multiplexer are its patterns that end in a slash, the longest first, so the
  handler of a path that is no pattern is that of the longest such pattern that is a prefix.
\<close>

definition mux_inv :: "'h ServeMux \<Rightarrow> bool" where
  "mux_inv mux = (set (mux_es mux) = {e \<in> set (mux_m mux). last (fst e) = CHR ''/''} \<and>
     sorted_wrt (\<lambda>a b. length (fst a) \<ge> length (fst b)) (mux_es mux) \<and> distinct (map fst (mux_m mux)) \<and>
     '''' \<notin> fst ` set (mux_m mux))"

lemma set_append_sorted [simp]: "set (append_sorted es e) = insert e (set es)"
  by (induction es e rule: append_sorted.induct) auto

lemma append_sorted_sorted:
  "sorted_wrt (\<lambda>a b. length (fst a) \<ge> length (fst b)) es \<Longrightarrow>
   sorted_wrt (\<lambda>a b. length (fst a) \<ge> length (fst b)) (append_sorted es e)"
  by (induction es e rule: append_sorted.induct) auto

lemma mux_inv_new: "mux_inv NewServeMux"
  by (simp add: mux_inv_def NewServeMux_def)

lemma mux_inv_Handle: "mux_inv mux \<Longrightarrow> Handle pattern h mux = Some mux' \<Longrightarrow> mux_inv mux'"
  by (auto simp: mux_inv_def Handle_def append_sorted_sorted map_of_eq_None_iff split: if_splits)

lemma find_split: "List.find P xs = Some x \<Longrightarrow> \<exists>as bs. xs = as @ x # bs \<and> P x \<and> (\<forall>a \<in> set as. \<not> P a)"
proof (induction xs)
  case (Cons y xs)
  show ?case
  proof (cases "P y")
    case True
    with Cons.prems show ?thesis by (intro exI [of _ "[]"] exI [of _ xs]) simp
  next
    case False
    with Cons obtain as bs where "xs = as @ x # bs" "P x" "\<forall>a \<in> set as. \<not> P a" by auto
    with False show ?thesis by (intro exI [of _ "y # as"] exI [of _ bs]) simp
  qed
qed simp

lemma mux_match_longest:
  assumes "mux_inv mux"
  shows "case mux_match mux path of
      Some h \<Rightarrow> (\<exists>p. (p, h) \<in> set (mux_m mux) \<and> (p = path \<or> (last p = CHR ''/'' \<and> has_prefix path p \<and>
        path \<notin> fst ` set (mux_m mux) \<and>
        (\<forall>q \<in> fst ` set (mux_m mux). last q = CHR ''/'' \<longrightarrow> has_prefix path q \<longrightarrow> length q \<le> length p))))
    | None \<Rightarrow> path \<notin> fst ` set (mux_m mux) \<and>
        (\<forall>q \<in> fst ` set (mux_m mux). last q = CHR ''/'' \<longrightarrow> \<not> has_prefix path q)"
proof (cases "map_of (mux_m mux) path")
  case (Some h)
  then show ?thesis by (auto simp: mux_match_def dest: map_of_SomeD)
next
  case none: None
  then have path: "path \<notin> fst ` set (mux_m mux)" by (simp add: map_of_eq_None_iff)
  have es: "(q, g) \<in> set (mux_es mux) \<longleftrightarrow> (q, g) \<in> set (mux_m mux) \<and> last q = CHR ''/''" for q g
    using assms by (auto simp: mux_inv_def)
  show ?thesis
  proof (cases "List.find (\<lambda>e. has_prefix path (fst e)) (mux_es mux)")
    case None
    then have "\<not> has_prefix path q" if "(q, g) \<in> set (mux_m mux)" "last q = CHR ''/''" for q g
      using es [of q g] that by (force simp: find_None_iff)
    with none None path show ?thesis by (auto simp: mux_match_def)
  next
    case (Some e)
    then obtain as bs where e: "mux_es mux = as @ e # bs" "has_prefix path (fst e)"
        "\<forall>a \<in> set as. \<not> has_prefix path (fst a)"
      using find_split by fastforce
    have "length q \<le> length (fst e)" if "(q, g) \<in> set (mux_m mux)" "last q = CHR ''/''" "has_prefix path q" for q g
    proof -
      have "(q, g) = e \<or> (q, g) \<in> set bs" using es [of q g] that e by auto
      moreover have "\<forall>b \<in> set bs. length (fst b) \<le> length (fst e)"
        using assms e(1) by (simp add: mux_inv_def sorted_wrt_append)
      ultimately show ?thesis by auto
    qed
    moreover have "e \<in> set (mux_m mux)" "last (fst e) = CHR ''/''" using es [of "fst e" "snd e"] e(1) by auto
    ultimately show ?thesis using none Some path e(2) by (cases e) (force simp: mux_match_def)
  qed
qed

end
