(* ===== verification/Metrics.thy ===== *)
theory Metrics
  imports Tracing Http
begin

text \<open>
  The metrics of the fingerprint store (\<open>metrics.go\<close>): the trace id an observation carries, the
  counters and their registration, and the server that shows them. A registry is the list of the
  names in it; what the gRPC metrics register, and the handler that writes a registry, are parameters.
  A counter panics when something negative is added, so what the service adds is shown not to be.
\<close>

section \<open>Creating and registering\<close>

definition examplarFromContext :: "(string + 'v) Ctx \<Rightarrow> (string \<times> string) list option" where
  "examplarFromContext ctx =
     (let traceId = getTraceId ctx in if traceId \<noteq> [] then Some [(''trace_id'', traceId)] else None)"

record CounterOpts =
  Namespace :: string
  Subsystem :: string
  opt_Name :: string
  opt_Help :: string

record FingerprintStoreMetrics =
  counter_Hits :: CounterOpts
  counter_Misses :: CounterOpts
  GrpcMetrics_buckets :: "rat list"

text \<open>The name of a collector: the three parts with underscores between them.\<close>

definition fq_name :: "CounterOpts \<Rightarrow> string" where
  "fq_name c = Namespace c @ ''_'' @ Subsystem c @ ''_'' @ opt_Name c"

definition MustRegister :: "string list \<Rightarrow> string list \<Rightarrow> string list option" where
  "MustRegister names reg = (if distinct names \<and> set names \<inter> set reg = {} then Some (reg @ names) else None)"

definition NewFingerprintStoreMetrics :: "string list \<Rightarrow> string list \<Rightarrow> (FingerprintStoreMetrics \<times> string list) option" where
  "NewFingerprintStoreMetrics grpc_names reg =
     (let metrics = \<lparr>
        counter_Hits = \<lparr> Namespace = ''acoustid'', Subsystem = ''fpstore'', opt_Name = ''cache_hits_total'',
          opt_Help = ''Number of fingerprint cache hits'' \<rparr>,
        counter_Misses = \<lparr> Namespace = ''acoustid'', Subsystem = ''fpstore'', opt_Name = ''cache_misses_total'',
          opt_Help = ''Number of fingerprint cache misses'' \<rparr>,
        GrpcMetrics_buckets = [1 / 100, 5 / 100, 15 / 100, 5 / 10, 1] \<rparr>
      in Option.bind (MustRegister [fq_name (counter_Hits metrics)] reg) (\<lambda>reg.
         Option.bind (MustRegister [fq_name (counter_Misses metrics)] reg) (\<lambda>reg.
         Option.bind (MustRegister grpc_names reg) (\<lambda>reg. Some (metrics, reg)))))"

definition RunMetricsServer :: "string \<Rightarrow> 'w handler \<Rightarrow> (string \<times> 'w handler ServeMux) option" where
  "RunMetricsServer listenAddr promhttp = map_option (Pair listenAddr) (Handle ''/metrics'' promhttp NewServeMux)"

lemma metric_names:
  "NewFingerprintStoreMetrics grpc_names reg = Some (metrics, reg') \<longleftrightarrow>
     metrics = \<lparr>
        counter_Hits = \<lparr> Namespace = ''acoustid'', Subsystem = ''fpstore'', opt_Name = ''cache_hits_total'',
          opt_Help = ''Number of fingerprint cache hits'' \<rparr>,
        counter_Misses = \<lparr> Namespace = ''acoustid'', Subsystem = ''fpstore'', opt_Name = ''cache_misses_total'',
          opt_Help = ''Number of fingerprint cache misses'' \<rparr>,
        GrpcMetrics_buckets = [1 / 100, 5 / 100, 15 / 100, 5 / 10, 1] \<rparr> \<and>
     (let names = [''acoustid_fpstore_cache_hits_total'', ''acoustid_fpstore_cache_misses_total''] @ grpc_names
      in distinct names \<and> set names \<inter> set reg = {} \<and> reg' = reg @ names)"
proof -
  have "fq_name \<lparr> Namespace = ''acoustid'', Subsystem = ''fpstore'', opt_Name = n, opt_Help = h \<rparr> = ''acoustid_fpstore_'' @ n" for n h
    by (simp add: fq_name_def)
  moreover have "''acoustid_fpstore_cache_hits_total'' \<noteq> ''acoustid_fpstore_cache_misses_total''" by simp
  ultimately show ?thesis
    by (auto simp: NewFingerprintStoreMetrics_def MustRegister_def Let_def bind_eq_Some_conv split: if_splits)
qed

text \<open>The metrics can be registered once only.\<close>

lemma metrics_once:
  "NewFingerprintStoreMetrics g reg = Some (metrics, reg') \<Longrightarrow> NewFingerprintStoreMetrics g' reg' = None"
  by (cases "NewFingerprintStoreMetrics g' reg'") (auto simp: metric_names Let_def)

text \<open>The server answers the path with what the handler writes, and any other with 404.\<close>

lemma RunMetricsServer_serves:
  "RunMetricsServer listenAddr promhttp =
     Some (listenAddr, \<lparr> mux_m = [(''/metrics'', promhttp)], mux_es = [], mux_hosts = False \<rparr>)"
  by (simp add: RunMetricsServer_def Handle_def NewServeMux_def)

section \<open>What is counted\<close>

definition counts_positive :: "'w svc_state \<Rightarrow> bool" where
  "counts_positive st \<longleftrightarrow> (\<forall>n \<in> set (CacheHits st @ CacheMisses st). 0 \<le> n)"

lemma getFingerprints_counts:
  assumes "getFingerprints s ids st = Some (r, st')"
  shows "CacheHits st' = CacheHits st \<and> CacheMisses st' = CacheMisses st \<or>
    (\<exists>hits misses. 0 \<le> hits \<and> 0 \<le> misses \<and> hits + misses = int (length ids) \<and>
       CacheHits st' = CacheHits st @ [hits] \<and> CacheMisses st' = CacheMisses st @ [misses])"
proof (cases "ids = []")
  case True
  with assms show ?thesis by (simp add: getFingerprints_def)
next
  case False
  obtain rc w where c: "cache_GetMulti (svc_cache s) ids (world st) = Some (rc, w)"
    using assms False by (cases "cache_GetMulti (svc_cache s) ids (world st)") (auto simp: getFingerprints_def)
  show ?thesis
  proof (cases rc)
    case (Inl e)
    with assms False c show ?thesis by (auto simp: getFingerprints_def)
  next
    case (Inr m)
    define missing where "missing = filter (\<lambda>i. map_of (case m of None \<Rightarrow> [] | Some m \<Rightarrow> m) i = None) ids"
    define st1 where "st1 = st\<lparr> world := w, CacheHits := CacheHits st @ [int (length ids) - int (length missing)],
        CacheMisses := CacheMisses st @ [int (length missing)] \<rparr>"
    obtain r2 u where q: "store_GetMulti (svc_store s) missing w = (r2, u)" by fastforce
    have "\<exists>v. st' = st1\<lparr> world := v \<rparr>"
    proof (cases "missing = []")
      case True
      have "st' = st1\<lparr> world := world st1 \<rparr>"
        using assms False c Inr True by (simp add: getFingerprints_def Let_def missing_def [symmetric] st1_def)
      then show ?thesis ..
    next
      case missing: False
      have "getFingerprints s ids st = (case store_GetMulti (svc_store s) missing w of
          (Inl err, w) \<Rightarrow> Some (Inl (Status Internal ''failed to get fingerprints from database''), st1\<lparr> world := w \<rparr>)
        | (Inr fps, w) \<Rightarrow>
            let fps = map_order s (case fps of None \<Rightarrow> [] | Some fps \<Rightarrow> fps) in
            if fps = [] then Some (Inr m, st1\<lparr> world := w \<rparr>)
            else (case m of
                None \<Rightarrow> None
              | Some m \<Rightarrow> let (m, w) = store_back (svc_cache s) fps m w in Some (Inr (Some m), st1\<lparr> world := w \<rparr>)))"
        using False c Inr missing unfolding missing_def st1_def by (simp add: getFingerprints_def Let_def)
      with assms q show ?thesis
        by (cases r2; cases m) (auto simp: Let_def split: if_splits prod.splits)
    qed
    moreover have "length missing \<le> length ids" by (simp add: missing_def)
    ultimately show ?thesis by (auto simp: st1_def)
  qed
qed

lemma getFingerprints_positive:
  "getFingerprints s ids st = Some (r, st') \<Longrightarrow> counts_positive st \<Longrightarrow> counts_positive st'"
  using getFingerprints_counts [of s ids st r st'] by (auto simp: counts_positive_def)

lemma compareFingerprints_positive:
  "compareFingerprints s canceled query ids minScore st = Some (r, st') \<Longrightarrow> counts_positive st \<Longrightarrow> counts_positive st'"
proof -
  assume c: "compareFingerprints s canceled query ids minScore st = Some (r, st')" and st: "counts_positive st"
  then obtain r1 st1 where g: "getFingerprints s ids st = Some (r1, st1)"
    by (cases "getFingerprints s ids st") (auto simp: compareFingerprints_def)
  then have "st' = st1" using c by (cases r1) (auto simp: compareFingerprints_def bind_eq_Some_conv)
  then show "counts_positive st'" using getFingerprints_positive [OF g st] by simp
qed

lemma counts_world [simp]: "counts_positive (st\<lparr> world := w \<rparr>) = counts_positive st"
  by (simp add: counts_positive_def)

lemma step_positive: "service_step s st st' \<Longrightarrow> counts_positive st \<Longrightarrow> counts_positive st'"
proof (induction rule: service_step.induct)
  case (insert_req fp st r st')
  have "\<exists>w. st' = st\<lparr> world := w \<rparr>"
  proof (cases "\<exists>x. fp = Some x \<and> Hashes x \<noteq> []")
    case True
    then obtain x where x: "fp = Some x" "Hashes x \<noteq> []" by blast
    obtain r1 w where i: "store_Insert (svc_store s) x (world st) = (r1, w)" by fastforce
    obtain e v where "cache_Set (svc_cache s) (projr r1) x w = (e, v)" by fastforce
    with x i insert_req show ?thesis by (cases r1) (auto simp: Svc_Insert_def)
  next
    case False
    then have "st' = st\<lparr> world := world st \<rparr>" using insert_req by (auto simp: Svc_Insert_def split: option.splits)
    then show ?thesis ..
  qed
  with insert_req show ?case by auto
next
  case (get_req i st g st')
  show ?case
  proof (cases "i = 0")
    case False
    then obtain r1 st1 where c: "getFingerprints s [i] st = Some (r1, st1)"
      using get_req by (cases "getFingerprints s [i] st") (auto simp: Svc_Get_def getFingerprint_def)
    then have "st' = st1"
      using False get_req by (cases r1) (auto simp: Svc_Get_def getFingerprint_def split: option.splits)
    then show ?thesis using getFingerprints_positive [OF c] get_req by simp
  qed (use get_req in \<open>simp add: Svc_Get_def\<close>)
next
  case (compare_req canceled creq st c st')
  then obtain fp where fp: "cmp_Fingerprint creq = Some fp" by (auto simp: Svc_Compare_def bind_eq_Some_conv)
  with compare_req show ?case
    using compareFingerprints_positive [of s canceled fp "cmp_Ids creq" "cmp_MinScore creq" st]
    by (auto simp: Svc_Compare_def split: if_splits)
next
  case (search_req canceled sreq st m st')
  then obtain fp where fp: "srch_Fingerprint sreq = Some fp" by (auto simp: Svc_Search_def bind_eq_Some_conv)
  show ?case
  proof (cases "Hashes fp = []")
    case True
    with search_req fp show ?thesis by (simp add: Svc_Search_def)
  next
    case False
    then obtain r1 w where i: "index_Search (svc_index s) fp (search_limit sreq) (world st) = Some (r1, w)"
      using search_req fp
      by (cases "index_Search (svc_index s) fp (search_limit sreq) (world st)") (auto simp: Svc_Search_def Let_def FastModeFactor_def)
    consider (err) e where "r1 = Inl e" | (none) "r1 = Inr []" | (some) cs where "r1 = Inr cs" "cs \<noteq> []" by (cases r1) auto
    then show ?thesis
    proof cases
      case some
      then obtain r2 st2 where c: "compareFingerprints s canceled fp cs (srch_MinScore sreq) (st\<lparr> world := w \<rparr>) = Some (r2, st2)"
        using search_req fp False i
        by (cases "compareFingerprints s canceled fp cs (srch_MinScore sreq) (st\<lparr> world := w \<rparr>)")
          (auto simp: Svc_Search_def Let_def FastModeFactor_def)
      then have "st' = st2"
        using search_req fp False i some by (cases r2) (auto simp: Svc_Search_def Let_def FastModeFactor_def)
      then show ?thesis using compareFingerprints_positive [OF c] search_req by simp
    qed (use search_req fp False i in \<open>auto simp: Svc_Search_def Let_def FastModeFactor_def split: if_splits\<close>)
  qed
qed

text \<open>No counter is ever asked to go down, whatever requests the service has had.\<close>

theorem counters_never_panic:
  "service_reachable s st0 st \<Longrightarrow> counts_positive st0 \<Longrightarrow> counts_positive st"
  by (induction rule: service_reachable.induct) (auto intro: step_positive)

theorem counters_never_panic_witness:
  "counts_positive (\<lparr> world = (), CacheHits = [], CacheMisses = [] \<rparr> :: unit svc_state)"
  by (rule counters_never_panic [OF service_start]) (simp add: counts_positive_def)

end
