(* ===== verification/Legacy.thy ===== *)
theory Legacy
  imports FpStore "HOL-Library.Signed_Division"
begin

unbundle bit_operations_syntax

text \<open>
  \<open>server/services/legacy\<close> and \<open>server/services\<close>: the search of the HTTP API, which asks the index for
  candidates itself and lets the database score them. The index and the database are parameters.
  The hits are ordered by \<open>>=\<close>, which is no strict order, so of \<open>sort.Slice\<close> only the rearrangement
  is used. \<open>None\<close> is a panic; a Go \<open>int\<close> is an integer.
\<close>

section \<open>The query\<close>

definition indexQueryStart :: int where "indexQueryStart = 80"
definition indexQueryLength :: nat where "indexQueryLength = 120"
definition indexQueryHashBits :: nat where "indexQueryHashBits = 28"
definition indexQueryHashMask :: u32 where
  "indexQueryHashMask = push_bit (32 - indexQueryHashBits) (push_bit indexQueryHashBits 1 - 1)"
definition silenceHash :: u32 where "silenceHash = 627964279"

fun count_silent :: "u32 list \<Rightarrow> int" where
  "count_silent [] = 0"
| "count_silent (hash # hashes) = (if hash = silenceHash then 1 else 0) + count_silent hashes"

text \<open>The loop over the hashes behind the start; it is left once the query is longer than its length.\<close>

fun query_loop :: "u32 list \<Rightarrow> u32 set \<Rightarrow> u32 list \<Rightarrow> u32 list" where
  "query_loop [] queryMap query = query"
| "query_loop (hash # hashes) queryMap query =
     (if hash = silenceHash then query_loop hashes queryMap query
      else let hash = hash AND indexQueryHashMask;
               (query, queryMap) = (if hash \<in> queryMap then (query, queryMap) else (query @ [hash], insert hash queryMap))
        in if length query > indexQueryLength then query else query_loop hashes queryMap query)"

definition ExtractIndexQuery :: "u32 list \<Rightarrow> u32 list" where
  "ExtractIndexQuery hashes =
     (let sz = int (length hashes); silentSize = count_silent hashes in
      if silentSize = sz then []
      else let start = sz - silentSize - int indexQueryLength;
               start = (if start > indexQueryStart then indexQueryStart else if start < 0 then 0 else start)
        in query_loop (drop (nat start) hashes) {} [])"

section \<open>The search\<close>

record FingerprintSearcher =
  MaxCandidates :: int
  MinHits :: int
  MinHitsPercent :: int

definition NewFingerprintSearcher :: FingerprintSearcher where
  "NewFingerprintSearcher = \<lparr> MaxCandidates = 10, MinHits = 2, MinHitsPercent = 50 \<rparr>"

record 'f FingerprintSearchResult =
  res_TrackID :: int
  res_TrackGID :: string
  res_Score :: 'f

text \<open>The loop over the sorted results, which is left at the first one that is out.\<close>

fun take_candidates :: "FingerprintSearcher \<Rightarrow> int \<Rightarrow> int \<Rightarrow> pb_Result list \<Rightarrow> int list" where
  "take_candidates s minHits i [] = []"
| "take_candidates s minHits i (result # results) =
     (if i > MaxCandidates s \<or> uint (Hits result) < minHits then []
      else uint (Id result) # take_candidates s minHits (i + 1) results)"

definition GetCandidates ::
  "sort_alg \<Rightarrow> FingerprintSearcher \<Rightarrow> (u32 list \<Rightarrow> 'w \<Rightarrow> (go_error + pb_Result list) \<times> 'w) \<Rightarrow> u32 list \<Rightarrow> 'w \<Rightarrow>
   ((go_error + int list) \<times> 'w) option" where
  "GetCandidates S s index_search hashes w =
     (case index_search hashes w of
        (Inl err, w) \<Rightarrow> Some (Inl (Wrapped ''index search failed'' err), w)
      | (Inr results, w) \<Rightarrow>
          if length results = 0 then Some (Inr [], w)
          else let results = sort_slice S (\<lambda>a b. Hits a \<ge> Hits b) results in
            Option.bind (idx results 0) (\<lambda>r.
              let minHits = (uint (Hits r) * MinHitsPercent s) sdiv 100 in
              if minHits < MinHits s then Some (Inr [], w)
              else Some (Inr (take_candidates s minHits 0 results), w)))"

text \<open>
  \<open>Search\<close>: \<open>score\<close> is what \<open>ScoreSearchMatches\<close> makes of the hashes, the candidates and the
  duration, in the world of the database.
\<close>

definition to_result :: "'f ScoredSearchMatch \<Rightarrow> 'f FingerprintSearchResult" where
  "to_result m = \<lparr> res_TrackID = TrackID m, res_TrackGID = TrackGID m, res_Score = match_Score m \<rparr>"

datatype search_error = IndexFailed go_error | ScoreFailed db_error

definition Legacy_Search ::
  "sort_alg \<Rightarrow> FingerprintSearcher \<Rightarrow> (u32 list \<Rightarrow> 'w \<Rightarrow> (go_error + pb_Result list) \<times> 'w) \<Rightarrow>
   (u32 list \<Rightarrow> int list \<Rightarrow> int \<Rightarrow> (int option \<times> (db_error + 'f ScoredSearchMatch list)) option) \<Rightarrow>
   Fingerprint option \<Rightarrow> int \<Rightarrow> 'w \<Rightarrow> ((search_error + 'f FingerprintSearchResult list) \<times> 'w) option" where
  "Legacy_Search S s index_search score fingerprint duration w =
     (case fingerprint of
        None \<Rightarrow> None
      | Some fp \<Rightarrow>
          (case GetCandidates S s index_search (ExtractIndexQuery (Hashes fp)) w of
             None \<Rightarrow> None
           | Some (Inl err, w) \<Rightarrow> Some (Inl (IndexFailed err), w)
           | Some (Inr candidates, w) \<Rightarrow>
               (case score (Hashes fp) candidates duration of
                  None \<Rightarrow> None
                | Some (_, Inl err) \<Rightarrow> Some (Inl (ScoreFailed err), w)
                | Some (_, Inr matches) \<Rightarrow> Some (Inr (map to_result matches), w))))"

section \<open>The two queries\<close>

lemma silence_same: "silenceHash = SilenceHash" "indexQueryHashMask = QueryBitMask"
  by (simp_all add: silenceHash_def SilenceHash_def indexQueryHashMask_def indexQueryHashBits_def QueryBitMask_def)

lemma count_silent_clean: "count_silent hs = int (length hs) - count_clean hs"
  by (induction hs) (simp_all add: silence_same)

text \<open>
  The loop keeps one hash more than its length says: the test comes after the append, and asks for
  more than the length.
\<close>

lemma query_loop_eq:
  "length query \<le> indexQueryLength \<Longrightarrow>
   query_loop hs seen query = take (Suc indexQueryLength) (query @ firsts seen (clean hs))"
proof (induction hs seen query rule: query_loop.induct)
  case (2 hash hs seen query)
  show ?case
  proof (cases "hash = silenceHash \<or> hash AND indexQueryHashMask \<in> seen")
    case True
    with 2 show ?thesis by (auto simp: clean_def silence_same Let_def)
  next
    case False
    let ?h = "hash AND indexQueryHashMask"
    show ?thesis
    proof (cases "length query < indexQueryLength")
      case True
      with False 2 show ?thesis by (simp add: clean_def silence_same Let_def)
    next
      case full: False
      with 2 have "length query = indexQueryLength" by simp
      with False show ?thesis by (simp add: clean_def silence_same Let_def)
    qed
  qed
qed (simp add: clean_def)

lemma ExtractIndexQuery_eq:
  "ExtractIndexQuery hs = take (Suc indexQueryLength) (firsts {} (clean (drop (query_start hs) hs)))"
proof (cases "count_clean hs = 0")
  case True
  then have "filter (\<lambda>h. h \<noteq> SilenceHash) hs = []" by (simp add: count_clean_filter)
  then have "filter (\<lambda>h. h \<noteq> SilenceHash) (drop n hs) = []" for n
    by (metis filter_empty_conv in_set_dropD)
  with True show ?thesis by (simp add: ExtractIndexQuery_def count_silent_clean clean_def)
next
  case False
  have "nat (if start > indexQueryStart then indexQueryStart else if start < 0 then 0 else start) =
      nat (max 0 (min start QueryStart))" for start
    by (simp add: indexQueryStart_def QueryStart_def)
  with False show ?thesis
    by (simp add: ExtractIndexQuery_def count_silent_clean query_start_def query_loop_eq Let_def
        indexQueryLength_def QuerySize_def)
qed

text \<open>
  C34. The two searches of the repository ask the index almost the same: the query of the HTTP API is
  the query of the fingerprint store and, when there are more than 120 distinct hashes, one more.
\<close>

theorem ExtractIndexQuery_agrees:
  "take 120 (ExtractIndexQuery (Hashes fp)) = ExtractLegacyQuery fp \<and>
   length (ExtractIndexQuery (Hashes fp)) \<le> 121 \<and> distinct (ExtractIndexQuery (Hashes fp)) \<and>
   (ExtractIndexQuery (Hashes fp) = ExtractLegacyQuery fp \<longleftrightarrow> length (ExtractIndexQuery (Hashes fp)) \<noteq> 121)"
proof -
  let ?f = "firsts {} (clean (drop (query_start (Hashes fp)) (Hashes fp)))"
  have a: "ExtractIndexQuery (Hashes fp) = take 121 ?f" by (simp add: ExtractIndexQuery_eq indexQueryLength_def)
  have b: "ExtractLegacyQuery fp = take 120 ?f" by (simp add: ExtractLegacyQuery_eq QuerySize_def)
  have "take 121 ?f = take 120 ?f \<longleftrightarrow> length (take 121 ?f) \<noteq> 121"
  proof (cases "length ?f \<le> 120")
    case False
    have "length (take 121 ?f) = 121" "length (take 120 ?f) = 120" using False by simp_all
    then show ?thesis by (metis numeral_eq_iff semiring_norm(87,88,89))
  qed simp
  then show ?thesis unfolding a b by (simp add: distinct_firsts min_def)
qed

section \<open>The candidates\<close>







text \<open>The candidates may be eleven.\<close>

lemma eleven_candidates:
  "length (take_candidates NewFingerprintSearcher 1 0 (replicate 20 \<lparr> Id = 7, Hits = 5 \<rparr>)) = 11"
  by code_simp

end
