(* ===== verification/CatchUp.thy ===== *)
theory CatchUp
  imports Updater
begin

text \<open>
  The updater, the index client and an index server together: over connections without faults, and
  against a server that keeps the fingerprints it is sent, the updater brings every fingerprint of
  the database into the index, a batch per round and without sleeping in between. What the server
  does is stated as a contract on its answers, which depend on the lines it has received.
\<close>

section \<open>The server\<close>

text \<open>
  The ids a server has after the lines of a connection: those of the committed transactions, and
  those of the open one.
\<close>

definition insert_id :: "string \<Rightarrow> nat" where
  "insert_id l = (case parse_uint 32 (takeWhile (\<lambda>x. x \<noteq> CHR '' '') (drop 7 l)) of Inr n \<Rightarrow> n | Inl _ \<Rightarrow> 0)"

definition index_step :: "string \<Rightarrow> nat list \<times> nat list \<Rightarrow> nat list \<times> nat list" where
  "index_step l s =
     (let (ids, pend) = s in
      if l = ''begin'' \<or> l = ''rollback'' then (ids, [])
      else if l = ''commit'' then (ids @ pend, [])
      else if has_prefix l ''insert '' then (ids, pend @ [insert_id l])
      else (ids, pend))"

definition index_run :: "string list \<Rightarrow> nat list \<times> nat list" where
  "index_run ls = fold index_step ls ([], [])"

definition indexed_ids :: "string list \<Rightarrow> nat list" where
  "indexed_ids ls = fst (index_run ls)"

text \<open>
  The contract: every answer is one line, the attribute \<open>max_document_id\<close> is the largest id in the
  index, or empty, and every other line is accepted.
\<close>

definition max_id_line :: string where "max_id_line = ''get attribute max_document_id''"

definition max_id_value :: "nat list \<Rightarrow> string" where
  "max_id_value ids = (if ids = [] then [] else format_uint (Max (set ids)))"

definition keeps_index :: "server \<Rightarrow> bool" where
  "keeps_index srv \<longleftrightarrow> one_line srv \<and>
     (\<forall>h. reply_line (srv h max_id_line) = kPrefixOK @ max_id_value (indexed_ids h)) \<and>
     (\<forall>h l. l \<noteq> max_id_line \<longrightarrow> (\<exists>v. reply_line (srv h l) = kPrefixOK @ v))"

definition index_server :: server where
  "index_server h l = kPrefixOK @ (if l = max_id_line then max_id_value (indexed_ids h) else []) @ [newline]"

lemma reply_line_append:
  assumes "newline \<notin> set w" "w = [] \<or> last w \<noteq> CHR 0x0D"
  shows "reply_line (w @ [newline]) = w"
proof -
  have "takeWhile (\<lambda>x. x \<noteq> newline) (w @ [newline]) = w"
    using assms(1) by (subst takeWhile_append2) auto
  moreover have "w = [] \<or> last w \<notin> set [CHR 0x0D, newline]" using assms by (cases w rule: rev_cases) auto
  ultimately show ?thesis using trim_right_append [of "[newline]" "[CHR 0x0D, newline]" w] by (simp add: reply_line_def)
qed

lemma keeps_index_server: "keeps_index index_server"
proof -
  have digit: "c \<in> set (max_id_value ids) \<Longrightarrow> 48 \<le> (of_char c :: nat) \<and> (of_char c :: nat) \<le> 57" for c ids
    using format_uint_chars by (auto simp: max_id_value_def split: if_splits)
  have nl: "newline \<notin> set (kPrefixOK @ max_id_value ids)" for ids
    using digit [of newline ids] by (auto simp: kPrefixOK_def newline_def)
  have cr: "last (kPrefixOK @ max_id_value ids) \<noteq> CHR 0x0D" for ids
    using digit [of "last (max_id_value ids)" ids]
    by (cases "max_id_value ids" rule: rev_cases) (auto simp: kPrefixOK_def)
  have ok: "newline \<notin> set kPrefixOK" "last kPrefixOK \<noteq> CHR 0x0D" by (simp_all add: kPrefixOK_def newline_def)
  have "one_line index_server"
    unfolding one_line_def
  proof (intro allI)
    fix h r
    have "newline \<notin> set (kPrefixOK @ (if r = max_id_line then max_id_value (indexed_ids h) else []))"
      using nl ok by simp
    then show "\<exists>w. index_server h r = w @ [newline] \<and> newline \<notin> set w"
      unfolding index_server_def append_assoc [symmetric] by blast
  qed
  moreover have "reply_line (index_server h max_id_line) = kPrefixOK @ max_id_value (indexed_ids h)" for h
    using reply_line_append [OF nl] cr by (simp add: index_server_def)
  moreover have "reply_line (index_server h l) = kPrefixOK @ []" if "l \<noteq> max_id_line" for h l
    using reply_line_append [OF ok(1)] ok(2) that by (simp add: index_server_def)
  ultimately show ?thesis unfolding keeps_index_def by blast
qed

section \<open>A client without faults\<close>

definition quiet :: "IndexClient \<Rightarrow> bool" where
  "quiet c \<longleftrightarrow> IsOK c \<and> faults (conn c) = [] \<and> unread (conn c) = [] \<and> client_tx c = None"

lemma ctx_err_quiet: "faults (conn c) = [] \<Longrightarrow> ctx_err c = (False, c)"
  by (simp add: ctx_err_def fault_def)

lemma sendRequest_quiet:
  assumes "quiet c" "one_line srv" "reply_line (srv (written (conn c)) req) = kPrefixOK @ v"
  shows "\<exists>c'. sendRequest srv ctx req c = (Inr v, c') \<and> quiet c' \<and> written (conn c') = written (conn c) @ [req]"
proof -
  obtain w where w: "srv (written (conn c)) req = w @ [newline]" "newline \<notin> set w"
    using assms(2) unfolding one_line_def by blast
  have tw: "takeWhile (\<lambda>x. x \<noteq> newline) (w @ [newline]) = w" using w(2) by (subst takeWhile_append2) auto
  then have "trim_right (w @ [newline]) [CHR 0x0D, newline] = kPrefixOK @ v"
    using assms(3) w by (simp add: reply_line_def)
  moreover have "dropWhile (\<lambda>x. x \<noteq> newline) (w @ [newline]) = [newline]" using w(2) by (subst dropWhile_append2) auto
  ultimately show ?thesis
    using assms(1) w tw
    by (simp add: sendRequest_def quiet_def ctx_err_def fault_def WriteLine_def deliver_def ReadLine_def Let_def IsOK_def)
qed

lemma Tx_Insert_quiet:
  assumes "quiet c" "keeps_index srv"
  shows "\<exists>c'. Tx_Insert srv ctx i hs (\<lparr> tx_done = False \<rparr>, c) = (None, \<lparr> tx_done = False \<rparr>, c') \<and> quiet c' \<and>
    written (conn c') = written (conn c) @ [insert_line (i, hs)]"
proof -
  have "insert_line (i, hs) \<noteq> max_id_line" by (simp add: insert_line_def max_id_line_def)
  then obtain v where "reply_line (srv (written (conn c)) (insert_line (i, hs))) = kPrefixOK @ v"
    using assms(2) unfolding keeps_index_def by blast
  with sendRequest_quiet [OF assms(1), of srv] assms(2) obtain c' where
    "sendRequest srv ctx (insert_line (i, hs)) c = (Inr v, c')" "quiet c'" "written (conn c') = written (conn c) @ [insert_line (i, hs)]"
    unfolding keeps_index_def by blast
  then show ?thesis using assms(1) by (simp add: Tx_Insert_def ctx_err_quiet quiet_def insert_line_def)
qed

lemma Insert_loop_quiet:
  "quiet c \<Longrightarrow> keeps_index srv \<Longrightarrow> \<exists>c'. Insert_loop srv ctx fps (\<lparr> tx_done = False \<rparr>, c) = (Inr (), c') \<and> quiet c' \<and>
    written (conn c') = written (conn c) @ map insert_line fps @ [''commit'']"
proof (induction fps arbitrary: c)
  case Nil
  have "''commit'' \<noteq> max_id_line" by (simp add: max_id_line_def)
  then obtain v where "reply_line (srv (written (conn c)) ''commit'') = kPrefixOK @ v"
    using Nil(2) unfolding keeps_index_def by blast
  with sendRequest_quiet [OF Nil(1), of srv] Nil(2) obtain c' where
    "sendRequest srv ctx ''commit'' c = (Inr v, c')" "quiet c'" "written (conn c') = written (conn c) @ [''commit'']"
    unfolding keeps_index_def by blast
  then show ?case using Nil(1) by (simp add: Tx_Commit_def Tx_finish_def ctx_err_quiet quiet_def IsOK_def)
next
  case (Cons fp fps)
  obtain i hs where fp: "fp = (i, hs)" by (cases fp)
  obtain c1 where 1: "Tx_Insert srv ctx i hs (\<lparr> tx_done = False \<rparr>, c) = (None, \<lparr> tx_done = False \<rparr>, c1)" "quiet c1"
    "written (conn c1) = written (conn c) @ [insert_line (i, hs)]" using Tx_Insert_quiet [OF Cons.prems] by blast
  from Cons.IH [OF 1(2) Cons.prems(2)] 1 show ?case by (auto simp: fp)
qed

lemma Insert_quiet:
  assumes "quiet c" "keeps_index srv" "fps \<noteq> []"
  shows "\<exists>c'. Insert srv ctx fps c = (Inr (), c') \<and> quiet c' \<and>
    written (conn c') = written (conn c) @ [''begin''] @ map insert_line fps @ [''commit'']"
proof -
  have "''begin'' \<noteq> max_id_line" by (simp add: max_id_line_def)
  then obtain v where "reply_line (srv (written (conn c)) ''begin'') = kPrefixOK @ v"
    using assms(2) unfolding keeps_index_def by blast
  with sendRequest_quiet [OF assms(1), of srv] assms(2) obtain c1 where
    1: "sendRequest srv ctx ''begin'' c = (Inr v, c1)" "quiet c1" "written (conn c1) = written (conn c) @ [''begin'']"
    unfolding keeps_index_def by blast
  then have "BeginTx srv ctx c = (Inr \<lparr> tx_done = False \<rparr>, c1)"
    using assms(1) by (simp add: BeginTx_def Tx_begin_def ctx_err_quiet quiet_def)
  with Insert_loop_quiet [OF 1(2) assms(2)] 1(3) assms(3) show ?thesis by (auto simp: Insert_def)
qed

section \<open>What the lines of a round do to the index\<close>

lemma insert_id_line [simp]: "insert_id (insert_line fp) = unat (fst fp)"
proof -
  let ?n = "unat (fst fp)"
  have "\<forall>x \<in> set (format_uint ?n). x \<noteq> CHR '' ''" using format_uint_chars [of "CHR '' ''" ?n] by auto
  then have "takeWhile (\<lambda>x. x \<noteq> CHR '' '') (format_uint ?n @ CHR '' '' # t) = format_uint ?n" for t
    by (subst takeWhile_append2) auto
  moreover have "?n < 2 ^ 32" using unsigned_less [of "fst fp", where 'a = nat] by simp
  ultimately show ?thesis by (simp add: insert_id_def insert_line_def parse_uint_format)
qed

lemma run_inserts: "fold index_step (map insert_line fps) (ids, pend) = (ids, pend @ map (\<lambda>fp. unat (fst fp)) fps)"
proof (induction fps arbitrary: pend)
  case (Cons fp fps)
  have "index_step (insert_line fp) (ids, pend) = (ids, pend @ [unat (fst fp)])"
    unfolding index_step_def Let_def by (simp add: insert_id_line) (simp add: insert_line_def)
  with Cons show ?case by simp
qed simp

lemma indexed_ids_round:
  "indexed_ids (h @ [max_id_line] @ [''begin''] @ map insert_line fps @ [''commit'']) = indexed_ids h @ map (\<lambda>fp. unat (fst fp)) fps"
  by (cases "index_run h") (simp add: indexed_ids_def index_run_def run_inserts index_step_def max_id_line_def)

lemma indexed_ids_ask: "indexed_ids (h @ [max_id_line]) = indexed_ids h"
  by (cases "index_run h") (simp add: indexed_ids_def index_run_def index_step_def max_id_line_def)

section \<open>Catching up\<close>

text \<open>
  The database: fingerprints in the order of their ids, and what a round gets from it. The first
  \<open>k\<close> of them are the ones up to an id.
\<close>

definition db_round :: "(u32 \<times> u32 list) list \<Rightarrow> int \<Rightarrow> Round" where
  "db_round docs now = \<lparr> dial = Inr (fresh_conn []), clock = now,
     next_fingerprints = (\<lambda>i n. Inr (take (nat n) (filter (\<lambda>d. fst d > i) docs))) \<rparr>"

primrec updater_rounds :: "server \<Rightarrow> Round list \<Rightarrow> Updater \<Rightarrow> Updater option" where
  "updater_rounds srv [] u = Some u"
| "updater_rounds srv (rd # rds) u = Option.bind (updater_round srv rd u) (updater_rounds srv rds)"

definition db_docs :: "(u32 \<times> u32 list) list \<Rightarrow> bool" where
  "db_docs docs \<longleftrightarrow> sorted_wrt (<) (map fst docs) \<and> (\<forall>d \<in> set docs. 0 < fst d)"

definition last_id :: "(u32 \<times> u32 list) list \<Rightarrow> u32" where
  "last_id docs = (if docs = [] then 0 else fst (last docs))"

lemma filter_after:
  assumes "db_docs (xs @ ys)"
  shows "filter (\<lambda>d. fst d > last_id xs) (xs @ ys) = ys"
proof -
  have lt: "fst x < fst y" if "x \<in> set xs" "y \<in> set ys" for x y
    using assms that by (auto simp: db_docs_def sorted_wrt_append)
  have le: "fst x \<le> fst (last xs)" if "x \<in> set xs" for x
  proof -
    obtain zs z where xs: "xs = zs @ [z]" using \<open>x \<in> set xs\<close> by (cases xs rule: rev_cases) auto
    have "fst z' < fst z" if "z' \<in> set zs" for z' using assms that by (auto simp: db_docs_def sorted_wrt_append xs)
    then show ?thesis using that xs by fastforce
  qed
  have "\<not> fst x > last_id xs" if "x \<in> set xs" for x using le [OF that] that by (auto simp: last_id_def)
  moreover have "fst y > last_id xs" if "y \<in> set ys" for y
    using that lt [of "last xs" y] assms by (auto simp: last_id_def db_docs_def)
  ultimately show ?thesis by (simp add: filter_empty_conv filter_id_conv)
qed

lemma max_id_docs:
  assumes "db_docs docs"
  shows "max_id_value (map (\<lambda>d. unat (fst d)) docs) = (if docs = [] then [] else format_uint (unat (last_id docs)))"
proof (cases docs rule: rev_cases)
  case (snoc ds d)
  have "unat (fst x) \<le> unat (fst d)" if "x \<in> set ds" for x
    using assms that by (auto simp: db_docs_def sorted_wrt_append snoc word_less_nat_alt less_imp_le)
  then have "Max (set (map (\<lambda>d. unat (fst d)) docs)) = unat (fst d)"
    using snoc by (intro Max_eqI) auto
  then show ?thesis using snoc by (simp add: max_id_value_def last_id_def)
qed (simp add: max_id_value_def)

text \<open>
  One round, from a connection whose server has the first fingerprints: first for any answer of the
  database, then for an error and for fingerprints to insert.
\<close>

definition holds :: "Updater \<Rightarrow> IndexClient \<Rightarrow> bool" where
  "holds u c \<longleftrightarrow> idx_client u = Some c \<or> idx_client u = None \<and> c = NewIndexClient (fresh_conn [])"

lemma holds_Some [simp]: "idx_client u = Some c \<Longrightarrow> holds u c"
  by (simp add: holds_def)

lemma catch_up_ask:
  assumes "quiet c" "keeps_index srv" "db_docs xs" "indexed_ids (written (conn c)) = map (\<lambda>d. unat (fst d)) xs"
    and "holds u c" "dial rd = Inr (fresh_conn [])"
  shows "\<exists>w c1 ctx. quiet c1 \<and> written (conn c1) = written (conn c) @ [max_id_line] \<and>
    updater_round srv rd u = Some
      (case next_fingerprints rd (last_id xs) UpdateBatchSize of
         Inl _ \<Rightarrow> w\<lparr> delay := MaxDelay, idx_client := Some c1 \<rparr>
       | Inr fps \<Rightarrow> (case Insert srv ctx fps c1 of
           (Inl _, c) \<Rightarrow> w\<lparr> delay := MaxDelay, idx_client := Some c \<rparr>
         | (Inr _, c) \<Rightarrow> w\<lparr> delay := (if length fps = 0
             then if delay w > NoDelay then delay w + (delay w * 10) div 100 else MinDelay else NoDelay), idx_client := Some c \<rparr>))"
proof -
  let ?ctx = "WithTimeout (clock rd) \<lparr> Deadline = None \<rparr> (60 * Second)"
  let ?v = "max_id_value (indexed_ids (written (conn c)))"
  have v: "?v = (if xs = [] then [] else format_uint (unat (last_id xs)))" using max_id_docs [OF assms(3)] assms(4) by simp
  have "one_line srv" "reply_line (srv (written (conn c)) max_id_line) = kPrefixOK @ ?v"
    using assms(2) by (simp_all add: keeps_index_def)
  from sendRequest_quiet [OF assms(1) this] obtain c1 where c1: "sendRequest srv ?ctx max_id_line c = (Inr ?v, c1)" "quiet c1"
    "written (conn c1) = written (conn c) @ [max_id_line]" by blast
  have id: "unat (last_id xs) < 2 ^ 32" using unsigned_less [of "last_id xs", where 'a = nat] by simp
  have last: "GetLastFingerprintID (GetAttribute srv ?ctx) c = (Inr (last_id xs), c1)"
    using c1(1) v parse_uint_format [OF id]
    by (auto simp: GetLastFingerprintID_def GetAttribute_def max_id_line_def last_id_def)
  define w where "w = (if delay u > NoDelay \<and> delay u > MaxDelay then u\<lparr> delay := MaxDelay \<rparr> else u)"
  have "(case idx_client w of None \<Rightarrow> ConnectWithConfig (dial rd) | Some c \<Rightarrow> Inr c) = Inr c"
    using assms(5,6) by (auto simp: holds_def ConnectWithConfig_def w_def)
  then have "updater_round srv rd u = Some (updater_work srv rd w c)"
    unfolding updater_round_def w_def [symmetric] Let_def using assms(1) by (simp add: quiet_def)
  with c1(2,3) show ?thesis by (auto simp: updater_work_def last Let_def)
qed

lemma catch_up_error:
  assumes "quiet c" "keeps_index srv" "db_docs xs" "indexed_ids (written (conn c)) = map (\<lambda>d. unat (fst d)) xs"
    and "holds u c" "dial rd = Inr (fresh_conn [])"
    and "next_fingerprints rd (last_id xs) UpdateBatchSize = Inl e"
  shows "\<exists>u' c'. updater_round srv rd u = Some u' \<and> idx_client u' = Some c' \<and> quiet c' \<and>
    indexed_ids (written (conn c')) = map (\<lambda>d. unat (fst d)) xs \<and> delay u' = MaxDelay"
proof -
  obtain w c1 where w: "quiet c1" "written (conn c1) = written (conn c) @ [max_id_line]"
      "updater_round srv rd u = Some (w\<lparr> delay := MaxDelay, idx_client := Some c1 \<rparr>)"
    using catch_up_ask [OF assms(1-6)] assms(7) by auto
  then show ?thesis using assms(4) by (simp add: indexed_ids_ask)
qed

lemma catch_up_round:
  assumes "quiet c" "keeps_index srv" "db_docs xs" "indexed_ids (written (conn c)) = map (\<lambda>d. unat (fst d)) xs"
    and "holds u c" "dial rd = Inr (fresh_conn [])"
    and "next_fingerprints rd (last_id xs) UpdateBatchSize = Inr fps"
  shows "\<exists>u' c'. updater_round srv rd u = Some u' \<and> idx_client u' = Some c' \<and> quiet c' \<and>
    indexed_ids (written (conn c')) = map (\<lambda>d. unat (fst d)) (xs @ fps) \<and> (fps \<noteq> [] \<longrightarrow> delay u' = NoDelay)"
proof -
  obtain w c1 ctx where w: "quiet c1" "written (conn c1) = written (conn c) @ [max_id_line]"
      "updater_round srv rd u = Some (case Insert srv ctx fps c1 of
           (Inl _, c) \<Rightarrow> w\<lparr> delay := MaxDelay, idx_client := Some c \<rparr>
         | (Inr _, c) \<Rightarrow> w\<lparr> delay := (if length fps = 0
             then if delay w > NoDelay then delay w + (delay w * 10) div 100 else MinDelay else NoDelay), idx_client := Some c \<rparr>)"
    using catch_up_ask [OF assms(1-6)] assms(7) by auto
  show ?thesis
  proof (cases "fps = []")
    case True
    with w assms(4) show ?thesis by (simp add: Insert_def indexed_ids_ask)
  next
    case False
    from Insert_quiet [OF w(1) assms(2) False] obtain c2 where c2: "Insert srv ctx fps c1 = (Inr (), c2)" "quiet c2"
      "written (conn c2) = written (conn c1) @ [''begin''] @ map insert_line fps @ [''commit'']" by blast
    then have "indexed_ids (written (conn c2)) = map (\<lambda>d. unat (fst d)) (xs @ fps)"
      using w(2) assms(4) indexed_ids_round [of "written (conn c)" fps] by simp
    with False w(3) c2 show ?thesis by simp
  qed
qed

lemma db_docs_appendD: "db_docs (xs @ ys) \<Longrightarrow> db_docs xs"
  by (auto simp: db_docs_def sorted_wrt_append)

lemma db_round_next:
  assumes "db_docs (xs @ ys)"
  shows "dial (db_round (xs @ ys) now) = Inr (fresh_conn [])"
    and "next_fingerprints (db_round (xs @ ys) now) (last_id xs) UpdateBatchSize = Inr (take 10000 ys)"
  using filter_after [OF assms] by (simp_all add: db_round_def UpdateBatchSize_def del: filter_append)

lemma quiet_new: "quiet (NewIndexClient (fresh_conn []))"
  by (simp add: quiet_def NewIndexClient_def fresh_conn_def IsOK_def)

lemma catch_up_rounds:
  assumes "keeps_index srv"
  shows "quiet c \<Longrightarrow> db_docs (xs @ ys) \<Longrightarrow> indexed_ids (written (conn c)) = map (\<lambda>d. unat (fst d)) xs \<Longrightarrow>
    holds u c \<Longrightarrow> nows \<noteq> [] \<Longrightarrow>
    \<exists>u' c'. updater_rounds srv (map (db_round (xs @ ys)) nows) u = Some u' \<and> idx_client u' = Some c' \<and> quiet c' \<and>
      indexed_ids (written (conn c')) = map (\<lambda>d. unat (fst d)) (xs @ take (10000 * length nows) ys) \<and>
      (10000 * (length nows - 1) < length ys \<longrightarrow> delay u' = NoDelay)"
proof (induction nows arbitrary: c u xs ys)
  case (Cons now nows)
  let ?docs = "xs @ ys"
  from catch_up_round [OF Cons.prems(1) assms db_docs_appendD [OF Cons.prems(2)] Cons.prems(3,4) db_round_next [OF Cons.prems(2)], of now]
  obtain u1 c1 where 1: "updater_round srv (db_round ?docs now) u = Some u1" "idx_client u1 = Some c1" "quiet c1"
    "indexed_ids (written (conn c1)) = map (\<lambda>d. unat (fst d)) (xs @ take 10000 ys)" "ys \<noteq> [] \<longrightarrow> delay u1 = NoDelay" by auto
  show ?case
  proof (cases "nows = []")
    case True
    with 1 show ?thesis by auto
  next
    case False
    have docs: "?docs = (xs @ take 10000 ys) @ drop 10000 ys" by simp
    from Cons.IH [OF 1(3) _ 1(4) holds_Some [OF 1(2)] False, of "drop 10000 ys"] Cons.prems(2)
    obtain u' c' where 2: "updater_rounds srv (map (db_round ?docs) nows) u1 = Some u'" "idx_client u' = Some c'" "quiet c'"
      "indexed_ids (written (conn c')) = map (\<lambda>d. unat (fst d)) ((xs @ take 10000 ys) @ take (10000 * length nows) (drop 10000 ys))"
      "10000 * (length nows - 1) < length (drop 10000 ys) \<longrightarrow> delay u' = NoDelay"
      unfolding docs [symmetric] by blast
    have "take 10000 ys @ take (10000 * length nows) (drop 10000 ys) = take (10000 * length (now # nows)) ys"
      by (simp add: take_add)
    moreover have "10000 * (length (now # nows) - 1) < length ys \<longrightarrow> 10000 * (length nows - 1) < length (drop 10000 ys)"
      using False by (cases nows) auto
    ultimately show ?thesis using 1(1) 2 by simp
  qed
qed simp

lemma new_index: "indexed_ids (written (conn (NewIndexClient (fresh_conn [])))) = map (\<lambda>d. unat (fst d)) ([] :: (u32 \<times> u32 list) list)"
  by (simp add: indexed_ids_def index_run_def NewIndexClient_def fresh_conn_def)

lemma holds_new: "holds \<lparr> delay = 0, idx_client = None \<rparr> (NewIndexClient (fresh_conn []))"
  by (simp add: holds_def)

text \<open>
  The updater catches up. Started against a server that keeps its index, with a database whose
  fingerprints have positive, ascending ids, and no faults, it has the first ten thousand times \<open>n\<close>
  fingerprints of the database in the index after \<open>n\<close> rounds, each of them once and in order, over
  one connection; and as long as there were new ones it never sleeps. So every fingerprint of the
  database gets indexed.
\<close>

theorem updater_catches_up:
  assumes "keeps_index srv" and "sorted_wrt (<) (map fst docs)" and "\<forall>d \<in> set docs. 0 < fst d" and "nows \<noteq> []"
  shows "\<exists>u c. updater_rounds srv (map (db_round docs) nows) \<lparr> delay = 0, idx_client = None \<rparr> = Some u \<and>
    idx_client u = Some c \<and> IsOK c \<and>
    indexed_ids (written (conn c)) = map (\<lambda>d. unat (fst d)) (take (10000 * length nows) docs) \<and>
    (10000 * (length nows - 1) < length docs \<longrightarrow> updater_sleep u = 0)"
proof -
  have docs: "db_docs ([] @ docs)" using assms(2,3) by (simp add: db_docs_def)
  from catch_up_rounds [OF assms(1) quiet_new docs new_index holds_new assms(4)]
  show ?thesis by (auto simp: quiet_def updater_sleep_def)
qed

theorem updater_catches_up_witness:
  "\<exists>u c. updater_rounds index_server (map (db_round [(3, [1, 2]), (7, [5])]) [0]) \<lparr> delay = 0, idx_client = None \<rparr> = Some u \<and>
    idx_client u = Some c \<and> indexed_ids (written (conn c)) = [3, 7]"
proof -
  have "sorted_wrt (<) (map fst [(3 :: u32, [1, 2 :: u32]), (7, [5])])" "\<forall>d \<in> set [(3 :: u32, [1, 2 :: u32]), (7, [5])]. 0 < fst d"
    by simp_all
  from updater_catches_up [OF keeps_index_server this, of "[0]"]
  obtain u c where "updater_rounds index_server (map (db_round [(3, [1, 2]), (7, [5])]) [0]) \<lparr> delay = 0, idx_client = None \<rparr> = Some u"
    "idx_client u = Some c"
    "indexed_ids (written (conn c)) = map (\<lambda>d. unat (fst d)) (take (10000 * length [0 :: int]) [(3 :: u32, [1, 2 :: u32]), (7, [5])])" by blast
  moreover from this(3) have "indexed_ids (written (conn c)) = [3, 7]" by simp
  ultimately show ?thesis by blast
qed

end
