(* ===== verification/UpdaterDB.thy ===== *)
theory UpdaterDB
  imports CatchUp FingerprintDB
begin

text \<open>
  The updater on the database code of the repository: a round gets its fingerprints from
  \<open>GetNextFingerprints\<close>, and the database is known by its answers to the query of that function. The
  updater then indexes every fingerprint, as long as none of them has an empty query: PostgreSQL
  gives that as the array \<open>{}\<close>, which \<open>Scan\<close> does not read, and the updater stays in front of the
  batch with this fingerprint for ever.
\<close>

section \<open>Rounds on the database\<close>

type_synonym next_db = "string \<Rightarrow> u32 \<Rightarrow> int \<Rightarrow> go_error + (int \<times> sql_src) Rows"

definition db_next :: "next_db \<Rightarrow> u32 \<Rightarrow> int \<Rightarrow> unit + (u32 \<times> u32 list) list" where
  "db_next query_ctx lastID limit =
     (case GetNextFingerprints query_ctx lastID True limit of Inl _ \<Rightarrow> Inl () | Inr fps \<Rightarrow> Inr fps)"

definition updater_db_round :: "next_db \<Rightarrow> int \<Rightarrow> Round" where
  "updater_db_round query_ctx now =
     \<lparr> dial = Inr (fresh_conn []), clock = now, next_fingerprints = db_next query_ctx \<rparr>"

text \<open>
  The contract: the rows of the query are those of the fingerprints behind the id, in order, at most
  as many as asked for, an id and an array as text; there are no errors.
\<close>

definition fingerprint_row :: "u32 \<times> u32 list \<Rightarrow> int \<times> sql_src" where
  "fingerprint_row d = (uint (fst d), SrcBytes (array_text (snd d)))"

definition answers_next :: "next_db \<Rightarrow> (u32 \<times> u32 list) list \<Rightarrow> bool" where
  "answers_next query_ctx docs \<longleftrightarrow> (\<forall>lastID limit. query_ctx (next_query True) lastID limit =
     Inr \<lparr> fetched = map fingerprint_row (take (nat limit) (filter (\<lambda>d. fst d > lastID) docs)),
           iter_err = None, close_err = None \<rparr>)"

definition table_db :: "(u32 \<times> u32 list) list \<Rightarrow> next_db" where
  "table_db docs query lastID limit =
     (if query = next_query True then
        Inr \<lparr> fetched = map fingerprint_row (take (nat limit) (filter (\<lambda>d. fst d > lastID) docs)),
              iter_err = None, close_err = None \<rparr>
      else Inl (Sentinel ErrNoRows))"

lemma answers_table: "answers_next (table_db docs) docs"
  by (simp add: answers_next_def table_db_def)

section \<open>Reading the rows\<close>

lemma Scan_array_text:
  "Uint32Array_Scan (SrcBytes (array_text a)) = (if a = [] then Inl (ScanNum ErrSyntax) else Inr (Some a))"
proof (cases "a = []")
  case True
  have "Uint32Array_scanString (array_text []) = Inl ErrSyntax" by code_simp
  with True show ?thesis by (simp add: Uint32Array_Scan_def scan_result_def)
qed (simp add: Uint32Array_Scan_def scan_result_def scanString_array_text)

lemma scan_fingerprint_rows:
  "scan_fingerprints (map fingerprint_row docs) =
     (if \<exists>d \<in> set docs. snd d = [] then Inl ScanError else Inr docs)"
proof (induction docs)
  case (Cons d docs)
  obtain i hs where d: "d = (i, hs)" by (cases d)
  have "uint i < 2 ^ 32" using unsigned_less [of i, where 'a = int] by simp
  then have "\<not> (uint i < 0 \<or> uint i \<ge> 2 ^ 32)" "(of_int (uint i) :: u32) = i" by simp_all
  with Cons show ?case by (simp add: d fingerprint_row_def Scan_array_text)
qed simp

lemma db_next_answer:
  assumes "answers_next query_ctx docs"
  shows "db_next query_ctx lastID limit =
    (let batch = take (nat limit) (filter (\<lambda>d. fst d > lastID) docs)
     in if \<exists>d \<in> set batch. snd d = [] then Inl () else Inr batch)"
  using assms by (simp add: answers_next_def db_next_def GetNextFingerprints_def scan_fingerprint_rows Let_def)

lemma updater_db_round_next:
  assumes "answers_next query_ctx (xs @ ys)" "db_docs (xs @ ys)"
  shows "dial (updater_db_round query_ctx now) = Inr (fresh_conn [])"
    and "next_fingerprints (updater_db_round query_ctx now) (last_id xs) UpdateBatchSize =
      (if \<exists>d \<in> set (take 10000 ys). snd d = [] then Inl () else Inr (take 10000 ys))"
  using filter_after [OF assms(2)] db_next_answer [OF assms(1), of "last_id xs" UpdateBatchSize]
  by (simp_all add: updater_db_round_def UpdateBatchSize_def Let_def del: filter_append)

text \<open>Without an empty query the database code gives what the database has.\<close>

lemma updater_db_round_all:
  assumes "answers_next query_ctx docs" "\<forall>d \<in> set docs. snd d \<noteq> []"
  shows "updater_db_round query_ctx now = db_round docs now"
proof -
  have "db_next query_ctx i n = Inr (take (nat n) (filter (\<lambda>d. fst d > i) docs))" for i n
    using assms(2) by (auto simp: db_next_answer [OF assms(1)] Let_def dest!: in_set_takeD)
  then show ?thesis by (simp add: updater_db_round_def db_round_def fun_eq_iff)
qed

section \<open>Catching up, and not\<close>

lemma stuck_rounds:
  assumes "keeps_index srv" "answers_next query_ctx (xs @ ys)" "db_docs (xs @ ys)" "\<exists>d \<in> set (take 10000 ys). snd d = []"
  shows "quiet c \<Longrightarrow> indexed_ids (written (conn c)) = map (\<lambda>d. unat (fst d)) xs \<Longrightarrow> holds u c \<Longrightarrow> nows \<noteq> [] \<Longrightarrow>
    \<exists>u' c'. updater_rounds srv (map (updater_db_round query_ctx) nows) u = Some u' \<and> idx_client u' = Some c' \<and> quiet c' \<and>
      indexed_ids (written (conn c')) = map (\<lambda>d. unat (fst d)) xs \<and> delay u' = MaxDelay"
proof (induction nows arbitrary: c u)
  case (Cons now nows)
  have nxt: "next_fingerprints (updater_db_round query_ctx now) (last_id xs) UpdateBatchSize = Inl ()"
    using updater_db_round_next [OF assms(2,3)] assms(4) by simp
  from catch_up_error [OF Cons.prems(1) assms(1) db_docs_appendD [OF assms(3)] Cons.prems(2,3)
      updater_db_round_next(1) [OF assms(2,3)] nxt]
  obtain u1 c1 where 1: "updater_round srv (updater_db_round query_ctx now) u = Some u1" "idx_client u1 = Some c1"
    "quiet c1" "indexed_ids (written (conn c1)) = map (\<lambda>d. unat (fst d)) xs" "delay u1 = MaxDelay" by blast
  show ?case
  proof (cases "nows = []")
    case False
    from Cons.IH [OF 1(3,4) holds_Some [OF 1(2)] False] 1(1) show ?thesis by simp
  qed (use 1 in simp)
qed simp

lemma blocked_rounds:
  assumes "keeps_index srv" "answers_next query_ctx docs" "db_docs docs"
  shows "quiet c \<Longrightarrow> docs = xs @ ys @ (i, []) # zs \<Longrightarrow> \<forall>d \<in> set ys. snd d \<noteq> [] \<Longrightarrow>
    indexed_ids (written (conn c)) = map (\<lambda>d. unat (fst d)) xs \<Longrightarrow> holds u c \<Longrightarrow> length ys div 10000 < length nows \<Longrightarrow>
    \<exists>u' c'. updater_rounds srv (map (updater_db_round query_ctx) nows) u = Some u' \<and> idx_client u' = Some c' \<and> quiet c' \<and>
      indexed_ids (written (conn c')) = map (\<lambda>d. unat (fst d)) (xs @ take (10000 * (length ys div 10000)) ys) \<and>
      delay u' = MaxDelay"
proof (induction nows arbitrary: c u xs ys)
  case (Cons now nows)
  let ?rest = "ys @ (i, []) # zs"
  have docs: "answers_next query_ctx (xs @ ?rest)" "db_docs (xs @ ?rest)"
    using assms(2,3) unfolding Cons.prems(2) .
  show ?case
  proof (cases "length ys < 10000")
    case True
    then have "(i, []) \<in> set (take 10000 ?rest)" by (cases "10000 - length ys") (simp_all add: take_Cons')
    then have "\<exists>d \<in> set (take 10000 ?rest). snd d = []" by force
    from stuck_rounds [OF assms(1) docs this Cons.prems(1,4,5), of "now # nows"] True show ?thesis by simp
  next
    case False
    then have batch: "take 10000 ?rest = take 10000 ys" by simp
    have "next_fingerprints (updater_db_round query_ctx now) (last_id xs) UpdateBatchSize = Inr (take 10000 ys)"
      unfolding updater_db_round_next(2) [OF docs] batch using Cons.prems(3) by (auto dest: in_set_takeD)
    from catch_up_round [OF Cons.prems(1) assms(1) db_docs_appendD [OF docs(2)] Cons.prems(4,5)
        updater_db_round_next(1) [OF docs] this]
    obtain u1 c1 where 1: "updater_round srv (updater_db_round query_ctx now) u = Some u1" "idx_client u1 = Some c1"
      "quiet c1" "indexed_ids (written (conn c1)) = map (\<lambda>d. unat (fst d)) (xs @ take 10000 ys)" by blast
    have split: "docs = (xs @ take 10000 ys) @ drop 10000 ys @ (i, []) # zs" using Cons.prems(2) by simp
    have len: "length ys div 10000 = Suc (length (drop 10000 ys) div 10000)" using False by (simp add: le_div_geq)
    have "\<forall>d \<in> set (drop 10000 ys). snd d \<noteq> []" using Cons.prems(3) by (auto dest: in_set_dropD)
    from Cons.IH [OF 1(3) split this 1(4) holds_Some [OF 1(2)]] Cons.prems(6) 1(1)
    show ?thesis unfolding len by (auto simp: take_add)
  qed
qed simp

text \<open>
  C11. The updater on the database code catches up. Started against a server that keeps its index,
  with a database that answers the query, whose fingerprints have positive, ascending ids and
  queries that are not empty, and no faults, it has the first ten thousand times \<open>n\<close> fingerprints of
  the database in the index after \<open>n\<close> rounds, each once and in order, over one connection, and as
  long as there were new ones it does not sleep: every fingerprint of the database gets indexed.
\<close>

theorem updater_indexes_database:
  assumes "keeps_index srv" and "answers_next query_ctx docs"
    and "sorted_wrt (<) (map fst docs)" and "\<forall>d \<in> set docs. 0 < fst d \<and> snd d \<noteq> []" and "nows \<noteq> []"
  shows "\<exists>u c. updater_rounds srv (map (updater_db_round query_ctx) nows) \<lparr> delay = 0, idx_client = None \<rparr> = Some u \<and>
    idx_client u = Some c \<and> IsOK c \<and>
    indexed_ids (written (conn c)) = map (\<lambda>d. unat (fst d)) (take (10000 * length nows) docs) \<and>
    (10000 * (length nows - 1) < length docs \<longrightarrow> updater_sleep u = 0)"
proof -
  have "updater_db_round query_ctx = db_round docs"
    using assms(4) by (simp add: fun_eq_iff updater_db_round_all [OF assms(2)])
  with updater_catches_up [OF assms(1,3) _ assms(5)] assms(4) show ?thesis by simp
qed

theorem updater_indexes_database_witness:
  "\<exists>u c. updater_rounds index_server (map (updater_db_round (table_db [(3, [1, 2]), (7, [5])])) [0]) \<lparr> delay = 0, idx_client = None \<rparr> = Some u \<and>
    idx_client u = Some c \<and> indexed_ids (written (conn c)) = [3, 7] \<and> updater_sleep u = 0"
  using updater_indexes_database [OF keeps_index_server answers_table, of "[(3, [1, 2]), (7, [5])]" "[0]"] by auto

text \<open>
  C14. An empty query stops the updater. When the query of a fingerprint is empty, and the ones of the
  fingerprints before it are not, the updater indexes the full batches of ten thousand before it and
  then, however many rounds follow, nothing more: the fingerprints of its batch, those before it in
  the batch included, and all behind it stay out of the index, and the updater waits a minute before
  each further try. No fault is involved: \<open>Scan\<close> does not read the array \<open>{}\<close>.
\<close>

theorem empty_query_stops_updater:
  assumes "keeps_index srv" and "answers_next query_ctx (ys @ (i, []) # zs)"
    and "sorted_wrt (<) (map fst (ys @ (i, []) # zs))" and "\<forall>d \<in> set (ys @ (i, []) # zs). 0 < fst d"
    and "\<forall>d \<in> set ys. snd d \<noteq> []" and "length ys div 10000 < length nows"
  shows "\<exists>u c. updater_rounds srv (map (updater_db_round query_ctx) nows) \<lparr> delay = 0, idx_client = None \<rparr> = Some u \<and>
    idx_client u = Some c \<and> IsOK c \<and>
    indexed_ids (written (conn c)) = map (\<lambda>d. unat (fst d)) (take (10000 * (length ys div 10000)) ys) \<and>
    updater_sleep u = 60 * Second"
proof -
  have "db_docs (ys @ (i, []) # zs)" using assms(3,4) by (simp add: db_docs_def)
  from blocked_rounds [OF assms(1,2) this quiet_new _ assms(5) new_index holds_new assms(6), of i zs]
  show ?thesis by (auto simp: quiet_def updater_sleep_def MaxDelay_def NoDelay_def durations)
qed

theorem empty_query_stops_updater_witness:
  "\<exists>u c. updater_rounds index_server (map (updater_db_round (table_db [(3, [1, 2]), (5, []), (7, [5])])) [0, 1, 2]) \<lparr> delay = 0, idx_client = None \<rparr> = Some u \<and>
    idx_client u = Some c \<and> indexed_ids (written (conn c)) = [] \<and> updater_sleep u = 60 * Second"
  using empty_query_stops_updater [OF keeps_index_server, of "table_db [(3, [1, 2]), (5, []), (7, [5])]" "[(3, [1, 2])]" 5 "[(7, [5])]" "[0, 1, 2]"]
    answers_table by auto

end
