(* ===== verification/LookupApi.thy ===== *)
theory LookupApi
  imports Http Encoding Signal Legacy
begin

unbundle bit_operations_syntax

text \<open>
  \<open>server/api\<close> and \<open>server/api/v2\<close>: the response formats, the errors, the lookup handler and the
  routes of the API. The searcher is a parameter that works on a world of its own, \<open>None\<close> standing
  for the nil interface; the libraries the code calls are the fields of \<open>api_lib\<close>. The recordings
  of a result, which the code never sets, and logging are left out. \<open>None\<close> is a panic.
\<close>

section \<open>Formats\<close>

text \<open>\<open>xml_Encode\<close> and \<open>json_Marshal\<close> are the text of a response or an error.\<close>

record ErrorDetails =
  err_Code :: int
  err_Message :: string

record ErrorResponse =
  er_Status :: string
  er_Error :: ErrorDetails

record 'f LookupResult =
  lr_ID :: string
  lr_Score :: 'f

record 'f LookupResponse =
  lp_Status :: string
  lp_Results :: "'f LookupResult list"

datatype 'f response = RError ErrorResponse | RLookup "'f LookupResponse"

record ('f, 'g) api_lib =
  api_floats :: "('f, 'g) floats"
  ParseFloat :: "string \<Rightarrow> num_error + 'f"
  json_Marshal :: "'f response \<Rightarrow> string + string"
  xml_Encode :: "'f response \<Rightarrow> string + string"
  api_multipart :: "http_request \<Rightarrow> (string \<times> string) list"
  gzip_NewReader :: "string option \<Rightarrow> string + string option"
  promhttp :: "http_request \<Rightarrow> string"

datatype ResponseFormat = JSON | JSONP string | XML

definition xml_Header :: string where
  "xml_Header = ''<?xml version='' @ [CHR 0x22] @ ''1.0'' @ [CHR 0x22] @ '' encoding='' @ [CHR 0x22] @ ''UTF-8'' @ [CHR 0x22] @
     ''?>'' @ [CHR 0x0A]"

fun ContentType :: "ResponseFormat \<Rightarrow> string" where
  "ContentType JSON = ''application/json''"
| "ContentType (JSONP callback) = ''application/javascript''"
| "ContentType XML = ''application/xml''"

text \<open>\<open>Encode\<close> of a JSON encoder writes what \<open>Marshal\<close> returns and a line break.\<close>

fun Marshal :: "('f, 'g) api_lib \<Rightarrow> ResponseFormat \<Rightarrow> 'f response \<Rightarrow> string + string" where
  "Marshal L JSON response = json_Marshal L response"
| "Marshal L (JSONP callback) response =
     (case json_Marshal L response of
        Inl err \<Rightarrow> Inl err
      | Inr text \<Rightarrow> Inr (callback @ ''('' @ text @ [CHR 0x0A] @ '')''))"
| "Marshal L XML response =
     (case xml_Encode L response of Inl err \<Rightarrow> Inl err | Inr text \<Rightarrow> Inr (xml_Header @ text))"

definition DefaultFormat :: ResponseFormat where "DefaultFormat = JSON"

definition GetResponseFormat :: "('f, 'g) api_lib \<Rightarrow> http_request \<Rightarrow> string + ResponseFormat" where
  "GetResponseFormat L r =
     (let format = FormValue (api_multipart L) r ''format'' in
      if format = '''' then Inr DefaultFormat
      else if format = ''json'' then Inr JSON
      else if format = ''jsonp'' then
        let callback = FormValue (api_multipart L) r ''jsoncallback'' in
        Inr (JSONP (if callback = '''' then ''jsonAcoustidApi'' else callback))
      else if format = ''xml'' then Inr XML
      else Inl ''invalid format'')"

definition WriteResponse ::
  "('f, 'g) api_lib \<Rightarrow> int \<Rightarrow> ResponseFormat \<Rightarrow> 'f response \<Rightarrow> response_writer \<Rightarrow> string option \<times> response_writer" where
  "WriteResponse L status format response rw =
     (case Marshal L format response of
        Inl err \<Rightarrow> (Some (''failed to marshal response: '' @ err), rw)
      | Inr content \<Rightarrow>
          (None, Write content (WriteHeader status (Header_Set ''Content-Type'' (ContentType format) rw))))"

section \<open>Errors\<close>

definition ERROR_INVALID_FORMAT :: int where "ERROR_INVALID_FORMAT = 1"
definition ERROR_MISSING_PARAMETER :: int where "ERROR_MISSING_PARAMETER = 2"
definition ERROR_INVALID_FINGERPRINT :: int where "ERROR_INVALID_FINGERPRINT = 3"
definition ERROR_INTERNAL :: int where "ERROR_INTERNAL = 5"
definition ERROR_INVALID_DURATION :: int where "ERROR_INVALID_DURATION = 8"
definition ERROR_SERVICE_UNAVAILABLE :: int where "ERROR_SERVICE_UNAVAILABLE = 13"
definition ERROR_TOO_MANY_REQUESTS :: int where "ERROR_TOO_MANY_REQUESTS = 14"

definition NewError :: "int \<Rightarrow> string \<Rightarrow> ErrorDetails" where
  "NewError errorCode errorMessage = \<lparr> err_Code = errorCode, err_Message = errorMessage \<rparr>"

definition Error_Error :: "ErrorDetails \<Rightarrow> string" where
  "Error_Error e = err_Message e @ '' ('' @ format_int (err_Code e) @ '')''"

definition error_response :: "ErrorDetails \<Rightarrow> 'f response" where
  "error_response e = RError \<lparr> er_Status = ''error'', er_Error = e \<rparr>"

definition error_status :: "ErrorDetails \<Rightarrow> int" where
  "error_status e =
     (if err_Code e = ERROR_INTERNAL then 500
      else if err_Code e = ERROR_SERVICE_UNAVAILABLE then 503
      else if err_Code e = ERROR_TOO_MANY_REQUESTS then 429
      else 400)"

text \<open>An error that cannot be written is answered with an internal error, and that one with its text.\<close>

function Write_Error :: "('f, 'g) api_lib \<Rightarrow> ResponseFormat \<Rightarrow> ErrorDetails \<Rightarrow> response_writer \<Rightarrow> response_writer" where
  "Write_Error L format e rw =
     (case WriteResponse L (error_status e) format (error_response e) rw of
        (None, rw) \<Rightarrow> rw
      | (Some err, rw) \<Rightarrow>
          if error_status e = 500 then Write (err_Message e) (WriteHeader (error_status e) rw)
          else Write_Error L format (NewError ERROR_INTERNAL ''internal error'') rw)"
  by pat_completeness auto
termination
  by (relation "measure (\<lambda>(L, format, e, rw). if error_status e = 500 then 0 else 1)")
    (auto simp: error_status_def NewError_def ERROR_INTERNAL_def)

declare Write_Error.simps [simp del]

section \<open>Lookup\<close>

definition MinDuration :: int where "MinDuration = 1"
definition MaxDuration :: int where "MaxDuration = 32767"

text \<open>\<open>parse_duration\<close> is the reading of the parameter, in nanoseconds.\<close>

definition parse_duration :: "('f, 'g) api_lib \<Rightarrow> string \<Rightarrow> int option" where
  "parse_duration L durationStr =
     (let F = api_floats L in
      case ParseFloat L durationStr of
        Inl err \<Rightarrow> None
      | Inr d \<Rightarrow>
          if f_lt F d (f_int F MinDuration) \<or> f_le F (f_int F MaxDuration) d then None
          else Some (int_of_f F (f_round F (f_mul F d (f_int F Second)))))"

type_synonym ('e, 'f, 'w) searcher =
  "Fingerprint \<Rightarrow> int \<Rightarrow> 'w \<Rightarrow> (('e + 'f FingerprintSearchResult list) \<times> 'w) option"

definition lookup_response :: "'f FingerprintSearchResult list \<Rightarrow> 'f response" where
  "lookup_response results = RLookup \<lparr> lp_Status = ''ok'',
     lp_Results = map (\<lambda>result. \<lparr> lr_ID = res_TrackGID result, lr_Score = res_Score result \<rparr>) results \<rparr>"

definition Lookup_ServeHTTP :: "('f, 'g) api_lib \<Rightarrow> ('e, 'f, 'w) searcher option \<Rightarrow> 'w handler" where
  "Lookup_ServeHTTP L searcher r = (\<lambda>(rw, w).
     (case GetResponseFormat L r of
        Inl err \<Rightarrow> Some (Write_Error L DefaultFormat (NewError ERROR_INVALID_FORMAT ''invalid format'') rw, w)
      | Inr format \<Rightarrow>
          let durationStr = FormValue (api_multipart L) r ''duration'' in
          if durationStr = '''' then
            Some (Write_Error L format (NewError ERROR_MISSING_PARAMETER (''missing parameter '' @ [CHR 0x27] @ ''duration'' @ [CHR 0x27])) rw, w)
          else case parse_duration L durationStr of
            None \<Rightarrow> Some (Write_Error L format (NewError ERROR_INVALID_DURATION ''invalid duration'') rw, w)
          | Some duration \<Rightarrow>
              let fingerprintStr = FormValue (api_multipart L) r ''fingerprint'' in
              if fingerprintStr = '''' then
                Some (Write_Error L format (NewError ERROR_MISSING_PARAMETER (''missing parameter '' @ [CHR 0x27] @ ''fingerprint'' @ [CHR 0x27])) rw, w)
              else Option.bind (ParseFingerprintString fingerprintStr) (\<lambda>(fingerprint, err).
                if err \<noteq> None then
                  Some (Write_Error L format (NewError ERROR_INVALID_FINGERPRINT ''invalid fingerprint'') rw, w)
                else Option.bind searcher (\<lambda>search.
                  case search fingerprint duration w of
                    None \<Rightarrow> None
                  | Some (Inl err, w) \<Rightarrow> Some (Write_Error L format (NewError ERROR_INTERNAL ''internal error'') rw, w)
                  | Some (Inr results, w) \<Rightarrow>
                      (case WriteResponse L 200 format (lookup_response results) rw of
                         (None, rw) \<Rightarrow> Some (rw, w)
                       | (Some err, rw) \<Rightarrow>
                           Some (Write_Error L format (NewError ERROR_INTERNAL ''internal error'') rw, w))))))"

section \<open>Routes\<close>

definition DecompressRequestBody :: "('f, 'g) api_lib \<Rightarrow> 'w handler \<Rightarrow> 'w handler" where
  "DecompressRequestBody L next_handler r s =
     (if req_Header r ''Content-Encoding'' = ''gzip'' then
        (case gzip_NewReader L (req_Body r) of
           Inl err \<Rightarrow> (case s of (rw, w) \<Rightarrow> Some (http_Error err 500 rw, w))
         | Inr body \<Rightarrow> next_handler (r\<lparr> req_Body := body \<rparr>) s)
      else next_handler r s)"

definition Metrics :: "('f, 'g) api_lib \<Rightarrow> 'w handler" where
  "Metrics L r = (\<lambda>(rw, w). Some (Write (promhttp L r) rw, w))"

definition Alive :: "'w handler" where
  "Alive r = (\<lambda>(rw, w). Some (Write (''I'' @ [CHR 0x27] @ ''m alive'' @ [CHR 0x0A]) (WriteHeader 200 rw), w))"

definition Ready :: "'w handler" where
  "Ready r = (\<lambda>(rw, w). Some (Write (''I'' @ [CHR 0x27] @ ''m ready'' @ [CHR 0x0A]) (WriteHeader 200 rw), w))"

definition NotImplemented :: "'w handler" where
  "NotImplemented r = (\<lambda>(rw, w). Some (http_Error ''Not implemented yet.'' 500 rw, w))"

definition NewV2Mux :: "('f, 'g) api_lib \<Rightarrow> ('e, 'f, 'w) searcher option \<Rightarrow> 'w handler ServeMux option" where
  "NewV2Mux L searcher =
     Option.bind (Handle ''/lookup'' (Lookup_ServeHTTP L searcher) NewServeMux) (\<lambda>mux.
     Option.bind (Handle ''/submit'' NotImplemented mux) (\<lambda>mux.
     Option.bind (Handle ''/submission_status'' NotImplemented mux) (\<lambda>mux.
     Handle ''/fingerprint'' NotImplemented mux)))"

definition NewAPI :: "('f, 'g) api_lib \<Rightarrow> ('e, 'f, 'w) searcher option \<Rightarrow> 'w handler ServeMux option" where
  "NewAPI L searcher =
     Option.bind (Handle ''/metrics'' (Metrics L) NewServeMux) (\<lambda>mux.
     Option.bind (Handle ''/alive'' Alive mux) (\<lambda>mux.
     Option.bind (Handle ''/ready'' Ready mux) (\<lambda>mux.
     Option.bind (NewV2Mux L searcher) (\<lambda>v2Mux.
     Handle ''/v2/'' (DecompressRequestBody L (mux_ServeHTTP v2Mux)) mux))))"

definition API_ServeHTTP :: "('f, 'g) api_lib \<Rightarrow> ('e, 'f, 'w) searcher option \<Rightarrow> 'w handler" where
  "API_ServeHTTP L searcher r s = Option.bind (NewAPI L searcher) (\<lambda>mux. mux_ServeHTTP mux r s)"

section \<open>One answer\<close>

lemma WriteResponse_sent:
  assumes "rw_sent rw = None"
  shows "WriteResponse L status format response rw =
    (case Marshal L format response of
       Inl err \<Rightarrow> (Some (''failed to marshal response: '' @ err), rw)
     | Inr content \<Rightarrow> (None, \<lparr> rw_Header = (rw_Header rw)(''Content-Type'' \<mapsto> ContentType format),
         rw_sent = Some (status, (rw_Header rw)(''Content-Type'' \<mapsto> ContentType format)), rw_body = rw_body rw @ content \<rparr>))"
  using assms by (cases rw) (simp add: WriteResponse_def Write_def WriteHeader_def Header_Set_def Let_def split: sum.split)

lemma WriteError_sent:
  assumes "rw_sent rw = None"
  shows "\<exists>h. rw_sent (Write_Error L format e rw) =
    Some (case Marshal L format (error_response e) of Inl _ \<Rightarrow> 500 | Inr _ \<Rightarrow> error_status e, h)"
proof (cases "Marshal L format (error_response e)")
  case (Inr content)
  with assms show ?thesis by (subst Write_Error.simps) (simp add: WriteResponse_sent)
next
  case (Inl err)
  let ?i = "NewError ERROR_INTERNAL ''internal error''"
  have "error_status ?i = 500" by (simp add: error_status_def NewError_def)
  then have "\<exists>h. rw_sent (Write_Error L format ?i rw) = Some (500, h)"
    using assms by (subst Write_Error.simps) (simp add: WriteResponse_sent http_simps split: sum.split)
  with Inl assms show ?thesis by (subst Write_Error.simps) (simp add: WriteResponse_sent http_simps)
qed

text \<open>What the parameters of a request ask for, \<open>None\<close> if one of them is wrong.\<close>

definition lookup_query :: "('f, 'g) api_lib \<Rightarrow> http_request \<Rightarrow> (ResponseFormat \<times> int \<times> Fingerprint) option" where
  "lookup_query L r =
     (let get = FormValue (api_multipart L) r in
      case (GetResponseFormat L r, parse_duration L (get ''duration''), ParseFingerprintString (get ''fingerprint'')) of
        (Inr format, Some duration, Some (fingerprint, None)) \<Rightarrow>
          if get ''duration'' = [] \<or> get ''fingerprint'' = [] then None else Some (format, duration, fingerprint)
      | _ \<Rightarrow> None)"

text \<open>A request is turned down without a search, or searched for once.\<close>

lemma Lookup_turned_down:
  assumes "lookup_query L r = None"
  shows "\<exists>format e. Lookup_ServeHTTP L searcher r (rw, w) = Some (Write_Error L format e rw, w) \<and> error_status e = 400"
proof -
  obtain fp err where fp: "ParseFingerprintString (FormValue (api_multipart L) r ''fingerprint'') = Some (fp, err)"
    using ParseFingerprintString_returns by blast
  have codes: "error_status (NewError ERROR_INVALID_FORMAT m) = 400" "error_status (NewError ERROR_MISSING_PARAMETER m) = 400"
    "error_status (NewError ERROR_INVALID_DURATION m) = 400" "error_status (NewError ERROR_INVALID_FINGERPRINT m) = 400" for m
    by (simp_all add: error_status_def NewError_def ERROR_INVALID_FORMAT_def ERROR_MISSING_PARAMETER_def
        ERROR_INVALID_DURATION_def ERROR_INVALID_FINGERPRINT_def ERROR_INTERNAL_def ERROR_SERVICE_UNAVAILABLE_def
        ERROR_TOO_MANY_REQUESTS_def)
  show ?thesis
  proof (cases "GetResponseFormat L r")
    case (Inl e)
    then show ?thesis using codes by (auto simp: Lookup_ServeHTTP_def)
  next
    case (Inr format)
    show ?thesis
    proof (cases "parse_duration L (FormValue (api_multipart L) r ''duration'')")
      case None
      with Inr show ?thesis
        by (cases "FormValue (api_multipart L) r ''duration'' = []")
          (simp add: Lookup_ServeHTTP_def Let_def, blast intro: codes)+
    next
      case (Some d)
      consider "FormValue (api_multipart L) r ''duration'' = []"
        | "FormValue (api_multipart L) r ''duration'' \<noteq> []" "FormValue (api_multipart L) r ''fingerprint'' = []"
        | "FormValue (api_multipart L) r ''duration'' \<noteq> []" "FormValue (api_multipart L) r ''fingerprint'' \<noteq> []" "err \<noteq> None"
        using assms fp Inr Some by (cases err) (auto simp: lookup_query_def Let_def split: if_splits)
      then show ?thesis
        by cases (use Inr fp Some in \<open>simp add: Lookup_ServeHTTP_def Let_def, blast intro: codes\<close>)+
    qed
  qed
qed

lemma Lookup_searched:
  assumes "lookup_query L r = Some (format, duration, fingerprint)"
  shows "Lookup_ServeHTTP L (Some search) r (rw, w) =
    (case search fingerprint duration w of
       None \<Rightarrow> None
     | Some (Inl err, w) \<Rightarrow> Some (Write_Error L format (NewError ERROR_INTERNAL ''internal error'') rw, w)
     | Some (Inr results, w) \<Rightarrow>
         (case WriteResponse L 200 format (lookup_response results) rw of
            (None, rw) \<Rightarrow> Some (rw, w)
          | (Some err, rw) \<Rightarrow> Some (Write_Error L format (NewError ERROR_INTERNAL ''internal error'') rw, w)))"
    and "0 < length (Hashes fingerprint) \<and> length (Hashes fingerprint) < 2 ^ 24"
  using assms ParseFingerprintString_returns [of "FormValue (api_multipart L) r ''fingerprint''"]
  by (auto simp: Lookup_ServeHTTP_def lookup_query_def Let_def split: sum.splits option.splits if_splits)

lemma internal_status [simp]: "error_status (NewError ERROR_INTERNAL m) = 500"
  by (simp add: error_status_def NewError_def)

text \<open>
  C13. A lookup is answered with one response. A request with a wrong or missing parameter is turned
  down without a search: with status 400, or 500 if the error cannot be written. For any other the
  searcher is asked once, with the fingerprint, which has between 1 and \<open>2^24 - 1\<close> hashes, and the
  duration; the response is 500 if the search fails or its results cannot be written, and otherwise
  200 with the results and nothing else in the format that was asked for.
\<close>

theorem lookup_answers:
  assumes "rw_sent rw = None" and "\<forall>fp d w. search fp d w \<noteq> None"
  shows "\<exists>rw' w' status h. Lookup_ServeHTTP L (Some search) r (rw, w) = Some (rw', w') \<and> rw_sent rw' = Some (status, h) \<and>
    (case lookup_query L r of
       None \<Rightarrow> w' = w \<and> status \<in> {400, 500} \<and>
         ((\<forall>format e. isl (Marshal L format (error_response e)) = False) \<longrightarrow> status = 400)
     | Some (format, duration, fingerprint) \<Rightarrow>
         0 < length (Hashes fingerprint) \<and> length (Hashes fingerprint) < 2 ^ 24 \<and>
         (\<exists>answer. search fingerprint duration w = Some (answer, w') \<and>
            (case answer of
               Inl err \<Rightarrow> status = 500
             | Inr results \<Rightarrow>
                 (case Marshal L format (lookup_response results) of
                    Inl err \<Rightarrow> status = 500
                  | Inr content \<Rightarrow> status = 200 \<and> rw_body rw' = rw_body rw @ content \<and>
                      h ''Content-Type'' = Some (ContentType format)))))"
proof (cases "lookup_query L r")
  case None
  from Lookup_turned_down [OF this, of "Some search" rw w] obtain format e where
    e: "Lookup_ServeHTTP L (Some search) r (rw, w) = Some (Write_Error L format e rw, w)" "error_status e = 400" by blast
  obtain h where "rw_sent (Write_Error L format e rw) =
      Some (case Marshal L format (error_response e) of Inl _ \<Rightarrow> 500 | Inr _ \<Rightarrow> 400, h)"
    using WriteError_sent [OF assms(1), of L format e] unfolding e(2) by blast
  with e(1) None show ?thesis by (cases "Marshal L format (error_response e)") (auto, metis sum.disc(1))
next
  case (Some q)
  obtain format duration fingerprint where q: "q = (format, duration, fingerprint)" by (cases q)
  note query = Lookup_searched [OF Some [unfolded q]]
  obtain answer w1 where answer: "search fingerprint duration w = Some (answer, w1)"
    using assms(2) by fastforce
  obtain h where internal: "rw_sent (Write_Error L format (NewError ERROR_INTERNAL ''internal error'') rw) = Some (500, h)"
    using WriteError_sent [OF assms(1), of L format "NewError ERROR_INTERNAL ''internal error''"]
    by (auto split: sum.splits)
  show ?thesis
  proof (cases answer)
    case (Inl err)
    with Some q answer internal query(2) show ?thesis by (simp add: query(1))
  next
    case (Inr results)
    with Some q answer internal query(2) show ?thesis
      by (cases "Marshal L format (lookup_response results)") (simp_all add: query(1) WriteResponse_sent [OF assms(1)])
  qed
qed

section \<open>No way to the lookup\<close>

lemma V2Mux: "NewV2Mux L searcher = Some \<lparr> mux_m =
    [(''/lookup'', Lookup_ServeHTTP L searcher), (''/submit'', NotImplemented),
     (''/submission_status'', NotImplemented), (''/fingerprint'', NotImplemented)], mux_es = [], mux_hosts = False \<rparr>"
  by (simp add: NewV2Mux_def Handle_def NewServeMux_def)

lemma V2Mux_fields:
  assumes "NewV2Mux L searcher = Some mux"
  shows "fst ` set (mux_m mux) = {''/lookup'', ''/submit'', ''/submission_status'', ''/fingerprint''}"
    and "mux_es mux = []" and "\<not> mux_hosts mux"
  using assms unfolding V2Mux option.inject by (auto simp del: char_of_eq_iff)

lemma V2Mux_slash:
  assumes "NewV2Mux L searcher = Some mux" and "last p = CHR ''/'' \<or> has_prefix p ''/v2/''"
  shows "map_of (mux_m mux) p = None"
  unfolding map_of_eq_None_iff V2Mux_fields(1) [OF assms(1)] using assms(2) by auto

text \<open>Behind the prefix no pattern of the inner multiplexer fits.\<close>

lemma V2Mux_misses:
  assumes "NewV2Mux L searcher = Some mux" and "has_prefix path ''/v2/''"
  shows "mux_handler mux host path = NotFound" and "\<not> should_redirect mux host path"
proof -
  show "mux_handler mux host path = NotFound"
    using V2Mux_slash [OF assms(1)] V2Mux_fields(2,3) [OF assms(1)] assms(2)
    by (simp add: mux_handler_def mux_match_def)
  show "\<not> should_redirect mux host path"
    using V2Mux_slash [OF assms(1)] by (simp add: should_redirect_def)
qed

text \<open>A handler that leaves the world alone, and the handlers of the outer multiplexer.\<close>

definition quiet :: "'w handler \<Rightarrow> http_request \<Rightarrow> bool" where
  "quiet h r = (\<forall>rw w. \<exists>rw'. h r (rw, w) = Some (rw', w))"

lemma quiet_handlers [simp]:
  "quiet NotFound r" "quiet (Redirect path) r" "quiet (Metrics L) r" "quiet Alive r" "quiet Ready r"
  by (simp_all add: quiet_def NotFound_def Redirect_def Metrics_def Alive_def Ready_def)

text \<open>
  The handler behind the prefix, for a request that the outer multiplexer hands to it: that one has
  cleaned the path, unless the method is \<open>CONNECT\<close>.
\<close>

lemma V2Mux_NotFound:
  assumes "NewV2Mux L searcher = Some mux" and "has_prefix (req_Path r) ''/v2/''" and "req_URI r \<noteq> ''*''"
    and "req_Method r = ''CONNECT'' \<or> cleanPath (req_Path r) = req_Path r"
  shows "mux_ServeHTTP mux r = NotFound r"
  using assms V2Mux_misses [OF assms(1,2)] by (auto simp: fun_eq_iff mux_ServeHTTP_def mux_Handler_def Let_def)

definition not_found_v2 :: "('f, 'g) api_lib \<Rightarrow> 'w handler" where
  "not_found_v2 L = DecompressRequestBody L NotFound"

lemma quiet_not_found_v2 [simp]: "quiet (not_found_v2 L) r"
  by (simp add: quiet_def not_found_v2_def DecompressRequestBody_def NotFound_def split: sum.split)

lemma V2_handler:
  assumes "NewV2Mux L searcher = Some mux" and "has_prefix (req_Path r) ''/v2/''" and "req_URI r \<noteq> ''*''"
    and "req_Method r = ''CONNECT'' \<or> cleanPath (req_Path r) = req_Path r"
  shows "DecompressRequestBody L (mux_ServeHTTP mux) r = not_found_v2 L r"
  using assms V2Mux_NotFound [OF assms(1)]
  by (simp add: fun_eq_iff DecompressRequestBody_def not_found_v2_def split: sum.split)

text \<open>The outer multiplexer, with the handler behind the prefix as a parameter.\<close>

definition outer_mux :: "('f, 'g) api_lib \<Rightarrow> 'w handler \<Rightarrow> 'w handler ServeMux" where
  "outer_mux L h = \<lparr> mux_m = [(''/metrics'', Metrics L), (''/alive'', Alive), (''/ready'', Ready), (''/v2/'', h)],
     mux_es = [(''/v2/'', h)], mux_hosts = False \<rparr>"

lemma NewAPI_outer:
  "\<exists>mux. NewV2Mux L searcher = Some mux \<and> NewAPI L searcher = Some (outer_mux L (DecompressRequestBody L (mux_ServeHTTP mux)))"
  unfolding NewAPI_def V2Mux by (simp add: Handle_def NewServeMux_def outer_mux_def)

lemma outer_match:
  "mux_match (outer_mux L h) path =
    (if path = ''/metrics'' then Some (Metrics L) else if path = ''/alive'' then Some Alive
     else if path = ''/ready'' then Some Ready else if has_prefix path ''/v2/'' then Some h else None)"
  by (auto simp: mux_match_def outer_mux_def)

lemma outer_handler:
  "mux_handler (outer_mux L h) host path =
    (if path = ''/metrics'' then Metrics L else if path = ''/alive'' then Alive
     else if path = ''/ready'' then Ready else if has_prefix path ''/v2/'' then h else NotFound)"
  by (simp add: mux_handler_def outer_match) (simp add: outer_mux_def)

lemma outer_redirect: "should_redirect (outer_mux L h) = should_redirect (outer_mux L h')"
proof -
  have "map_of (mux_m (outer_mux L h)) p = None \<longleftrightarrow> map_of (mux_m (outer_mux L h')) p = None" for p
    unfolding map_of_eq_None_iff by (simp add: outer_mux_def)
  then show ?thesis by (simp add: fun_eq_iff should_redirect_def)
qed

lemma outer_serve:
  assumes "req_URI r \<noteq> ''*'' \<Longrightarrow> has_prefix (req_Path r) ''/v2/'' \<Longrightarrow>
    req_Method r = ''CONNECT'' \<or> cleanPath (req_Path r) = req_Path r \<Longrightarrow> h r = h' r"
  shows "mux_ServeHTTP (outer_mux L h) r s = mux_ServeHTTP (outer_mux L h') r s"
  using assms outer_redirect [of L h h']
  by (auto simp: mux_ServeHTTP_def mux_Handler_def outer_handler Let_def)

lemma API_serves:
  "API_ServeHTTP L searcher r s = mux_ServeHTTP (outer_mux L (not_found_v2 L)) r s"
proof -
  obtain mux where mux: "NewV2Mux L searcher = Some mux"
      "NewAPI L searcher = Some (outer_mux L (DecompressRequestBody L (mux_ServeHTTP mux)))"
    using NewAPI_outer by blast
  show ?thesis
    unfolding API_ServeHTTP_def mux(2) Option.bind.simps
    by (rule outer_serve) (rule V2_handler [OF mux(1)])
qed

lemma outer_quiet:
  assumes "quiet h r"
  shows "\<exists>rw'. mux_ServeHTTP (outer_mux L h) r (rw, w) = Some (rw', w)"
proof (cases "req_URI r = ''*''")
  case False
  then have "quiet (mux_Handler (outer_mux L h) r) r"
    using assms by (simp add: mux_Handler_def outer_handler Let_def)
  with False show ?thesis by (simp add: mux_ServeHTTP_def quiet_def)
qed (simp add: mux_ServeHTTP_def)

text \<open>
  C18. No request reaches the lookup: the multiplexer with the pattern \<open>/lookup\<close> only sees paths that
  begin with \<open>/v2/\<close>. Whatever the searcher is, the API answers every request in the same way,
  without asking it, and a request for \<open>/v2/lookup\<close> with a plain body is answered with status 404.
\<close>

theorem lookup_unreachable:
  "API_ServeHTTP L searcher r (rw, w) = API_ServeHTTP L searcher' r (rw, w) \<and>
   (\<exists>rw'. API_ServeHTTP L searcher r (rw, w) = Some (rw', w)) \<and>
   (req_Path r = ''/v2/lookup'' \<and> req_URI r \<noteq> ''*'' \<and> req_Header r ''Content-Encoding'' \<noteq> ''gzip'' \<longrightarrow>
      API_ServeHTTP L searcher r (rw, w) = Some (http_Error ''404 page not found'' 404 rw, w))"
proof (intro conjI impI)
  show "API_ServeHTTP L searcher r (rw, w) = API_ServeHTTP L searcher' r (rw, w)" by (simp add: API_serves)
  show "\<exists>rw'. API_ServeHTTP L searcher r (rw, w) = Some (rw', w)" unfolding API_serves by (rule outer_quiet) simp
  assume a: "req_Path r = ''/v2/lookup'' \<and> req_URI r \<noteq> ''*'' \<and> req_Header r ''Content-Encoding'' \<noteq> ''gzip''"
  have "cleanPath ''/v2/lookup'' = ''/v2/lookup''" by code_simp
  with a have "mux_Handler (outer_mux L (not_found_v2 L)) r r (rw, w) = not_found_v2 L r (rw, w)"
    by (simp add: mux_Handler_def outer_handler should_redirect_def Let_def) (simp add: outer_mux_def)
  with a show "API_ServeHTTP L searcher r (rw, w) = Some (http_Error ''404 page not found'' 404 rw, w)"
    unfolding API_serves by (simp add: mux_ServeHTTP_def) (simp add: not_found_v2_def DecompressRequestBody_def NotFound_def)
qed

section \<open>Witnesses\<close>

text \<open>Exact durations of whole seconds, and a marshaller of the shape of the responses.\<close>

definition plain_lib :: "(real, real) api_lib" where
  "plain_lib = \<lparr> api_floats = real_floats,
     ParseFloat = (\<lambda>s. case parse_uint 32 s of Inl e \<Rightarrow> Inl e | Inr n \<Rightarrow> Inr (real n)),
     json_Marshal = (\<lambda>response. Inr (case response of RError e \<Rightarrow> err_Message (er_Error e) | RLookup l \<Rightarrow> concat (map lr_ID (lp_Results l)))),
     xml_Encode = (\<lambda>response. Inl ''no XML''), api_multipart = (\<lambda>r. []), gzip_NewReader = Inr, promhttp = (\<lambda>r. ''metrics'') \<rparr>"

definition lookup_request :: "string \<Rightarrow> string \<Rightarrow> http_request" where
  "lookup_request path query = \<lparr> req_Method = ''GET'', req_URI = path @ ''?'' @ query, req_Host = ''localhost'',
     req_Path = path, req_RawQuery = query, req_Header = (\<lambda>_. []), req_Media = [], req_Body = Some [] \<rparr>"

lemma plain_simps [simp]:
  "api_floats plain_lib = real_floats" "api_multipart plain_lib = (\<lambda>r. [])"
  "ParseFloat plain_lib = (\<lambda>s. case parse_uint 32 s of Inl e \<Rightarrow> Inl e | Inr n \<Rightarrow> Inr (real n))"
  by (simp_all add: plain_lib_def)

lemma plain_Marshal:
  "json_Marshal plain_lib (RLookup l) = Inr (concat (map lr_ID (lp_Results l)))"
  by (simp add: plain_lib_def)

text \<open>Up to rounding, the duration is between a second and \<open>MaxDuration\<close> seconds.\<close>

lemma parse_duration_bounds:
  assumes "api_floats L = real_floats" and "parse_duration L s = Some d"
  shows "Second \<le> d \<and> d \<le> MaxDuration * Second"
proof -
  obtain x :: real where x: "ParseFloat L s = Inr x" "1 \<le> x" "x < 32767"
      "d = int_of_f real_floats (f_round real_floats (x * 1000000000))"
    using assms by (auto simp: parse_duration_def Let_def MinDuration_def MaxDuration_def Second_def Millisecond_def split: sum.splits if_splits)
  define y where "y = x * 1000000000"
  have "d = \<lfloor>y + 1 / 2\<rfloor>" using x by (simp add: real_floats_def y_def)
  moreover have "1000000000 \<le> y" "y < 32767000000000" using x by (simp_all add: y_def)
  ultimately show ?thesis by (auto simp: Second_def Millisecond_def MaxDuration_def)
qed

text \<open>
  A request a client makes of a fingerprint: its compressed form, with a duration in seconds, as an
  escaped query.
\<close>

definition lookup_form :: "string \<Rightarrow> u8 list \<Rightarrow> string" where
  "lookup_form seconds data =
     EncodeValues [(''duration'', seconds), (''fingerprint'', EncodeFingerprintToString data)]"

lemma FormValue_lookup_form:
  fixes path seconds data
  defines "get \<equiv> FormValue (\<lambda>_. []) (lookup_request path (lookup_form seconds data))"
  shows "get ''format'' = []" "get ''duration'' = seconds" "get ''fingerprint'' = EncodeFingerprintToString data"
proof -
  have "Form (\<lambda>_. []) (lookup_request path (lookup_form seconds data)) =
      [(''duration'', seconds), (''fingerprint'', EncodeFingerprintToString data)]"
    by (simp add: Form_def PostForm_def lookup_request_def lookup_form_def ParseQuery_Encode)
  then show "get ''format'' = []" "get ''duration'' = seconds" "get ''fingerprint'' = EncodeFingerprintToString data"
    by (simp_all add: get_def FormValue_def)
qed

lemma lookup_query_client:
  assumes "Hashes fp \<noteq> []" and "length (Hashes fp) < 2 ^ 24" and "api_multipart L = (\<lambda>_. [])"
    and "seconds \<noteq> []" and "parse_duration L seconds = Some d"
  shows "\<exists>data. CompressFingerprint fp = Some data \<and>
    lookup_query L (lookup_request path (lookup_form seconds data)) =
      Some (JSON, d, \<lparr> Version = Version fp AND 255, Hashes = Hashes fp \<rparr>)"
proof -
  note parse = ParseFingerprintString_compressed [OF assms(1,2)]
  have "EncodeFingerprintToString (compressed fp) \<noteq> []" by (simp add: EncodeFingerprintToString_def)
  then show ?thesis
    using assms parse
    by (intro exI [of _ "compressed fp"] conjI)
      (simp_all add: CompressFingerprint_eq lookup_query_def FormValue_lookup_form GetResponseFormat_def DefaultFormat_def)
qed

lemma plain_ten: "parse_duration plain_lib ''10'' = Some 10000000000"
  by (simp add: parse_duration_def parse_uint_def digit_value_def MinDuration_def MaxDuration_def Second_def Millisecond_def
      real_floats_def Let_def)

text \<open>A searcher that finds the track it counts its searches with.\<close>

definition one_track :: "(string, real, nat) searcher" where
  "one_track fp d n = Some (Inr [\<lparr> res_TrackID = 7, res_TrackGID = ''track'', res_Score = 1 \<rparr>], n + 1)"

theorem lookup_answers_witness:
  "\<exists>data rw' h. CompressFingerprint \<lparr> Version = 1, Hashes = [0x80000001, 0x80000003] \<rparr> = Some data \<and>
     Lookup_ServeHTTP plain_lib (Some one_track) (lookup_request ''/lookup'' (lookup_form ''10'' data)) (fresh_response, 0) =
       Some (rw', 1) \<and>
     rw_sent rw' = Some (200, h) \<and> rw_body rw' = ''track'' \<and> h ''Content-Type'' = Some ''application/json''"
proof -
  let ?fp = "\<lparr> Version = 1, Hashes = [0x80000001, 0x80000003] \<rparr> :: Fingerprint"
  obtain data where data: "CompressFingerprint ?fp = Some data"
      "lookup_query plain_lib (lookup_request ''/lookup'' (lookup_form ''10'' data)) = Some (JSON, 10000000000, ?fp)"
    using lookup_query_client [of ?fp plain_lib "''10''" 10000000000 "''/lookup''"] plain_ten by auto
  have "rw_sent fresh_response = None" "\<forall>fp d w. one_track fp d w \<noteq> None" "rw_body fresh_response = []"
    "one_track ?fp 10000000000 0 = Some (Inr [\<lparr> res_TrackID = 7, res_TrackGID = ''track'', res_Score = 1 \<rparr>], 1)"
    by (simp_all add: fresh_response_def one_track_def)
  with lookup_answers [OF this(1,2), where L = plain_lib and r = "lookup_request ''/lookup'' (lookup_form ''10'' data)" and w = 0]
    data
  show ?thesis
    by (auto simp: plain_Marshal lookup_response_def)
qed

theorem lookup_unreachable_witness:
  "API_ServeHTTP plain_lib (Some one_track) (lookup_request ''/v2/lookup'' ''duration=10'') (fresh_response, 0) =
     Some (http_Error ''404 page not found'' 404 fresh_response, 0)"
proof -
  have "req_Path (lookup_request ''/v2/lookup'' ''duration=10'') = ''/v2/lookup''"
    "req_URI (lookup_request ''/v2/lookup'' ''duration=10'') \<noteq> ''*''"
    "req_Header (lookup_request ''/v2/lookup'' ''duration=10'') ''Content-Encoding'' \<noteq> ''gzip''"
    by (simp_all add: lookup_request_def)
  then show ?thesis
    by (intro lookup_unreachable [THEN conjunct2, THEN conjunct2, THEN mp]) blast
qed

end
