(* ===== verification/GenPack.thy ===== *)
theory GenPack
  imports GoStrings
begin

text \<open>
  \<open>util/gen_pack.go\<close>: the generator of \<open>util/pack.go\<close>. A function of the generator is a function on
  the lines of the text; \<open>fmt.Sprintf\<close> with \<open>%d\<close> is \<open>format_uint\<close>. The number of bits is positive, as
  the code divides by it. The file it is written to is left out.
\<close>

section \<open>The generator\<close>

abbreviation tab :: string where "tab \<equiv> [CHR 0x09]"
abbreviation nl :: string where "nl \<equiv> [CHR 0x0A]"

definition join_text :: "string \<Rightarrow> string list \<Rightarrow> string" where
  "join_text sep ss = (case ss of [] \<Rightarrow> [] | s # ss \<Rightarrow> s @ concat (map ((@) sep) ss))"

definition vtype_of :: "nat \<Rightarrow> string" where
  "vtype_of sblock =
     (if sblock \<le> 1 then ''uint8'' else if sblock \<le> 2 then ''uint16'' else if sblock \<le> 4 then ''uint32'' else ''uint64'')"

text \<open>The slice of the sources of a value, each shifted by \<open>width\<close> more than the last.\<close>

definition gen_src :: "string \<Rightarrow> nat \<Rightarrow> nat \<Rightarrow> string list" where
  "gen_src vtype width n = map (\<lambda>i.
     vtype @ ''(src['' @ format_uint i @ ''])'' @ (if i > 0 then ''<<'' @ format_uint (i * width) else [])) [0..<n]"

definition genUnpackIntArrayInner :: "nat \<Rightarrow> nat \<Rightarrow> string list \<Rightarrow> bool \<Rightarrow> string list" where
  "genUnpackIntArrayInner bits sblock ls pack =
     (let dblock = sblock * 8 div bits; vtype = vtype_of sblock; src = gen_src vtype 8 sblock;
          ls = (if pack then ls @ [tab @ tab @ ''val := '' @ join_text '' | '' src] else ls);
          ls = ls @ [tab @ tab @ ''d := dst[n : n+'' @ format_uint dblock @ '' : len(dst)]''];
          ls = ls @ map (\<lambda>i. tab @ tab @ ''d['' @ format_uint i @ ''] = uint8((val >> '' @ format_uint (bits * i) @ '') & '' @
                                format_uint (2 ^ bits - 1) @ '')'') [0..<dblock]
      in ls @ [tab @ tab @ ''n += '' @ format_uint dblock])"

text \<open>The first \<open>i\<close> from 1 to \<open>bits\<close> with \<open>i\<close> bytes a multiple of \<open>bits\<close>.\<close>

definition gen_sblock :: "nat \<Rightarrow> nat" where
  "gen_sblock bits = (case List.find (\<lambda>i. (i * 8) mod bits = 0) [1..<bits + 1] of None \<Rightarrow> 0 | Some i \<Rightarrow> i)"

definition gen_cases :: "(nat \<Rightarrow> string list \<Rightarrow> string list) \<Rightarrow> nat list \<Rightarrow> string list \<Rightarrow> string list" where
  "gen_cases inner is ls = foldl (\<lambda>ls i. inner i (ls @ [tab @ ''case '' @ format_uint i @ '':''])) ls is"

definition genUnpackIntArray :: "nat \<Rightarrow> string" where
  "genUnpackIntArray bits =
     (let sblock = gen_sblock bits; b = format_uint bits;
          ls = [''// UnpackUint'' @ b @ ''Slice converts a bit-packed uint'' @ b @ '' slice to an uint8 slice.'',
                ''func UnpackUint'' @ b @ ''Slice(src []byte) []uint8 {'',
                tab @ ''dst := make([]uint8, (len(src)*8)/'' @ b @ '')'',
                tab @ ''n := 0''];
          ls = (if sblock = 1 then genUnpackIntArrayInner bits sblock (ls @ [tab @ ''for _, val := range src {'']) False
                else genUnpackIntArrayInner bits sblock (ls @ [tab @ ''for len(src) >= '' @ format_uint sblock @ '' {'']) True @
                     [tab @ tab @ ''src = src['' @ format_uint sblock @ '':]'']);
          ls = ls @ [tab @ ''}''];
          ls = (if sblock > 1 then
                  gen_cases (\<lambda>i ls. genUnpackIntArrayInner bits i ls True) (rev [1..<sblock]) (ls @ [tab @ ''switch len(src) {'']) @
                  [tab @ ''}'']
                else ls)
      in join_text nl (ls @ [tab @ ''return dst'', ''}'']))"

definition genPackIntArrayInner :: "nat \<Rightarrow> nat \<Rightarrow> string list \<Rightarrow> bool \<Rightarrow> string list" where
  "genPackIntArrayInner bits dblock ls pack =
     (let sblock = (dblock * bits + 7) div 8; vtype = vtype_of sblock; src = gen_src vtype bits dblock;
          ls = (if pack then ls @ [tab @ tab @ ''val := '' @ join_text '' | '' src] else ls);
          ls = (if sblock = 1 then ls @ [tab @ tab @ ''dst[n] = uint8(val & 255)'']
                else (ls @ [tab @ tab @ ''d := dst[n : n+'' @ format_uint sblock @ '' : len(dst)]'']) @
                     map (\<lambda>i. tab @ tab @ ''d['' @ format_uint i @ ''] = uint8((val >> '' @ format_uint (8 * i) @ '') & 255)'') [0..<sblock])
      in ls @ [tab @ tab @ ''n += '' @ format_uint sblock])"

definition genPackIntArray :: "nat \<Rightarrow> string" where
  "genPackIntArray bits =
     (let sblock = gen_sblock bits; dblock = sblock * 8 div bits; b = format_uint bits;
          ls = [''// PackUint'' @ b @ ''Slice converts an uint8 slice into a bit-packed uint'' @ b @ '' slice.'',
                ''func PackUint'' @ b @ ''Slice(dst []byte, src []uint8) int {'',
                tab @ ''n := 0''];
          ls = (if dblock = 1 then genPackIntArrayInner bits dblock (ls @ [tab @ ''for _, val := range src {'']) False
                else genPackIntArrayInner bits dblock (ls @ [tab @ ''for len(src) >= '' @ format_uint dblock @ '' {'']) True @
                     [tab @ tab @ ''src = src['' @ format_uint dblock @ '':]'']);
          ls = ls @ [tab @ ''}''];
          ls = (if dblock > 1 then
                  gen_cases (\<lambda>i ls. genPackIntArrayInner bits i ls True) (rev [1..<dblock]) (ls @ [tab @ ''switch len(src) {'']) @
                  [tab @ ''}'']
                else ls)
      in join_text nl (ls @ [tab @ ''return n'', ''}'']))"

definition gen_main :: string where
  "gen_main = join_text (nl @ nl)
     ((''// Copyright (C) 2016  Lukas Lalinsky'' @ nl @
       ''// Distributed under the MIT license, see the LICENSE file for details.'' @ nl @ nl @
       ''// THIS FILE WAS AUTOMATICALLY GENERATED, DO NOT EDIT'' @ nl @ nl @
       ''package util'') #
      concat (map (\<lambda>i. [genPackIntArray i, genUnpackIntArray i]) [1..<8]))"

section \<open>Blocks\<close>

text \<open>
  A block is the least number of bytes that holds whole values, and no shift of the generated code
  goes beyond the type it is in.
\<close>

definition vtype_width :: "nat \<Rightarrow> nat" where
  "vtype_width n = (if n \<le> 1 then 8 else if n \<le> 2 then 16 else if n \<le> 4 then 32 else 64)"

lemma gen_blocks:
  "list_all (\<lambda>bits. let b = gen_sblock bits in
     1 \<le> b \<and> b \<le> bits \<and> (8 * b) mod bits = 0 \<and> list_all (\<lambda>i. (8 * i) mod bits \<noteq> 0) [1..<b] \<and>
     list_all (\<lambda>i. 8 * i \<le> vtype_width i) [1..<b + 1] \<and>
     list_all (\<lambda>i. i * bits \<le> vtype_width ((i * bits + 7) div 8)) [1..<8 * b div bits + 1]) [1..<8]"
  by code_simp

section \<open>The generated file\<close>

text \<open>
  The text of \<open>util/pack.go\<close>, the lines of each routine with its comment.
\<close>

definition text_PackUint1Slice :: string where
  "text_PackUint1Slice = join_text nl [''// PackUint1Slice converts an uint8 slice into a bit-packed uint1 slice.'',
     ''func PackUint1Slice(dst []byte, src []uint8) int {'',
     tab @ ''n := 0'',
     tab @ ''for len(src) >= 8 {'',
     tab @ tab @ ''val := uint8(src[0]) | uint8(src[1])<<1 | uint8(src[2])<<2 | uint8(src[3])<<3 | uint8(src[4])<<4 | uint8(src[5])<<5 | uint8(src[6])<<6 | uint8(src[7])<<7'',
     tab @ tab @ ''dst[n] = uint8(val & 255)'',
     tab @ tab @ ''n += 1'',
     tab @ tab @ ''src = src[8:]'',
     tab @ ''}'',
     tab @ ''switch len(src) {'',
     tab @ ''case 7:'',
     tab @ tab @ ''val := uint8(src[0]) | uint8(src[1])<<1 | uint8(src[2])<<2 | uint8(src[3])<<3 | uint8(src[4])<<4 | uint8(src[5])<<5 | uint8(src[6])<<6'',
     tab @ tab @ ''dst[n] = uint8(val & 255)'',
     tab @ tab @ ''n += 1'',
     tab @ ''case 6:'',
     tab @ tab @ ''val := uint8(src[0]) | uint8(src[1])<<1 | uint8(src[2])<<2 | uint8(src[3])<<3 | uint8(src[4])<<4 | uint8(src[5])<<5'',
     tab @ tab @ ''dst[n] = uint8(val & 255)'',
     tab @ tab @ ''n += 1'',
     tab @ ''case 5:'',
     tab @ tab @ ''val := uint8(src[0]) | uint8(src[1])<<1 | uint8(src[2])<<2 | uint8(src[3])<<3 | uint8(src[4])<<4'',
     tab @ tab @ ''dst[n] = uint8(val & 255)'',
     tab @ tab @ ''n += 1'',
     tab @ ''case 4:'',
     tab @ tab @ ''val := uint8(src[0]) | uint8(src[1])<<1 | uint8(src[2])<<2 | uint8(src[3])<<3'',
     tab @ tab @ ''dst[n] = uint8(val & 255)'',
     tab @ tab @ ''n += 1'',
     tab @ ''case 3:'',
     tab @ tab @ ''val := uint8(src[0]) | uint8(src[1])<<1 | uint8(src[2])<<2'',
     tab @ tab @ ''dst[n] = uint8(val & 255)'',
     tab @ tab @ ''n += 1'',
     tab @ ''case 2:'',
     tab @ tab @ ''val := uint8(src[0]) | uint8(src[1])<<1'',
     tab @ tab @ ''dst[n] = uint8(val & 255)'',
     tab @ tab @ ''n += 1'',
     tab @ ''case 1:'',
     tab @ tab @ ''val := uint8(src[0])'',
     tab @ tab @ ''dst[n] = uint8(val & 255)'',
     tab @ tab @ ''n += 1'',
     tab @ ''}'',
     tab @ ''return n'',
     ''}'']"

definition text_UnpackUint1Slice :: string where
  "text_UnpackUint1Slice = join_text nl [''// UnpackUint1Slice converts a bit-packed uint1 slice to an uint8 slice.'',
     ''func UnpackUint1Slice(src []byte) []uint8 {'',
     tab @ ''dst := make([]uint8, (len(src)*8)/1)'',
     tab @ ''n := 0'',
     tab @ ''for _, val := range src {'',
     tab @ tab @ ''d := dst[n : n+8 : len(dst)]'',
     tab @ tab @ ''d[0] = uint8((val >> 0) & 1)'',
     tab @ tab @ ''d[1] = uint8((val >> 1) & 1)'',
     tab @ tab @ ''d[2] = uint8((val >> 2) & 1)'',
     tab @ tab @ ''d[3] = uint8((val >> 3) & 1)'',
     tab @ tab @ ''d[4] = uint8((val >> 4) & 1)'',
     tab @ tab @ ''d[5] = uint8((val >> 5) & 1)'',
     tab @ tab @ ''d[6] = uint8((val >> 6) & 1)'',
     tab @ tab @ ''d[7] = uint8((val >> 7) & 1)'',
     tab @ tab @ ''n += 8'',
     tab @ ''}'',
     tab @ ''return dst'',
     ''}'']"

definition text_PackUint2Slice :: string where
  "text_PackUint2Slice = join_text nl [''// PackUint2Slice converts an uint8 slice into a bit-packed uint2 slice.'',
     ''func PackUint2Slice(dst []byte, src []uint8) int {'',
     tab @ ''n := 0'',
     tab @ ''for len(src) >= 4 {'',
     tab @ tab @ ''val := uint8(src[0]) | uint8(src[1])<<2 | uint8(src[2])<<4 | uint8(src[3])<<6'',
     tab @ tab @ ''dst[n] = uint8(val & 255)'',
     tab @ tab @ ''n += 1'',
     tab @ tab @ ''src = src[4:]'',
     tab @ ''}'',
     tab @ ''switch len(src) {'',
     tab @ ''case 3:'',
     tab @ tab @ ''val := uint8(src[0]) | uint8(src[1])<<2 | uint8(src[2])<<4'',
     tab @ tab @ ''dst[n] = uint8(val & 255)'',
     tab @ tab @ ''n += 1'',
     tab @ ''case 2:'',
     tab @ tab @ ''val := uint8(src[0]) | uint8(src[1])<<2'',
     tab @ tab @ ''dst[n] = uint8(val & 255)'',
     tab @ tab @ ''n += 1'',
     tab @ ''case 1:'',
     tab @ tab @ ''val := uint8(src[0])'',
     tab @ tab @ ''dst[n] = uint8(val & 255)'',
     tab @ tab @ ''n += 1'',
     tab @ ''}'',
     tab @ ''return n'',
     ''}'']"

definition text_UnpackUint2Slice :: string where
  "text_UnpackUint2Slice = join_text nl [''// UnpackUint2Slice converts a bit-packed uint2 slice to an uint8 slice.'',
     ''func UnpackUint2Slice(src []byte) []uint8 {'',
     tab @ ''dst := make([]uint8, (len(src)*8)/2)'',
     tab @ ''n := 0'',
     tab @ ''for _, val := range src {'',
     tab @ tab @ ''d := dst[n : n+4 : len(dst)]'',
     tab @ tab @ ''d[0] = uint8((val >> 0) & 3)'',
     tab @ tab @ ''d[1] = uint8((val >> 2) & 3)'',
     tab @ tab @ ''d[2] = uint8((val >> 4) & 3)'',
     tab @ tab @ ''d[3] = uint8((val >> 6) & 3)'',
     tab @ tab @ ''n += 4'',
     tab @ ''}'',
     tab @ ''return dst'',
     ''}'']"

definition text_PackUint3Slice :: string where
  "text_PackUint3Slice = join_text nl [''// PackUint3Slice converts an uint8 slice into a bit-packed uint3 slice.'',
     ''func PackUint3Slice(dst []byte, src []uint8) int {'',
     tab @ ''n := 0'',
     tab @ ''for len(src) >= 8 {'',
     tab @ tab @ ''val := uint32(src[0]) | uint32(src[1])<<3 | uint32(src[2])<<6 | uint32(src[3])<<9 | uint32(src[4])<<12 | uint32(src[5])<<15 | uint32(src[6])<<18 | uint32(src[7])<<21'',
     tab @ tab @ ''d := dst[n : n+3 : len(dst)]'',
     tab @ tab @ ''d[0] = uint8((val >> 0) & 255)'',
     tab @ tab @ ''d[1] = uint8((val >> 8) & 255)'',
     tab @ tab @ ''d[2] = uint8((val >> 16) & 255)'',
     tab @ tab @ ''n += 3'',
     tab @ tab @ ''src = src[8:]'',
     tab @ ''}'',
     tab @ ''switch len(src) {'',
     tab @ ''case 7:'',
     tab @ tab @ ''val := uint32(src[0]) | uint32(src[1])<<3 | uint32(src[2])<<6 | uint32(src[3])<<9 | uint32(src[4])<<12 | uint32(src[5])<<15 | uint32(src[6])<<18'',
     tab @ tab @ ''d := dst[n : n+3 : len(dst)]'',
     tab @ tab @ ''d[0] = uint8((val >> 0) & 255)'',
     tab @ tab @ ''d[1] = uint8((val >> 8) & 255)'',
     tab @ tab @ ''d[2] = uint8((val >> 16) & 255)'',
     tab @ tab @ ''n += 3'',
     tab @ ''case 6:'',
     tab @ tab @ ''val := uint32(src[0]) | uint32(src[1])<<3 | uint32(src[2])<<6 | uint32(src[3])<<9 | uint32(src[4])<<12 | uint32(src[5])<<15'',
     tab @ tab @ ''d := dst[n : n+3 : len(dst)]'',
     tab @ tab @ ''d[0] = uint8((val >> 0) & 255)'',
     tab @ tab @ ''d[1] = uint8((val >> 8) & 255)'',
     tab @ tab @ ''d[2] = uint8((val >> 16) & 255)'',
     tab @ tab @ ''n += 3'',
     tab @ ''case 5:'',
     tab @ tab @ ''val := uint16(src[0]) | uint16(src[1])<<3 | uint16(src[2])<<6 | uint16(src[3])<<9 | uint16(src[4])<<12'',
     tab @ tab @ ''d := dst[n : n+2 : len(dst)]'',
     tab @ tab @ ''d[0] = uint8((val >> 0) & 255)'',
     tab @ tab @ ''d[1] = uint8((val >> 8) & 255)'',
     tab @ tab @ ''n += 2'',
     tab @ ''case 4:'',
     tab @ tab @ ''val := uint16(src[0]) | uint16(src[1])<<3 | uint16(src[2])<<6 | uint16(src[3])<<9'',
     tab @ tab @ ''d := dst[n : n+2 : len(dst)]'',
     tab @ tab @ ''d[0] = uint8((val >> 0) & 255)'',
     tab @ tab @ ''d[1] = uint8((val >> 8) & 255)'',
     tab @ tab @ ''n += 2'',
     tab @ ''case 3:'',
     tab @ tab @ ''val := uint16(src[0]) | uint16(src[1])<<3 | uint16(src[2])<<6'',
     tab @ tab @ ''d := dst[n : n+2 : len(dst)]'',
     tab @ tab @ ''d[0] = uint8((val >> 0) & 255)'',
     tab @ tab @ ''d[1] = uint8((val >> 8) & 255)'',
     tab @ tab @ ''n += 2'',
     tab @ ''case 2:'',
     tab @ tab @ ''val := uint8(src[0]) | uint8(src[1])<<3'',
     tab @ tab @ ''dst[n] = uint8(val & 255)'',
     tab @ tab @ ''n += 1'',
     tab @ ''case 1:'',
     tab @ tab @ ''val := uint8(src[0])'',
     tab @ tab @ ''dst[n] = uint8(val & 255)'',
     tab @ tab @ ''n += 1'',
     tab @ ''}'',
     tab @ ''return n'',
     ''}'']"

definition text_UnpackUint3Slice :: string where
  "text_UnpackUint3Slice = join_text nl [''// UnpackUint3Slice converts a bit-packed uint3 slice to an uint8 slice.'',
     ''func UnpackUint3Slice(src []byte) []uint8 {'',
     tab @ ''dst := make([]uint8, (len(src)*8)/3)'',
     tab @ ''n := 0'',
     tab @ ''for len(src) >= 3 {'',
     tab @ tab @ ''val := uint32(src[0]) | uint32(src[1])<<8 | uint32(src[2])<<16'',
     tab @ tab @ ''d := dst[n : n+8 : len(dst)]'',
     tab @ tab @ ''d[0] = uint8((val >> 0) & 7)'',
     tab @ tab @ ''d[1] = uint8((val >> 3) & 7)'',
     tab @ tab @ ''d[2] = uint8((val >> 6) & 7)'',
     tab @ tab @ ''d[3] = uint8((val >> 9) & 7)'',
     tab @ tab @ ''d[4] = uint8((val >> 12) & 7)'',
     tab @ tab @ ''d[5] = uint8((val >> 15) & 7)'',
     tab @ tab @ ''d[6] = uint8((val >> 18) & 7)'',
     tab @ tab @ ''d[7] = uint8((val >> 21) & 7)'',
     tab @ tab @ ''n += 8'',
     tab @ tab @ ''src = src[3:]'',
     tab @ ''}'',
     tab @ ''switch len(src) {'',
     tab @ ''case 2:'',
     tab @ tab @ ''val := uint16(src[0]) | uint16(src[1])<<8'',
     tab @ tab @ ''d := dst[n : n+5 : len(dst)]'',
     tab @ tab @ ''d[0] = uint8((val >> 0) & 7)'',
     tab @ tab @ ''d[1] = uint8((val >> 3) & 7)'',
     tab @ tab @ ''d[2] = uint8((val >> 6) & 7)'',
     tab @ tab @ ''d[3] = uint8((val >> 9) & 7)'',
     tab @ tab @ ''d[4] = uint8((val >> 12) & 7)'',
     tab @ tab @ ''n += 5'',
     tab @ ''case 1:'',
     tab @ tab @ ''val := uint8(src[0])'',
     tab @ tab @ ''d := dst[n : n+2 : len(dst)]'',
     tab @ tab @ ''d[0] = uint8((val >> 0) & 7)'',
     tab @ tab @ ''d[1] = uint8((val >> 3) & 7)'',
     tab @ tab @ ''n += 2'',
     tab @ ''}'',
     tab @ ''return dst'',
     ''}'']"

definition text_PackUint4Slice :: string where
  "text_PackUint4Slice = join_text nl [''// PackUint4Slice converts an uint8 slice into a bit-packed uint4 slice.'',
     ''func PackUint4Slice(dst []byte, src []uint8) int {'',
     tab @ ''n := 0'',
     tab @ ''for len(src) >= 2 {'',
     tab @ tab @ ''val := uint8(src[0]) | uint8(src[1])<<4'',
     tab @ tab @ ''dst[n] = uint8(val & 255)'',
     tab @ tab @ ''n += 1'',
     tab @ tab @ ''src = src[2:]'',
     tab @ ''}'',
     tab @ ''switch len(src) {'',
     tab @ ''case 1:'',
     tab @ tab @ ''val := uint8(src[0])'',
     tab @ tab @ ''dst[n] = uint8(val & 255)'',
     tab @ tab @ ''n += 1'',
     tab @ ''}'',
     tab @ ''return n'',
     ''}'']"

definition text_UnpackUint4Slice :: string where
  "text_UnpackUint4Slice = join_text nl [''// UnpackUint4Slice converts a bit-packed uint4 slice to an uint8 slice.'',
     ''func UnpackUint4Slice(src []byte) []uint8 {'',
     tab @ ''dst := make([]uint8, (len(src)*8)/4)'',
     tab @ ''n := 0'',
     tab @ ''for _, val := range src {'',
     tab @ tab @ ''d := dst[n : n+2 : len(dst)]'',
     tab @ tab @ ''d[0] = uint8((val >> 0) & 15)'',
     tab @ tab @ ''d[1] = uint8((val >> 4) & 15)'',
     tab @ tab @ ''n += 2'',
     tab @ ''}'',
     tab @ ''return dst'',
     ''}'']"

definition text_PackUint5Slice :: string where
  "text_PackUint5Slice = join_text nl [''// PackUint5Slice converts an uint8 slice into a bit-packed uint5 slice.'',
     ''func PackUint5Slice(dst []byte, src []uint8) int {'',
     tab @ ''n := 0'',
     tab @ ''for len(src) >= 8 {'',
     tab @ tab @ ''val := uint64(src[0]) | uint64(src[1])<<5 | uint64(src[2])<<10 | uint64(src[3])<<15 | uint64(src[4])<<20 | uint64(src[5])<<25 | uint64(src[6])<<30 | uint64(src[7])<<35'',
     tab @ tab @ ''d := dst[n : n+5 : len(dst)]'',
     tab @ tab @ ''d[0] = uint8((val >> 0) & 255)'',
     tab @ tab @ ''d[1] = uint8((val >> 8) & 255)'',
     tab @ tab @ ''d[2] = uint8((val >> 16) & 255)'',
     tab @ tab @ ''d[3] = uint8((val >> 24) & 255)'',
     tab @ tab @ ''d[4] = uint8((val >> 32) & 255)'',
     tab @ tab @ ''n += 5'',
     tab @ tab @ ''src = src[8:]'',
     tab @ ''}'',
     tab @ ''switch len(src) {'',
     tab @ ''case 7:'',
     tab @ tab @ ''val := uint64(src[0]) | uint64(src[1])<<5 | uint64(src[2])<<10 | uint64(src[3])<<15 | uint64(src[4])<<20 | uint64(src[5])<<25 | uint64(src[6])<<30'',
     tab @ tab @ ''d := dst[n : n+5 : len(dst)]'',
     tab @ tab @ ''d[0] = uint8((val >> 0) & 255)'',
     tab @ tab @ ''d[1] = uint8((val >> 8) & 255)'',
     tab @ tab @ ''d[2] = uint8((val >> 16) & 255)'',
     tab @ tab @ ''d[3] = uint8((val >> 24) & 255)'',
     tab @ tab @ ''d[4] = uint8((val >> 32) & 255)'',
     tab @ tab @ ''n += 5'',
     tab @ ''case 6:'',
     tab @ tab @ ''val := uint32(src[0]) | uint32(src[1])<<5 | uint32(src[2])<<10 | uint32(src[3])<<15 | uint32(src[4])<<20 | uint32(src[5])<<25'',
     tab @ tab @ ''d := dst[n : n+4 : len(dst)]'',
     tab @ tab @ ''d[0] = uint8((val >> 0) & 255)'',
     tab @ tab @ ''d[1] = uint8((val >> 8) & 255)'',
     tab @ tab @ ''d[2] = uint8((val >> 16) & 255)'',
     tab @ tab @ ''d[3] = uint8((val >> 24) & 255)'',
     tab @ tab @ ''n += 4'',
     tab @ ''case 5:'',
     tab @ tab @ ''val := uint32(src[0]) | uint32(src[1])<<5 | uint32(src[2])<<10 | uint32(src[3])<<15 | uint32(src[4])<<20'',
     tab @ tab @ ''d := dst[n : n+4 : len(dst)]'',
     tab @ tab @ ''d[0] = uint8((val >> 0) & 255)'',
     tab @ tab @ ''d[1] = uint8((val >> 8) & 255)'',
     tab @ tab @ ''d[2] = uint8((val >> 16) & 255)'',
     tab @ tab @ ''d[3] = uint8((val >> 24) & 255)'',
     tab @ tab @ ''n += 4'',
     tab @ ''case 4:'',
     tab @ tab @ ''val := uint32(src[0]) | uint32(src[1])<<5 | uint32(src[2])<<10 | uint32(src[3])<<15'',
     tab @ tab @ ''d := dst[n : n+3 : len(dst)]'',
     tab @ tab @ ''d[0] = uint8((val >> 0) & 255)'',
     tab @ tab @ ''d[1] = uint8((val >> 8) & 255)'',
     tab @ tab @ ''d[2] = uint8((val >> 16) & 255)'',
     tab @ tab @ ''n += 3'',
     tab @ ''case 3:'',
     tab @ tab @ ''val := uint16(src[0]) | uint16(src[1])<<5 | uint16(src[2])<<10'',
     tab @ tab @ ''d := dst[n : n+2 : len(dst)]'',
     tab @ tab @ ''d[0] = uint8((val >> 0) & 255)'',
     tab @ tab @ ''d[1] = uint8((val >> 8) & 255)'',
     tab @ tab @ ''n += 2'',
     tab @ ''case 2:'',
     tab @ tab @ ''val := uint16(src[0]) | uint16(src[1])<<5'',
     tab @ tab @ ''d := dst[n : n+2 : len(dst)]'',
     tab @ tab @ ''d[0] = uint8((val >> 0) & 255)'',
     tab @ tab @ ''d[1] = uint8((val >> 8) & 255)'',
     tab @ tab @ ''n += 2'',
     tab @ ''case 1:'',
     tab @ tab @ ''val := uint8(src[0])'',
     tab @ tab @ ''dst[n] = uint8(val & 255)'',
     tab @ tab @ ''n += 1'',
     tab @ ''}'',
     tab @ ''return n'',
     ''}'']"

definition text_UnpackUint5Slice :: string where
  "text_UnpackUint5Slice = join_text nl [''// UnpackUint5Slice converts a bit-packed uint5 slice to an uint8 slice.'',
     ''func UnpackUint5Slice(src []byte) []uint8 {'',
     tab @ ''dst := make([]uint8, (len(src)*8)/5)'',
     tab @ ''n := 0'',
     tab @ ''for len(src) >= 5 {'',
     tab @ tab @ ''val := uint64(src[0]) | uint64(src[1])<<8 | uint64(src[2])<<16 | uint64(src[3])<<24 | uint64(src[4])<<32'',
     tab @ tab @ ''d := dst[n : n+8 : len(dst)]'',
     tab @ tab @ ''d[0] = uint8((val >> 0) & 31)'',
     tab @ tab @ ''d[1] = uint8((val >> 5) & 31)'',
     tab @ tab @ ''d[2] = uint8((val >> 10) & 31)'',
     tab @ tab @ ''d[3] = uint8((val >> 15) & 31)'',
     tab @ tab @ ''d[4] = uint8((val >> 20) & 31)'',
     tab @ tab @ ''d[5] = uint8((val >> 25) & 31)'',
     tab @ tab @ ''d[6] = uint8((val >> 30) & 31)'',
     tab @ tab @ ''d[7] = uint8((val >> 35) & 31)'',
     tab @ tab @ ''n += 8'',
     tab @ tab @ ''src = src[5:]'',
     tab @ ''}'',
     tab @ ''switch len(src) {'',
     tab @ ''case 4:'',
     tab @ tab @ ''val := uint32(src[0]) | uint32(src[1])<<8 | uint32(src[2])<<16 | uint32(src[3])<<24'',
     tab @ tab @ ''d := dst[n : n+6 : len(dst)]'',
     tab @ tab @ ''d[0] = uint8((val >> 0) & 31)'',
     tab @ tab @ ''d[1] = uint8((val >> 5) & 31)'',
     tab @ tab @ ''d[2] = uint8((val >> 10) & 31)'',
     tab @ tab @ ''d[3] = uint8((val >> 15) & 31)'',
     tab @ tab @ ''d[4] = uint8((val >> 20) & 31)'',
     tab @ tab @ ''d[5] = uint8((val >> 25) & 31)'',
     tab @ tab @ ''n += 6'',
     tab @ ''case 3:'',
     tab @ tab @ ''val := uint32(src[0]) | uint32(src[1])<<8 | uint32(src[2])<<16'',
     tab @ tab @ ''d := dst[n : n+4 : len(dst)]'',
     tab @ tab @ ''d[0] = uint8((val >> 0) & 31)'',
     tab @ tab @ ''d[1] = uint8((val >> 5) & 31)'',
     tab @ tab @ ''d[2] = uint8((val >> 10) & 31)'',
     tab @ tab @ ''d[3] = uint8((val >> 15) & 31)'',
     tab @ tab @ ''n += 4'',
     tab @ ''case 2:'',
     tab @ tab @ ''val := uint16(src[0]) | uint16(src[1])<<8'',
     tab @ tab @ ''d := dst[n : n+3 : len(dst)]'',
     tab @ tab @ ''d[0] = uint8((val >> 0) & 31)'',
     tab @ tab @ ''d[1] = uint8((val >> 5) & 31)'',
     tab @ tab @ ''d[2] = uint8((val >> 10) & 31)'',
     tab @ tab @ ''n += 3'',
     tab @ ''case 1:'',
     tab @ tab @ ''val := uint8(src[0])'',
     tab @ tab @ ''d := dst[n : n+1 : len(dst)]'',
     tab @ tab @ ''d[0] = uint8((val >> 0) & 31)'',
     tab @ tab @ ''n += 1'',
     tab @ ''}'',
     tab @ ''return dst'',
     ''}'']"

definition text_PackUint6Slice :: string where
  "text_PackUint6Slice = join_text nl [''// PackUint6Slice converts an uint8 slice into a bit-packed uint6 slice.'',
     ''func PackUint6Slice(dst []byte, src []uint8) int {'',
     tab @ ''n := 0'',
     tab @ ''for len(src) >= 4 {'',
     tab @ tab @ ''val := uint32(src[0]) | uint32(src[1])<<6 | uint32(src[2])<<12 | uint32(src[3])<<18'',
     tab @ tab @ ''d := dst[n : n+3 : len(dst)]'',
     tab @ tab @ ''d[0] = uint8((val >> 0) & 255)'',
     tab @ tab @ ''d[1] = uint8((val >> 8) & 255)'',
     tab @ tab @ ''d[2] = uint8((val >> 16) & 255)'',
     tab @ tab @ ''n += 3'',
     tab @ tab @ ''src = src[4:]'',
     tab @ ''}'',
     tab @ ''switch len(src) {'',
     tab @ ''case 3:'',
     tab @ tab @ ''val := uint32(src[0]) | uint32(src[1])<<6 | uint32(src[2])<<12'',
     tab @ tab @ ''d := dst[n : n+3 : len(dst)]'',
     tab @ tab @ ''d[0] = uint8((val >> 0) & 255)'',
     tab @ tab @ ''d[1] = uint8((val >> 8) & 255)'',
     tab @ tab @ ''d[2] = uint8((val >> 16) & 255)'',
     tab @ tab @ ''n += 3'',
     tab @ ''case 2:'',
     tab @ tab @ ''val := uint16(src[0]) | uint16(src[1])<<6'',
     tab @ tab @ ''d := dst[n : n+2 : len(dst)]'',
     tab @ tab @ ''d[0] = uint8((val >> 0) & 255)'',
     tab @ tab @ ''d[1] = uint8((val >> 8) & 255)'',
     tab @ tab @ ''n += 2'',
     tab @ ''case 1:'',
     tab @ tab @ ''val := uint8(src[0])'',
     tab @ tab @ ''dst[n] = uint8(val & 255)'',
     tab @ tab @ ''n += 1'',
     tab @ ''}'',
     tab @ ''return n'',
     ''}'']"

definition text_UnpackUint6Slice :: string where
  "text_UnpackUint6Slice = join_text nl [''// UnpackUint6Slice converts a bit-packed uint6 slice to an uint8 slice.'',
     ''func UnpackUint6Slice(src []byte) []uint8 {'',
     tab @ ''dst := make([]uint8, (len(src)*8)/6)'',
     tab @ ''n := 0'',
     tab @ ''for len(src) >= 3 {'',
     tab @ tab @ ''val := uint32(src[0]) | uint32(src[1])<<8 | uint32(src[2])<<16'',
     tab @ tab @ ''d := dst[n : n+4 : len(dst)]'',
     tab @ tab @ ''d[0] = uint8((val >> 0) & 63)'',
     tab @ tab @ ''d[1] = uint8((val >> 6) & 63)'',
     tab @ tab @ ''d[2] = uint8((val >> 12) & 63)'',
     tab @ tab @ ''d[3] = uint8((val >> 18) & 63)'',
     tab @ tab @ ''n += 4'',
     tab @ tab @ ''src = src[3:]'',
     tab @ ''}'',
     tab @ ''switch len(src) {'',
     tab @ ''case 2:'',
     tab @ tab @ ''val := uint16(src[0]) | uint16(src[1])<<8'',
     tab @ tab @ ''d := dst[n : n+2 : len(dst)]'',
     tab @ tab @ ''d[0] = uint8((val >> 0) & 63)'',
     tab @ tab @ ''d[1] = uint8((val >> 6) & 63)'',
     tab @ tab @ ''n += 2'',
     tab @ ''case 1:'',
     tab @ tab @ ''val := uint8(src[0])'',
     tab @ tab @ ''d := dst[n : n+1 : len(dst)]'',
     tab @ tab @ ''d[0] = uint8((val >> 0) & 63)'',
     tab @ tab @ ''n += 1'',
     tab @ ''}'',
     tab @ ''return dst'',
     ''}'']"

definition text_PackUint7Slice :: string where
  "text_PackUint7Slice = join_text nl [''// PackUint7Slice converts an uint8 slice into a bit-packed uint7 slice.'',
     ''func PackUint7Slice(dst []byte, src []uint8) int {'',
     tab @ ''n := 0'',
     tab @ ''for len(src) >= 8 {'',
     tab @ tab @ ''val := uint64(src[0]) | uint64(src[1])<<7 | uint64(src[2])<<14 | uint64(src[3])<<21 | uint64(src[4])<<28 | uint64(src[5])<<35 | uint64(src[6])<<42 | uint64(src[7])<<49'',
     tab @ tab @ ''d := dst[n : n+7 : len(dst)]'',
     tab @ tab @ ''d[0] = uint8((val >> 0) & 255)'',
     tab @ tab @ ''d[1] = uint8((val >> 8) & 255)'',
     tab @ tab @ ''d[2] = uint8((val >> 16) & 255)'',
     tab @ tab @ ''d[3] = uint8((val >> 24) & 255)'',
     tab @ tab @ ''d[4] = uint8((val >> 32) & 255)'',
     tab @ tab @ ''d[5] = uint8((val >> 40) & 255)'',
     tab @ tab @ ''d[6] = uint8((val >> 48) & 255)'',
     tab @ tab @ ''n += 7'',
     tab @ tab @ ''src = src[8:]'',
     tab @ ''}'',
     tab @ ''switch len(src) {'',
     tab @ ''case 7:'',
     tab @ tab @ ''val := uint64(src[0]) | uint64(src[1])<<7 | uint64(src[2])<<14 | uint64(src[3])<<21 | uint64(src[4])<<28 | uint64(src[5])<<35 | uint64(src[6])<<42'',
     tab @ tab @ ''d := dst[n : n+7 : len(dst)]'',
     tab @ tab @ ''d[0] = uint8((val >> 0) & 255)'',
     tab @ tab @ ''d[1] = uint8((val >> 8) & 255)'',
     tab @ tab @ ''d[2] = uint8((val >> 16) & 255)'',
     tab @ tab @ ''d[3] = uint8((val >> 24) & 255)'',
     tab @ tab @ ''d[4] = uint8((val >> 32) & 255)'',
     tab @ tab @ ''d[5] = uint8((val >> 40) & 255)'',
     tab @ tab @ ''d[6] = uint8((val >> 48) & 255)'',
     tab @ tab @ ''n += 7'',
     tab @ ''case 6:'',
     tab @ tab @ ''val := uint64(src[0]) | uint64(src[1])<<7 | uint64(src[2])<<14 | uint64(src[3])<<21 | uint64(src[4])<<28 | uint64(src[5])<<35'',
     tab @ tab @ ''d := dst[n : n+6 : len(dst)]'',
     tab @ tab @ ''d[0] = uint8((val >> 0) & 255)'',
     tab @ tab @ ''d[1] = uint8((val >> 8) & 255)'',
     tab @ tab @ ''d[2] = uint8((val >> 16) & 255)'',
     tab @ tab @ ''d[3] = uint8((val >> 24) & 255)'',
     tab @ tab @ ''d[4] = uint8((val >> 32) & 255)'',
     tab @ tab @ ''d[5] = uint8((val >> 40) & 255)'',
     tab @ tab @ ''n += 6'',
     tab @ ''case 5:'',
     tab @ tab @ ''val := uint64(src[0]) | uint64(src[1])<<7 | uint64(src[2])<<14 | uint64(src[3])<<21 | uint64(src[4])<<28'',
     tab @ tab @ ''d := dst[n : n+5 : len(dst)]'',
     tab @ tab @ ''d[0] = uint8((val >> 0) & 255)'',
     tab @ tab @ ''d[1] = uint8((val >> 8) & 255)'',
     tab @ tab @ ''d[2] = uint8((val >> 16) & 255)'',
     tab @ tab @ ''d[3] = uint8((val >> 24) & 255)'',
     tab @ tab @ ''d[4] = uint8((val >> 32) & 255)'',
     tab @ tab @ ''n += 5'',
     tab @ ''case 4:'',
     tab @ tab @ ''val := uint32(src[0]) | uint32(src[1])<<7 | uint32(src[2])<<14 | uint32(src[3])<<21'',
     tab @ tab @ ''d := dst[n : n+4 : len(dst)]'',
     tab @ tab @ ''d[0] = uint8((val >> 0) & 255)'',
     tab @ tab @ ''d[1] = uint8((val >> 8) & 255)'',
     tab @ tab @ ''d[2] = uint8((val >> 16) & 255)'',
     tab @ tab @ ''d[3] = uint8((val >> 24) & 255)'',
     tab @ tab @ ''n += 4'',
     tab @ ''case 3:'',
     tab @ tab @ ''val := uint32(src[0]) | uint32(src[1])<<7 | uint32(src[2])<<14'',
     tab @ tab @ ''d := dst[n : n+3 : len(dst)]'',
     tab @ tab @ ''d[0] = uint8((val >> 0) & 255)'',
     tab @ tab @ ''d[1] = uint8((val >> 8) & 255)'',
     tab @ tab @ ''d[2] = uint8((val >> 16) & 255)'',
     tab @ tab @ ''n += 3'',
     tab @ ''case 2:'',
     tab @ tab @ ''val := uint16(src[0]) | uint16(src[1])<<7'',
     tab @ tab @ ''d := dst[n : n+2 : len(dst)]'',
     tab @ tab @ ''d[0] = uint8((val >> 0) & 255)'',
     tab @ tab @ ''d[1] = uint8((val >> 8) & 255)'',
     tab @ tab @ ''n += 2'',
     tab @ ''case 1:'',
     tab @ tab @ ''val := uint8(src[0])'',
     tab @ tab @ ''dst[n] = uint8(val & 255)'',
     tab @ tab @ ''n += 1'',
     tab @ ''}'',
     tab @ ''return n'',
     ''}'']"

definition text_UnpackUint7Slice :: string where
  "text_UnpackUint7Slice = join_text nl [''// UnpackUint7Slice converts a bit-packed uint7 slice to an uint8 slice.'',
     ''func UnpackUint7Slice(src []byte) []uint8 {'',
     tab @ ''dst := make([]uint8, (len(src)*8)/7)'',
     tab @ ''n := 0'',
     tab @ ''for len(src) >= 7 {'',
     tab @ tab @ ''val := uint64(src[0]) | uint64(src[1])<<8 | uint64(src[2])<<16 | uint64(src[3])<<24 | uint64(src[4])<<32 | uint64(src[5])<<40 | uint64(src[6])<<48'',
     tab @ tab @ ''d := dst[n : n+8 : len(dst)]'',
     tab @ tab @ ''d[0] = uint8((val >> 0) & 127)'',
     tab @ tab @ ''d[1] = uint8((val >> 7) & 127)'',
     tab @ tab @ ''d[2] = uint8((val >> 14) & 127)'',
     tab @ tab @ ''d[3] = uint8((val >> 21) & 127)'',
     tab @ tab @ ''d[4] = uint8((val >> 28) & 127)'',
     tab @ tab @ ''d[5] = uint8((val >> 35) & 127)'',
     tab @ tab @ ''d[6] = uint8((val >> 42) & 127)'',
     tab @ tab @ ''d[7] = uint8((val >> 49) & 127)'',
     tab @ tab @ ''n += 8'',
     tab @ tab @ ''src = src[7:]'',
     tab @ ''}'',
     tab @ ''switch len(src) {'',
     tab @ ''case 6:'',
     tab @ tab @ ''val := uint64(src[0]) | uint64(src[1])<<8 | uint64(src[2])<<16 | uint64(src[3])<<24 | uint64(src[4])<<32 | uint64(src[5])<<40'',
     tab @ tab @ ''d := dst[n : n+6 : len(dst)]'',
     tab @ tab @ ''d[0] = uint8((val >> 0) & 127)'',
     tab @ tab @ ''d[1] = uint8((val >> 7) & 127)'',
     tab @ tab @ ''d[2] = uint8((val >> 14) & 127)'',
     tab @ tab @ ''d[3] = uint8((val >> 21) & 127)'',
     tab @ tab @ ''d[4] = uint8((val >> 28) & 127)'',
     tab @ tab @ ''d[5] = uint8((val >> 35) & 127)'',
     tab @ tab @ ''n += 6'',
     tab @ ''case 5:'',
     tab @ tab @ ''val := uint64(src[0]) | uint64(src[1])<<8 | uint64(src[2])<<16 | uint64(src[3])<<24 | uint64(src[4])<<32'',
     tab @ tab @ ''d := dst[n : n+5 : len(dst)]'',
     tab @ tab @ ''d[0] = uint8((val >> 0) & 127)'',
     tab @ tab @ ''d[1] = uint8((val >> 7) & 127)'',
     tab @ tab @ ''d[2] = uint8((val >> 14) & 127)'',
     tab @ tab @ ''d[3] = uint8((val >> 21) & 127)'',
     tab @ tab @ ''d[4] = uint8((val >> 28) & 127)'',
     tab @ tab @ ''n += 5'',
     tab @ ''case 4:'',
     tab @ tab @ ''val := uint32(src[0]) | uint32(src[1])<<8 | uint32(src[2])<<16 | uint32(src[3])<<24'',
     tab @ tab @ ''d := dst[n : n+4 : len(dst)]'',
     tab @ tab @ ''d[0] = uint8((val >> 0) & 127)'',
     tab @ tab @ ''d[1] = uint8((val >> 7) & 127)'',
     tab @ tab @ ''d[2] = uint8((val >> 14) & 127)'',
     tab @ tab @ ''d[3] = uint8((val >> 21) & 127)'',
     tab @ tab @ ''n += 4'',
     tab @ ''case 3:'',
     tab @ tab @ ''val := uint32(src[0]) | uint32(src[1])<<8 | uint32(src[2])<<16'',
     tab @ tab @ ''d := dst[n : n+3 : len(dst)]'',
     tab @ tab @ ''d[0] = uint8((val >> 0) & 127)'',
     tab @ tab @ ''d[1] = uint8((val >> 7) & 127)'',
     tab @ tab @ ''d[2] = uint8((val >> 14) & 127)'',
     tab @ tab @ ''n += 3'',
     tab @ ''case 2:'',
     tab @ tab @ ''val := uint16(src[0]) | uint16(src[1])<<8'',
     tab @ tab @ ''d := dst[n : n+2 : len(dst)]'',
     tab @ tab @ ''d[0] = uint8((val >> 0) & 127)'',
     tab @ tab @ ''d[1] = uint8((val >> 7) & 127)'',
     tab @ tab @ ''n += 2'',
     tab @ ''case 1:'',
     tab @ tab @ ''val := uint8(src[0])'',
     tab @ tab @ ''d := dst[n : n+1 : len(dst)]'',
     tab @ tab @ ''d[0] = uint8((val >> 0) & 127)'',
     tab @ tab @ ''n += 1'',
     tab @ ''}'',
     tab @ ''return dst'',
     ''}'']"

lemma gen_PackUint1Slice: "genPackIntArray 1 = text_PackUint1Slice"
  by code_simp

lemma gen_UnpackUint1Slice: "genUnpackIntArray 1 = text_UnpackUint1Slice"
  by code_simp

lemma gen_PackUint2Slice: "genPackIntArray 2 = text_PackUint2Slice"
  by code_simp

lemma gen_UnpackUint2Slice: "genUnpackIntArray 2 = text_UnpackUint2Slice"
  by code_simp

lemma gen_PackUint3Slice: "genPackIntArray 3 = text_PackUint3Slice"
  by code_simp

lemma gen_UnpackUint3Slice: "genUnpackIntArray 3 = text_UnpackUint3Slice"
  by code_simp

lemma gen_PackUint4Slice: "genPackIntArray 4 = text_PackUint4Slice"
  by code_simp

lemma gen_UnpackUint4Slice: "genUnpackIntArray 4 = text_UnpackUint4Slice"
  by code_simp

lemma gen_PackUint5Slice: "genPackIntArray 5 = text_PackUint5Slice"
  by code_simp

lemma gen_UnpackUint5Slice: "genUnpackIntArray 5 = text_UnpackUint5Slice"
  by code_simp

lemma gen_PackUint6Slice: "genPackIntArray 6 = text_PackUint6Slice"
  by code_simp

lemma gen_UnpackUint6Slice: "genUnpackIntArray 6 = text_UnpackUint6Slice"
  by code_simp

lemma gen_PackUint7Slice: "genPackIntArray 7 = text_PackUint7Slice"
  by code_simp

lemma gen_UnpackUint7Slice: "genUnpackIntArray 7 = text_UnpackUint7Slice"
  by code_simp

definition pack_go :: string where
  "pack_go = join_text (nl @ nl)
     [''// Copyright (C) 2016  Lukas Lalinsky'' @ nl @
      ''// Distributed under the MIT license, see the LICENSE file for details.'' @ nl @ nl @
      ''// THIS FILE WAS AUTOMATICALLY GENERATED, DO NOT EDIT'' @ nl @ nl @
      ''package util'',
      text_PackUint1Slice, text_UnpackUint1Slice, text_PackUint2Slice, text_UnpackUint2Slice, text_PackUint3Slice, text_UnpackUint3Slice, text_PackUint4Slice, text_UnpackUint4Slice, text_PackUint5Slice, text_UnpackUint5Slice, text_PackUint6Slice, text_UnpackUint6Slice, text_PackUint7Slice, text_UnpackUint7Slice] @ nl"

text \<open>
  The file that is compiled is what the generator prints, character by character, with a line break
  at its end that the generator does not print.
\<close>

lemma gen_main_pack_go: "gen_main @ nl = pack_go"
proof -
  have "[1..<8] = [1, 2, 3, 4, 5, 6, 7::nat]" by code_simp
  then show ?thesis
    unfolding gen_main_def pack_go_def
    by (simp only: list.map concat.simps append.simps gen_PackUint1Slice gen_UnpackUint1Slice gen_PackUint2Slice gen_UnpackUint2Slice gen_PackUint3Slice gen_UnpackUint3Slice gen_PackUint4Slice gen_UnpackUint4Slice gen_PackUint5Slice gen_UnpackUint5Slice gen_PackUint6Slice gen_UnpackUint6Slice gen_PackUint7Slice gen_UnpackUint7Slice)
qed

end
