(* ===== verification/ClientV2.thy ===== *)
theory ClientV2
  imports Config OsFS Legacy
begin

text \<open>
  \<open>pkg/fpindex/client_v2.go\<close>: the client of the HTTP index. Sending a request and reading JSON are
  parameters; the text of the request and its URL are modelled. The record \<open>http_answer\<close> keeps what
  the client looks at and what it does not.
\<close>

section \<open>The client\<close>

text \<open>\<open>json.Marshal\<close> of the request; \<open>None\<close> is the nil slice.\<close>

record searchRequestJSON =
  req_Query :: "u32 list option"
  req_Limit :: int

definition marshal_request :: "searchRequestJSON \<Rightarrow> string" where
  "marshal_request r =
     ''{'' @ [CHR 0x22] @ ''query'' @ [CHR 0x22] @ '':'' @
     (case req_Query r of
        None \<Rightarrow> ''null''
      | Some hs \<Rightarrow> ''['' @ join_with (CHR '','') (map (\<lambda>h. format_uint (unat h)) hs) @ '']'') @
     '','' @ [CHR 0x22] @ ''limit'' @ [CHR 0x22] @ '':'' @ format_int (req_Limit r) @ ''}''"

record searchResultJSON =
  res_ID :: u32
  res_score :: u32

text \<open>\<open>URL.JoinPath\<close> with one element; a path that cannot be read is not set.\<close>

definition JoinPath :: "URL \<Rightarrow> string \<Rightarrow> URL" where
  "JoinPath u elem =
     (let p0 = escape encodePath (url_Path u);
          p = (if has_prefix p0 ''/'' then Join p0 elem else tl (Join (''/'' @ p0) elem));
          p = (if has_suffix elem ''/'' \<and> \<not> has_suffix p ''/'' then p @ ''/'' else p)
      in case unescape encodePath p of None \<Rightarrow> u | Some p \<Rightarrow> u\<lparr> url_Path := p \<rparr>)"

text \<open>A request that is sent, and the answer: its status and its body, which may break off.\<close>

record http_call =
  call_Method :: string
  call_URL :: string
  call_Header :: "(string \<times> string) list"
  call_Body :: string

record 'e http_answer =
  ans_Status :: int
  ans_Body :: "'e + string"

definition search_call :: "URL \<Rightarrow> u32 list option \<Rightarrow> http_call" where
  "search_call baseUrl hashes = \<lparr>
     call_Method = ''POST'',
     call_URL = URL_String (JoinPath baseUrl ''/main/_search''),
     call_Header = [(''Content-Type'', ''application/json''), (''Accept'', ''application/json'')],
     call_Body = marshal_request \<lparr> req_Query = hashes, req_Limit = 0 \<rparr> \<rparr>"

text \<open>\<open>new_request\<close> is the error of \<open>NewRequest\<close>, \<open>do_request\<close> is \<open>Do\<close>, \<open>json_read\<close> reads the results.\<close>

definition ClientV2_Search ::
  "(http_call \<Rightarrow> 'e option) \<Rightarrow> (http_call \<Rightarrow> 'w \<Rightarrow> ('e + 'e http_answer) \<times> 'w) \<Rightarrow> (string \<Rightarrow> 'e + searchResultJSON list) \<Rightarrow>
   URL \<Rightarrow> u32 list option \<Rightarrow> 'w \<Rightarrow> ('e + pb_Result list) \<times> 'w" where
  "ClientV2_Search new_request do_request json_read baseUrl hashes w =
     (let req = search_call baseUrl hashes in
      case new_request req of
        Some err \<Rightarrow> (Inl err, w)
      | None \<Rightarrow>
          (case do_request req w of
             (Inl err, w) \<Rightarrow> (Inl err, w)
           | (Inr resp, w) \<Rightarrow>
               (case ans_Body resp of
                  Inl err \<Rightarrow> (Inl err, w)
                | Inr respBody \<Rightarrow>
                    (case json_read respBody of
                       Inl err \<Rightarrow> (Inl err, w)
                     | Inr results \<Rightarrow> (Inr (map (\<lambda>r. \<lparr> Id = res_ID r, Hits = res_score r \<rparr>) results), w)))))"

section \<open>What is sent\<close>

text \<open>The hashes are read back from the text of the request, and the limit is always 0.\<close>

definition query_text_of :: "string \<Rightarrow> string" where
  "query_text_of s = takeWhile (\<lambda>c. c \<noteq> CHR '']'') (drop 1 (dropWhile (\<lambda>c. c \<noteq> CHR ''['') s))"

lemma number_avoids: "CHR '','' \<notin> set (format_uint n)" "CHR ''['' \<notin> set (format_uint n)" "CHR '']'' \<notin> set (format_uint n)"
  using format_uint_chars by fastforce+

lemma join_avoids: "c \<noteq> d \<Longrightarrow> \<forall>w \<in> set ws. c \<notin> set w \<Longrightarrow> c \<notin> set (join_with d ws)"
  by (induction d ws rule: join_with.induct) auto

lemma request_query:
  "query_text_of (marshal_request \<lparr> req_Query = Some hs, req_Limit = 0 \<rparr>) = join_with (CHR '','') (map (\<lambda>h. format_uint (unat h)) hs)"
proof -
  let ?q = "join_with (CHR '','') (map (\<lambda>h. format_uint (unat h)) hs)"
  have q: "CHR '']'' \<notin> set ?q" by (rule join_avoids) (auto simp: number_avoids)
  have "marshal_request \<lparr> req_Query = Some hs, req_Limit = 0 \<rparr> =
      (''{'' @ [CHR 0x22] @ ''query'' @ [CHR 0x22] @ '':'') @ CHR ''['' # ?q @ CHR '']'' # '','' @ [CHR 0x22] @ ''limit'' @ [CHR 0x22] @ '':'' @ format_int 0 @ ''}''"
    by (simp add: marshal_request_def)
  then have "drop 1 (dropWhile (\<lambda>c. c \<noteq> CHR ''['') (marshal_request \<lparr> req_Query = Some hs, req_Limit = 0 \<rparr>)) =
      ?q @ CHR '']'' # '','' @ [CHR 0x22] @ ''limit'' @ [CHR 0x22] @ '':'' @ format_int 0 @ ''}''"
    by simp
  with q show ?thesis unfolding query_text_of_def by (auto simp: takeWhile_tail)
qed

text \<open>
  The hashes of a search travel to the index as they are: the numbers between the brackets of
  the request, read as 32-bit integers, are the hashes in their order. What the index answers is
  handed on one to one, whatever the status of the answer is.
\<close>

theorem ClientV2_Search_hashes:
  assumes "hs \<noteq> []" and "new_request (search_call baseUrl (Some hs)) = None"
    and "do_request (search_call baseUrl (Some hs)) w = (Inr \<lparr> ans_Status = status, ans_Body = Inr body \<rparr>, w')"
    and "json_read body = Inr results"
  shows "map (parse_uint 32) (split_on (CHR '','') (query_text_of (call_Body (search_call baseUrl (Some hs))))) = map (\<lambda>h. Inr (unat h)) hs \<and>
    ClientV2_Search new_request do_request json_read baseUrl (Some hs) w =
      (Inr (map (\<lambda>r. \<lparr> Id = res_ID r, Hits = res_score r \<rparr>) results), w')"
proof
  have "split_on (CHR '','') (join_with (CHR '','') (map (\<lambda>h. format_uint (unat h)) hs)) = map (\<lambda>h. format_uint (unat h)) hs"
    using assms(1) by (intro split_on_join) (auto simp: number_avoids)
  moreover have "parse_uint 32 (format_uint (unat h)) = Inr (unat h)" for h :: u32
  proof (rule parse_uint_format)
    show "unat h < 2 ^ 32" using unsigned_less [of h] by simp
  qed
  ultimately show "map (parse_uint 32) (split_on (CHR '','') (query_text_of (call_Body (search_call baseUrl (Some hs))))) = map (\<lambda>h. Inr (unat h)) hs"
    by (simp add: search_call_def request_query o_def)
  show "ClientV2_Search new_request do_request json_read baseUrl (Some hs) w =
      (Inr (map (\<lambda>r. \<lparr> Id = res_ID r, Hits = res_score r \<rparr>) results), w')"
    using assms(2-4) by (simp add: ClientV2_Search_def Let_def)
qed

theorem ClientV2_Search_hashes_witness:
  "map (parse_uint 32) (split_on (CHR '','') (query_text_of (call_Body (search_call (DatabaseConfig_URL NewDatabaseConfig) (Some [7, 70000]))))) =
     [Inr 7, Inr 70000]"
  using ClientV2_Search_hashes [THEN conjunct1, of "[7, 70000]" "\<lambda>_. None :: string option" "DatabaseConfig_URL NewDatabaseConfig"
      "\<lambda>_ w. (Inr \<lparr> ans_Status = 500, ans_Body = Inr [] \<rparr>, w)" 0 500 "[]" 0 "\<lambda>_. Inr []" "[]"]
  by auto

end
