(* ===== verification/FpCalc.thy ===== *)
theory FpCalc
  imports Encoding Signal GoStrings
begin

unbundle bit_operations_syntax

text \<open>
  \<open>pkg/chromaprint/fpcalc.go\<close> and \<open>fingerprint.go\<close>: the fingerprint of an audio file, as the program
  \<open>fpcalc\<close> prints it. Running the program and reading JSON are parameters; a duration is a 64-bit
  number of nanoseconds. \<open>None\<close> is a panic.
\<close>

record AudioFileFingerprint =
  aff_Fingerprint :: "Fingerprint option"
  aff_Duration :: "64 word"

datatype fpcalc_error = FpcalcFailed string | InvalidJSON | BadFingerprint parse_error

text \<open>The arguments of the command.\<close>

definition fpcalc_args :: "string \<Rightarrow> int \<Rightarrow> string list" where
  "fpcalc_args path duration = [''fpcalc'', ''-length'', format_int duration, ''-json'', path]"

text \<open>\<open>time.Duration(math.Floor(1000*d+0.5)) * time.Millisecond\<close>\<close>

definition fpcalc_duration :: "('f, 'g) floats \<Rightarrow> 'f \<Rightarrow> 64 word" where
  "fpcalc_duration F d =
     word_of_int (int_of_f F (f_floor F (f_add F (f_mul F (f_int F 1000) d) (f_lit F (1 / 2))))) * 1000000"

definition FingerprintFile ::
  "('f, 'g) floats \<Rightarrow> (string list \<Rightarrow> string + string) \<Rightarrow> (string \<Rightarrow> ('f \<times> string) option) \<Rightarrow> string \<Rightarrow> int \<Rightarrow>
   (AudioFileFingerprint \<times> fpcalc_error option) option" where
  "FingerprintFile F run unmarshal path duration =
     (let result = \<lparr> aff_Fingerprint = None, aff_Duration = 0 \<rparr> in
      case run (fpcalc_args path duration) of
        Inl stderr \<Rightarrow> Some (result, Some (FpcalcFailed stderr))
      | Inr stdout \<Rightarrow>
          (case unmarshal stdout of
             None \<Rightarrow> Some (result, Some InvalidJSON)
           | Some (d, text) \<Rightarrow>
               let result = result\<lparr> aff_Duration := fpcalc_duration F d \<rparr> in
               Option.bind (ParseFingerprintString text) (\<lambda>(fingerprint, err).
                 case err of
                   Some e \<Rightarrow> Some (result, Some (BadFingerprint e))
                 | None \<Rightarrow> Some (result\<lparr> aff_Fingerprint := Some fingerprint \<rparr>, None))))"

lemma sint_small: "0 \<le> k \<Longrightarrow> k < 2 ^ 63 \<Longrightarrow> sint (word_of_int k :: 64 word) = k"
  by (simp add: sint_sbintrunc' signed_take_bit_int_eq_self)

lemma fpcalc_duration_near:
  assumes "0 \<le> d" and "d \<le> 10 ^ 9"
  shows "\<bar>real_of_int (sint (fpcalc_duration real_floats d)) - d * 10 ^ 9\<bar> \<le> 500000"
proof -
  let ?m = "\<lfloor>1000 * d + 1 / 2\<rfloor>"
  have m: "0 \<le> ?m" "?m \<le> 10 ^ 12 + 1"
  proof -
    have "1000 * d + 1 / 2 < real_of_int (10 ^ 12 + 2)" using assms by simp
    then show "?m \<le> 10 ^ 12 + 1" by linarith
  qed (use assms in simp)
  have "fpcalc_duration real_floats d = word_of_int (?m * 1000000)"
    using m(1) by (simp add: fpcalc_duration_def real_floats_def of_rat_divide)
  also have "sint (word_of_int (?m * 1000000) :: 64 word) = ?m * 1000000"
  proof (rule sint_small)
    have "?m * 1000000 \<le> (10 ^ 12 + 1) * 1000000" using m(2) by (intro mult_right_mono) simp_all
    also have "\<dots> < (2 ^ 63 :: int)" by simp
    finally show "?m * 1000000 < 2 ^ 63" .
  qed (use m(1) in simp)
  finally have "sint (fpcalc_duration real_floats d) = ?m * 1000000" .
  then have "real_of_int (sint (fpcalc_duration real_floats d)) = real_of_int ?m * 1000000" by simp
  moreover have "\<bar>r * 1000000 - d * 10 ^ 9\<bar> \<le> 500000" if "r \<le> 1000 * d + 1 / 2" "1000 * d + 1 / 2 < r + 1" for r
    using that by (simp add: abs_le_iff)
  ultimately show ?thesis by simp
qed

text \<open>
  C37. What \<open>fpcalc\<close> prints is what the program gets: when it prints the compressed form of a
  non-empty fingerprint of fewer than \<open>2^24\<close> hashes and a duration of up to thirty years, the
  result is the fingerprint, with the low byte of its version, and the duration up to half a
  millisecond. Whatever it prints, there is a result, and no fingerprint with an error.
\<close>

theorem FingerprintFile_reads:
  assumes "Hashes fp \<noteq> []" and "length (Hashes fp) < 2 ^ 24" and "0 \<le> d" and "d \<le> 10 ^ 9"
    and "run (fpcalc_args path n) = Inr stdout"
    and "unmarshal stdout = Some (d, EncodeFingerprintToString (compressed fp))"
  shows "CompressFingerprint fp = Some (compressed fp) \<and>
    (\<exists>result. FingerprintFile real_floats run unmarshal path n = Some (result, None) \<and>
      aff_Fingerprint result = Some \<lparr> Version = Version fp AND 255, Hashes = Hashes fp \<rparr> \<and>
      \<bar>real_of_int (sint (aff_Duration result)) - d * 10 ^ 9\<bar> \<le> 500000) \<and>
    (\<exists>result err. FingerprintFile F run' unmarshal' path' n' = Some (result, err) \<and>
      (err = None \<longleftrightarrow> aff_Fingerprint result \<noteq> None))"
proof (intro conjI)
  show "CompressFingerprint fp = Some (compressed fp)" using assms(1,2) by (simp add: CompressFingerprint_eq)
  show "\<exists>result. FingerprintFile real_floats run unmarshal path n = Some (result, None) \<and>
      aff_Fingerprint result = Some \<lparr> Version = Version fp AND 255, Hashes = Hashes fp \<rparr> \<and>
      \<bar>real_of_int (sint (aff_Duration result)) - d * 10 ^ 9\<bar> \<le> 500000"
    using assms(5,6) ParseFingerprintString_compressed [OF assms(1,2)] fpcalc_duration_near [OF assms(3,4)]
    by (simp add: FingerprintFile_def Let_def)
  show "\<exists>result err. FingerprintFile F run' unmarshal' path' n' = Some (result, err) \<and>
      (err = None \<longleftrightarrow> aff_Fingerprint result \<noteq> None)"
  proof (cases "run' (fpcalc_args path' n')")
    case (Inr out)
    show ?thesis
    proof (cases "unmarshal' out")
      case (Some p)
      obtain x str where p: "p = (x, str)" by (cases p)
      obtain fp' err where "ParseFingerprintString str = Some (fp', err)" using ParseFingerprintString_returns by blast
      with Inr Some p show ?thesis by (cases err) (simp_all add: FingerprintFile_def Let_def)
    qed (simp add: FingerprintFile_def Inr)
  qed (simp add: FingerprintFile_def)
qed

theorem FingerprintFile_reads_witness:
  "\<exists>result. FingerprintFile real_floats (\<lambda>_. Inr []) (\<lambda>_. Some (2, EncodeFingerprintToString (compressed \<lparr> Version = 1, Hashes = [5, 6] \<rparr>))) ''a.mp3'' 120 =
     Some (result, None) \<and> aff_Fingerprint result = Some \<lparr> Version = 1, Hashes = [5, 6] \<rparr>"
  using FingerprintFile_reads [THEN conjunct2, THEN conjunct1, of "\<lparr> Version = 1, Hashes = [5, 6] \<rparr>" 2 "\<lambda>_. Inr []" "''a.mp3''" 120 "[]"
      "\<lambda>_. Some (2, EncodeFingerprintToString (compressed \<lparr> Version = 1, Hashes = [5, 6] \<rparr>))"]
  by auto

end
